(* ===== verification/Prelude.thy ===== *)
theory Prelude
  imports Main "HOL-Library.Word" "HOL-Library.Monad_Syntax" "HOL-Library.Multiset"
begin

text \<open>
  Shared vocabulary of the development: pointers and loops of the C++ code as
  option-valued functions, the fact collections the component theories add to,
  and the generic lemmas on lists, options and words that several components
  use.

  Throughout the development an option-valued operation returns \<open>None\<close> exactly
  where the C++ code has no defined result: a null or dangling pointer is
  dereferenced, an \<open>assert\<close> fails, an array is indexed out of its bounds, or a
  loop never ends.  A theorem that concludes \<open>\<exists>r. op s = Some r\<close> is therefore a
  memory-safety and termination statement.
\<close>

section \<open>Collections\<close>

named_theorems ptr_simps \<open>evaluation rules of pointer operations\<close>
named_theorems frame_simps \<open>what an update leaves unchanged\<close>
named_theorems size_simps \<open>byte sizes of encoded objects\<close>

section \<open>Pointers and loops\<close>

type_synonym addr = nat
type_synonym byte = "8 word"
type_synonym bytes = "8 word list"

text \<open>A counted \<open>for\<close> loop whose body may fail: \<open>foldM body [0..<n] s\<close>.\<close>

primrec foldM :: "('a \<Rightarrow> 's \<Rightarrow> 's option) \<Rightarrow> 'a list \<Rightarrow> 's \<Rightarrow> 's option" where
  "foldM f [] s = Some s"
| "foldM f (x # xs) s = Option.bind (f x s) (foldM f xs)"

text \<open>
  \<open>while (node != NULL) { body; }\<close> where the body computes the next pointer and the
  new state.  Not returning is \<open>None\<close>.
\<close>

partial_function (option) walk ::
    "('s \<Rightarrow> addr option \<Rightarrow> (addr option \<times> 's) option) \<Rightarrow> 's \<Rightarrow> addr option \<Rightarrow> 's option" where
  "walk body st node =
     (if node = None then Some st
      else Option.bind (body st node) (\<lambda>(next, st'). walk body st' next))"

text \<open>
  A \<open>for\<close> loop whose body may return from the function: the flag says whether the loop goes on.
\<close>

primrec each :: "('a \<Rightarrow> 's \<Rightarrow> (bool \<times> 's) option) \<Rightarrow> 'a list \<Rightarrow> 's \<Rightarrow> (bool \<times> 's) option" where
  "each f [] s = Some (True, s)"
| "each f (x # xs) s = Option.bind (f x s) (\<lambda>(go, s'). if go then each f xs s' else Some (False, s'))"

definition assert_that :: "bool \<Rightarrow> unit option" where
  "assert_that b = (if b then Some () else None)"

lemma assert_that_simps [simp]:
  "assert_that True = Some ()" "assert_that False = None"
  "assert_that b = Some u \<longleftrightarrow> b" "assert_that b = None \<longleftrightarrow> \<not> b"
  by (auto simp: assert_that_def)

lemma foldM_append [simp]:
  "foldM f (xs @ ys) s = Option.bind (foldM f xs s) (foldM f ys)"
  by (induction xs arbitrary: s) (auto simp: bind_eq_Some_conv split: Option.bind_split)

text \<open>The proof rule of a counted loop: an invariant indexed by the counter.\<close>

lemma foldM_upt_rule:
  assumes "I m s" and "m \<le> n"
    and step: "\<And>i s. m \<le> i \<Longrightarrow> i < n \<Longrightarrow> I i s \<Longrightarrow> \<exists>s'. f i s = Some s' \<and> I (Suc i) s'"
  shows "\<exists>s'. foldM f [m..<n] s = Some s' \<and> I n s'"
  using assms(2)
proof (induction n rule: dec_induct)
  case base
  then show ?case using assms(1) by simp
next
  case (step k)
  then obtain s1 where s1: "foldM f [m..<k] s = Some s1" "I k s1" by blast
  obtain s2 where "f k s1 = Some s2" "I (Suc k) s2"
    using assms(3)[of k s1] step s1 by auto
  then show ?case using s1 step by simp
qed

text \<open>The same rules for loops over a list, with an invariant indexed by the number of elements done.\<close>

lemma foldM_list_rule:
  assumes "I 0 s"
    and "\<And>i s. i < length xs \<Longrightarrow> I i s \<Longrightarrow> \<exists>s'. f (xs ! i) s = Some s' \<and> I (Suc i) s'"
  shows "\<exists>s'. foldM f xs s = Some s' \<and> I (length xs) s'"
  using assms
proof (induction xs arbitrary: s I)
  case (Cons x xs)
  obtain s1 where s1: "f x s = Some s1" "I (Suc 0) s1" using Cons.prems(2)[of 0 s] Cons.prems(1) by auto
  have "\<exists>s'. foldM f xs s1 = Some s' \<and> I (Suc (length xs)) s'"
    using s1(2) Cons.prems(2)[of "Suc i" for i] by (intro Cons.IH[of "\<lambda>i. I (Suc i)"]) auto
  then show ?case using s1(1) by simp
qed auto

lemma each_rule:
  assumes "I 0 s"
    and "\<And>i s. i < length xs \<Longrightarrow> I i s \<Longrightarrow> \<exists>go s'. f (xs ! i) s = Some (go, s') \<and> (go \<longrightarrow> I (Suc i) s')"
  shows "\<exists>go s'. each f xs s = Some (go, s') \<and> (go \<longrightarrow> I (length xs) s')"
  using assms
proof (induction xs arbitrary: s I)
  case (Cons x xs)
  obtain go s1 where s1: "f x s = Some (go, s1)" "go \<longrightarrow> I (Suc 0) s1" using Cons.prems(2)[of 0 s] Cons.prems(1) by auto
  show ?case
  proof (cases go)
    case True
    then have "\<exists>go s'. each f xs s1 = Some (go, s') \<and> (go \<longrightarrow> I (Suc (length xs)) s')"
      using s1(2) Cons.prems(2)[of "Suc i" for i] by (intro Cons.IH[of "\<lambda>i. I (Suc i)"]) auto
    then show ?thesis using s1(1) True by simp
  qed (use s1 in auto)
qed auto

lemma foldM_cong:
  assumes "\<And>x s. x \<in> set xs \<Longrightarrow> f x s = g x s"
  shows "foldM f xs s = foldM g xs s"
  using assms
proof (induction xs arbitrary: s)
  case Nil
  then show ?case by simp
next
  case (Cons x xs)
  have "foldM f xs = foldM g xs"
    using Cons.IH Cons.prems by (intro ext) auto
  then show ?case using Cons.prems by simp
qed

section \<open>Lists sorted by a preorder\<close>

lemma sorted_wrt_filter_split:
  assumes "sorted_wrt le xs"
    and "\<And>a b. le a b \<Longrightarrow> P b \<Longrightarrow> P a"
  shows "filter P xs @ filter (\<lambda>a. \<not> P a) xs = xs"
  using assms(1)
proof (induction xs)
  case Nil
  then show ?case by simp
next
  case (Cons x xs)
  show ?case
  proof (cases "P x")
    case True
    then show ?thesis using Cons by simp
  next
    case False
    then have "\<forall>b\<in>set xs. \<not> P b" using Cons.prems assms(2) by auto
    then show ?thesis using False by (simp add: filter_id_conv)
  qed
qed

lemma sorted_wrt_filter_insert:
  assumes "sorted_wrt le xs"
    and "\<And>a. a \<in> set xs \<Longrightarrow> P a \<Longrightarrow> le a y" and "\<And>a. a \<in> set xs \<Longrightarrow> \<not> P a \<Longrightarrow> le y a"
    and "\<And>a b. a \<in> set xs \<Longrightarrow> b \<in> set xs \<Longrightarrow> P a \<Longrightarrow> \<not> P b \<Longrightarrow> le a b"
  shows "sorted_wrt le (filter P xs @ y # filter (\<lambda>a. \<not> P a) xs)"
  using assms by (auto simp: sorted_wrt_append sorted_wrt_filter)

lemma distinct_filter_insert:
  assumes "distinct xs" "y \<notin> set xs"
  shows "distinct (filter P xs @ y # filter (\<lambda>a. \<not> P a) xs)"
  using assms by auto

lemma find_append: "find P (xs @ ys) = (case find P xs of None \<Rightarrow> find P ys | Some x \<Rightarrow> Some x)"
  by (induction xs) auto

lemma mset_concat_cong:
  assumes "mset xs = mset ys"
  shows "mset (concat (map f xs)) = mset (concat (map f ys))"
proof -
  have "mset (concat (map f zs)) = \<Sum>\<^sub># (image_mset (\<lambda>x. mset (f x)) (mset zs))" for zs
    by (induction zs) auto
  then show ?thesis using assms by simp
qed

lemma distinct_concat_cong:
  assumes "mset xs = mset ys"
  shows "distinct (concat (map f xs)) = distinct (concat (map f ys))"
    "set (concat (map f xs)) = set (concat (map f ys))"
  using mset_concat_cong[OF assms, of f] mset_eq_imp_distinct_iff mset_eq_setD by blast+

lemma concat_disjoint:
  "distinct (concat (map f xs)) \<Longrightarrow> a \<in> set xs \<Longrightarrow> b \<in> set xs \<Longrightarrow> a \<noteq> b \<Longrightarrow> set (f a) \<inter> set (f b) = {}"
  by (induction xs) auto

end
