(* ===== verification/Rand.thy ===== *)
theory Rand
  imports Prelude
begin

text \<open>
  The pseudo random generator of \<open>src/base/random.h\<close> (class \<open>Random\<close>).  The state is
  the 32-bit seed; \<open>Next\<close> is the source's two-step reduction of the 64-bit product,
  and is shown to be multiplication by 16807 modulo the Mersenne prime
  \<open>2 ^ 31 - 1\<close>, which keeps the seed away from the two values on which the
  generator would be stuck.
\<close>

unbundle bit_operations_syntax

section \<open>The generator\<close>

type_synonym random = "32 word"

definition Random :: "32 word \<Rightarrow> random" where
  "Random s = (let seed = s AND 0x7fffffff in
     if seed = 0 \<or> seed = 2147483647 then 1 else seed)"

definition Next :: "random \<Rightarrow> 32 word \<times> random" where
  "Next seed =
    (let M = 2147483647 :: 64 word;
         product = (ucast seed :: 64 word) * 16807;
         seed1 = (ucast (drop_bit 31 product + (product AND M)) :: 32 word);
         seed2 = (if seed1 > 2147483647 then seed1 - 2147483647 else seed1)
     in (seed2, seed2))"

definition Uniform :: "random \<Rightarrow> 32 word \<Rightarrow> 32 word \<times> random" where
  "Uniform seed n = (let (r, seed') = Next seed in (r mod n, seed'))"

definition OneIn :: "random \<Rightarrow> 32 word \<Rightarrow> bool \<times> random" where
  "OneIn seed n = (let (r, seed') = Next seed in (r mod n = 0, seed'))"

text \<open>The seeds the generator can be in.\<close>

definition good_seed :: "random \<Rightarrow> bool" where
  "good_seed s \<longleftrightarrow> 0 < unat s \<and> unat s < 2147483647"

section \<open>Correctness\<close>

lemma and_mask31: "(x :: 'a :: len word) AND 2147483647 = take_bit 31 x"
  by (simp add: take_bit_eq_mask mask_eq_exp_minus_1)

lemma Random_good: "good_seed (Random s)"
proof -
  let ?x = "s AND 2147483647"
  have "unat ?x < 2 ^ 31"
    by (simp only: and_mask31 unsigned_take_bit_eq take_bit_nat_less_exp)
  then have le: "unat ?x \<le> 2147483647" by simp
  show ?thesis
  proof (cases "?x = 0 \<or> ?x = 2147483647")
    case True
    then show ?thesis by (simp add: Random_def good_seed_def Let_def)
  next
    case False
    then have "unat ?x \<noteq> unat (0 :: 32 word)" "unat ?x \<noteq> unat (2147483647 :: 32 word)"
      unfolding word_unat_eq_iff by blast+
    then show ?thesis using False le
      by (simp add: Random_def good_seed_def Let_def)
  qed
qed

text \<open>Reduction modulo a Mersenne number by adding the high part to the low part.\<close>

lemma mersenne_fold:
  fixes p h l :: nat
  assumes "p = h * 2147483648 + l" "0 < p mod 2147483647" "h + l < 2 * 2147483647"
  shows "(if h + l > 2147483647 then h + l - 2147483647 else h + l) = p mod 2147483647"
proof -
  have "p = h + l + h * 2147483647" using assms(1) by simp
  then have eq: "p mod 2147483647 = (h + l) mod 2147483647"
    by (simp only: mod_mult_self1)
  have ne: "h + l \<noteq> 2147483647"
  proof
    assume "h + l = 2147483647"
    then have "p mod 2147483647 = 0" unfolding eq by simp
    then show False using assms(2) by simp
  qed
  show ?thesis
  proof (cases "h + l > 2147483647")
    case True
    then have "(h + l) mod 2147483647 = h + l - 2147483647"
      using assms(3) by (simp add: le_mod_geq)
    then show ?thesis using True eq by simp
  next
    case False
    then show ?thesis using ne eq by simp
  qed
qed

text \<open>The 64-bit arithmetic of \<open>Next\<close> does not overflow.\<close>

lemma unat_product:
  "unat ((ucast (seed :: 32 word) :: 64 word) * 16807) = unat seed * 16807"
proof -
  have "unat seed < 4294967296" using unsigned_less[of seed] by simp
  moreover have "unat (ucast seed :: 64 word) = unat seed"
    using calculation by (simp add: unsigned_ucast_eq take_bit_nat_eq_self)
  ultimately show ?thesis
    using unat_mult_lem[of "ucast seed :: 64 word" 16807] by simp
qed

lemma Next_value:
  assumes "good_seed seed"
  shows "unat (fst (Next seed)) = unat seed * 16807 mod 2147483647"
    and "0 < unat seed * 16807 mod 2147483647"
proof -
  define p where "p = (ucast seed :: 64 word) * 16807"
  define q where "q = drop_bit 31 p + (p AND 2147483647)"
  let ?n = "unat seed * 16807"
  let ?h = "?n div 2147483648" and ?l = "?n mod 2147483648"
  have n: "unat p = ?n" unfolding p_def by (rule unat_product)
  have s: "0 < unat seed" "unat seed < 2147483647" using assms by (auto simp: good_seed_def)
  have hl: "?h < 16807" "?l < 2147483648" using s by auto
  have uh: "unat (drop_bit 31 p) = ?h"
    using unat_drop_bit_eq[of 31 p] by (simp only: n drop_bit_eq_div) simp
  have ul: "unat (p AND 2147483647) = ?l"
    using unsigned_take_bit_eq[of 31 p, where 'a=nat]
    by (simp only: and_mask31 n take_bit_eq_mod) simp
  have "unat q = ?h + ?l"
    using hl unfolding q_def by (simp add: unat_plus_if' uh ul)
  then have u1: "unat (ucast q :: 32 word) = ?h + ?l"
    using hl by (simp add: unsigned_ucast_eq take_bit_nat_eq_self)
  have "coprime (2147483647 :: nat) 16807" by (simp add: coprime_iff_gcd_eq_1 gcd_non_0_nat)
  then have "\<not> 2147483647 dvd ?n"
    using s nat_dvd_not_less by (simp add: coprime_dvd_mult_left_iff)
  then show pos: "0 < ?n mod 2147483647" by (simp add: dvd_eq_mod_eq_0)
  let ?s1 = "ucast q :: 32 word"
  have "fst (Next seed) = (if ?s1 > 2147483647 then ?s1 - 2147483647 else ?s1)"
    by (simp add: Next_def Let_def p_def q_def)
  then have "unat (fst (Next seed))
      = (if ?h + ?l > 2147483647 then ?h + ?l - 2147483647 else ?h + ?l)"
    by (simp add: word_less_nat_alt unat_sub word_le_nat_alt u1)
  then show "unat (fst (Next seed)) = ?n mod 2147483647"
    using mersenne_fold[of ?n ?h ?l] pos hl by simp
qed

lemma snd_Next [simp]: "snd (Next seed) = fst (Next seed)"
  by (simp add: Next_def Let_def)

lemma Next_good: "good_seed seed \<Longrightarrow> good_seed (snd (Next seed))"
  using Next_value[of seed] by (simp add: good_seed_def)

end
