(* ===== verification/Comparator.thy ===== *)
theory Comparator
  imports Prelude
begin

text \<open>
  The comparators the skip lists of the storage engine are instantiated with, and
  the contract a skip list needs of a comparator: \<open>cmp a b\<close> is an \<open>int\<close> whose sign is
  the three-way comparison of a total order.

  \<open>DefaultComparator\<close> is \<open>src/base/skiplist.h\<close>, \<open>TimeComparator\<close> and \<open>SliceComparator\<close>
  are \<open>src/storage/segment.h\<close>, and the latter calls \<open>Slice::compare\<close> of
  \<open>src/base/slice.h\<close>.  A slice is modelled by the bytes it refers to.
\<close>

section \<open>The comparators of the code\<close>

definition DefaultComparator :: "64 word \<Rightarrow> 64 word \<Rightarrow> int" where
  "DefaultComparator a b = (if a > b then -1 else if a = b then 0 else 1)"

definition TimeComparator :: "64 word \<Rightarrow> 64 word \<Rightarrow> int" where
  "TimeComparator a b = (if a > b then -1 else if a = b then 0 else 1)"

text \<open>\<open>memcmp\<close> of the C library on the first \<open>n\<close> bytes: the sign of the first difference.\<close>

fun memcmp :: "bytes \<Rightarrow> bytes \<Rightarrow> nat \<Rightarrow> int" where
  "memcmp (x # xs) (y # ys) (Suc n) =
     (if x < y then -1 else if x > y then 1 else memcmp xs ys n)"
| "memcmp _ _ _ = 0"

definition Slice_compare :: "bytes \<Rightarrow> bytes \<Rightarrow> int" where
  "Slice_compare a b =
    (let min_len = min (length a) (length b); r = memcmp a b min_len in
     if r = 0 then (if length a < length b then -1 else if length a > length b then 1 else r)
     else r)"

definition SliceComparator :: "bytes \<Rightarrow> bytes \<Rightarrow> int" where
  "SliceComparator a b = Slice_compare a b"

section \<open>The contract\<close>

locale comparator =
  fixes cmp :: "'k \<Rightarrow> 'k \<Rightarrow> int"
  assumes cmp_eq: "cmp a b = 0 \<longleftrightarrow> a = b"
    and cmp_gt: "cmp a b > 0 \<longleftrightarrow> cmp b a < 0"
    and cmp_trans: "cmp a b < 0 \<Longrightarrow> cmp b c < 0 \<Longrightarrow> cmp a c < 0"
begin

lemma cmp_refl [simp]: "cmp a a = 0"
  by (simp add: cmp_eq)

lemma cmp_le_trans: "cmp a b \<le> 0 \<Longrightarrow> cmp b c \<le> 0 \<Longrightarrow> cmp a c \<le> 0"
  by (metis cmp_eq cmp_trans less_le_not_le linorder_not_le order_le_less)

lemma cmp_ge: "cmp a b \<ge> 0 \<longleftrightarrow> cmp b a \<le> 0"
  by (metis cmp_gt linorder_not_le)

lemma cmp_total: "cmp a b \<le> 0 \<or> cmp b a \<le> 0"
  using cmp_ge by (metis linorder_linear)

lemma gt_downward: "cmp a b \<le> 0 \<Longrightarrow> cmp k b > 0 \<Longrightarrow> cmp k a > 0"
  by (metis cmp_ge cmp_le_trans linorder_not_le)

lemma le_downward: "cmp a b \<le> 0 \<Longrightarrow> cmp b k \<le> 0 \<Longrightarrow> cmp a k \<le> 0"
  by (rule cmp_le_trans)

end

section \<open>The code's comparators meet it\<close>

lemma memcmp_append: "memcmp xs ys (min (length xs) (length ys)) = 0 \<longleftrightarrow>
   take (min (length xs) (length ys)) xs = take (min (length xs) (length ys)) ys"
  by (induction xs ys "min (length xs) (length ys)" rule: memcmp.induct) auto

text \<open>\<open>Slice::compare\<close> by recursion on both slices.\<close>

lemma Slice_compare_rec:
  "Slice_compare [] [] = 0"
  "Slice_compare [] (y # ys) = -1"
  "Slice_compare (x # xs) [] = 1"
  "Slice_compare (x # xs) (y # ys) =
     (if x < y then -1 else if x > y then 1 else Slice_compare xs ys)"
  by (auto simp: Slice_compare_def Let_def)

lemma Slice_compare_gt: "Slice_compare a b > 0 \<longleftrightarrow> Slice_compare b a < 0"
  by (induction a b rule: list_induct2') (auto simp: Slice_compare_rec)

lemma Slice_compare_eq: "Slice_compare a b = 0 \<longleftrightarrow> a = b"
  by (induction a b rule: list_induct2') (auto simp: Slice_compare_rec)

lemma Slice_compare_trans:
  "Slice_compare a b < 0 \<Longrightarrow> Slice_compare b c < 0 \<Longrightarrow> Slice_compare a c < 0"
proof (induction a arbitrary: b c)
  case Nil
  then show ?case by (cases b; cases c) (auto simp: Slice_compare_rec)
next
  case (Cons x xs)
  then show ?case
    by (cases b; cases c) (auto simp: Slice_compare_rec split: if_splits)
qed

interpretation default_cmp: comparator DefaultComparator
  by unfold_locales (auto simp: DefaultComparator_def split: if_splits)

interpretation time_cmp: comparator TimeComparator
  by unfold_locales (auto simp: TimeComparator_def split: if_splits)

interpretation slice_cmp: comparator SliceComparator
  by unfold_locales
    (auto simp: SliceComparator_def Slice_compare_eq Slice_compare_gt
      intro: Slice_compare_trans)

end
