(* ===== verification/Skiplist.thy ===== *)
theory Skiplist
  imports Rand Comparator
begin

text \<open>
  The skip list of \<open>src/base/skiplist.h\<close>, at the level of its linked nodes.

  A list owns a heap of nodes; a pointer is an address or \<open>None\<close> (NULL).  A node has
  its key, value, height and its array of next pointers.  Every operation of the
  class is a function on the list's state; it returns \<open>None\<close> if it would dereference
  NULL or a deleted node, index \<open>nexts_\<close> or the \<open>pre\<close> array out of bounds, fail an
  assertion, or loop forever.  \<open>uint8_t\<close> heights and \<open>uint64_t\<close> positions are natural
  numbers: the former are bounded by \<open>MaxHeight\<close>, the latter by the length of a list
  in memory.

  The representation invariant and the proofs are in the theory \<open>Skiplist_Inv\<close> and
  the theories that import it.
\<close>

section \<open>Nodes\<close>

record ('k, 'v) node =
  nheight :: nat
  nkey :: 'k
  nvalue :: 'v
  nexts :: "addr option list"

type_synonym ('k, 'v) heap = "addr \<Rightarrow> ('k, 'v) node option"

definition new_node :: "'k \<Rightarrow> 'v \<Rightarrow> nat \<Rightarrow> ('k, 'v) node" where
  "new_node key value height =
     \<lparr>nheight = height, nkey = key, nvalue = value, nexts = replicate height None\<rparr>"

definition deref :: "('k, 'v) heap \<Rightarrow> addr option \<Rightarrow> ('k, 'v) node option" where
  "deref h p = Option.bind p h"

definition GetNext :: "('k, 'v) heap \<Rightarrow> addr option \<Rightarrow> nat \<Rightarrow> addr option option" where
  "GetNext h p level = do {
     n \<leftarrow> deref h p;
     if level < nheight n \<and> level < length (nexts n) then Some (nexts n ! level) else None }"

definition SetNext :: "('k, 'v) heap \<Rightarrow> addr option \<Rightarrow> nat \<Rightarrow> addr option \<Rightarrow> ('k, 'v) heap option" where
  "SetNext h p level q = do {
     a \<leftarrow> p; n \<leftarrow> h a;
     if level < nheight n \<and> level < length (nexts n)
     then Some (h(a \<mapsto> n\<lparr>nexts := (nexts n)[level := q]\<rparr>)) else None }"

definition Height :: "('k, 'v) heap \<Rightarrow> addr option \<Rightarrow> nat option" where
  "Height h p = map_option nheight (deref h p)"

definition GetKey :: "('k, 'v) heap \<Rightarrow> addr option \<Rightarrow> 'k option" where
  "GetKey h p = map_option nkey (deref h p)"

definition GetValue :: "('k, 'v) heap \<Rightarrow> addr option \<Rightarrow> 'v option" where
  "GetValue h p = map_option nvalue (deref h p)"

definition delete_node :: "('k, 'v) heap \<Rightarrow> addr option \<Rightarrow> ('k, 'v) heap option" where
  "delete_node h p = do { a \<leftarrow> p; n \<leftarrow> h a; Some (h(a := None)) }"

section \<open>The list\<close>

record ('k, 'v) skiplist =
  MaxHeight :: nat
  Branch :: nat
  max_height :: nat
  compare :: "'k \<Rightarrow> 'k \<Rightarrow> int"
  rand :: random
  head :: addr
  tail :: "addr option"
  heap :: "('k, 'v) heap"
  next_addr :: addr

text \<open>
  The constructor.  The sentinel's key and value are the value-initialised \<open>K()\<close> and
  \<open>V()\<close>; they are parameters, as \<open>K\<close> and \<open>V\<close> are template parameters.  \<open>next_addr\<close> is the
  allocator: every address from it on is free.
\<close>

definition new_skiplist ::
    "nat \<Rightarrow> nat \<Rightarrow> ('k \<Rightarrow> 'k \<Rightarrow> int) \<Rightarrow> 'k \<Rightarrow> 'v \<Rightarrow> ('k, 'v) skiplist" where
  "new_skiplist max_h branch cmp k0 v0 =
     \<lparr>MaxHeight = max_h, Branch = branch, max_height = 1, compare = cmp,
      rand = Random 0xdeadbeef, head = 0, tail = None,
      heap = [0 \<mapsto> new_node k0 v0 max_h], next_addr = 1\<rparr>"

definition NewNode :: "('k, 'v) skiplist \<Rightarrow> 'k \<Rightarrow> 'v \<Rightarrow> nat \<Rightarrow> addr \<times> ('k, 'v) skiplist" where
  "NewNode sl key value height =
     (next_addr sl, sl\<lparr>heap := (heap sl)(next_addr sl \<mapsto> new_node key value height),
                       next_addr := Suc (next_addr sl)\<rparr>)"

text \<open>\<open>rand_.Next() % Branch\<close> divides by zero, which is undefined, when \<open>Branch\<close> is 0.\<close>

function RandomHeight_loop :: "nat \<Rightarrow> nat \<Rightarrow> random \<Rightarrow> nat \<Rightarrow> (nat \<times> random) option" where
  "RandomHeight_loop maxh branch r height =
     (if height < maxh then
        (if branch = 0 then None
         else let (x, r') = Next r in
           if unat x mod branch = 0 then RandomHeight_loop maxh branch r' (Suc height)
           else Some (height, r'))
      else Some (height, r))"
  by pat_completeness auto
termination
  by (relation "measure (\<lambda>(maxh, _, _, height). maxh - height)") auto

declare RandomHeight_loop.simps [simp del]

definition RandomHeight :: "('k, 'v) skiplist \<Rightarrow> (nat \<times> ('k, 'v) skiplist) option" where
  "RandomHeight sl =
     map_option (\<lambda>(height, r). (height, sl\<lparr>rand := r\<rparr>))
       (RandomHeight_loop (MaxHeight sl) (Branch sl) (rand sl) 1)"

section \<open>The three searches\<close>

definition IsAfterNode :: "('k, 'v) skiplist \<Rightarrow> 'k \<Rightarrow> addr option \<Rightarrow> bool option" where
  "IsAfterNode sl key node =
     (if node = None then Some False
      else map_option (\<lambda>k. compare sl key k > 0) (GetKey (heap sl) node))"

text \<open>
  The three \<open>while (true)\<close> searches have the same body up to the test that decides
  whether to move on to \<open>next\<close>.  \<open>find_loop\<close> is that body with the test as a
  parameter; it also records in \<open>nodes\<close> where each level was left, which
  \<open>FindLessOrEqual\<close> reports to its caller and the other two do not.
\<close>

partial_function (option) find_loop ::
    "(addr option \<Rightarrow> addr option \<Rightarrow> bool option) \<Rightarrow> ('k, 'v) heap \<Rightarrow> addr option \<Rightarrow> nat \<Rightarrow>
     addr option list \<Rightarrow> (addr option \<times> addr option list) option" where
  "find_loop adv h node level nodes = do {
     next \<leftarrow> GetNext h node level;
     b \<leftarrow> adv node next;
     if b then find_loop adv h next level nodes
     else if level = 0 then Some (node, nodes[level := node])
     else find_loop adv h node (level - 1) (nodes[level := node]) }"

definition FindLessOrEqual ::
    "('k, 'v) skiplist \<Rightarrow> 'k \<Rightarrow> addr option list \<Rightarrow> (addr option \<times> addr option list) option" where
  "FindLessOrEqual sl key nodes =
     find_loop (\<lambda>node next. IsAfterNode sl key next)
       (heap sl) (Some (head sl)) (max_height sl - 1) nodes"

definition FindEqual :: "('k, 'v) skiplist \<Rightarrow> 'k \<Rightarrow> addr option option" where
  "FindEqual sl key =
     map_option fst (find_loop
       (\<lambda>node next. if next = None then Some False
          else map_option (\<lambda>k. \<not> compare sl k key > 0) (GetKey (heap sl) next))
       (heap sl) (Some (head sl)) (max_height sl - 1) [])"

definition FindLessThan :: "('k, 'v) skiplist \<Rightarrow> 'k \<Rightarrow> addr option option" where
  "FindLessThan sl key =
     map_option fst (find_loop
       (\<lambda>node next. do {
          ok \<leftarrow> (if node = Some (head sl) then Some True
                 else map_option (\<lambda>k. compare sl k key < 0) (GetKey (heap sl) node));
          assert_that ok;
          if next = None then Some False
          else map_option (\<lambda>k. \<not> compare sl k key \<ge> 0) (GetKey (heap sl) next) })
       (heap sl) (Some (head sl)) (max_height sl - 1) [])"

section \<open>Updates\<close>

definition arr_get :: "'a list \<Rightarrow> nat \<Rightarrow> 'a option" where
  "arr_get xs i = (if i < length xs then Some (xs ! i) else None)"

text \<open>The loop that splices a node in after \<open>pre[i]\<close> on every level below its height.\<close>

definition link_node :: "addr option list \<Rightarrow> addr \<Rightarrow> nat \<Rightarrow> ('k, 'v) heap \<Rightarrow> ('k, 'v) heap option" where
  "link_node pre node height h =
     foldM (\<lambda>i h. do {
       p \<leftarrow> arr_get pre i;
       q \<leftarrow> GetNext h p i;
       h \<leftarrow> SetNext h (Some node) i q;
       SetNext h p i (Some node) }) [0..<height] h"

text \<open>\<open>for (i = from; i < to; i++) pre[i] = p\<close>.\<close>

definition fill_pre :: "addr option list \<Rightarrow> nat \<Rightarrow> nat \<Rightarrow> addr option \<Rightarrow> addr option list" where
  "fill_pre pre from to p = foldl (\<lambda>pre i. pre[i := p]) pre [from..<to]"

definition Insert ::
    "('k, 'v) skiplist \<Rightarrow> 'k \<Rightarrow> 'v \<Rightarrow> (nat \<times> ('k, 'v) skiplist) option" where
  "Insert sl0 key value = do {
     (height, sl1) \<leftarrow> RandomHeight sl0;
     (target, pre0) \<leftarrow> FindLessOrEqual sl1 key (replicate (MaxHeight sl1) None);
     let grow = height > max_height sl1;
         pre = (if grow then fill_pre pre0 (max_height sl1) height (Some (head sl1)) else pre0);
         sl2 = (if grow then sl1\<lparr>max_height := height\<rparr> else sl1);
         (node, sl3) = NewNode sl2 key value height in
     do {
       p0 \<leftarrow> arr_get pre 0;
       next0 \<leftarrow> GetNext (heap sl3) p0 0;
       let sl4 = (if next0 = None then sl3\<lparr>tail := Some node\<rparr> else sl3) in
       do {
         h \<leftarrow> link_node pre node height (heap sl4);
         Some (height, sl4\<lparr>heap := h\<rparr>) } } }"

definition IsEmpty :: "('k, 'v) skiplist \<Rightarrow> bool option" where
  "IsEmpty sl = map_option (\<lambda>n. n = None) (GetNext (heap sl) (Some (head sl)) 0)"

definition unlink_node :: "addr option list \<Rightarrow> addr option \<Rightarrow> nat \<Rightarrow> ('k, 'v) heap \<Rightarrow> ('k, 'v) heap option" where
  "unlink_node pre result height h =
     foldM (\<lambda>i h. do {
       p \<leftarrow> arr_get pre i;
       q \<leftarrow> GetNext h result i;
       h \<leftarrow> SetNext h p i q;
       SetNext h result i None }) [0..<height] h"

definition Remove :: "('k, 'v) skiplist \<Rightarrow> 'k \<Rightarrow> (addr option \<times> ('k, 'v) skiplist) option" where
  "Remove sl key = do {
     (target, pre) \<leftarrow> FindLessOrEqual sl key (replicate (MaxHeight sl) (Some (head sl)));
     if target = None then Some (None, sl)
     else do {
       result \<leftarrow> GetNext (heap sl) target 0;
       if result = None then Some (None, sl)
       else do {
         k \<leftarrow> GetKey (heap sl) result;
         if compare sl k key \<noteq> 0 then Some (None, sl)
         else do {
           height \<leftarrow> Height (heap sl) result;
           h \<leftarrow> unlink_node pre result height (heap sl);
           p0 \<leftarrow> arr_get pre 0;
           let tl = (if result = tail sl then (if p0 = Some (head sl) then None else p0)
                     else tail sl) in
           Some (result, sl\<lparr>heap := h, tail := tl\<rparr>) } } } }"

definition Split :: "('k, 'v) skiplist \<Rightarrow> 'k \<Rightarrow> (addr option \<times> ('k, 'v) skiplist) option" where
  "Split sl key = do {
     (target, pre) \<leftarrow> FindLessOrEqual sl key (replicate (MaxHeight sl) None);
     if target = None then Some (None, sl)
     else do {
       result \<leftarrow> GetNext (heap sl) target 0;
       h \<leftarrow> foldM (\<lambda>i h. do {
              p \<leftarrow> arr_get pre i;
              if p = None then Some h else SetNext h p i None }) [0..<MaxHeight sl] (heap sl);
       Some (result, sl\<lparr>heap := h, tail := target\<rparr>) } }"

text \<open>
  \<open>SplitOnPosNode\<close>: the first argument of the loop is \<open>pos - cnt\<close> (with \<open>pos\<close> already
  incremented), so that it reaches 0 when \<open>cnt == pos\<close>.
\<close>

definition cut_levels :: "('k \<Rightarrow> 'k \<Rightarrow> int) \<Rightarrow> addr option \<Rightarrow> addr option \<Rightarrow> ('k, 'v) heap \<Rightarrow> ('k, 'v) heap option" where
  "cut_levels cmp pos_node node h0 = do {
     height \<leftarrow> Height h0 node;
     foldM (\<lambda>i h. do {
       next \<leftarrow> GetNext h node i;
       if next = None then Some h
       else do {
         pk \<leftarrow> GetKey h pos_node;
         nk \<leftarrow> GetKey h next;
         if cmp pk nk \<le> 0 then SetNext h node i None else Some h } }) [1..<height] h0 }"

definition clear_nexts :: "addr option \<Rightarrow> ('k, 'v) heap \<Rightarrow> ('k, 'v) heap option" where
  "clear_nexts node h0 = do {
     height \<leftarrow> Height h0 node;
     foldM (\<lambda>i h. SetNext h node i None) [0..<height] h0 }"

fun SplitOnPosNode_loop ::
    "nat \<Rightarrow> ('k, 'v) skiplist \<Rightarrow> addr option \<Rightarrow> addr option \<Rightarrow> addr option \<Rightarrow>
     (addr option \<times> ('k, 'v) skiplist) option" where
  "SplitOnPosNode_loop n sl pos_node node pre =
     (if node = None then Some (None, sl)
      else case n of
        0 \<Rightarrow> do {
          h \<leftarrow> clear_nexts pre (heap sl);
          Some (node, sl\<lparr>tail := pre, heap := h\<rparr>) }
      | Suc m \<Rightarrow> do {
          h \<leftarrow> cut_levels (compare sl) pos_node node (heap sl);
          next \<leftarrow> GetNext h node 0;
          SplitOnPosNode_loop m (sl\<lparr>heap := h\<rparr>) pos_node next node })"

declare SplitOnPosNode_loop.simps [simp del]

definition SplitOnPosNode ::
    "('k, 'v) skiplist \<Rightarrow> nat \<Rightarrow> addr option \<Rightarrow> (addr option \<times> ('k, 'v) skiplist) option" where
  "SplitOnPosNode sl pos pos_node =
     SplitOnPosNode_loop (Suc pos) sl pos_node (Some (head sl)) (Some (head sl))"

fun SplitByPos_loop :: "nat \<Rightarrow> ('k, 'v) heap \<Rightarrow> addr option \<Rightarrow> addr option option" where
  "SplitByPos_loop 0 h pos_node = Some pos_node"
| "SplitByPos_loop (Suc n) h pos_node =
     (if pos_node = None then Some None
      else Option.bind (GetNext h pos_node 0) (SplitByPos_loop n h))"

definition SplitByPos :: "('k, 'v) skiplist \<Rightarrow> nat \<Rightarrow> (addr option \<times> ('k, 'v) skiplist) option" where
  "SplitByPos sl pos = do {
     first \<leftarrow> GetNext (heap sl) (Some (head sl)) 0;
     pos_node \<leftarrow> SplitByPos_loop pos (heap sl) first;
     if pos_node = None then Some (None, sl) else SplitOnPosNode sl pos pos_node }"

text \<open>How the scan of \<open>SplitByKeyOrPos\<close> ends: off the list, at a key, or at the position.\<close>

datatype 'k scan_end = ScanNull | ScanKey 'k | ScanPos "addr option"

fun SplitByKeyOrPos_loop ::
    "nat \<Rightarrow> ('k, 'v) skiplist \<Rightarrow> 'k \<Rightarrow> addr option \<Rightarrow> 'k scan_end option" where
  "SplitByKeyOrPos_loop 0 sl key pos_node = Some (ScanPos pos_node)"
| "SplitByKeyOrPos_loop (Suc n) sl key pos_node =
     (if pos_node = None then Some ScanNull
      else do {
        k \<leftarrow> GetKey (heap sl) pos_node;
        if compare sl k key \<ge> 0 then Some (ScanKey k)
        else Option.bind (GetNext (heap sl) pos_node 0) (SplitByKeyOrPos_loop n sl key) })"

definition SplitByKeyOrPos ::
    "('k, 'v) skiplist \<Rightarrow> 'k \<Rightarrow> nat \<Rightarrow> (addr option \<times> ('k, 'v) skiplist) option" where
  "SplitByKeyOrPos sl key pos = do {
     first \<leftarrow> GetNext (heap sl) (Some (head sl)) 0;
     r \<leftarrow> SplitByKeyOrPos_loop pos sl key first;
     (case r of
        ScanNull \<Rightarrow> Some (None, sl)
      | ScanKey k \<Rightarrow> Split sl k
      | ScanPos pos_node \<Rightarrow>
          if pos_node = None then Some (None, sl) else SplitOnPosNode sl pos pos_node) }"

fun SplitByKeyAndPos_loop ::
    "nat \<Rightarrow> ('k, 'v) skiplist \<Rightarrow> 'k \<Rightarrow> bool \<Rightarrow> addr option \<Rightarrow> (bool \<times> addr option) option" where
  "SplitByKeyAndPos_loop 0 sl key find_key pos_node = Some (find_key, pos_node)"
| "SplitByKeyAndPos_loop (Suc n) sl key find_key pos_node =
     (if pos_node = None then Some (find_key, None)
      else do {
        k \<leftarrow> GetKey (heap sl) pos_node;
        next \<leftarrow> GetNext (heap sl) pos_node 0;
        SplitByKeyAndPos_loop n sl key (find_key \<or> compare sl k key \<ge> 0) next })"

definition SplitByKeyAndPos ::
    "('k, 'v) skiplist \<Rightarrow> 'k \<Rightarrow> nat \<Rightarrow> (addr option \<times> ('k, 'v) skiplist) option" where
  "SplitByKeyAndPos sl key pos = do {
     first \<leftarrow> GetNext (heap sl) (Some (head sl)) 0;
     (find_key, pos_node) \<leftarrow> SplitByKeyAndPos_loop pos sl key False first;
     if pos_node = None then Some (None, sl)
     else if find_key then SplitOnPosNode sl pos pos_node
     else Split sl key }"

section \<open>Reads\<close>

text \<open>
  \<open>Get(key)\<close> returns the value of whatever node the search ends at;
  \<open>Get(key, v)\<close> checks the key: \<open>Some None\<close> is its return code -1.
\<close>

definition Get_unchecked :: "('k, 'v) skiplist \<Rightarrow> 'k \<Rightarrow> 'v option" where
  "Get_unchecked sl key = do { node \<leftarrow> FindEqual sl key; GetValue (heap sl) node }"

definition Get :: "('k, 'v) skiplist \<Rightarrow> 'k \<Rightarrow> 'v option option" where
  "Get sl key = do {
     node \<leftarrow> FindEqual sl key;
     if node = None then Some None
     else do {
       k \<leftarrow> GetKey (heap sl) node;
       if compare sl k key = 0 then map_option Some (GetValue (heap sl) node)
       else Some None } }"

definition GetLast :: "('k, 'v) skiplist \<Rightarrow> addr option" where
  "GetLast sl = tail sl"

partial_function (option) GetSize_loop :: "('k, 'v) heap \<Rightarrow> addr option \<Rightarrow> 32 word \<Rightarrow> 32 word option" where
  "GetSize_loop h node cnt =
     (if node = None then Some cnt
      else Option.bind (GetNext h node 0) (\<lambda>tmp.
        if tmp = None then Some (cnt + 1) else GetSize_loop h tmp (cnt + 1)))"

definition GetSize :: "('k, 'v) skiplist \<Rightarrow> 32 word option" where
  "GetSize sl = do {
     node \<leftarrow> GetNext (heap sl) (Some (head sl)) 0;
     GetSize_loop (heap sl) node 0 }"

partial_function (option) Clear_loop ::
    "('k, 'v) heap \<Rightarrow> addr option \<Rightarrow> 64 word \<Rightarrow> (64 word \<times> ('k, 'v) heap) option" where
  "Clear_loop h node cnt =
     (if node = None then Some (cnt, h)
      else Option.bind (GetNext h node 0) (\<lambda>next.
        Option.bind (clear_nexts node h) (\<lambda>h1.
        Option.bind (delete_node h1 node) (\<lambda>h2. Clear_loop h2 next (cnt + 1)))))"

definition Clear :: "('k, 'v) skiplist \<Rightarrow> (64 word \<times> ('k, 'v) skiplist) option" where
  "Clear sl = do {
     node \<leftarrow> GetNext (heap sl) (Some (head sl)) 0;
     h \<leftarrow> clear_nexts (Some (head sl)) (heap sl);
     (cnt, h') \<leftarrow> Clear_loop h node 0;
     Some (cnt, sl\<lparr>heap := h', tail := None\<rparr>) }"

definition AddToFirst :: "('k, 'v) skiplist \<Rightarrow> 'k \<Rightarrow> 'v \<Rightarrow> (bool \<times> ('k, 'v) skiplist) option" where
  "AddToFirst sl0 key value = do {
     first \<leftarrow> GetNext (heap sl0) (Some (head sl0)) 0;
     after \<leftarrow> IsAfterNode sl0 key first;
     if after then Some (False, sl0)
     else do {
       (height, sl1) \<leftarrow> RandomHeight sl0;
       let pre = fill_pre (replicate (MaxHeight sl1) None) 0 height (Some (head sl1));
           sl2 = (if height > max_height sl1 then sl1\<lparr>max_height := height\<rparr> else sl1);
           (node, sl3) = NewNode sl2 key value height in
       do {
         p0 \<leftarrow> arr_get pre 0;
         next0 \<leftarrow> GetNext (heap sl3) p0 0;
         let sl4 = (if next0 = None then sl3\<lparr>tail := Some node\<rparr> else sl3) in
         do {
           h \<leftarrow> link_node pre node height (heap sl4);
           Some (True, sl4\<lparr>heap := h\<rparr>) } } } }"

section \<open>Iterators\<close>

text \<open>The state of an iterator is its \<open>node_\<close>; \<open>None\<close> is an iterator that is not valid.\<close>

definition it_Valid :: "addr option \<Rightarrow> bool" where
  "it_Valid node = (node \<noteq> None)"

definition it_Next :: "('k, 'v) skiplist \<Rightarrow> addr option \<Rightarrow> addr option option" where
  "it_Next sl node = do { assert_that (it_Valid node); GetNext (heap sl) node 0 }"

definition it_GetKey :: "('k, 'v) skiplist \<Rightarrow> addr option \<Rightarrow> 'k option" where
  "it_GetKey sl node = do { assert_that (it_Valid node); GetKey (heap sl) node }"

definition it_GetValue :: "('k, 'v) skiplist \<Rightarrow> addr option \<Rightarrow> 'v option" where
  "it_GetValue sl node = do { assert_that (it_Valid node); GetValue (heap sl) node }"

definition it_Seek :: "('k, 'v) skiplist \<Rightarrow> 'k \<Rightarrow> addr option option" where
  "it_Seek sl k = do { node \<leftarrow> FindLessThan sl k; it_Next sl node }"

definition it_SeekToFirst :: "('k, 'v) skiplist \<Rightarrow> addr option option" where
  "it_SeekToFirst sl = it_Next sl (Some (head sl))"

definition it_SeekToLast :: "('k, 'v) skiplist \<Rightarrow> addr option" where
  "it_SeekToLast sl = GetLast sl"

end
