(* ===== verification/Skiplist_Inv.thy ===== *)
theory Skiplist_Inv
  imports Skiplist "HOL-Library.Sublist"
begin

text \<open>
  The representation invariant of the skip list and the rules for reasoning about
  its heap.  \<open>skl sl lv\<close> says that the next pointers of level \<open>i\<close> link the sentinel and
  the addresses \<open>lv i\<close> into a list that ends in NULL, that the levels are nested, that
  the keys are sorted by the comparator, and that \<open>tail_\<close> is the last node.
\<close>

section \<open>Heap cells\<close>

definition wf_node :: "('k, 'v) heap \<Rightarrow> addr \<Rightarrow> bool" where
  "wf_node h a \<longleftrightarrow> (case h a of None \<Rightarrow> False | Some n \<Rightarrow> length (nexts n) = nheight n)"

definition hgt :: "('k, 'v) heap \<Rightarrow> addr \<Rightarrow> nat" where
  "hgt h a = (case h a of None \<Rightarrow> 0 | Some n \<Rightarrow> nheight n)"

definition keyat :: "('k, 'v) heap \<Rightarrow> addr \<Rightarrow> 'k" where
  "keyat h a = nkey (the (h a))"

definition valat :: "('k, 'v) heap \<Rightarrow> addr \<Rightarrow> 'v" where
  "valat h a = nvalue (the (h a))"

definition nxt :: "('k, 'v) heap \<Rightarrow> addr \<Rightarrow> nat \<Rightarrow> addr option" where
  "nxt h a i = (case h a of None \<Rightarrow> None
     | Some n \<Rightarrow> if i < length (nexts n) then nexts n ! i else None)"

definition valid :: "('k, 'v) heap \<Rightarrow> addr \<Rightarrow> nat \<Rightarrow> bool" where
  "valid h a i \<longleftrightarrow> wf_node h a \<and> i < hgt h a"

definition set_nxt :: "('k, 'v) heap \<Rightarrow> addr \<Rightarrow> nat \<Rightarrow> addr option \<Rightarrow> ('k, 'v) heap" where
  "set_nxt h a i q =
     (case h a of None \<Rightarrow> h | Some n \<Rightarrow> h(a \<mapsto> n\<lparr>nexts := (nexts n)[i := q]\<rparr>))"

text \<open>Everything of a heap but the next pointers.\<close>

definition shapes :: "('k, 'v) heap \<Rightarrow> addr \<Rightarrow> (nat \<times> 'k \<times> 'v \<times> nat) option" where
  "shapes h a = map_option (\<lambda>n. (nheight n, nkey n, nvalue n, length (nexts n))) (h a)"

lemma shapes_eqD:
  assumes "shapes h' = shapes h"
  shows "wf_node h' a = wf_node h a" "hgt h' a = hgt h a" "keyat h' a = keyat h a"
    "valat h' a = valat h a" "valid h' a i = valid h a i" "(h' a = None) = (h a = None)"
proof -
  have *: "shapes h' a = shapes h a" using assms by simp
  show "wf_node h' a = wf_node h a" "hgt h' a = hgt h a" "keyat h' a = keyat h a"
    "valat h' a = valat h a" "(h' a = None) = (h a = None)"
    using * by (cases "h a"; cases "h' a";
      simp add: shapes_def wf_node_def hgt_def keyat_def valat_def)+
  then show "valid h' a i = valid h a i" by (simp add: valid_def)
qed

lemma valid_SomeD: "valid h a i \<Longrightarrow> \<exists>n. h a = Some n \<and> i < nheight n \<and> length (nexts n) = nheight n"
  by (auto simp: valid_def wf_node_def hgt_def split: option.splits)

lemma wf_node_Some: "wf_node h a \<Longrightarrow> \<exists>n. h a = Some n"
  by (auto simp: wf_node_def split: option.splits)

lemma ptr_ops [ptr_simps]:
  "valid h a i \<Longrightarrow> GetNext h (Some a) i = Some (nxt h a i)"
  "valid h a i \<Longrightarrow> SetNext h (Some a) i q = Some (set_nxt h a i q)"
  "wf_node h a \<Longrightarrow> GetKey h (Some a) = Some (keyat h a)"
  "wf_node h a \<Longrightarrow> GetValue h (Some a) = Some (valat h a)"
  "wf_node h a \<Longrightarrow> Height h (Some a) = Some (hgt h a)"
  "wf_node h a \<Longrightarrow> delete_node h (Some a) = Some (h(a := None))"
  by (auto dest!: valid_SomeD wf_node_Some simp: GetNext_def SetNext_def GetKey_def GetValue_def
      Height_def delete_node_def deref_def nxt_def set_nxt_def keyat_def valat_def hgt_def)

lemma set_nxt_frame [frame_simps, simp]:
  "shapes (set_nxt h a i q) = shapes h"
  "valid h a i \<Longrightarrow> nxt (set_nxt h a i q) b j = (if b = a \<and> j = i then q else nxt h b j)"
  by (auto dest!: valid_SomeD intro!: ext
      simp: shapes_def set_nxt_def nxt_def valid_def wf_node_def hgt_def nth_list_update
      split: option.splits)

lemmas set_nxt_shape [simp] = shapes_eqD [OF set_nxt_frame(1)]

text \<open>Shape and next pointers determine a cell.\<close>

lemma heap_ext:
  assumes "shapes h' a = shapes h a" "\<And>j. nxt h' a j = nxt h a j"
  shows "h' a = h a"
proof (cases "h a")
  case None
  then show ?thesis using assms(1) by (simp add: shapes_def)
next
  case (Some n)
  then obtain n' where n': "h' a = Some n'" using assms(1) by (auto simp: shapes_def)
  then have len: "length (nexts n') = length (nexts n)" "nheight n' = nheight n"
    "nkey n' = nkey n" "nvalue n' = nvalue n"
    using assms(1) Some by (auto simp: shapes_def)
  have "nexts n' ! j = nexts n ! j" if "j < length (nexts n')" for j
    using assms(2)[of j] that len n' Some by (simp add: nxt_def)
  then have "nexts n' = nexts n" using len by (intro nth_equalityI) auto
  then show ?thesis using len n' Some by simp
qed

section \<open>Linked segments\<close>

definition ptr :: "addr list \<Rightarrow> addr option \<Rightarrow> addr option" where
  "ptr xs q = (case xs of [] \<Rightarrow> q | a # _ \<Rightarrow> Some a)"

lemma ptr_simps' [simp]: "ptr [] q = q" "ptr (a # xs) q = Some a" "ptr (xs @ ys) q = ptr xs (ptr ys q)"
  by (auto simp: ptr_def split: list.splits)

primrec lseg :: "('k, 'v) heap \<Rightarrow> nat \<Rightarrow> addr list \<Rightarrow> addr option \<Rightarrow> bool" where
  "lseg h i [] q = True"
| "lseg h i (a # xs) q = (valid h a i \<and> nxt h a i = ptr xs q \<and> lseg h i xs q)"

lemma lseg_append [simp]:
  "lseg h i (xs @ ys) q = (lseg h i xs (ptr ys q) \<and> lseg h i ys q)"
  by (induction xs) auto

lemma lseg_valid: "lseg h i xs q \<Longrightarrow> a \<in> set xs \<Longrightarrow> valid h a i"
  by (induction xs) auto

lemma lseg_cong:
  assumes "\<And>a. a \<in> set xs \<Longrightarrow> valid h' a i = valid h a i \<and> nxt h' a i = nxt h a i"
  shows "lseg h' i xs q = lseg h i xs q"
  using assms by (induction xs) auto

lemma lseg_unique:
  "lseg h i xs None \<Longrightarrow> lseg h i ys None \<Longrightarrow> ptr xs None = ptr ys None \<Longrightarrow> xs = ys"
proof (induction xs arbitrary: ys)
  case Nil
  then show ?case by (cases ys) auto
next
  case (Cons a xs)
  then show ?case by (cases ys) auto
qed

text \<open>Redirecting the last node of a prefix.\<close>

lemma lseg_redirect:
  assumes "lseg h i (xs @ [a]) q" "distinct (xs @ [a])"
    and "\<And>b. b \<in> set xs \<Longrightarrow> valid h' b i \<and> nxt h' b i = nxt h b i"
    and "valid h' a i" "nxt h' a i = r"
  shows "lseg h' i (xs @ [a]) r"
proof -
  have "lseg h' i xs (Some a) = lseg h i xs (Some a)"
    using assms by (intro lseg_cong) (auto dest: lseg_valid)
  then show ?thesis using assms by simp
qed

section \<open>Searching down the levels\<close>

lemma takeWhile_filter:
  "sorted_wrt (\<lambda>a b. Q b \<longrightarrow> Q a) xs \<Longrightarrow> takeWhile Q xs = filter Q xs"
  by (induction xs) (auto simp: filter_empty_conv)

lemma find_walk:
  assumes "lseg h i (a # s) None"
    and "\<And>x. x = a \<or> x \<in> set s \<and> Q x \<Longrightarrow> adv (Some x) None = Some False"
    and "\<And>x b. x = a \<or> x \<in> set s \<and> Q x \<Longrightarrow> b \<in> set s \<Longrightarrow> adv (Some x) (Some b) = Some (Q b)"
  shows "find_loop adv h (Some a) i nodes =
    (let z = last (a # takeWhile Q s) in
     if i = 0 then Some (Some z, nodes[0 := Some z])
     else find_loop adv h (Some z) (i - 1) (nodes[i := Some z]))"
  using assms
proof (induction s arbitrary: a)
  case Nil
  then show ?case
    by (subst find_loop.simps) (auto simp: ptr_simps)
next
  case (Cons b s)
  have step: "adv (Some a) (Some b) = Some (Q b)" using Cons.prems by auto
  show ?case
  proof (cases "Q b")
    case True
    have "find_loop adv h (Some a) i nodes = find_loop adv h (Some b) i nodes"
      by (subst find_loop.simps) (use Cons.prems(1) step True in \<open>auto simp: ptr_simps\<close>)
    also have "\<dots> = (let z = last (b # takeWhile Q s) in
     if i = 0 then Some (Some z, nodes[0 := Some z])
     else find_loop adv h (Some z) (i - 1) (nodes[i := Some z]))"
      using Cons.prems True by (intro Cons.IH) auto
    finally show ?thesis using True by simp
  next
    case False
    then show ?thesis
      by (subst find_loop.simps) (use Cons.prems(1) step in \<open>auto simp: ptr_simps\<close>)
  qed
qed

text \<open>
  The search leaves level \<open>i\<close> at the last node on it that satisfies \<open>Q\<close>, provided \<open>Q\<close>
  holds of a prefix of every level.
\<close>

definition pred_at :: "addr \<Rightarrow> (nat \<Rightarrow> addr list) \<Rightarrow> (addr \<Rightarrow> bool) \<Rightarrow> nat \<Rightarrow> addr" where
  "pred_at hd0 lv Q i = last (hd0 # filter Q (lv i))"

lemma find_level:
  assumes "lseg h i (hd0 # xs) None" "sorted_wrt (\<lambda>a b. Q b \<longrightarrow> Q a) xs" "set xs \<subseteq> S"
    and adv0: "\<And>x. x = hd0 \<or> x \<in> S \<and> Q x \<Longrightarrow> adv (Some x) None = Some False"
    and adv1: "\<And>x b. x = hd0 \<or> x \<in> S \<and> Q x \<Longrightarrow> b \<in> S \<Longrightarrow> adv (Some x) (Some b) = Some (Q b)"
    and start: "a = hd0 \<or> a \<in> set xs \<and> Q a"
  shows "find_loop adv h (Some a) i nodes =
    (let z = last (hd0 # filter Q xs) in
     if i = 0 then Some (Some z, nodes[0 := Some z])
     else find_loop adv h (Some z) (i - 1) (nodes[i := Some z]))"
proof -
  have "\<exists>s. lseg h i (a # s) None \<and> sorted_wrt (\<lambda>a b. Q b \<longrightarrow> Q a) s \<and> set s \<subseteq> S \<and>
          last (hd0 # filter Q xs) = last (a # filter Q s)"
  proof (cases "a = hd0")
    case True
    then show ?thesis using assms by blast
  next
    case False
    then obtain us s where us: "xs = us @ a # s" and "Q a"
      using start split_list[of a xs] by auto
    then show ?thesis
      using assms(1-3) by (intro exI[of _ s]) (auto simp: sorted_wrt_append)
  qed
  then obtain s where s: "lseg h i (a # s) None" "sorted_wrt (\<lambda>a b. Q b \<longrightarrow> Q a) s"
    "set s \<subseteq> S" "last (hd0 # filter Q xs) = last (a # filter Q s)" by blast
  show ?thesis
    unfolding s(4) takeWhile_filter[OF s(2), symmetric]
    using start s(3) assms(3) by (intro find_walk[OF s(1)] adv0 adv1) auto
qed

lemma list_update_map_upt:
  "nodes[0 := f 0] = map (\<lambda>j. if j \<le> 0 then f j else nodes ! j) [0..<length nodes]"
  "map (\<lambda>j. if j \<le> L then f j else nodes[Suc L := f (Suc L)] ! j) [0..<length nodes]
   = map (\<lambda>j. if j \<le> Suc L then f j else nodes ! j) [0..<length nodes]"
  by (rule nth_equalityI; auto simp: nth_list_update le_Suc_eq)+

lemma pred_at_cases: "pred_at hd0 lv Q i = hd0 \<or> pred_at hd0 lv Q i \<in> set (lv i) \<and> Q (pred_at hd0 lv Q i)"
  using last_in_set[of "filter Q (lv i)"] by (auto simp: pred_at_def)

lemma find_loop_result:
  assumes lv: "\<And>i. i \<le> L \<Longrightarrow> lseg h i (hd0 # lv i) None"
    and sub: "\<And>i. i \<le> L \<Longrightarrow> set (lv i) \<subseteq> S"
    and sub1: "\<And>i. i < L \<Longrightarrow> set (lv (Suc i)) \<subseteq> set (lv i)"
    and dc: "\<And>i. i \<le> L \<Longrightarrow> sorted_wrt (\<lambda>a b. Q b \<longrightarrow> Q a) (lv i)"
    and adv0: "\<And>x. x = hd0 \<or> x \<in> S \<and> Q x \<Longrightarrow> adv (Some x) None = Some False"
    and adv1: "\<And>x b. x = hd0 \<or> x \<in> S \<and> Q x \<Longrightarrow> b \<in> S \<Longrightarrow> adv (Some x) (Some b) = Some (Q b)"
    and start: "a = hd0 \<or> a \<in> set (lv L) \<and> Q a"
  shows "find_loop adv h (Some a) L nodes =
    Some (Some (pred_at hd0 lv Q 0),
      map (\<lambda>j. if j \<le> L then Some (pred_at hd0 lv Q j) else nodes ! j) [0..<length nodes])"
  using lv sub sub1 dc start
proof (induction L arbitrary: a nodes)
  case (0 a nodes)
  have "find_loop adv h (Some a) 0 nodes =
    Some (Some (pred_at hd0 lv Q 0), nodes[0 := Some (pred_at hd0 lv Q 0)])"
    using find_level[where Q=Q and adv=adv, OF 0(1)[OF order.refl] 0(4)[OF order.refl] 0(2)[OF order.refl] adv0 adv1 0(5)]
    unfolding pred_at_def Let_def by simp
  then show ?case by (simp only: list_update_map_upt(1)[of nodes "\<lambda>j. Some (pred_at hd0 lv Q j)"])
next
  case (Suc L)
  let ?z = "pred_at hd0 lv Q (Suc L)"
  have "find_loop adv h (Some a) (Suc L) nodes = find_loop adv h (Some ?z) L (nodes[Suc L := Some ?z])"
    using find_level[where Q=Q and adv=adv, OF Suc.prems(1)[OF order.refl] Suc.prems(4)[OF order.refl]
        Suc.prems(2)[OF order.refl] adv0 adv1 Suc.prems(5)]
    unfolding pred_at_def Let_def by simp
  also have "\<dots> = Some (Some (pred_at hd0 lv Q 0),
      map (\<lambda>j. if j \<le> L then Some (pred_at hd0 lv Q j) else nodes[Suc L := Some ?z] ! j)
        [0..<length (nodes[Suc L := Some ?z])])"
    using pred_at_cases[of hd0 lv Q "Suc L"] Suc.prems(3)[of L]
    by (intro Suc.IH Suc.prems(1-4)) auto
  finally show ?case by (simp only: length_list_update
      list_update_map_upt(2)[of L "\<lambda>j. Some (pred_at hd0 lv Q j)" nodes])
qed

section \<open>The representation invariant\<close>

definition key_le :: "('k, 'v) skiplist \<Rightarrow> addr \<Rightarrow> addr \<Rightarrow> bool" where
  "key_le sl a b \<longleftrightarrow> compare sl (keyat (heap sl) a) (keyat (heap sl) b) \<le> 0"

text \<open>The nodes strictly before \<open>key\<close>, and those not after it.\<close>

definition before :: "('k, 'v) skiplist \<Rightarrow> 'k \<Rightarrow> addr \<Rightarrow> bool" where
  "before sl key a \<longleftrightarrow> compare sl key (keyat (heap sl) a) > 0"

definition upto_key :: "('k, 'v) skiplist \<Rightarrow> 'k \<Rightarrow> addr \<Rightarrow> bool" where
  "upto_key sl key a \<longleftrightarrow> compare sl (keyat (heap sl) a) key \<le> 0"

text \<open>
  \<open>tail_\<close> is the last node.  On an empty list it is NULL or, after a split that cut
  every node off, the sentinel.
\<close>

definition tail_ok :: "('k, 'v) skiplist \<Rightarrow> addr list \<Rightarrow> bool" where
  "tail_ok sl as \<longleftrightarrow>
     (if as = [] then tail sl = None \<or> tail sl = Some (head sl) else tail sl = Some (last as))"

definition skl :: "('k, 'v) skiplist \<Rightarrow> (nat \<Rightarrow> addr list) \<Rightarrow> bool" where
  "skl sl lv \<longleftrightarrow>
     comparator (compare sl) \<and>
     1 \<le> max_height sl \<and> max_height sl \<le> MaxHeight sl \<and> 0 < Branch sl \<and>
     (\<forall>a. heap sl a \<noteq> None \<longrightarrow> a < next_addr sl) \<and>
     hgt (heap sl) (head sl) = MaxHeight sl \<and>
     (\<forall>i<MaxHeight sl. lseg (heap sl) i (head sl # lv i) None) \<and>
     (\<forall>i\<ge>max_height sl. lv i = []) \<and>
     (\<forall>i. subseq (lv (Suc i)) (lv i)) \<and>
     (\<forall>i. distinct (head sl # lv i)) \<and>
     (\<forall>i. sorted_wrt (key_le sl) (lv i)) \<and>
     (\<forall>a\<in>set (lv 0). hgt (heap sl) a \<le> max_height sl) \<and>
     (\<forall>a\<in>set (lv 0). \<forall>i<hgt (heap sl) a. a \<notin> set (lv i) \<longrightarrow> nxt (heap sl) a i = None) \<and>
     tail_ok sl (lv 0)"

text \<open>
  Every node is on all levels below its height.  \<open>Insert\<close>, \<open>Remove\<close> and \<open>Split\<close> keep this
  stronger form; a split by position may not, when keys are repeated.
\<close>

definition full_levels :: "('k, 'v) skiplist \<Rightarrow> (nat \<Rightarrow> addr list) \<Rightarrow> bool" where
  "full_levels sl lv \<longleftrightarrow> (\<forall>a\<in>set (lv 0). \<forall>i<hgt (heap sl) a. a \<in> set (lv i))"

lemma sklD:
  assumes "skl sl lv"
  shows "comparator (compare sl)" "1 \<le> max_height sl" "max_height sl \<le> MaxHeight sl"
    "0 < Branch sl" "\<And>a. heap sl a \<noteq> None \<Longrightarrow> a < next_addr sl"
    "hgt (heap sl) (head sl) = MaxHeight sl"
    "\<And>i. i < MaxHeight sl \<Longrightarrow> lseg (heap sl) i (head sl # lv i) None"
    "\<And>i. max_height sl \<le> i \<Longrightarrow> lv i = []"
    "\<And>i. subseq (lv (Suc i)) (lv i)"
    "\<And>i. distinct (head sl # lv i)"
    "\<And>i. sorted_wrt (key_le sl) (lv i)"
    "\<And>a. a \<in> set (lv 0) \<Longrightarrow> hgt (heap sl) a \<le> max_height sl"
    "\<And>a i. a \<in> set (lv 0) \<Longrightarrow> i < hgt (heap sl) a \<Longrightarrow> a \<notin> set (lv i) \<Longrightarrow> nxt (heap sl) a i = None"
    "tail_ok sl (lv 0)"
  using assms unfolding skl_def by blast+

lemma skl_subseq: "skl sl lv \<Longrightarrow> subseq (lv i) (lv 0)"
  by (induction i) (auto dest: sklD(9) intro: subseq_order.order_trans)

lemma subseq_set: "subseq xs ys \<Longrightarrow> set xs \<subseteq> set ys"
  by (auto dest: list_emb_set)

lemma skl_levels: "skl sl lv \<Longrightarrow> set (lv i) \<subseteq> set (lv 0)"
  by (rule subseq_set) (rule skl_subseq)

lemma skl_level_sub: "skl sl lv \<Longrightarrow> set (lv (Suc i)) \<subseteq> set (lv i)"
  by (rule subseq_set) (rule sklD(9))

lemma skl_MaxHeight: "skl sl lv \<Longrightarrow> 0 < MaxHeight sl"
  using sklD(2,3)[of sl lv] by simp

lemma skl_valid:
  assumes "skl sl lv" "i < MaxHeight sl" "a = head sl \<or> a \<in> set (lv i)"
  shows "valid (heap sl) a i"
  using lseg_valid[OF sklD(7)[OF assms(1,2)], of a] assms(3) by auto

lemma skl_wf_node: "skl sl lv \<Longrightarrow> a = head sl \<or> a \<in> set (lv 0) \<Longrightarrow> wf_node (heap sl) a"
  using skl_valid[of sl lv 0 a] skl_MaxHeight[of sl lv] by (auto simp: valid_def)

lemma skl_next_addr: "skl sl lv \<Longrightarrow> a = head sl \<or> a \<in> set (lv i) \<Longrightarrow> a < next_addr sl"
  using skl_wf_node[of sl lv a] skl_levels[of sl lv i] sklD(5)[of sl lv a]
  by (auto dest!: wf_node_Some)

lemma before_downward:
  "skl sl lv \<Longrightarrow> key_le sl a b \<Longrightarrow> before sl key b \<Longrightarrow> before sl key a"
  unfolding key_le_def before_def by (rule comparator.gt_downward) (auto dest: sklD(1))

lemma upto_key_downward:
  "skl sl lv \<Longrightarrow> key_le sl a b \<Longrightarrow> upto_key sl key b \<Longrightarrow> upto_key sl key a"
  unfolding key_le_def upto_key_def by (rule comparator.cmp_le_trans) (auto dest: sklD(1))

lemma level_downward:
  assumes "skl sl lv" "\<And>a b. key_le sl a b \<Longrightarrow> Q b \<Longrightarrow> Q a"
  shows "sorted_wrt (\<lambda>a b. Q b \<longrightarrow> Q a) (lv i)"
  using sorted_wrt_mono_rel[OF _ sklD(11)[OF assms(1)], of i "\<lambda>a b. Q b \<longrightarrow> Q a"] assms(2) by blast

lemma level_split:
  assumes "skl sl lv"
  shows "filter (before sl key) (lv i) @ filter (\<lambda>a. \<not> before sl key a) (lv i) = lv i"
    and "filter (upto_key sl key) (lv i) @ filter (\<lambda>a. \<not> upto_key sl key a) (lv i) = lv i"
  using before_downward[OF assms] upto_key_downward[OF assms]
  by (blast intro: sorted_wrt_filter_split[OF sklD(11)[OF assms]])+

section \<open>The searches\<close>

abbreviation pred :: "('k, 'v) skiplist \<Rightarrow> (nat \<Rightarrow> addr list) \<Rightarrow> 'k \<Rightarrow> nat \<Rightarrow> addr" where
  "pred sl lv key \<equiv> pred_at (head sl) lv (before sl key)"

lemma find_skl:
  assumes skl: "skl sl lv"
    and dc: "\<And>a b. key_le sl a b \<Longrightarrow> Q b \<Longrightarrow> Q a"
    and adv0: "\<And>x. x = head sl \<or> x \<in> set (lv 0) \<and> Q x \<Longrightarrow> adv (Some x) None = Some False"
    and adv1: "\<And>x b. x = head sl \<or> x \<in> set (lv 0) \<and> Q x \<Longrightarrow> b \<in> set (lv 0) \<Longrightarrow>
                 adv (Some x) (Some b) = Some (Q b)"
  shows "find_loop adv (heap sl) (Some (head sl)) (max_height sl - 1) nodes =
    Some (Some (pred_at (head sl) lv Q 0),
      map (\<lambda>j. if j < max_height sl then Some (pred_at (head sl) lv Q j) else nodes ! j)
        [0..<length nodes])"
proof -
  have le: "(j \<le> max_height sl - 1) = (j < max_height sl)" for j
    using sklD(2)[OF skl] by auto
  have "find_loop adv (heap sl) (Some (head sl)) (max_height sl - 1) nodes =
    Some (Some (pred_at (head sl) lv Q 0),
      map (\<lambda>j. if j \<le> max_height sl - 1 then Some (pred_at (head sl) lv Q j) else nodes ! j)
        [0..<length nodes])"
    using sklD(2,3)[OF skl]
    by (intro find_loop_result[where S="set (lv 0)"] sklD(7)[OF skl] skl_level_sub[OF skl] skl_levels[OF skl]
        level_downward[OF skl dc] adv0 adv1) auto
  then show ?thesis unfolding le .
qed

lemma FindLessOrEqual_skl:
  assumes "skl sl lv"
  shows "FindLessOrEqual sl key nodes =
    Some (Some (pred sl lv key 0),
      map (\<lambda>j. if j < max_height sl then Some (pred sl lv key j) else nodes ! j)
        [0..<length nodes])"
  unfolding FindLessOrEqual_def
  using before_downward[OF assms] skl_wf_node[OF assms]
  by (intro find_skl[OF assms]) (auto simp: IsAfterNode_def ptr_simps before_def)

lemma FindEqual_skl:
  assumes "skl sl lv"
  shows "FindEqual sl key = Some (Some (pred_at (head sl) lv (upto_key sl key) 0))"
  unfolding FindEqual_def
  using upto_key_downward[OF assms] skl_wf_node[OF assms]
  by (subst find_skl[OF assms, where Q="upto_key sl key"])
    (auto simp: ptr_simps upto_key_def not_less)

lemma FindLessThan_skl:
  assumes "skl sl lv"
  shows "FindLessThan sl key = Some (Some (pred sl lv key 0))"
  unfolding FindLessThan_def
  using before_downward[OF assms] skl_wf_node[OF assms]
  by (subst find_skl[OF assms, where Q="before sl key"])
    (auto simp: ptr_simps before_def not_le comparator.cmp_gt[OF sklD(1)[OF assms]])

end
