(* ===== verification/Skiplist_Ops.thy ===== *)
theory Skiplist_Ops
  imports Skiplist_Inv
begin

text \<open>
  Every operation of the skip list succeeds on a well-formed list, keeps the
  representation invariant, and does to the level-0 list of nodes what its contract
  says.
\<close>

section \<open>Random heights\<close>

lemma RandomHeight_loop_bounds:
  assumes "0 < branch" "1 \<le> height" "height \<le> maxh"
  shows "\<exists>height' r'. RandomHeight_loop maxh branch r height = Some (height', r') \<and>
           1 \<le> height' \<and> height' \<le> maxh"
  using assms
proof (induction maxh branch r height rule: RandomHeight_loop.induct)
  case (1 maxh branch r height)
  show ?case
    using 1 by (subst RandomHeight_loop.simps) (auto split: prod.splits simp: Let_def)
qed

lemma RandomHeight_skl:
  assumes "skl sl lv"
  shows "\<exists>height r. RandomHeight sl = Some (height, sl\<lparr>rand := r\<rparr>) \<and> 1 \<le> height \<and> height \<le> MaxHeight sl"
  using RandomHeight_loop_bounds[of "Branch sl" 1 "MaxHeight sl" "rand sl"]
    sklD(4)[OF assms] skl_MaxHeight[OF assms]
  by (auto simp: RandomHeight_def)

section \<open>The pointer loops\<close>

lemma link_node_result:
  assumes "\<And>i. i < height \<Longrightarrow> valid h node i"
    and "\<And>i. i < height \<Longrightarrow> i < length pre \<and> pre ! i = Some (pr i) \<and> valid h (pr i) i \<and> pr i \<noteq> node"
  shows "\<exists>h'. link_node pre node height h = Some h' \<and> shapes h' = shapes h \<and>
    (\<forall>b j. nxt h' b j = (if j < height \<and> b = node then nxt h (pr j) j
                         else if j < height \<and> b = pr j then Some node else nxt h b j))"
  unfolding link_node_def
proof (rule foldM_upt_rule[where I="\<lambda>k h'. shapes h' = shapes h \<and>
    (\<forall>b j. nxt h' b j = (if j < k \<and> b = node then nxt h (pr j) j
                         else if j < k \<and> b = pr j then Some node else nxt h b j))"])
  fix i h1
  assume i: "i < height" and I: "shapes h1 = shapes h \<and>
    (\<forall>b j. nxt h1 b j = (if j < i \<and> b = node then nxt h (pr j) j
                         else if j < i \<and> b = pr j then Some node else nxt h b j))"
  note v = shapes_eqD(5)[of h1 h]
  show "\<exists>s'. do {
       p \<leftarrow> arr_get pre i;
       q \<leftarrow> GetNext h1 p i;
       h \<leftarrow> SetNext h1 (Some node) i q;
       SetNext h p i (Some node) } = Some s' \<and> shapes s' = shapes h \<and>
    (\<forall>b j. nxt s' b j = (if j < Suc i \<and> b = node then nxt h (pr j) j
                         else if j < Suc i \<and> b = pr j then Some node else nxt h b j))"
    using assms(1)[OF i] assms(2)[OF i] I
    by (auto simp: arr_get_def ptr_simps v less_Suc_eq)
qed auto

lemma unlink_node_result:
  assumes "\<And>i. i < height \<Longrightarrow> valid h node i"
    and "\<And>i. i < height \<Longrightarrow> i < length pre \<and> pre ! i = Some (pr i) \<and> valid h (pr i) i \<and> pr i \<noteq> node"
  shows "\<exists>h'. unlink_node pre (Some node) height h = Some h' \<and> shapes h' = shapes h \<and>
    (\<forall>b j. nxt h' b j = (if j < height \<and> b = node then None
                         else if j < height \<and> b = pr j then nxt h node j else nxt h b j))"
  unfolding unlink_node_def
proof (rule foldM_upt_rule[where I="\<lambda>k h'. shapes h' = shapes h \<and>
    (\<forall>b j. nxt h' b j = (if j < k \<and> b = node then None
                         else if j < k \<and> b = pr j then nxt h node j else nxt h b j))"])
  fix i h1
  assume i: "i < height" and I: "shapes h1 = shapes h \<and>
    (\<forall>b j. nxt h1 b j = (if j < i \<and> b = node then None
                         else if j < i \<and> b = pr j then nxt h node j else nxt h b j))"
  note v = shapes_eqD(5)[of h1 h]
  show "\<exists>s'. do {
       p \<leftarrow> arr_get pre i;
       q \<leftarrow> GetNext h1 (Some node) i;
       h \<leftarrow> SetNext h1 p i q;
       SetNext h (Some node) i None } = Some s' \<and> shapes s' = shapes h \<and>
    (\<forall>b j. nxt s' b j = (if j < Suc i \<and> b = node then None
                         else if j < Suc i \<and> b = pr j then nxt h node j else nxt h b j))"
    using assms(1)[OF i] assms(2)[OF i] I
    by (auto simp: arr_get_def ptr_simps v less_Suc_eq)
qed auto

lemma clear_nexts_result:
  assumes "wf_node h a"
  shows "\<exists>h'. clear_nexts (Some a) h = Some h' \<and> shapes h' = shapes h \<and>
    (\<forall>b j. nxt h' b j = (if j < hgt h a \<and> b = a then None else nxt h b j))"
proof -
  have "\<exists>h'. foldM (\<lambda>i h. SetNext h (Some a) i None) [0..<hgt h a] h = Some h' \<and> shapes h' = shapes h \<and>
    (\<forall>b j. nxt h' b j = (if j < hgt h a \<and> b = a then None else nxt h b j))"
  proof (rule foldM_upt_rule[where I="\<lambda>k h'. shapes h' = shapes h \<and>
      (\<forall>b j. nxt h' b j = (if j < k \<and> b = a then None else nxt h b j))"])
    fix i h1
    assume "i < hgt h a" and I: "shapes h1 = shapes h \<and>
      (\<forall>b j. nxt h1 b j = (if j < i \<and> b = a then None else nxt h b j))"
    then have "valid h1 a i" using assms by (simp add: valid_def shapes_eqD[of h1 h])
    then show "\<exists>s'. SetNext h1 (Some a) i None = Some s' \<and> shapes s' = shapes h \<and>
      (\<forall>b j. nxt s' b j = (if j < Suc i \<and> b = a then None else nxt h b j))"
      using I by (auto simp: ptr_simps less_Suc_eq)
  qed auto
  then show ?thesis using assms by (simp add: clear_nexts_def ptr_simps)
qed

section \<open>Splicing a new node in\<close>

definition splice_levels :: "nat \<Rightarrow> addr \<Rightarrow> (addr \<Rightarrow> bool) \<Rightarrow> (nat \<Rightarrow> addr list) \<Rightarrow> nat \<Rightarrow> addr list" where
  "splice_levels height node P lv i =
     (if i < height then filter P (lv i) @ node # filter (\<lambda>a. \<not> P a) (lv i) else lv i)"

lemma set_splice_levels [simp]: "set (splice_levels height node P lv i) = (if i < height then insert node (set (lv i)) else set (lv i))"
  by (auto simp: splice_levels_def)

lemma subseq_splice_levels:
  assumes "subseq (lv (Suc i)) (lv i)" "\<And>i. filter P (lv i) @ filter (\<lambda>a. \<not> P a) (lv i) = lv i"
  shows "subseq (splice_levels height node P lv (Suc i)) (splice_levels height node P lv i)"
proof -
  let ?G = "\<lambda>i. filter (\<lambda>a. \<not> P a) (lv i)"
  have "subseq (filter P (lv (Suc i)) @ node # ?G (Suc i)) (filter P (lv i) @ node # ?G i)"
    using assms(1) by (intro list_emb_append_mono subseq_Cons2) (auto intro: subseq_filter)
  moreover have "subseq (lv (Suc i)) (filter P (lv i) @ node # ?G i)"
    using assms by (metis list_emb_Cons list_emb_append_mono subseq_order.dual_order.trans subseq_order.refl)
  ultimately show ?thesis using assms by (auto simp: splice_levels_def)
qed

text \<open>A heap with a fresh node, seen from the old nodes.\<close>

lemma new_node_frame:
  assumes "shapes h' = shapes (h(node \<mapsto> new_node key value height))"
  shows "a \<noteq> node \<Longrightarrow> valid h' a i = valid h a i" "a \<noteq> node \<Longrightarrow> keyat h' a = keyat h a"
    "a \<noteq> node \<Longrightarrow> valat h' a = valat h a" "a \<noteq> node \<Longrightarrow> hgt h' a = hgt h a"
    "a \<noteq> node \<Longrightarrow> (h' a = None) = (h a = None)" "a \<noteq> node \<Longrightarrow> wf_node h' a = wf_node h a"
    "keyat h' node = key" "valat h' node = value" "hgt h' node = height" "h' node \<noteq> None"
    "wf_node h' node" "i < height \<Longrightarrow> valid h' node i"
  unfolding shapes_eqD[OF assms]
  by (auto simp: valid_def wf_node_def hgt_def keyat_def valat_def new_node_def)

lemma lseg_splice:
  assumes "lseg h i (hd0 # F @ G) None" "distinct (hd0 # F @ G)" "node \<notin> set (hd0 # F @ G)"
    and v: "\<And>a. a \<noteq> node \<Longrightarrow> valid h' a i = valid h a i" "valid h' node i"
    and n: "\<And>a. nxt h' a i = (if a = node then nxt h (last (hd0 # F)) i
                      else if a = last (hd0 # F) then Some node else nxt h a i)"
  shows "lseg h' i (hd0 # F @ node # G) None"
proof -
  obtain us where us: "hd0 # F = us @ [last (hd0 # F)]"
    by (metis append_butlast_last_id list.distinct(1))
  define p where "p = last (hd0 # F)"
  note n' = n[folded p_def]
  have "hd0 # F = us @ [p]" using us by (simp add: p_def)
  then have l: "lseg h i (us @ [p] @ G) None" and d: "distinct (us @ [p] @ G)" "node \<notin> set (us @ [p] @ G)"
    using assms(1-3) by (metis append_Cons append_assoc)+
  have "lseg h' i (us @ [p] @ node # G) None"
  proof -
    have "lseg h' i us (Some p)"
      using l d n' v by (subst lseg_cong[where h=h]) auto
    moreover have "lseg h' i G None"
      using l d n' v by (subst lseg_cong[where h=h]) auto
    ultimately show ?thesis using l d n' v by auto
  qed
  then show ?thesis using \<open>hd0 # F = us @ [p]\<close> by (metis append_Cons append_assoc)
qed

lemma skl_splice:
  assumes skl: "skl sl lv" and node: "node = next_addr sl"
    and height: "1 \<le> height" "height \<le> MaxHeight sl"
    and split: "\<And>i. filter P (lv i) @ filter (\<lambda>a. \<not> P a) (lv i) = lv i"
    and le: "\<And>a. a \<in> set (lv 0) \<Longrightarrow> P a \<Longrightarrow> compare sl (keyat (heap sl) a) key \<le> 0"
      "\<And>a. a \<in> set (lv 0) \<Longrightarrow> \<not> P a \<Longrightarrow> compare sl key (keyat (heap sl) a) \<le> 0"
    and sh: "shapes h' = shapes ((heap sl)(node \<mapsto> new_node key value height))"
    and nx: "\<And>a j. nxt h' a j = (if j < height \<and> a = node then nxt (heap sl) (pred_at (head sl) lv P j) j
        else if j < height \<and> a = pred_at (head sl) lv P j then Some node else nxt (heap sl) a j)"
    and tl: "tl0 = (if filter (\<lambda>a. \<not> P a) (lv 0) = [] then Some node else tail sl)"
    and sl': "sl' = sl\<lparr>rand := r, max_height := max (max_height sl) height, heap := h',
                       next_addr := Suc node, tail := tl0\<rparr>"
  shows "skl sl' (splice_levels height node P lv)"
proof -
  note fr = new_node_frame[OF sh]
  have fresh: "node \<notin> set (head sl # lv i)" for i
    using skl_next_addr[OF skl] node by (metis less_irrefl set_ConsD)
  have ne: "a \<in> set (lv i) \<Longrightarrow> a \<noteq> node" "head sl \<noteq> node" for a i using fresh by auto
  have le': "\<And>a. a \<in> set (lv i) \<Longrightarrow> P a \<Longrightarrow> compare sl (keyat (heap sl) a) key \<le> 0"
      "\<And>a. a \<in> set (lv i) \<Longrightarrow> \<not> P a \<Longrightarrow> compare sl key (keyat (heap sl) a) \<le> 0" for i
    using le skl_levels[OF skl, of i] by auto
  have kle: "key_le sl' a b = (compare sl (if a = node then key else keyat (heap sl) a)
       (if b = node then key else keyat (heap sl) b) \<le> 0)" for a b
    by (simp add: key_le_def sl' fr)
  have seg: "lseg h' i (head sl # splice_levels height node P lv i) None" if i: "i < MaxHeight sl" for i
  proof (cases "i < height")
    case True
    have "lseg h' i (head sl # filter P (lv i) @ node # filter (\<lambda>a. \<not> P a) (lv i)) None"
      using sklD(7)[OF skl i] sklD(10)[OF skl, of i] fresh[of i] True
      by (intro lseg_splice[where h="heap sl"]) (simp_all add: split fr nx pred_at_def)
    then show ?thesis using True by (simp add: splice_levels_def)
  next
    case False
    then show ?thesis using sklD(7)[OF skl i] ne nx fr
      by (subst lseg_cong[where h="heap sl"]) (auto simp: splice_levels_def)
  qed
  have sorted: "sorted_wrt (key_le sl') (splice_levels height node P lv i)" for i
  proof -
    have "sorted_wrt (key_le sl') (lv i)"
      by (rule sorted_wrt_mono_rel[OF _ sklD(11)[OF skl]])
        (use ne(1)[of _ i] in \<open>auto simp: kle key_le_def[of sl]\<close>)
    moreover have "key_le sl' a b" if "a \<in> set (lv i)" "b \<in> set (lv i)" "P a" "\<not> P b" for a b
      using comparator.cmp_le_trans[OF sklD(1)[OF skl] le'(1)[of a i] le'(2)[of b i]] that ne(1)[of _ i]
      by (auto simp: kle)
    ultimately show ?thesis
      using le'[of _ i] ne(1)[of _ i] unfolding splice_levels_def
      by (auto intro!: sorted_wrt_filter_insert simp: kle)
  qed
  have alloc: "a < Suc node" if "h' a \<noteq> None" for a
    using that sklD(5)[OF skl, of a] fr(5)[of a] node by (cases "a = node") (auto simp: less_Suc_eq)
  have stray: "nxt h' a i = None" if "a \<in> set (splice_levels height node P lv 0)" "i < hgt h' a"
      "a \<notin> set (splice_levels height node P lv i)" for a i
  proof -
    have "a \<noteq> node" using that height by (auto simp: fr)
    moreover have "a \<noteq> pred_at (head sl) lv P i"
      using that \<open>a \<noteq> node\<close> pred_at_cases[of "head sl" lv P i] sklD(10)[OF skl, of 0]
      by (auto split: if_splits)
    ultimately show ?thesis
      using that sklD(13)[OF skl, of a i] by (auto simp: nx fr split: if_splits)
  qed
  have tail: "tail_ok sl' (splice_levels height node P lv 0)"
  proof -
    have "last (lv 0) = last (filter (\<lambda>a. \<not> P a) (lv 0))" if "filter (\<lambda>a. \<not> P a) (lv 0) \<noteq> []"
      using split[of 0] that by (metis last_append)
    moreover have "lv 0 \<noteq> []" if "filter (\<lambda>a. \<not> P a) (lv 0) \<noteq> []" using that by auto
    ultimately show ?thesis
      using sklD(14)[OF skl] height by (auto simp: tail_ok_def splice_levels_def sl' tl)
  qed
  have "distinct (head sl # splice_levels height node P lv i)" for i
    using sklD(10)[OF skl, of i] fresh[of i] by (auto simp: splice_levels_def)
  moreover have "subseq (splice_levels height node P lv (Suc i)) (splice_levels height node P lv i)" for i
    using sklD(9)[OF skl, of i] split by (intro subseq_splice_levels)
  moreover have "splice_levels height node P lv i = []" if "max (max_height sl) height \<le> i" for i
    using that sklD(8)[OF skl, of i] by (simp add: splice_levels_def)
  moreover have "hgt h' a \<le> max (max_height sl) height" if "a \<in> set (splice_levels height node P lv 0)" for a
    using that sklD(12)[OF skl, of a] by (cases "a = node") (auto simp: fr split: if_splits)
  ultimately show ?thesis
    using sklD(1-4,6)[OF skl] height seg sorted alloc stray tail
    unfolding skl_def by (simp add: sl' fr ne)
qed

section \<open>Insert and AddToFirst\<close>

lemma fill_pre_nth:
  "length (fill_pre pre from to p) = length pre"
  "j < length pre \<Longrightarrow> fill_pre pre from to p ! j = (if from \<le> j \<and> j < to then p else pre ! j)"
proof -
  have "length (fill_pre pre from to p) = length pre \<and>
    (j < length pre \<longrightarrow> fill_pre pre from to p ! j = (if from \<le> j \<and> j < to then p else pre ! j))"
    unfolding fill_pre_def by (induction to) (auto simp: nth_list_update less_Suc_eq)
  then show "length (fill_pre pre from to p) = length pre"
    "j < length pre \<Longrightarrow> fill_pre pre from to p ! j = (if from \<le> j \<and> j < to then p else pre ! j)"
    by auto
qed

lemma pred_at_nxt:
  assumes "skl sl lv" "i < MaxHeight sl"
    and split: "filter P (lv i) @ filter (\<lambda>a. \<not> P a) (lv i) = lv i"
  shows "valid (heap sl) (pred_at (head sl) lv P i) i"
    and "nxt (heap sl) (pred_at (head sl) lv P i) i = ptr (filter (\<lambda>a. \<not> P a) (lv i)) None"
proof -
  let ?F = "head sl # filter P (lv i)"
  have "lseg (heap sl) i (?F @ filter (\<lambda>a. \<not> P a) (lv i)) None"
    using sklD(7)[OF assms(1,2)] split by simp
  then have "lseg (heap sl) i (butlast ?F @ [last ?F] @ filter (\<lambda>a. \<not> P a) (lv i)) None"
    by (metis append_assoc append_butlast_last_id list.distinct(1))
  then show "valid (heap sl) (pred_at (head sl) lv P i) i"
    "nxt (heap sl) (pred_at (head sl) lv P i) i = ptr (filter (\<lambda>a. \<not> P a) (lv i)) None"
    unfolding pred_at_def by (auto simp del: butlast.simps last.simps)
qed

lemma ptr_None [simp]: "ptr xs None = None \<longleftrightarrow> xs = []" "None = ptr xs None \<longleftrightarrow> xs = []"
  by (cases xs; simp)+

text \<open>
  The second half of \<open>Insert\<close> and \<open>AddToFirst\<close>: allocate the node and link it after
  \<open>pre\<close>.
\<close>

lemma insert_after_pre:
  assumes skl: "skl sl lv"
    and height: "1 \<le> height" "height \<le> MaxHeight sl"
    and split: "\<And>i. filter P (lv i) @ filter (\<lambda>a. \<not> P a) (lv i) = lv i"
    and pre: "\<And>i. i < height \<Longrightarrow> i < length pre \<and> pre ! i = Some (pred_at (head sl) lv P i)"
  shows "\<exists>h'. link_node pre (next_addr sl) height
      ((heap sl)(next_addr sl \<mapsto> new_node key value height)) = Some h' \<and>
    shapes h' = shapes ((heap sl)(next_addr sl \<mapsto> new_node key value height)) \<and>
    (\<forall>a j. nxt h' a j = (if j < height \<and> a = next_addr sl then nxt (heap sl) (pred_at (head sl) lv P j) j
        else if j < height \<and> a = pred_at (head sl) lv P j then Some (next_addr sl) else nxt (heap sl) a j))"
proof -
  let ?n = "next_addr sl"
  let ?h = "(heap sl)(?n \<mapsto> new_node key value height)"
  note fr = new_node_frame[of ?h "heap sl" ?n key "value" height, OF refl]
  have ne: "pred_at (head sl) lv P i \<noteq> ?n" for i
    using pred_at_cases[of "head sl" lv P i] skl_next_addr[OF skl, of _ i] by (metis less_irrefl)
  have nx: "nxt ?h a j = nxt (heap sl) a j" for a j
    using sklD(5)[OF skl, of ?n] by (cases "heap sl ?n") (auto simp: nxt_def new_node_def)
  obtain h' where h': "link_node pre ?n height ?h = Some h'" "shapes h' = shapes ?h"
    "\<forall>b j. nxt h' b j = (if j < height \<and> b = ?n then nxt ?h (pred_at (head sl) lv P j) j
       else if j < height \<and> b = pred_at (head sl) lv P j then Some ?n else nxt ?h b j)"
    using link_node_result[of height ?h ?n pre "pred_at (head sl) lv P"]
      pre fr ne pred_at_nxt(1)[OF skl _ split] height by fastforce
  then show ?thesis unfolding nx by blast
qed

text \<open>What an insertion leaves behind: \<open>P\<close> selects the nodes in front of the new one.\<close>

definition inserted ::
    "('k, 'v) skiplist \<Rightarrow> (nat \<Rightarrow> addr list) \<Rightarrow> (addr \<Rightarrow> bool) \<Rightarrow> 'k \<Rightarrow> 'v \<Rightarrow> nat \<Rightarrow> ('k, 'v) skiplist \<Rightarrow> bool" where
  "inserted sl lv P key value height sl' \<longleftrightarrow>
     1 \<le> height \<and> height \<le> MaxHeight sl \<and>
     skl sl' (splice_levels height (next_addr sl) P lv) \<and>
     shapes (heap sl') = shapes ((heap sl)(next_addr sl \<mapsto> new_node key value height)) \<and>
     compare sl' = compare sl \<and> MaxHeight sl' = MaxHeight sl \<and> Branch sl' = Branch sl \<and>
     head sl' = head sl \<and> next_addr sl' = Suc (next_addr sl)"

lemma skl_rand: "skl (sl\<lparr>rand := r\<rparr>) lv = skl sl lv"
  by (simp add: skl_def tail_ok_def key_le_def[abs_def])

lemma before_rand: "before (sl\<lparr>rand := r\<rparr>) = before sl"
  by (intro ext) (simp add: before_def)

lemma Insert_skl:
  assumes skl: "skl sl lv"
  shows "\<exists>height sl'. Insert sl key value = Some (height, sl') \<and>
           inserted sl lv (before sl key) key value height sl'"
proof -
  obtain height r where R: "RandomHeight sl = Some (height, sl\<lparr>rand := r\<rparr>)"
    and height: "1 \<le> height" "height \<le> MaxHeight sl"
    using RandomHeight_skl[OF skl] by blast
  let ?P = "before sl key" and ?n = "next_addr sl"
  let ?pr = "pred_at (head sl) lv ?P"
  define pre0 where "pre0 = map (\<lambda>j. if j < max_height sl then Some (?pr j) else None) [0..<MaxHeight sl]"
  define pre where "pre = (if height > max_height sl
      then fill_pre pre0 (max_height sl) height (Some (head sl)) else pre0)"
  have F: "FindLessOrEqual (sl\<lparr>rand := r\<rparr>) key (replicate (MaxHeight sl) None) = Some (Some (?pr 0), pre0)"
    using FindLessOrEqual_skl[of "sl\<lparr>rand := r\<rparr>" lv key] skl
    by (simp add: skl_rand before_rand pre0_def cong: map_cong if_cong)
  have pre: "i < length pre \<and> pre ! i = Some (?pr i)" if "i < height" for i
    using that height sklD(8)[OF skl, of i]
    by (auto simp: pre_def pre0_def fill_pre_nth pred_at_def)
  note split = level_split(1)[OF skl, of key]
  obtain h' where L: "link_node pre ?n height ((heap sl)(?n \<mapsto> new_node key value height)) = Some h'"
    and sh: "shapes h' = shapes ((heap sl)(?n \<mapsto> new_node key value height))"
    and nx: "\<And>a j. nxt h' a j = (if j < height \<and> a = ?n then nxt (heap sl) (?pr j) j
        else if j < height \<and> a = ?pr j then Some ?n else nxt (heap sl) a j)"
    using insert_after_pre[OF skl height split pre] by blast
  have ne: "?pr 0 \<noteq> ?n"
    using pred_at_cases[of "head sl" lv ?P 0] skl_next_addr[OF skl, of _ 0] by (metis less_irrefl)
  have "valid ((heap sl)(?n \<mapsto> new_node key value height)) (?pr 0) 0"
    "nxt ((heap sl)(?n \<mapsto> new_node key value height)) (?pr 0) 0 = ptr (filter (\<lambda>a. \<not> ?P a) (lv 0)) None"
    using pred_at_nxt[OF skl skl_MaxHeight[OF skl] split] ne
    by (auto simp: nxt_def valid_def wf_node_def hgt_def)
  note G = ptr_ops(1)[OF this(1), unfolded this(2)]
  define tl0 where "tl0 = (if filter (\<lambda>a. \<not> ?P a) (lv 0) = [] then Some ?n else tail sl)"
  let ?sl' = "sl\<lparr>rand := r, max_height := max (max_height sl) height, heap := h',
                next_addr := Suc ?n, tail := tl0\<rparr>"
  have "Insert sl key value = Some (height, ?sl')"
  proof -
    have A: "arr_get pre 0 = Some (Some (?pr 0))" using pre[of 0] height by (simp add: arr_get_def)
    show ?thesis
      by (cases "height > max_height sl"; cases "filter (\<lambda>a. \<not> ?P a) (lv 0) = []";
        insert R F L G A; simp add: Insert_def NewNode_def pre_def tl0_def max_def)
  qed
  moreover have "skl ?sl' (splice_levels height ?n ?P lv)"
    using comparator.cmp_gt[OF sklD(1)[OF skl]] comparator.cmp_ge[OF sklD(1)[OF skl]]
    by (intro skl_splice[OF skl refl height split _ _ sh nx tl0_def refl])
      (auto simp: before_def not_less less_imp_le)
  ultimately show ?thesis
    using height sh by (auto simp: inserted_def)
qed

lemma skl_first: "skl sl lv \<Longrightarrow> GetNext (heap sl) (Some (head sl)) 0 = Some (ptr (lv 0) None)"
  using sklD(7)[of sl lv 0] skl_MaxHeight[of sl lv] by (auto simp: ptr_simps)

lemma IsAfterNode_first:
  assumes "skl sl lv"
  shows "IsAfterNode sl key (ptr (lv 0) None) = Some (lv 0 \<noteq> [] \<and> before sl key (List.hd (lv 0)))"
  using skl_wf_node[OF assms] by (cases "lv 0") (auto simp: IsAfterNode_def ptr_simps before_def)

lemma AddToFirst_refused:
  assumes "skl sl lv" "lv 0 \<noteq> []" "before sl key (List.hd (lv 0))"
  shows "AddToFirst sl key value = Some (False, sl)"
  using assms skl_first[OF assms(1)] IsAfterNode_first[OF assms(1), of key]
  by (simp add: AddToFirst_def)

lemma AddToFirst_skl:
  assumes skl: "skl sl lv" and first: "lv 0 = [] \<or> \<not> before sl key (List.hd (lv 0))"
  shows "\<exists>height sl'. AddToFirst sl key value = Some (True, sl') \<and>
           inserted sl lv (\<lambda>_. False) key value height sl'"
proof -
  obtain height r where R: "RandomHeight sl = Some (height, sl\<lparr>rand := r\<rparr>)"
    and height: "1 \<le> height" "height \<le> MaxHeight sl"
    using RandomHeight_skl[OF skl] by blast
  let ?n = "next_addr sl"
  have pr: "pred_at (head sl) lv (\<lambda>_. False) i = head sl" for i by (simp add: pred_at_def)
  define pre where "pre = fill_pre (replicate (MaxHeight sl) None) 0 height (Some (head sl))"
  have pre: "i < length pre \<and> pre ! i = Some (pred_at (head sl) lv (\<lambda>_. False) i)" if "i < height" for i
    using that height by (auto simp: pre_def fill_pre_nth pr)
  have split: "filter (\<lambda>_. False) (lv i) @ filter (\<lambda>a. \<not> False) (lv i) = lv i" for i by simp
  obtain h' where L: "link_node pre ?n height ((heap sl)(?n \<mapsto> new_node key value height)) = Some h'"
    and sh: "shapes h' = shapes ((heap sl)(?n \<mapsto> new_node key value height))"
    and nx: "\<And>a j. nxt h' a j =
       (if j < height \<and> a = ?n then nxt (heap sl) (pred_at (head sl) lv (\<lambda>_. False) j) j
        else if j < height \<and> a = pred_at (head sl) lv (\<lambda>_. False) j then Some ?n else nxt (heap sl) a j)"
    using insert_after_pre[OF skl height split pre] by blast
  have "head sl \<noteq> ?n" using skl_next_addr[OF skl, of "head sl" 0] by auto
  then have "valid ((heap sl)(?n \<mapsto> new_node key value height)) (head sl) 0"
    "nxt ((heap sl)(?n \<mapsto> new_node key value height)) (head sl) 0 = ptr (lv 0) None"
    using sklD(7)[OF skl skl_MaxHeight[OF skl]]
    by (auto simp: nxt_def valid_def wf_node_def hgt_def)
  note G = ptr_ops(1)[OF this(1), unfolded this(2)]
  define tl0 where "tl0 = (if filter (\<lambda>a. \<not> False) (lv 0) = [] then Some ?n else tail sl)"
  let ?sl' = "sl\<lparr>rand := r, max_height := max (max_height sl) height, heap := h',
                next_addr := Suc ?n, tail := tl0\<rparr>"
  have le: "compare sl key (keyat (heap sl) a) \<le> 0" if "a \<in> set (lv 0)" for a
  proof -
    have "\<not> before sl key a"
      using that first sklD(11)[OF skl, of 0] before_downward[OF skl]
      by (cases "lv 0") auto
    then show ?thesis by (simp add: before_def)
  qed
  have "AddToFirst sl key value = Some (True, ?sl')"
  proof -
    have A: "arr_get pre 0 = Some (Some (head sl))" using pre[of 0] height by (simp add: arr_get_def pr)
    have I: "IsAfterNode sl key (ptr (lv 0) None) = Some False"
      using IsAfterNode_first[OF skl, of key] first by auto
    show ?thesis
      by (cases "height > max_height sl"; cases "lv 0 = []";
        insert R L G A I skl_first[OF skl]; simp add: AddToFirst_def NewNode_def pre_def tl0_def max_def)
  qed
  moreover have "skl ?sl' (splice_levels height ?n (\<lambda>_. False) lv)"
    using le by (intro skl_splice[OF skl refl height split _ _ sh nx tl0_def refl]) auto
  ultimately show ?thesis
    using height sh by (auto simp: inserted_def)
qed

end
