(* ===== verification/Skiplist_Cut.thy ===== *)
theory Skiplist_Cut
  imports Skiplist_Ops
begin

text \<open>
  The operations that take nodes out of a skip list: \<open>Remove\<close>, \<open>Split\<close>, the splits by
  position, and \<open>Clear\<close>.  A split returns the cut-off nodes as a linked list, which the
  caller walks and frees.
\<close>

section \<open>Remove\<close>

lemma lseg_unlink:
  assumes "lseg h i (hd0 # F @ r # G) None" "distinct (hd0 # F @ r # G)"
    and v: "\<And>a. valid h' a i = valid h a i"
    and n: "\<And>a. a \<noteq> r \<Longrightarrow> nxt h' a i = (if a = last (hd0 # F) then nxt h r i else nxt h a i)"
  shows "lseg h' i (hd0 # F @ G) None"
proof -
  define p where "p = last (hd0 # F)"
  obtain us where us: "hd0 # F = us @ [p]"
    unfolding p_def by (metis append_butlast_last_id list.distinct(1))
  note n' = n[folded p_def]
  have l: "lseg h i (us @ [p] @ r # G) None" and d: "distinct (us @ [p] @ r # G)"
    using assms(1,2) us by (metis append_Cons append_assoc)+
  have same: "nxt h' a i = nxt h a i" if "a \<in> set us \<or> a \<in> set G" for a
    using that d n'[of a] by (cases "a = r \<or> a = p") auto
  have "lseg h' i us (Some p)" using l same v by (subst lseg_cong[where h=h]) auto
  moreover have "lseg h' i G None" using l same v by (subst lseg_cong[where h=h]) auto
  ultimately have "lseg h' i (us @ [p] @ G) None" using l d n'[of p] v by auto
  then show ?thesis using us by (metis append_Cons append_assoc)
qed

lemma subseq_Cons_first:
  assumes "subseq xs (r # ys)" "r \<in> set xs" "distinct (r # ys)"
  shows "\<exists>zs. xs = r # zs \<and> subseq zs ys"
proof (cases xs)
  case (Cons a zs)
  then show ?thesis
    using assms subseq_set[of xs ys] by (cases "a = r") (auto simp: subseq_Cons2_iff)
qed (use assms in simp)

lemma level_at_first:
  assumes skl: "skl sl lv" and first: "filter (\<lambda>a. \<not> before sl key a) (lv 0) = r # G0"
    and "r \<in> set (lv i)"
  shows "lv i = filter (before sl key) (lv i) @ r # filter (\<lambda>a. \<not> before sl key a \<and> a \<noteq> r) (lv i)"
proof -
  let ?N = "\<lambda>a. \<not> before sl key a"
  have r: "?N r" using first by (metis filter_eq_Cons_iff)
  have "distinct (r # G0)" using sklD(10)[OF skl, of 0] first by (metis distinct.simps(2) distinct_filter)
  moreover have "subseq (filter ?N (lv i)) (r # G0)"
    using subseq_filter[OF skl_subseq[OF skl, of i], of ?N] first by simp
  ultimately obtain zs where zs: "filter ?N (lv i) = r # zs"
    using subseq_Cons_first[of "filter ?N (lv i)" r G0] assms(3) r by auto
  then have "r \<notin> set zs" using sklD(10)[OF skl, of i]
    by (metis distinct.simps(2) distinct_filter)
  then have "filter (\<lambda>a. a \<noteq> r) (filter ?N (lv i)) = zs"
    unfolding zs by (auto simp: filter_id_conv)
  then have "filter (\<lambda>a. ?N a \<and> a \<noteq> r) (lv i) = zs"
    by (simp add: conj_commute)
  then show ?thesis using level_split(1)[OF skl, of key i] zs by simp
qed

lemma filter_out_distinct: "distinct (F @ r # G) \<Longrightarrow> filter (\<lambda>a. a \<noteq> r) (F @ r # G) = F @ G"
  by (auto simp: filter_id_conv intro!: arg_cong2[where f="(@)"] filter_True)

text \<open>The levels without the node \<open>r\<close>.\<close>

definition drop_node :: "addr \<Rightarrow> (nat \<Rightarrow> addr list) \<Rightarrow> nat \<Rightarrow> addr list" where
  "drop_node r lv i = filter (\<lambda>a. a \<noteq> r) (lv i)"

lemma skl_unlink:
  assumes skl: "skl sl lv" and full: "full_levels sl lv"
    and first: "filter (\<lambda>a. \<not> before sl key a) (lv 0) = r # G0"
    and sh: "shapes h' = shapes (heap sl)"
    and nx: "\<And>a j. nxt h' a j = (if j < hgt (heap sl) r \<and> a = r then None
        else if j < hgt (heap sl) r \<and> a = pred sl lv key j then nxt (heap sl) r j else nxt (heap sl) a j)"
    and tl: "tl0 = (if G0 = [] then if pred sl lv key 0 = head sl then None else Some (pred sl lv key 0)
                    else tail sl)"
    and sl': "sl' = sl\<lparr>heap := h', tail := tl0\<rparr>"
  shows "skl sl' (drop_node r lv)" "full_levels sl' (drop_node r lv)"
proof -
  note fr = shapes_eqD[OF sh]
  have r0: "r \<in> set (lv 0)" using first by (metis filter_eq_Cons_iff in_set_conv_decomp)
  have at: "lv i = filter (before sl key) (lv i) @ r # filter (\<lambda>a. \<not> before sl key a \<and> a \<noteq> r) (lv i)"
    if "i < hgt (heap sl) r" for i
    using full r0 that by (intro level_at_first[OF skl first]) (auto simp: full_levels_def)
  have notin: "r \<notin> set (lv i)" if "\<not> i < hgt (heap sl) r" "i < MaxHeight sl" for i
    using that skl_valid[OF skl that(2)] by (auto simp: valid_def)
  have seg: "lseg h' i (head sl # drop_node r lv i) None" if i: "i < MaxHeight sl" for i
  proof (cases "i < hgt (heap sl) r")
    case True
    let ?F = "filter (before sl key) (lv i)" and ?G = "filter (\<lambda>a. \<not> before sl key a \<and> a \<noteq> r) (lv i)"
    have d: "distinct (head sl # ?F @ r # ?G)" "lseg (heap sl) i (head sl # ?F @ r # ?G) None"
      using sklD(10)[OF skl, of i] sklD(7)[OF skl i] by (simp_all only: at[OF True, symmetric])
    have "lseg h' i (head sl # ?F @ ?G) None"
      by (rule lseg_unlink[OF d(2,1)]) (use True in \<open>simp_all add: fr nx pred_at_def\<close>)
    moreover have "drop_node r lv i = ?F @ ?G"
    proof -
      have "drop_node r lv i = filter (\<lambda>a. a \<noteq> r) (?F @ r # ?G)"
        unfolding drop_node_def by (simp only: at[OF True, symmetric])
      also have "\<dots> = ?F @ ?G" using d(1) by (intro filter_out_distinct) simp
      finally show ?thesis .
    qed
    ultimately show ?thesis by simp
  next
    case False
    then have "drop_node r lv i = lv i" using notin[OF False i] by (auto simp: drop_node_def filter_id_conv)
    then show ?thesis using sklD(7)[OF skl i] False
      by (simp only:) (subst lseg_cong[where h="heap sl"], auto simp: fr nx)
  qed
  have full': "a \<in> set (drop_node r lv i)" if "a \<in> set (drop_node r lv 0)" "i < hgt h' a" for a i
    using that full by (auto simp: drop_node_def full_levels_def fr)
  then show "full_levels sl' (drop_node r lv)" by (simp add: full_levels_def sl')
  have tail: "tail_ok sl' (drop_node r lv 0)"
  proof -
    let ?F = "filter (before sl key) (lv 0)"
    have lv0: "lv 0 = ?F @ r # G0" using level_split(1)[OF skl, of key 0] first by simp
    have d: "distinct (head sl # ?F @ r # G0)" using sklD(10)[OF skl, of 0] by (simp only: lv0[symmetric])
    have "drop_node r lv 0 = filter (\<lambda>a. a \<noteq> r) (?F @ r # G0)"
      unfolding drop_node_def by (simp only: lv0[symmetric])
    then have dr: "drop_node r lv 0 = ?F @ G0"
      using d filter_out_distinct[of ?F r G0] by (simp del: filter_append)
    have "tail sl = Some (last (?F @ r # G0))"
      using sklD(14)[OF skl] r0 unfolding tail_ok_def lv0[symmetric] by (cases "lv 0 = []") auto
    moreover have "?F \<noteq> [] \<Longrightarrow> last ?F \<noteq> head sl" using d last_in_set[of ?F] by auto
    ultimately show ?thesis
      unfolding tail_ok_def dr by (simp add: sl' tl pred_at_def)
  qed
  have "key_le sl' = key_le sl" by (intro ext) (simp add: key_le_def sl' fr)
  then have "sorted_wrt (key_le sl') (drop_node r lv i)" for i
    using sklD(11)[OF skl, of i] by (simp add: drop_node_def sorted_wrt_filter)
  moreover have "subseq (drop_node r lv (Suc i)) (drop_node r lv i)" for i
    using sklD(9)[OF skl, of i] unfolding drop_node_def by (rule subseq_filter)
  moreover have "distinct (head sl # drop_node r lv i)" for i
    using sklD(10)[OF skl, of i] by (auto simp: drop_node_def)
  moreover have "hgt h' a \<le> max_height sl" if "a \<in> set (drop_node r lv 0)" for a
    using that sklD(12)[OF skl, of a] by (auto simp: drop_node_def fr)
  moreover have "drop_node r lv i = []" if "max_height sl \<le> i" for i
    using that sklD(8)[OF skl, of i] by (simp add: drop_node_def)
  moreover have "a < next_addr sl" if "h' a \<noteq> None" for a
    using that fr(6)[of a] by (intro sklD(5)[OF skl]) simp
  moreover have "a \<notin> set (drop_node r lv i) \<longrightarrow> nxt h' a i = None"
    if "a \<in> set (drop_node r lv 0)" "i < hgt h' a" for a i
    using full'[OF that] by blast
  ultimately show "skl sl' (drop_node r lv)"
    using sklD(1-4,6)[OF skl] seg tail
    unfolding skl_def by (simp add: sl' fr(2)[of "head sl"])
qed

text \<open>The first node whose key is \<open>key\<close>, if any.\<close>

definition first_eq :: "('k, 'v) skiplist \<Rightarrow> addr list \<Rightarrow> 'k \<Rightarrow> addr option" where
  "first_eq sl as key = find (\<lambda>a. keyat (heap sl) a = key) as"

lemma first_eq_ptr:
  assumes skl: "skl sl lv"
  shows "first_eq sl (lv 0) key =
    (case filter (\<lambda>a. \<not> before sl key a) (lv 0) of [] \<Rightarrow> None
     | r # _ \<Rightarrow> if keyat (heap sl) r = key then Some r else None)"
proof -
  note c = sklD(1)[OF skl]
  let ?N = "\<lambda>a. \<not> before sl key a"
  have b: "keyat (heap sl) a = key \<Longrightarrow> ?N a" for a
    using comparator.cmp_refl[OF c, of key] by (auto simp: before_def)
  have "find (\<lambda>a. keyat (heap sl) a = key) (filter (before sl key) (lv 0)) = None"
    using b by (auto simp: find_None_iff)
  then have f: "first_eq sl (lv 0) key = find (\<lambda>a. keyat (heap sl) a = key) (filter ?N (lv 0))"
    unfolding first_eq_def by (subst level_split(1)[OF skl, of key 0, symmetric]) (simp add: find_append)
  show ?thesis
  proof (cases "filter ?N (lv 0)")
    case Nil
    then show ?thesis using f by simp
  next
    case (Cons r G)
    have le: "key_le sl r a" if "a \<in> set G" for a
      using that sorted_wrt_filter[OF sklD(11)[OF skl, of 0], of ?N] unfolding Cons by simp
    have r: "compare sl key (keyat (heap sl) r) \<le> 0"
      using Cons by (auto simp: before_def filter_eq_Cons_iff)
    have "keyat (heap sl) r = key" if "a \<in> set G" "keyat (heap sl) a = key" for a
      using le[OF that(1)] r that(2) comparator.cmp_eq[OF c] comparator.cmp_ge[OF c, of key "keyat (heap sl) r"]
      by (metis antisym key_le_def)
    then show ?thesis unfolding f Cons by (auto simp: find_None_iff)
  qed
qed

lemma Remove_absent:
  assumes skl: "skl sl lv" and none: "first_eq sl (lv 0) key = None"
  shows "Remove sl key = Some (None, sl)"
proof (cases "filter (\<lambda>a. \<not> before sl key a) (lv 0)")
  case Nil
  then show ?thesis
    using FindLessOrEqual_skl[OF skl] pred_at_nxt[OF skl skl_MaxHeight[OF skl] level_split(1)[OF skl, of key]]
    by (simp add: Remove_def ptr_simps)
next
  case (Cons r G)
  then have "r \<in> set (lv 0)" by (metis filter_eq_Cons_iff in_set_conv_decomp)
  then show ?thesis
    using Cons none FindLessOrEqual_skl[OF skl] skl_wf_node[OF skl, of r]
      pred_at_nxt[OF skl skl_MaxHeight[OF skl] level_split(1)[OF skl, of key]]
      comparator.cmp_eq[OF sklD(1)[OF skl]]
    by (simp add: Remove_def ptr_simps first_eq_ptr[OF skl] split: if_splits)
qed

lemma Remove_found:
  assumes skl: "skl sl lv" and full: "full_levels sl lv" and r: "first_eq sl (lv 0) key = Some r"
  shows "\<exists>h' tl0. Remove sl key = Some (Some r, sl\<lparr>heap := h', tail := tl0\<rparr>) \<and>
    skl (sl\<lparr>heap := h', tail := tl0\<rparr>) (drop_node r lv) \<and>
    full_levels (sl\<lparr>heap := h', tail := tl0\<rparr>) (drop_node r lv) \<and>
    shapes h' = shapes (heap sl) \<and> (\<forall>j<hgt h' r. nxt h' r j = None)"
proof -
  obtain G0 where first: "filter (\<lambda>a. \<not> before sl key a) (lv 0) = r # G0" and k: "keyat (heap sl) r = key"
    using r unfolding first_eq_ptr[OF skl] by (auto split: list.splits if_splits)
  have r0: "r \<in> set (lv 0)" using first by (metis filter_eq_Cons_iff in_set_conv_decomp)
  let ?pr = "pred sl lv key"
  define pre where "pre = map (\<lambda>j. if j < max_height sl then Some (?pr j)
      else replicate (MaxHeight sl) (Some (head sl)) ! j) [0..<MaxHeight sl]"
  have F: "FindLessOrEqual sl key (replicate (MaxHeight sl) (Some (head sl))) = Some (Some (?pr 0), pre)"
    using FindLessOrEqual_skl[OF skl, of key] by (simp add: pre_def)
  have hr: "hgt (heap sl) r \<le> max_height sl" "max_height sl \<le> MaxHeight sl" "wf_node (heap sl) r"
    using sklD(12,3)[OF skl] r0 skl_wf_node[OF skl] by auto
  have nb: "\<not> before sl key r" using first by (metis filter_eq_Cons_iff)
  have ne: "?pr i \<noteq> r" for i
    using pred_at_cases[of "head sl" lv "before sl key" i] nb r0 sklD(10)[OF skl, of 0] by auto
  have pre: "i < length pre \<and> pre ! i = Some (?pr i) \<and> valid (heap sl) (?pr i) i \<and> ?pr i \<noteq> r"
    if "i < hgt (heap sl) r" for i
    using that hr pred_at_nxt(1)[OF skl _ level_split(1)[OF skl], of i key] ne by (simp add: pre_def)
  obtain h' where U: "unlink_node pre (Some r) (hgt (heap sl) r) (heap sl) = Some h'"
    and sh: "shapes h' = shapes (heap sl)"
    and nx: "\<And>b j. nxt h' b j = (if j < hgt (heap sl) r \<and> b = r then None
        else if j < hgt (heap sl) r \<and> b = ?pr j then nxt (heap sl) r j else nxt (heap sl) b j)"
    using unlink_node_result[of "hgt (heap sl) r" "heap sl" r pre ?pr] pre hr by (auto simp: valid_def)
  define tl0 where "tl0 = (if G0 = [] then if ?pr 0 = head sl then None else Some (?pr 0) else tail sl)"
  have "0 < length pre" "pre ! 0 = Some (?pr 0)"
    using sklD(2,3)[OF skl] by (auto simp: pre_def)
  moreover have "(Some r = tail sl) = (G0 = [])"
  proof -
    have lv0: "lv 0 = filter (before sl key) (lv 0) @ r # G0"
      using level_split(1)[OF skl, of key 0] first by simp
    have "tail sl = Some (last (filter (before sl key) (lv 0) @ r # G0))"
      using sklD(14)[OF skl] r0 unfolding tail_ok_def lv0[symmetric] by (cases "lv 0 = []") auto
    moreover have "distinct (r # G0)"
      using sklD(10)[OF skl, of 0] first by (metis distinct.simps(2) distinct_filter)
    ultimately show ?thesis by auto
  qed
  ultimately have "Remove sl key = Some (Some r, sl\<lparr>heap := h', tail := tl0\<rparr>)"
    using F U hr k comparator.cmp_refl[OF sklD(1)[OF skl]] first
      pred_at_nxt[OF skl skl_MaxHeight[OF skl] level_split(1)[OF skl, of key]]
    by (auto simp: Remove_def ptr_simps arr_get_def tl0_def)
  moreover note skl_unlink[OF skl full first sh nx tl0_def refl]
  moreover have "\<forall>j<hgt h' r. nxt h' r j = None" by (simp add: nx shapes_eqD(2)[OF sh])
  ultimately show ?thesis using sh by blast
qed

end
