(* ===== verification/Skiplist_Split.thy ===== *)
theory Skiplist_Split
  imports Skiplist_Cut
begin

text \<open>
  The splits: \<open>Split\<close> cuts a list at a key, \<open>SplitByPos\<close> after a number of nodes, and
  \<open>SplitByKeyOrPos\<close> / \<open>SplitByKeyAndPos\<close> at the earlier or later of the two.  Each
  returns the nodes it cut off, still linked on level 0.
\<close>

section \<open>Truncating every level\<close>

lemma lseg_truncate:
  assumes "lseg h i (hd0 # F @ G) None" "distinct (hd0 # F @ G)"
    and v: "\<And>a. valid h' a i = valid h a i"
    and n: "\<And>a. a \<in> set (hd0 # F) \<Longrightarrow> nxt h' a i = (if a = last (hd0 # F) then None else nxt h a i)"
  shows "lseg h' i (hd0 # F) None"
proof -
  define p where "p = last (hd0 # F)"
  obtain us where us: "hd0 # F = us @ [p]"
    unfolding p_def by (metis append_butlast_last_id list.distinct(1))
  have l: "lseg h i (us @ [p] @ G) None" and d: "distinct (us @ [p] @ G)"
    using assms(1,2) us by (metis append_Cons append_assoc)+
  have n': "nxt h' a i = (if a = p then None else nxt h a i)" if "a \<in> set (us @ [p])" for a
    using n[of a] that unfolding us[symmetric] p_def[symmetric] by blast
  have "lseg h' i us (Some p)" using l d n' v by (subst lseg_cong[where h=h]) auto
  then have "lseg h' i (us @ [p]) None" using l d n'[of p] v by auto
  then show ?thesis using us by simp
qed

lemma skl_truncate:
  assumes skl: "skl sl lv"
    and lv: "\<And>i. lv i = F i @ G i" and sub: "\<And>i. subseq (F (Suc i)) (F i)"
    and sh: "shapes h' = shapes (heap sl)"
    and nx: "\<And>i a. i < MaxHeight sl \<Longrightarrow> a \<in> set (head sl # F i) \<Longrightarrow>
       nxt h' a i = (if a = last (head sl # F i) then None else nxt (heap sl) a i)"
    and stray: "\<And>i a. a \<in> set (F 0) \<Longrightarrow> i < hgt (heap sl) a \<Longrightarrow> a \<notin> set (F i) \<Longrightarrow> nxt h' a i = None"
    and sl': "sl' = sl\<lparr>heap := h', tail := Some (last (head sl # F 0))\<rparr>"
  shows "skl sl' F"
proof -
  note fr = shapes_eqD[OF sh]
  have "key_le sl' = key_le sl" by (intro ext) (simp add: key_le_def sl' fr)
  then have "sorted_wrt (key_le sl') (F i)" for i
    using sklD(11)[OF skl, of i] by (simp add: lv sorted_wrt_append)
  moreover have "lseg h' i (head sl # F i) None" if i: "i < MaxHeight sl" for i
    using sklD(7)[OF skl i] sklD(10)[OF skl, of i] unfolding lv
    by (rule lseg_truncate) (rule fr, rule nx[OF i])
  moreover have "distinct (head sl # F i)" for i
    using sklD(10)[OF skl, of i] by (simp add: lv)
  moreover have "hgt h' a \<le> max_height sl" if "a \<in> set (F 0)" for a
    using that sklD(12)[OF skl, of a] by (simp add: lv fr)
  moreover have "F i = []" if "max_height sl \<le> i" for i
    using that sklD(8)[OF skl, of i] by (simp add: lv)
  moreover have "a < next_addr sl" if "h' a \<noteq> None" for a
    using that fr(6)[of a] by (intro sklD(5)[OF skl]) simp
  moreover have "a \<notin> set (F i) \<longrightarrow> nxt h' a i = None"
    if "a \<in> set (F 0)" "i < hgt h' a" for a i
    using stray[of a i] that by (simp add: fr)
  moreover have "tail_ok sl' (F 0)" by (simp add: tail_ok_def sl')
  ultimately show ?thesis
    using sklD(1-4,6)[OF skl] sub
    unfolding skl_def by (simp add: sl' fr(2)[of "head sl"])
qed

section \<open>What a split promises\<close>

text \<open>
  After a split that keeps the first \<open>n\<close> nodes: the list holds them, the returned
  pointer leads to the others, and no key, value or height has changed.
\<close>

definition split_at :: "nat \<Rightarrow> ('k, 'v) skiplist \<Rightarrow> addr list \<Rightarrow> addr option \<Rightarrow> ('k, 'v) skiplist \<Rightarrow> bool" where
  "split_at n sl as p sl' \<longleftrightarrow>
     (\<exists>lv'. skl sl' lv' \<and> lv' 0 = take n as) \<and>
     p = ptr (drop n as) None \<and> lseg (heap sl') 0 (drop n as) None \<and>
     shapes (heap sl') = shapes (heap sl) \<and>
     sl' = sl\<lparr>heap := heap sl', tail := tail sl'\<rparr>"

lemma Split_skl:
  assumes skl: "skl sl lv"
  shows "\<exists>h' p. Split sl key = Some (p, sl\<lparr>heap := h', tail := Some (pred sl lv key 0)\<rparr>) \<and>
    skl (sl\<lparr>heap := h', tail := Some (pred sl lv key 0)\<rparr>) (\<lambda>i. filter (before sl key) (lv i)) \<and>
    p = ptr (filter (\<lambda>a. \<not> before sl key a) (lv 0)) None \<and>
    lseg h' 0 (filter (\<lambda>a. \<not> before sl key a) (lv 0)) None \<and> shapes h' = shapes (heap sl)"
proof -
  let ?pr = "pred sl lv key" and ?M = "MaxHeight sl"
  define pre where "pre = map (\<lambda>j. if j < max_height sl then Some (?pr j)
      else replicate ?M None ! j) [0..<?M]"
  have F: "FindLessOrEqual sl key (replicate ?M None) = Some (Some (?pr 0), pre)"
    using FindLessOrEqual_skl[OF skl, of key] by (simp add: pre_def)
  note split = level_split(1)[OF skl, of key]
  note pv = pred_at_nxt[OF skl _ split]
  have "\<exists>h'. foldM (\<lambda>i h. do { p \<leftarrow> arr_get pre i; if p = None then Some h else SetNext h p i None })
      [0..<?M] (heap sl) = Some h' \<and> shapes h' = shapes (heap sl) \<and>
      (\<forall>b j. nxt h' b j = (if j < ?M \<and> b = ?pr j then None else nxt (heap sl) b j))"
  proof (rule foldM_upt_rule[where I="\<lambda>k h'. shapes h' = shapes (heap sl) \<and>
      (\<forall>b j. nxt h' b j = (if j < k \<and> b = ?pr j then None else nxt (heap sl) b j))"])
    fix i h1
    assume i: "i < ?M" and I: "shapes h1 = shapes (heap sl) \<and>
      (\<forall>b j. nxt h1 b j = (if j < i \<and> b = ?pr j then None else nxt (heap sl) b j))"
    have nopre: "nxt (heap sl) (?pr i) i = None" if "\<not> i < max_height sl"
      using that sklD(8)[OF skl, of i] pv(2)[OF i] by simp
    show "\<exists>s'. do { p \<leftarrow> arr_get pre i; if p = None then Some h1 else SetNext h1 p i None } = Some s' \<and>
      shapes s' = shapes (heap sl) \<and>
      (\<forall>b j. nxt s' b j = (if j < Suc i \<and> b = ?pr j then None else nxt (heap sl) b j))"
      using i I pv(1)[OF i] nopre shapes_eqD(5)[of h1 "heap sl"]
      by (auto simp: arr_get_def pre_def ptr_simps less_Suc_eq)
  qed auto
  then obtain h' where L: "foldM (\<lambda>i h. do { p \<leftarrow> arr_get pre i;
        if p = None then Some h else SetNext h p i None }) [0..<?M] (heap sl) = Some h'"
    and sh: "shapes h' = shapes (heap sl)"
    and nx: "\<And>b j. nxt h' b j = (if j < ?M \<and> b = ?pr j then None else nxt (heap sl) b j)"
    by blast
  let ?sl' = "sl\<lparr>heap := h', tail := Some (?pr 0)\<rparr>" and ?N = "\<lambda>a. \<not> before sl key a"
  have "Split sl key = Some (ptr (filter ?N (lv 0)) None, ?sl')"
    using F L pv[OF skl_MaxHeight[OF skl]] by (simp add: Split_def ptr_simps)
  moreover have "skl ?sl' (\<lambda>i. filter (before sl key) (lv i))"
  proof (rule skl_truncate[OF skl split[symmetric] _ sh])
    show "subseq (filter (before sl key) (lv (Suc i))) (filter (before sl key) (lv i))" for i
      using sklD(9)[OF skl, of i] by (rule subseq_filter)
    show "nxt h' a i = None" if "a \<in> set (filter (before sl key) (lv 0))" "i < hgt (heap sl) a"
        "a \<notin> set (filter (before sl key) (lv i))" for a i
      using that sklD(13)[OF skl, of a i] by (auto simp: nx)
  qed (auto simp: nx pred_at_def)
  moreover have "lseg h' 0 (filter ?N (lv 0)) None"
  proof -
    have "lseg (heap sl) 0 (filter ?N (lv 0)) None"
      using sklD(7)[OF skl skl_MaxHeight[OF skl]] split[of 0] by (metis lseg.simps(2) lseg_append)
    moreover have "?pr 0 \<notin> set (filter ?N (lv 0))"
      using pred_at_cases[of "head sl" lv "before sl key" 0] sklD(10)[OF skl, of 0] by auto
    ultimately show ?thesis using sh by (subst lseg_cong[where h="heap sl"]) (auto simp: nx shapes_eqD(5)[OF sh])
  qed
  ultimately show ?thesis using sh by blast
qed

lemma filter_take_drop:
  assumes "filter P xs @ filter (\<lambda>a. \<not> P a) xs = xs"
  shows "take (length (filter P xs)) xs = filter P xs" "drop (length (filter P xs)) xs = filter (\<lambda>a. \<not> P a) xs"
  by (metis assms append_eq_conv_conj)+

lemma Split_at:
  assumes "skl sl lv"
  shows "\<exists>p sl'. Split sl key = Some (p, sl') \<and> split_at (length (filter (before sl key) (lv 0))) sl (lv 0) p sl'"
  using Split_skl[OF assms, of key] filter_take_drop[OF level_split(1)[OF assms, of key 0]]
  by (fastforce simp: split_at_def)

text \<open>On a list whose nodes are on all their levels, so are the nodes a split keeps.\<close>

lemma full_levels_filter:
  assumes "full_levels sl lv" "shapes (heap sl') = shapes (heap sl)"
  shows "full_levels sl' (\<lambda>i. filter P (lv i))"
  using assms(1) by (auto simp: full_levels_def shapes_eqD(2)[OF assms(2)])

section \<open>Splitting at a position\<close>

text \<open>The pointer of level \<open>j\<close> out of \<open>a\<close>, once links to keys from \<open>pk\<close> on are cut.\<close>

definition cut_nxt :: "('k \<Rightarrow> 'k \<Rightarrow> int) \<Rightarrow> 'k \<Rightarrow> ('k, 'v) heap \<Rightarrow> addr \<Rightarrow> nat \<Rightarrow> addr option" where
  "cut_nxt cmp pk h a j = (case nxt h a j of None \<Rightarrow> None
     | Some b \<Rightarrow> if 1 \<le> j \<and> j < hgt h a \<and> cmp pk (keyat h b) \<le> 0 then None else Some b)"

lemma cut_levels_result:
  assumes "wf_node h a" "wf_node h pn"
    and "\<And>i b. 1 \<le> i \<Longrightarrow> i < hgt h a \<Longrightarrow> nxt h a i = Some b \<Longrightarrow> wf_node h b"
  shows "\<exists>h'. cut_levels cmp (Some pn) (Some a) h = Some h' \<and> shapes h' = shapes h \<and>
    (\<forall>b j. nxt h' b j = (if b = a then cut_nxt cmp (keyat h pn) h a j else nxt h b j))"
proof (cases "1 \<le> hgt h a")
  case True
  let ?step = "\<lambda>i h. do { next \<leftarrow> GetNext h (Some a) i;
     if next = None then Some h
     else do { pk \<leftarrow> GetKey h (Some pn); nk \<leftarrow> GetKey h next;
               if cmp pk nk \<le> 0 then SetNext h (Some a) i None else Some h } }"
  let ?I = "\<lambda>k h'. shapes h' = shapes h \<and> (\<forall>b j. nxt h' b j =
     (if b = a \<and> j < k then cut_nxt cmp (keyat h pn) h a j else nxt h b j))"
  have "\<exists>h'. foldM ?step [1..<hgt h a] h = Some h' \<and> ?I (hgt h a) h'"
  proof (rule foldM_upt_rule[where I="?I"])
    show "?I 1 h" by (auto simp: cut_nxt_def split: option.splits)
    fix i h1
    assume i: "1 \<le> i" "i < hgt h a" and I: "?I i h1"
    note fr = shapes_eqD[of h1 h]
    have v: "valid h1 a i" using i assms(1) I fr(5)[of a i] by (simp add: valid_def)
    show "\<exists>h'. ?step i h1 = Some h' \<and> ?I (Suc i) h'"
    proof (cases "nxt h a i")
      case None
      then show ?thesis using v I i by (auto simp: ptr_simps cut_nxt_def less_Suc_eq)
    next
      case (Some b)
      then have w: "wf_node h1 b" "wf_node h1 pn" using assms(2,3) i I fr(1) by auto
      show ?thesis
      proof (cases "cmp (keyat h pn) (keyat h b) \<le> 0")
        case True
        then show ?thesis using v I i w Some fr(3) by (auto simp: ptr_simps cut_nxt_def less_Suc_eq)
      next
        case False
        then show ?thesis using v I i w Some fr(3) by (auto simp: ptr_simps cut_nxt_def less_Suc_eq)
      qed
    qed
  qed (use True in auto)
  moreover have "cut_nxt cmp (keyat h pn) h a j = nxt h a j" if "\<not> j < hgt h a" for j
    using that by (auto simp: cut_nxt_def split: option.splits)
  ultimately show ?thesis using assms(1) by (force simp: cut_levels_def ptr_simps)
next
  case False
  then have "cut_nxt cmp (keyat h pn) h a j = nxt h a j" for j
    by (auto simp: cut_nxt_def split: option.splits)
  then show ?thesis using assms(1) False by (simp add: cut_levels_def ptr_simps)
qed

lemma SplitOnPosNode_loop_result:
  assumes "lseg (heap sl) 0 (vis @ c # rest) None" "distinct (vis @ c # rest)"
    and "wf_node (heap sl) pn" "wf_node (heap sl) p"
    and "\<And>a i b. a \<in> set vis \<Longrightarrow> 1 \<le> i \<Longrightarrow> i < hgt (heap sl) a \<Longrightarrow> nxt (heap sl) a i = Some b \<Longrightarrow>
           wf_node (heap sl) b"
  shows "\<exists>h'. SplitOnPosNode_loop (length vis) sl (Some pn) (ptr vis (Some c)) (Some p)
      = Some (Some c, sl\<lparr>tail := Some (last (p # vis)), heap := h'\<rparr>) \<and> shapes h' = shapes (heap sl) \<and>
    (\<forall>a j. nxt h' a j = (if a = last (p # vis) \<and> j < hgt (heap sl) a then None
       else if a \<in> set vis then cut_nxt (compare sl) (keyat (heap sl) pn) (heap sl) a j
       else nxt (heap sl) a j))"
  using assms
proof (induction vis arbitrary: sl p)
  case Nil
  then show ?case using clear_nexts_result[OF Nil(4)]
    by (subst SplitOnPosNode_loop.simps) auto
next
  case (Cons v vis)
  let ?h = "heap sl" and ?pk = "keyat (heap sl) pn"
  have wv: "wf_node ?h v" using Cons.prems(1) by (simp add: valid_def)
  obtain h1 where C: "cut_levels (compare sl) (Some pn) (Some v) ?h = Some h1" and sh: "shapes h1 = shapes ?h"
    and nx: "\<And>b j. nxt h1 b j = (if b = v then cut_nxt (compare sl) ?pk ?h v j else nxt ?h b j)"
    using cut_levels_result[OF wv Cons.prems(3), of "compare sl"] Cons.prems(5)[of v] by auto
  note fr = shapes_eqD[OF sh]
  have n0: "nxt h1 b 0 = nxt ?h b 0" for b by (auto simp: nx cut_nxt_def split: option.splits)
  have v0: "valid h1 v 0" using Cons.prems(1) fr(5) by simp
  have same: "cut_nxt (compare sl) ?pk h1 a j = cut_nxt (compare sl) ?pk ?h a j" if "a \<noteq> v" for a j
    using that by (simp add: cut_nxt_def nx fr cong: option.case_cong)
  have G: "GetNext h1 (Some v) 0 = Some (ptr vis (Some c))"
    using v0 n0[of v] Cons.prems(1) by (simp add: ptr_simps)
  have step: "SplitOnPosNode_loop (length (v # vis)) sl (Some pn) (ptr (v # vis) (Some c)) (Some p)
      = SplitOnPosNode_loop (length vis) (sl\<lparr>heap := h1\<rparr>) (Some pn) (ptr vis (Some c)) (Some v)"
    by (subst SplitOnPosNode_loop.simps) (simp add: C G)
  have "\<exists>h'. SplitOnPosNode_loop (length vis) (sl\<lparr>heap := h1\<rparr>) (Some pn) (ptr vis (Some c)) (Some v)
      = Some (Some c, (sl\<lparr>heap := h1\<rparr>)\<lparr>tail := Some (last (v # vis)), heap := h'\<rparr>) \<and>
      shapes h' = shapes (heap (sl\<lparr>heap := h1\<rparr>)) \<and>
    (\<forall>a j. nxt h' a j = (if a = last (v # vis) \<and> j < hgt (heap (sl\<lparr>heap := h1\<rparr>)) a then None
       else if a \<in> set vis then cut_nxt (compare (sl\<lparr>heap := h1\<rparr>)) (keyat (heap (sl\<lparr>heap := h1\<rparr>)) pn)
              (heap (sl\<lparr>heap := h1\<rparr>)) a j
       else nxt (heap (sl\<lparr>heap := h1\<rparr>)) a j))"
  proof (rule Cons.IH)
    show "lseg (heap (sl\<lparr>heap := h1\<rparr>)) 0 (vis @ c # rest) None"
      using Cons.prems(1) by (subst lseg_cong[where h="?h"]) (auto simp: fr n0)
    show "wf_node (heap (sl\<lparr>heap := h1\<rparr>)) b" if "a \<in> set vis" "1 \<le> i"
      "i < hgt (heap (sl\<lparr>heap := h1\<rparr>)) a" "nxt (heap (sl\<lparr>heap := h1\<rparr>)) a i = Some b" for a i b
      using that Cons.prems(2) Cons.prems(5)[of a i b] by (auto simp: fr nx split: if_splits)
  qed (use Cons.prems fr wv in auto)
  then obtain h' where h': "SplitOnPosNode_loop (length vis) (sl\<lparr>heap := h1\<rparr>) (Some pn) (ptr vis (Some c)) (Some v)
      = Some (Some c, sl\<lparr>tail := Some (last (v # vis)), heap := h'\<rparr>)" "shapes h' = shapes ?h"
    "\<And>a j. nxt h' a j = (if a = last (v # vis) \<and> j < hgt ?h a then None
       else if a \<in> set vis then cut_nxt (compare sl) ?pk h1 a j else nxt h1 a j)"
    by (auto simp: fr sh simp del: last.simps cong: if_cong)
  have "last (p # v # vis) = last (v # vis)" "v \<notin> set vis" using Cons.prems(2) by auto
  then have "nxt h' a j = (if a = last (p # v # vis) \<and> j < hgt ?h a then None
       else if a \<in> set (v # vis) then cut_nxt (compare sl) ?pk ?h a j else nxt ?h a j)" for a j
    using h'(3)[of a j] same[of a j] nx[of a j] by auto
  then show ?case using h'(1,2) step by (auto simp del: last.simps simp: \<open>last (p # v # vis) = last (v # vis)\<close>)
qed

lemma lseg_next_in:
  "lseg h i (x # xs) q \<Longrightarrow> a \<in> set (x # xs) \<Longrightarrow> a \<noteq> last (x # xs) \<Longrightarrow> \<exists>b\<in>set xs. nxt h a i = Some b"
  by (induction xs arbitrary: x) (auto split: if_splits)

lemma lseg_next_sorted:
  "lseg h i xs None \<Longrightarrow> sorted_wrt R xs \<Longrightarrow> a \<in> set xs \<Longrightarrow> nxt h a i = Some b \<Longrightarrow> R a b \<and> b \<in> set xs"
proof (induction xs)
  case (Cons x xs)
  then show ?case by (cases xs) auto
qed simp

lemma subseq_last:
  "subseq xs ys \<Longrightarrow> distinct ys \<Longrightarrow> last ys \<in> set xs \<Longrightarrow> last xs = last ys"
proof (induction rule: list_emb.induct)
  case (list_emb_Cons xs ys y)
  then have "set xs \<subseteq> set ys" by (simp add: subseq_set)
  then show ?case using list_emb_Cons by (cases "ys = []") auto
next
  case (list_emb_Cons2 x y xs ys)
  then show ?case using subseq_set[of xs ys] last_in_set[of ys] by (cases "ys = []"; cases "xs = []") auto
qed simp

lemma skl_next_level:
  assumes skl: "skl sl lv" and "a = head sl \<or> a \<in> set (lv 0)" "i < hgt (heap sl) a" "nxt (heap sl) a i = Some b"
  shows "b \<in> set (lv i)" "a = head sl \<or> a \<in> set (lv i) \<and> key_le sl a b"
proof -
  have "b \<in> set (lv i) \<and> (a = head sl \<or> a \<in> set (lv i) \<and> key_le sl a b)"
  proof (cases "a = head sl")
    case True
    then have "i < MaxHeight sl" using assms sklD(6)[OF skl] by simp
    then show ?thesis using sklD(7)[OF skl, of i] assms(4) True by (cases "lv i") auto
  next
    case False
    then have a: "a \<in> set (lv i)" "i < MaxHeight sl"
      using assms sklD(12,13)[OF skl, of a] sklD(3)[OF skl] by force+
    then show ?thesis
      using lseg_next_sorted[OF _ sklD(11)[OF skl, of i] a(1) assms(4)] sklD(7)[OF skl a(2)] by simp
  qed
  then show "b \<in> set (lv i)" "a = head sl \<or> a \<in> set (lv i) \<and> key_le sl a b" by auto
qed

text \<open>The levels after a split at position \<open>pos\<close>, where the key is \<open>pk\<close>.\<close>

definition pos_kept :: "('k, 'v) skiplist \<Rightarrow> (nat \<Rightarrow> addr list) \<Rightarrow> nat \<Rightarrow> 'k \<Rightarrow> nat \<Rightarrow> addr list" where
  "pos_kept sl lv pos pk i = (if i = 0 then take pos (lv 0) else filter (before sl pk) (lv i))"

definition pos_cut :: "('k, 'v) skiplist \<Rightarrow> (nat \<Rightarrow> addr list) \<Rightarrow> nat \<Rightarrow> 'k \<Rightarrow> nat \<Rightarrow> addr list" where
  "pos_cut sl lv pos pk i = (if i = 0 then drop pos (lv 0) else filter (\<lambda>a. \<not> before sl pk a) (lv i))"

lemma pos_kept_cut: "skl sl lv \<Longrightarrow> lv i = pos_kept sl lv pos pk i @ pos_cut sl lv pos pk i"
  using level_split(1)[of sl lv pk i] by (simp add: pos_kept_def pos_cut_def)

lemma subseq_pos_kept:
  assumes skl: "skl sl lv" and pos: "pos < length (lv 0)" "pk = keyat (heap sl) (lv 0 ! pos)"
  shows "subseq (pos_kept sl lv pos pk (Suc i)) (pos_kept sl lv pos pk i)"
proof -
  let ?F = "filter (before sl pk) (lv 0)"
  have "subseq ?F (take pos (lv 0))"
  proof -
    have "\<not> before sl pk (lv 0 ! pos)"
      using comparator.cmp_refl[OF sklD(1)[OF skl]] pos by (simp add: before_def)
    moreover have "lv 0 ! pos \<in> set ?F" if "pos < length ?F"
      using that filter_take_drop(1)[OF level_split(1)[OF skl, of pk 0]] by (metis nth_mem nth_take)
    ultimately have "length ?F \<le> pos" by fastforce
    then have "?F = take (length ?F) (take pos (lv 0))"
      using filter_take_drop(1)[OF level_split(1)[OF skl, of pk 0]] by (simp add: min_absorb1)
    then show ?thesis by (metis prefix_imp_subseq take_is_prefix)
  qed
  moreover have "subseq (filter (before sl pk) (lv (Suc i))) (filter (before sl pk) (lv i))"
    using sklD(9)[OF skl, of i] by (rule subseq_filter)
  ultimately show ?thesis
    by (cases "i = 0") (auto simp: pos_kept_def intro: subseq_order.order_trans)
qed

lemma subseq_mono:
  assumes "\<And>i. subseq (F (Suc i)) (F i)"
  shows "subseq (F i) (F 0)"
  using assms by (induction i) (auto intro: subseq_order.order_trans)

lemma SplitOnPosNode_nxt:
  assumes skl: "skl sl lv" and pos: "pos < length (lv 0)" "pk = keyat (heap sl) (lv 0 ! pos)"
    and i: "i < MaxHeight sl" and a: "a \<in> set (head sl # pos_kept sl lv pos pk i)"
  shows "(if a = last (head sl # take pos (lv 0)) \<and> i < hgt (heap sl) a then None
       else cut_nxt (compare sl) pk (heap sl) a i)
     = (if a = last (head sl # pos_kept sl lv pos pk i) then None else nxt (heap sl) a i)"
proof -
  let ?F = "pos_kept sl lv pos pk" and ?G = "pos_cut sl lv pos pk"
  have l: "lseg (heap sl) i (head sl # ?F i @ ?G i) None"
    using sklD(7)[OF skl i] pos_kept_cut[OF skl, of i pos pk] by simp
  then have h: "i < hgt (heap sl) a" using a by (auto simp: valid_def dest: lseg_valid)
  have last: "a = last (head sl # ?F i)" if "a = last (head sl # ?F 0)"
  proof -
    have "subseq (head sl # ?F i) (head sl # ?F 0)"
      using subseq_mono[of ?F i] subseq_pos_kept[OF skl pos] by (auto simp: subseq_Cons2_iff)
    moreover have "distinct (head sl # ?F 0)"
      using sklD(10)[OF skl, of 0] pos_kept_cut[OF skl, of 0 pos pk] by (metis append_Cons distinct_append)
    ultimately show ?thesis using subseq_last[of "head sl # ?F i" "head sl # ?F 0"] that a by simp
  qed
  show ?thesis
  proof (cases "a = last (head sl # ?F i)")
    case True
    have "lseg (heap sl) i (butlast (head sl # ?F i) @ [a] @ ?G i) None"
      using l True by (metis append.assoc append_Cons append_butlast_last_id list.distinct(1))
    then have "nxt (heap sl) a i = ptr (?G i) None" by simp
    then have "i = 0 \<or> cut_nxt (compare sl) pk (heap sl) a i = None"
      using h by (cases "?G i")
        (auto simp: cut_nxt_def pos_cut_def before_def filter_eq_Cons_iff split: if_splits)
    then show ?thesis using True h by (auto simp: pos_kept_def)
  next
    case False
    then obtain b where b: "b \<in> set (?F i)" "nxt (heap sl) a i = Some b"
      using lseg_next_in[of "heap sl" i "head sl" "?F i" _ a] l a by fastforce
    then have "cut_nxt (compare sl) pk (heap sl) a i = Some b"
      by (auto simp: cut_nxt_def pos_kept_def before_def split: if_splits)
    moreover have "a \<noteq> last (head sl # ?F 0)" using False last by blast
    ultimately show ?thesis using False b(2) unfolding pos_kept_def[of sl lv pos pk 0] by simp
  qed
qed

lemma SplitOnPosNode_at:
  assumes skl: "skl sl lv" and pos: "pos < length (lv 0)"
  shows "\<exists>p sl'. SplitOnPosNode sl pos (Some (lv 0 ! pos)) = Some (p, sl') \<and> split_at pos sl (lv 0) p sl'"
proof -
  let ?c = "lv 0 ! pos" and ?h = "heap sl"
  define pk where "pk = keyat ?h ?c"
  let ?F = "pos_kept sl lv pos pk" and ?vis = "head sl # take pos (lv 0)"
  have lv0: "lv 0 = take pos (lv 0) @ ?c # drop (Suc pos) (lv 0)" using pos by (rule id_take_nth_drop)
  have l: "lseg ?h 0 (?vis @ ?c # drop (Suc pos) (lv 0)) None" "distinct (?vis @ ?c # drop (Suc pos) (lv 0))"
    using sklD(7)[OF skl skl_MaxHeight[OF skl]] sklD(10)[OF skl, of 0] lv0 by (metis append_Cons)+
  have vis: "a = head sl \<or> a \<in> set (lv 0)" if "a \<in> set ?vis" for a
    using that by (auto dest: in_set_takeD)
  have w: "wf_node ?h ?c" "wf_node ?h (head sl)" using skl_wf_node[OF skl] pos by auto
  have wb: "wf_node ?h b" if "a \<in> set ?vis" "1 \<le> i" "i < hgt ?h a" "nxt ?h a i = Some b" for a i b
    using skl_next_level(1)[OF skl vis[OF that(1)] that(3,4)] skl_levels[OF skl, of i] skl_wf_node[OF skl, of b]
    by auto
  have len: "length ?vis = Suc pos" using pos by simp
  have same_last: "last (head sl # ?vis) = last ?vis" by simp
  obtain h' where L: "SplitOnPosNode sl pos (Some ?c) = Some (Some ?c, sl\<lparr>tail := Some (last ?vis), heap := h'\<rparr>)"
    and sh: "shapes h' = shapes ?h"
    and nx: "\<And>a j. nxt h' a j = (if a = last ?vis \<and> j < hgt ?h a then None
       else if a \<in> set ?vis then cut_nxt (compare sl) pk ?h a j else nxt ?h a j)"
  proof -
    have "\<exists>h'. SplitOnPosNode_loop (length ?vis) sl (Some ?c) (ptr ?vis (Some ?c)) (Some (head sl))
      = Some (Some ?c, sl\<lparr>tail := Some (last (head sl # ?vis)), heap := h'\<rparr>) \<and> shapes h' = shapes ?h \<and>
      (\<forall>a j. nxt h' a j = (if a = last (head sl # ?vis) \<and> j < hgt ?h a then None
       else if a \<in> set ?vis then cut_nxt (compare sl) (keyat ?h ?c) ?h a j else nxt ?h a j))"
      by (rule SplitOnPosNode_loop_result[OF l w]) (rule wb)
    then show thesis using that unfolding len same_last SplitOnPosNode_def pk_def ptr_simps' by blast
  qed
  let ?sl' = "sl\<lparr>tail := Some (last ?vis), heap := h'\<rparr>"
  note sub = subseq_pos_kept[OF skl pos pk_def]
  have "skl ?sl' ?F"
  proof (rule skl_truncate[OF skl pos_kept_cut[OF skl] sub sh])
    fix i a assume i: "i < MaxHeight sl" and a: "a \<in> set (head sl # ?F i)"
    have "set (?F i) \<subseteq> set (?F 0)" by (intro subseq_set subseq_mono sub)
    then have v: "a \<in> set ?vis" using a by (auto simp: pos_kept_def)
    show "nxt h' a i = (if a = last (head sl # ?F i) then None else nxt ?h a i)"
      unfolding nx[of a i] if_P[OF v] by (rule SplitOnPosNode_nxt[OF skl pos pk_def i a])
  next
    fix i a assume a: "a \<in> set (?F 0)" "i < hgt ?h a" "a \<notin> set (?F i)"
    then have i: "i \<noteq> 0" and v: "a \<in> set ?vis" "a \<noteq> head sl" "a \<in> set (lv 0)"
      using sklD(10)[OF skl, of 0] by (auto simp: pos_kept_def split: if_splits dest: in_set_takeD)
    have "cut_nxt (compare sl) pk ?h a i = None"
    proof (cases "nxt ?h a i")
      case (Some b)
      then have "a \<in> set (lv i)" "key_le sl a b"
        using skl_next_level(2)[OF skl vis[OF v(1)] a(2) Some] v by auto
      then have "\<not> before sl pk b" using before_downward[OF skl, of a b pk] a(3) i by (auto simp: pos_kept_def)
      then show ?thesis using Some i a(2) by (simp add: cut_nxt_def before_def)
    qed (simp add: cut_nxt_def)
    then show "nxt h' a i = None" unfolding nx[of a i] if_P[OF v(1)] by simp
  qed (simp add: pos_kept_def)
  moreover have "lseg h' 0 (drop pos (lv 0)) None"
  proof -
    have "lseg ?h 0 (drop pos (lv 0)) None" 
      using sklD(7)[OF skl skl_MaxHeight[OF skl]] lseg_append[of ?h 0 "take pos (lv 0)" "drop pos (lv 0)" None]
      by simp
    moreover have "a \<notin> set ?vis" if "a \<in> set (drop pos (lv 0))" for a
      using that sklD(10)[OF skl, of 0] set_take_disj_set_drop_if_distinct[of "lv 0" pos pos]
      by (auto dest: in_set_dropD)
    moreover have "last ?vis \<in> set ?vis" by (rule last_in_set) simp
    ultimately show ?thesis
      by (subst lseg_cong[where h="?h"]) (auto simp: nx shapes_eqD(5)[OF sh] simp del: last.simps)
  qed
  ultimately show ?thesis
    using L sh pos unfolding split_at_def
    by (intro exI[of _ "Some ?c"] exI[of _ ?sl'] conjI)
      (auto simp: pos_kept_def Cons_nth_drop_Suc[symmetric] intro!: exI[of _ ?F])
qed

section \<open>The scans and the four splits\<close>

text \<open>The number of nodes strictly before a key.\<close>

abbreviation count_before :: "('k, 'v) skiplist \<Rightarrow> addr list \<Rightarrow> 'k \<Rightarrow> nat" where
  "count_before sl as key \<equiv> length (filter (before sl key) as)"

lemma SplitByPos_loop_result:
  "lseg h 0 as None \<Longrightarrow> SplitByPos_loop n h (ptr as None) = Some (ptr (drop n as) None)"
proof (induction n arbitrary: as)
  case (Suc n)
  then show ?case by (cases as) (auto simp: ptr_simps)
qed simp

lemma split_at_all: "skl sl lv \<Longrightarrow> length (lv 0) \<le> n \<Longrightarrow> split_at n sl (lv 0) None sl"
  by (auto simp: split_at_def)

lemma skl_level0: "skl sl lv \<Longrightarrow> lseg (heap sl) 0 (lv 0) None"
  using sklD(7)[of sl lv 0] skl_MaxHeight[of sl lv] by auto

lemma SplitByPos_at:
  assumes skl: "skl sl lv"
  shows "\<exists>p sl'. SplitByPos sl pos = Some (p, sl') \<and> split_at pos sl (lv 0) p sl'"
proof (cases "pos < length (lv 0)")
  case True
  then have "ptr (drop pos (lv 0)) None = Some (lv 0 ! pos)"
    by (simp add: Cons_nth_drop_Suc[symmetric])
  then show ?thesis
    using SplitOnPosNode_at[OF skl True] skl_first[OF skl] SplitByPos_loop_result[OF skl_level0[OF skl]]
    by (simp add: SplitByPos_def)
next
  case False
  then show ?thesis
    using split_at_all[OF skl, of pos] skl_first[OF skl] SplitByPos_loop_result[OF skl_level0[OF skl]]
    by (simp add: SplitByPos_def)
qed

lemma not_before_ge:
  "comparator (compare sl) \<Longrightarrow> (compare sl (keyat (heap sl) a) key \<ge> 0) = (\<not> before sl key a)"
  by (simp add: before_def comparator.cmp_ge not_less)

text \<open>The scans of the combined splits: where they stop on a list whose first \<open>k\<close> nodes are before the key.\<close>

lemma SplitByKeyOrPos_loop_result:
  assumes c: "comparator (compare sl)"
  shows "lseg (heap sl) 0 as None \<Longrightarrow> SplitByKeyOrPos_loop n sl key (ptr as None) =
    Some (let k = length (takeWhile (before sl key) as) in
          if k < n then (if k < length as then ScanKey (keyat (heap sl) (as ! k)) else ScanNull)
          else ScanPos (ptr (drop n as) None))"
proof (induction n arbitrary: as)
  case (Suc n)
  show ?case
  proof (cases as)
    case (Cons a as')
    then have "lseg (heap sl) 0 as' None" "wf_node (heap sl) a" "valid (heap sl) a 0"
      "nxt (heap sl) a 0 = ptr as' None"
      using Suc.prems by (auto simp: valid_def)
    then show ?thesis
      using Suc.IH[of as'] Cons not_before_ge[OF c, of a key]
      by (cases "before sl key a") (auto simp: ptr_simps Let_def)
  qed simp
qed simp

lemma SplitByKeyAndPos_loop_result:
  assumes c: "comparator (compare sl)"
  shows "lseg (heap sl) 0 as None \<Longrightarrow> SplitByKeyAndPos_loop n sl key f (ptr as None) =
    Some (f \<or> (\<exists>a\<in>set (take n as). \<not> before sl key a), ptr (drop n as) None)"
proof (induction n arbitrary: as f)
  case (Suc n)
  show ?case
  proof (cases as)
    case (Cons a as')
    then have "lseg (heap sl) 0 as' None" "wf_node (heap sl) a" "valid (heap sl) a 0"
      "nxt (heap sl) a 0 = ptr as' None"
      using Suc.prems by (auto simp: valid_def)
    then show ?thesis
      using Suc.IH[of as'] Cons not_before_ge[OF c, of a key] by (auto simp: ptr_simps)
  qed simp
qed simp

text \<open>The key at position \<open>k\<close> splits where the first key from \<open>key\<close> on is.\<close>

lemma count_before_nth:
  assumes skl: "skl sl lv" and k: "k = count_before sl (lv 0) key" "k < length (lv 0)"
  shows "count_before sl (lv 0) (keyat (heap sl) (lv 0 ! k)) = k"
proof -
  let ?P = "before sl key" and ?kk = "keyat (heap sl) (lv 0 ! k)"
  note c = sklD(1)[OF skl]
  have tk: "take k (lv 0) = filter ?P (lv 0)" "drop k (lv 0) = filter (\<lambda>a. \<not> ?P a) (lv 0)"
    using filter_take_drop[OF level_split(1)[OF skl, of key 0]] k by simp_all
  have dk: "drop k (lv 0) = lv 0 ! k # drop (Suc k) (lv 0)" using k(2) by (simp add: Cons_nth_drop_Suc)
  have n: "\<not> ?P (lv 0 ! k)" using tk(2) dk by (metis filter_eq_Cons_iff)
  have "before sl ?kk a" if "a \<in> set (take k (lv 0))" for a
    using that n comparator.cmp_le_trans[OF c, of key ?kk "keyat (heap sl) a"]
    by (force simp: tk before_def)
  moreover have "\<not> before sl ?kk a" if "a \<in> set (drop k (lv 0))" for a
  proof -
    have "sorted_wrt (key_le sl) (lv 0 ! k # drop (Suc k) (lv 0))"
      using sorted_wrt_drop[OF sklD(11)[OF skl, of 0], of k] dk by simp
    then show ?thesis using that dk comparator.cmp_refl[OF c] by (auto simp: before_def key_le_def)
  qed
  ultimately have "filter (before sl ?kk) (take k (lv 0)) = take k (lv 0)"
    "filter (before sl ?kk) (drop k (lv 0)) = []" by (blast intro: filter_True filter_False)+
  then have "filter (before sl ?kk) (lv 0) = take k (lv 0)"
    by (metis append_Nil2 append_take_drop_id filter_append)
  then have "count_before sl (lv 0) ?kk = length (take k (lv 0))" by (rule arg_cong)
  also have "\<dots> = k" using k(2) by (auto simp: min_def)
  finally show ?thesis .
qed

lemma SplitByKeyOrPos_at:
  assumes skl: "skl sl lv"
  shows "\<exists>p sl'. SplitByKeyOrPos sl key pos = Some (p, sl') \<and>
           split_at (min (count_before sl (lv 0) key) pos) sl (lv 0) p sl'"
proof -
  let ?k = "count_before sl (lv 0) key" and ?n = "length (lv 0)"
  have tw: "takeWhile (before sl key) (lv 0) = filter (before sl key) (lv 0)"
    by (rule takeWhile_filter, rule level_downward[OF skl]) (erule (1) before_downward[OF skl])
  note L = SplitByKeyOrPos_loop_result[OF sklD(1)[OF skl] skl_level0[OF skl], of pos key, unfolded tw Let_def]
  have kn: "?k \<le> ?n" by simp
  consider "?k < pos" "?k < ?n" | "?k < pos" "?k = ?n" | "pos \<le> ?k" "pos < ?n" | "pos \<le> ?k" "?n \<le> pos"
    using kn by linarith
  then show ?thesis
  proof cases
    case 1
    then show ?thesis
      using Split_at[OF skl, of "keyat (heap sl) (lv 0 ! ?k)"] count_before_nth[OF skl refl 1(2)] L skl_first[OF skl]
      by (simp add: SplitByKeyOrPos_def min_def)
  next
    case 2
    then show ?thesis using split_at_all[OF skl, of ?k] L skl_first[OF skl] by (simp add: SplitByKeyOrPos_def min_def)
  next
    case 3
    then have "ptr (drop pos (lv 0)) None = Some (lv 0 ! pos)" by (simp add: Cons_nth_drop_Suc[symmetric])
    then show ?thesis using 3 SplitOnPosNode_at[OF skl 3(2)] L skl_first[OF skl]
      by (simp add: SplitByKeyOrPos_def min_def)
  next
    case 4
    then show ?thesis using split_at_all[OF skl, of pos] L skl_first[OF skl] by (simp add: SplitByKeyOrPos_def min_def)
  qed
qed

lemma SplitByKeyAndPos_at:
  assumes skl: "skl sl lv"
  shows "\<exists>p sl'. SplitByKeyAndPos sl key pos = Some (p, sl') \<and>
           split_at (max (count_before sl (lv 0) key) pos) sl (lv 0) p sl'"
proof -
  let ?k = "count_before sl (lv 0) key" and ?n = "length (lv 0)"
  note L = SplitByKeyAndPos_loop_result[OF sklD(1)[OF skl] skl_level0[OF skl], of pos key False]
  show ?thesis
  proof (cases "pos < ?n")
    case True
    then have p: "ptr (drop pos (lv 0)) None = Some (lv 0 ! pos)" by (simp add: Cons_nth_drop_Suc[symmetric])
    have f: "(\<exists>a\<in>set (take pos (lv 0)). \<not> before sl key a) = (?k < pos)"
    proof -
      have "take ?k (lv 0) = filter (before sl key) (lv 0)" "drop ?k (lv 0) = filter (\<lambda>a. \<not> before sl key a) (lv 0)"
        using filter_take_drop[OF level_split(1)[OF skl, of key 0]] by simp_all
      moreover have "set (take pos (lv 0)) \<subseteq> set (take ?k (lv 0))" if "pos \<le> ?k"
        using that by (rule set_take_subset_set_take)
      moreover have "lv 0 ! ?k \<in> set (take pos (lv 0))" if "?k < pos"
        using that True nth_mem[of ?k "take pos (lv 0)"] by simp
      moreover have "lv 0 ! ?k \<in> set (drop ?k (lv 0))" if "?k < pos"
        using that True by (simp add: Cons_nth_drop_Suc[symmetric])
      ultimately show ?thesis by (cases "?k < pos") (auto simp: not_less)
    qed
    show ?thesis
    proof (cases "?k < pos")
      case k: True
      then show ?thesis using SplitOnPosNode_at[OF skl True] L p f skl_first[OF skl]
        by (simp add: SplitByKeyAndPos_def max_def)
    next
      case False
      then show ?thesis using Split_at[OF skl, of key] L p f skl_first[OF skl]
        by (simp add: SplitByKeyAndPos_def max_def)
    qed
  next
    case False
    then show ?thesis using split_at_all[OF skl, of "max ?k pos"] L skl_first[OF skl]
      by (simp add: SplitByKeyAndPos_def)
  qed
qed

end
