(* ===== verification/Skiplist_Spec.thy ===== *)
theory Skiplist_Spec
  imports Skiplist_Split "HOL-Library.Multiset"
begin

text \<open>
  The contract of the skip list: it represents a sorted list of key/value pairs.
  \<open>repr full sl xs\<close> says that \<open>sl\<close> is well-formed and holds the pairs \<open>xs\<close>; with \<open>full\<close>
  every node is also linked on all its levels, which \<open>Remove\<close> needs.  Each operation
  is shown to succeed and to implement its counterpart on pair lists.
\<close>

section \<open>The specification\<close>

definition pairs :: "('k, 'v) skiplist \<Rightarrow> addr list \<Rightarrow> ('k \<times> 'v) list" where
  "pairs sl as = map (\<lambda>a. (keyat (heap sl) a, valat (heap sl) a)) as"

definition rep :: "bool \<Rightarrow> ('k, 'v) skiplist \<Rightarrow> addr list \<Rightarrow> bool" where
  "rep full sl as \<longleftrightarrow> (\<exists>lv. skl sl lv \<and> (full \<longrightarrow> full_levels sl lv) \<and> lv 0 = as)"

definition repr :: "bool \<Rightarrow> ('k, 'v) skiplist \<Rightarrow> ('k \<times> 'v) list \<Rightarrow> bool" where
  "repr full sl xs \<longleftrightarrow> (\<exists>as. rep full sl as \<and> pairs sl as = xs)"

text \<open>The pairs strictly before a key and the others.\<close>

definition lower :: "('k \<Rightarrow> 'k \<Rightarrow> int) \<Rightarrow> 'k \<Rightarrow> ('k \<times> 'v) list \<Rightarrow> ('k \<times> 'v) list" where
  "lower cmp key xs = filter (\<lambda>x. cmp key (fst x) > 0) xs"

definition upper :: "('k \<Rightarrow> 'k \<Rightarrow> int) \<Rightarrow> 'k \<Rightarrow> ('k \<times> 'v) list \<Rightarrow> ('k \<times> 'v) list" where
  "upper cmp key xs = filter (\<lambda>x. \<not> cmp key (fst x) > 0) xs"

definition spec_insert :: "('k \<Rightarrow> 'k \<Rightarrow> int) \<Rightarrow> 'k \<Rightarrow> 'v \<Rightarrow> ('k \<times> 'v) list \<Rightarrow> ('k \<times> 'v) list" where
  "spec_insert cmp key val xs = lower cmp key xs @ (key, val) # upper cmp key xs"

fun spec_remove :: "'k \<Rightarrow> ('k \<times> 'v) list \<Rightarrow> ('k \<times> 'v) list" where
  "spec_remove key [] = []"
| "spec_remove key (x # xs) = (if fst x = key then xs else x # spec_remove key xs)"

section \<open>Representation\<close>

lemma repE:
  assumes "rep full sl as"
  obtains lv where "skl sl lv" "full \<Longrightarrow> full_levels sl lv" "lv 0 = as"
  using assms by (auto simp: rep_def)

lemma rep_weaken: "rep full sl as \<Longrightarrow> rep False sl as"
  by (auto simp: rep_def)

lemma pairs_simps [simp]:
  "pairs sl [] = []" "pairs sl (a # as) = (keyat (heap sl) a, valat (heap sl) a) # pairs sl as"
  "pairs sl (as @ bs) = pairs sl as @ pairs sl bs" "length (pairs sl as) = length as"
  "take n (pairs sl as) = pairs sl (take n as)" "drop n (pairs sl as) = pairs sl (drop n as)"
  by (auto simp: pairs_def take_map drop_map)

lemma pairs_shapes: "shapes (heap sl') = shapes (heap sl) \<Longrightarrow> pairs sl' as = pairs sl as"
  using shapes_eqD(3,4)[of "heap sl'" "heap sl"] by (simp add: pairs_def)

lemma pairs_filter:
  "pairs sl (filter (before sl key) as) = lower (compare sl) key (pairs sl as)"
  "pairs sl (filter (\<lambda>a. \<not> before sl key a) as) = upper (compare sl) key (pairs sl as)"
  by (induction as) (auto simp: lower_def upper_def before_def)

lemma lower_upper:
  assumes "repr full sl xs"
  shows "lower (compare sl) key xs @ upper (compare sl) key xs = xs"
  using assms level_split(1)[of sl _ key 0]
  by (auto simp: repr_def rep_def simp flip: pairs_filter pairs_simps(3))

lemma repr_sorted:
  assumes "repr full sl xs"
  shows "sorted_wrt (\<lambda>x y. compare sl (fst x) (fst y) \<le> 0) xs"
  using assms sklD(11)[of sl _ 0]
  by (auto simp: repr_def rep_def pairs_def sorted_wrt_map key_le_def[abs_def])

lemma new_skiplist_rep:
  assumes "comparator cmp" "1 \<le> max_h" "0 < branch"
  shows "rep full (new_skiplist max_h branch cmp k0 v0) []"
  unfolding rep_def
  by (rule exI[of _ "\<lambda>_. []"])
    (use assms in \<open>auto simp: skl_def new_skiplist_def new_node_def valid_def wf_node_def hgt_def
      nxt_def tail_ok_def full_levels_def split: if_splits\<close>)

lemma new_skiplist_repr:
  assumes "comparator cmp" "1 \<le> max_h" "0 < branch"
  shows "repr full (new_skiplist max_h branch cmp k0 v0) []"
  using new_skiplist_rep[OF assms] by (force simp: repr_def)

section \<open>Refinement of the updates\<close>

lemma Insert_rep:
  assumes "rep full sl as"
  shows "\<exists>height sl'. Insert sl key value = Some (height, sl') \<and> 1 \<le> height \<and> height \<le> MaxHeight sl \<and>
    rep full sl' (filter (before sl key) as @ next_addr sl # filter (\<lambda>a. \<not> before sl key a) as) \<and>
    shapes (heap sl') = shapes ((heap sl)(next_addr sl \<mapsto> new_node key value height)) \<and>
    compare sl' = compare sl \<and> MaxHeight sl' = MaxHeight sl \<and> Branch sl' = Branch sl \<and>
    head sl' = head sl \<and> next_addr sl' = Suc (next_addr sl) \<and> next_addr sl \<notin> set as"
proof -
  obtain lv where lv: "skl sl lv" "full \<Longrightarrow> full_levels sl lv" "lv 0 = as"
    using assms by (auto simp: rep_def)
  obtain height sl' where I: "Insert sl key value = Some (height, sl')"
    and ins: "inserted sl lv (before sl key) key value height sl'"
    using Insert_skl[OF lv(1)] by blast
  let ?n = "next_addr sl"
  have fresh: "?n \<notin> set (lv 0)" using skl_next_addr[OF lv(1), of _ 0] by blast
  have sh: "shapes (heap sl') = shapes ((heap sl)(?n \<mapsto> new_node key value height))"
    using ins by (simp add: inserted_def)
  have "full_levels sl' (splice_levels height ?n (before sl key) lv)" if full
    unfolding full_levels_def
  proof (intro ballI allI impI)
    fix a i assume a: "a \<in> set (splice_levels height ?n (before sl key) lv 0)" "i < hgt (heap sl') a"
    show "a \<in> set (splice_levels height ?n (before sl key) lv i)"
      using a lv(2)[OF that] new_node_frame(4)[OF sh, of a] new_node_frame(9)[OF sh]
      by (cases "a = ?n") (auto simp: full_levels_def split: if_splits)
  qed
  then show ?thesis using I ins lv(3) fresh
    by (auto simp: inserted_def rep_def splice_levels_def intro!: exI[of _ "splice_levels height ?n (before sl key) lv"])
qed

lemma pairs_new_node:
  assumes "shapes (heap sl') = shapes ((heap sl)(node \<mapsto> new_node key value height))" "node \<notin> set as"
  shows "pairs sl' as = pairs sl as" "pairs sl' [node] = [(key, value)]"
proof -
  have "a \<noteq> node" if "a \<in> set as" for a using that assms(2) by blast
  then show "pairs sl' as = pairs sl as"
    using new_node_frame(2,3)[OF assms(1)] by (simp add: pairs_def)
  show "pairs sl' [node] = [(key, value)]"
    using new_node_frame(7,8)[OF assms(1)] by (simp add: pairs_def)
qed

lemma Insert_repr:
  assumes "repr full sl xs"
  shows "\<exists>height sl'. Insert sl key value = Some (height, sl') \<and>
    repr full sl' (spec_insert (compare sl) key value xs) \<and> compare sl' = compare sl"
proof -
  obtain as where as: "rep full sl as" "pairs sl as = xs" using assms by (auto simp: repr_def)
  obtain height sl' where I: "Insert sl key value = Some (height, sl')"
    and r: "rep full sl' (filter (before sl key) as @ next_addr sl # filter (\<lambda>a. \<not> before sl key a) as)"
    and sh: "shapes (heap sl') = shapes ((heap sl)(next_addr sl \<mapsto> new_node key value height))"
    and c: "compare sl' = compare sl" and n: "next_addr sl \<notin> set as"
    using Insert_rep[OF as(1)] by blast
  have "pairs sl' (filter P as) = pairs sl (filter P as)" for P
    using n by (intro pairs_new_node(1)[OF sh]) auto
  moreover have "pairs sl' [next_addr sl] = [(key, value)]" using pairs_new_node(2)[OF sh n] .
  ultimately have "pairs sl' (filter (before sl key) as @ next_addr sl # filter (\<lambda>a. \<not> before sl key a) as)
      = spec_insert (compare sl) key value xs"
    using as(2) by (simp add: pairs_filter spec_insert_def)
  then show ?thesis using I r c by (auto simp: repr_def)
qed

lemma AddToFirst_repr:
  assumes "repr full sl xs" "xs = [] \<or> \<not> compare sl key (fst (hd xs)) > 0"
  shows "\<exists>sl'. AddToFirst sl key value = Some (True, sl') \<and> repr False sl' ((key, value) # xs)"
proof -
  obtain lv where lv: "skl sl lv" "pairs sl (lv 0) = xs" using assms by (auto simp: repr_def rep_def)
  then have "lv 0 = [] \<or> \<not> before sl key (hd (lv 0))"
    using assms(2) by (cases "lv 0") (auto simp: before_def)
  then obtain height sl' where I: "AddToFirst sl key value = Some (True, sl')"
    and ins: "inserted sl lv (\<lambda>_. False) key value height sl'"
    using AddToFirst_skl[OF lv(1), of key "value"] by blast
  let ?n = "next_addr sl" and ?lv = "splice_levels height (next_addr sl) (\<lambda>_. False) lv"
  have n: "?n \<notin> set (lv 0)" using skl_next_addr[OF lv(1), of _ 0] by blast
  have sh: "shapes (heap sl') = shapes ((heap sl)(?n \<mapsto> new_node key value height))"
    and skl': "skl sl' ?lv" and h: "?lv 0 = ?n # lv 0"
    using ins by (auto simp: inserted_def splice_levels_def)
  have "pairs sl' (?lv 0) = (key, value) # xs"
    unfolding h using pairs_new_node[OF sh n] lv(2) by simp
  then show ?thesis using I skl' by (auto simp: repr_def rep_def)
qed

lemma findSomeD: "find P xs = Some x \<Longrightarrow> P x \<and> x \<in> set xs"
  by (induction xs) (auto split: if_splits)

lemma filter_neq_id: "r \<notin> set as \<Longrightarrow> filter (\<lambda>a. a \<noteq> r) as = as"
  by (auto simp: filter_id_conv)

lemma first_eq_pairs:
  assumes "first_eq sl as key = Some r" "distinct as"
  shows "pairs sl (filter (\<lambda>a. a \<noteq> r) as) = spec_remove key (pairs sl as)"
  using assms
proof (induction as)
  case (Cons a as)
  then show ?case
    by (cases "keyat (heap sl) a = key") (auto simp: first_eq_def filter_neq_id dest: findSomeD)
qed (simp add: first_eq_def)

lemma Remove_repr:
  assumes "repr True sl xs"
  shows "\<exists>r sl'. Remove sl key = Some (r, sl') \<and> repr True sl' (spec_remove key xs) \<and>
    compare sl' = compare sl \<and>
    (case r of None \<Rightarrow> key \<notin> fst ` set xs \<and> sl' = sl
     | Some a \<Rightarrow> GetKey (heap sl') r = Some key \<and> map_of xs key = GetValue (heap sl') r)"
proof -
  obtain lv where lv: "skl sl lv" "full_levels sl lv" "pairs sl (lv 0) = xs"
    using assms by (auto simp: repr_def rep_def)
  show ?thesis
  proof (cases "first_eq sl (lv 0) key")
    case None
    then have "key \<notin> fst ` set xs" using lv(3) by (auto simp: first_eq_def find_None_iff pairs_def)
    moreover have "spec_remove key xs = xs" using calculation by (induction xs) auto
    ultimately show ?thesis using Remove_absent[OF lv(1) None] assms by auto
  next
    case (Some r)
    obtain h' tl0 where R: "Remove sl key = Some (Some r, sl\<lparr>heap := h', tail := tl0\<rparr>)"
      and skl': "skl (sl\<lparr>heap := h', tail := tl0\<rparr>) (drop_node r lv)"
        "full_levels (sl\<lparr>heap := h', tail := tl0\<rparr>) (drop_node r lv)"
      and sh: "shapes h' = shapes (heap sl)"
      using Remove_found[OF lv(1,2) Some] by blast
    let ?sl' = "sl\<lparr>heap := h', tail := tl0\<rparr>"
    have "pairs ?sl' (drop_node r lv 0) = spec_remove key xs"
      using first_eq_pairs[OF Some] sklD(10)[OF lv(1), of 0] lv(3) pairs_shapes[of ?sl' sl] sh
      by (simp add: drop_node_def)
    then have "repr True ?sl' (spec_remove key xs)" using skl' by (auto simp: repr_def rep_def)
    moreover have r: "keyat (heap sl) r = key" "r \<in> set (lv 0)"
      using findSomeD[OF Some[unfolded first_eq_def]] by auto
    moreover have "map_of (pairs sl as) key = Some (valat (heap sl) r)" if "first_eq sl as key = Some r" for as
      using that by (induction as) (auto simp: first_eq_def split: if_splits)
    ultimately show ?thesis
      using R Some lv(3) skl_wf_node[OF lv(1), of r] shapes_eqD[OF sh, of r] by (auto simp: ptr_simps)
  qed
qed

lemma split_at_repr:
  assumes "rep full sl as" "split_at n sl as p sl'"
  shows "repr False sl' (take n (pairs sl as))" "compare sl' = compare sl"
proof -
  have sh: "shapes (heap sl') = shapes (heap sl)" using assms by (simp add: split_at_def)
  obtain lv' where "skl sl' lv'" "lv' 0 = take n as" using assms by (auto simp: split_at_def)
  then show "repr False sl' (take n (pairs sl as))"
    using pairs_shapes[OF sh] by (auto simp: repr_def rep_def)
  have "sl' = sl\<lparr>heap := heap sl', tail := tail sl'\<rparr>" using assms unfolding split_at_def by blast
  then have "compare sl' = compare (sl\<lparr>heap := heap sl', tail := tail sl'\<rparr>)" by (rule arg_cong)
  then show "compare sl' = compare sl" by simp
qed

section \<open>Reading a chain of nodes\<close>

text \<open>
  The loop every client of an iterator or of a cut-off chain runs: while the pointer is
  not NULL, read the key and the value and move on.
\<close>

partial_function (option) collect :: "('k, 'v) heap \<Rightarrow> addr option \<Rightarrow> ('k \<times> 'v) list option" where
  "collect h p =
     (if p = None then Some []
      else Option.bind (GetKey h p) (\<lambda>k. Option.bind (GetValue h p) (\<lambda>v.
           Option.bind (GetNext h p 0) (\<lambda>n. Option.bind (collect h n) (\<lambda>r. Some ((k, v) # r))))))"

lemma collect_lseg:
  "lseg (heap sl) 0 as None \<Longrightarrow> collect (heap sl) (ptr as None) = Some (pairs sl as)"
proof (induction as)
  case Nil
  then show ?case by (simp add: collect.simps)
next
  case (Cons a as)
  then have "wf_node (heap sl) a" "valid (heap sl) a 0" "nxt (heap sl) a 0 = ptr as None"
    by (auto simp: valid_def)
  then show ?case using Cons by (subst collect.simps) (simp add: ptr_simps)
qed

lemma split_at_collect:
  assumes "split_at n sl as p sl'"
  shows "collect (heap sl') p = Some (drop n (pairs sl as))"
  using assms collect_lseg[of sl' "drop n as"] pairs_shapes[of sl' sl] by (simp add: split_at_def)

text \<open>The pairs from a position on, seen through an iterator.\<close>

lemma rep_suffix:
  assumes "skl sl lv" "lv 0 = us @ bs"
  shows "collect (heap sl) (ptr bs None) = Some (pairs sl bs)"
  using skl_level0[OF assms(1)] assms(2) by (intro collect_lseg) simp

lemma it_SeekToFirst_repr:
  assumes "repr full sl xs"
  shows "\<exists>p. it_SeekToFirst sl = Some p \<and> collect (heap sl) p = Some xs"
proof -
  obtain lv where lv: "skl sl lv" "pairs sl (lv 0) = xs" using assms by (auto simp: repr_def rep_def)
  then show ?thesis using skl_first[OF lv(1)] rep_suffix[OF lv(1), of "[]" "lv 0"]
    by (simp add: it_SeekToFirst_def it_Next_def it_Valid_def)
qed

lemma it_Seek_repr:
  assumes "repr full sl xs"
  shows "\<exists>p. it_Seek sl key = Some p \<and> collect (heap sl) p = Some (upper (compare sl) key xs)"
proof -
  obtain lv where lv: "skl sl lv" "pairs sl (lv 0) = xs" using assms by (auto simp: repr_def rep_def)
  show ?thesis
    using FindLessThan_skl[OF lv(1)] pred_at_nxt[OF lv(1) skl_MaxHeight[OF lv(1)] level_split(1)[OF lv(1), of key]]
      rep_suffix[OF lv(1) level_split(1)[OF lv(1), of key 0, symmetric]] lv(2)
    by (simp add: it_Seek_def it_Next_def it_Valid_def ptr_simps pairs_filter)
qed

lemma it_SeekToLast_repr:
  assumes "repr full sl xs" "xs \<noteq> []"
  shows "collect (heap sl) (it_SeekToLast sl) = Some [last xs]"
proof -
  obtain lv where lv: "skl sl lv" "pairs sl (lv 0) = xs" using assms by (auto simp: repr_def rep_def)
  then have ne: "lv 0 \<noteq> []" using assms(2) by auto
  then have l0: "lv 0 = butlast (lv 0) @ [last (lv 0)]" by simp
  have "xs = pairs sl (butlast (lv 0)) @ pairs sl [last (lv 0)]"
    using lv(2) l0 by (metis pairs_simps(3))
  then show ?thesis
    using rep_suffix[OF lv(1) l0] sklD(14)[OF lv(1)] ne
    by (simp add: it_SeekToLast_def GetLast_def tail_ok_def)
qed

text \<open>
  \<open>Get\<close> finds the last pair with the key.  When there is none and no pair comes before
  the key, the search ends on the sentinel, whose key is \<open>K()\<close>: \<open>Get\<close> then reports
  success with the sentinel's value for that one key.
\<close>

definition spec_get :: "('k \<Rightarrow> 'k \<Rightarrow> int) \<Rightarrow> 'k \<times> 'v \<Rightarrow> ('k \<times> 'v) list \<Rightarrow> 'k \<Rightarrow> 'v option" where
  "spec_get cmp sentinel xs key =
     (if filter (\<lambda>x. cmp (fst x) key \<le> 0) xs = [] \<and> fst sentinel = key then Some (snd sentinel)
      else map_of (rev xs) key)"

definition sentinel :: "('k, 'v) skiplist \<Rightarrow> 'k \<times> 'v" where
  "sentinel sl = (keyat (heap sl) (head sl), valat (heap sl) (head sl))"

lemma pairs_upto:
  "pairs sl (filter (upto_key sl key) as) = filter (\<lambda>x. compare sl (fst x) key \<le> 0) (pairs sl as)"
  by (induction as) (auto simp: upto_key_def)

lemma last_upto:
  assumes skl: "skl sl lv" and U: "filter (upto_key sl key) (lv 0) = us @ [a]"
  shows "map_of (rev (pairs sl (us @ [a]))) key = (if keyat (heap sl) a = key then Some (valat (heap sl) a) else None)"
proof (cases "keyat (heap sl) a = key")
  case False
  note c = sklD(1)[OF skl]
  have "sorted_wrt (key_le sl) (us @ [a])"
    using sorted_wrt_filter[OF sklD(11)[OF skl, of 0], of "upto_key sl key"] unfolding U .
  then have le: "key_le sl b a" if "b \<in> set us" for b using that by (simp add: sorted_wrt_append)
  have "a \<in> set (filter (upto_key sl key) (lv 0))" by (simp add: U)
  then have "compare sl (keyat (heap sl) a) key \<le> 0" by (simp add: upto_key_def)
  then have "keyat (heap sl) b \<noteq> key" if "b \<in> set us" for b
    using le[OF that] False comparator.cmp_ge[OF c] comparator.cmp_eq[OF c]
    by (metis antisym key_le_def)
  then have "\<forall>b\<in>set (us @ [a]). keyat (heap sl) b \<noteq> key" using False by simp
  then have "key \<notin> fst ` set (rev (pairs sl (us @ [a])))" unfolding pairs_def by force
  then have "map_of (rev (pairs sl (us @ [a]))) key = None" by (simp only: map_of_eq_None_iff not_False_eq_True)
  then show ?thesis using False by (simp only: if_False)
qed simp

lemma Get_repr:
  assumes "repr full sl xs"
  shows "Get sl key = Some (spec_get (compare sl) (sentinel sl) xs key)"
proof -
  obtain lv where lv: "skl sl lv" "pairs sl (lv 0) = xs" using assms by (auto simp: repr_def rep_def)
  note c = sklD(1)[OF lv(1)]
  let ?U = "filter (upto_key sl key) (lv 0)" and ?V = "filter (\<lambda>a. \<not> upto_key sl key a) (lv 0)"
  have l0: "lv 0 = ?U @ ?V" using level_split(2)[OF lv(1), of key 0] by simp
  have keyU: "upto_key sl key a" if "keyat (heap sl) a = key" for a
    using that comparator.cmp_refl[OF c] by (simp add: upto_key_def)
  have m: "map_of (rev xs) key = map_of (rev (pairs sl ?U)) key"
  proof -
    have "rev xs = rev (pairs sl ?V) @ rev (pairs sl ?U)" using lv(2) l0 by (metis pairs_simps(3) rev_append)
    moreover have "map_of (rev (pairs sl ?V)) key = None"
      using keyU by (auto simp: pairs_def map_of_eq_None_iff)
    ultimately show ?thesis by (simp add: map_add_def)
  qed
  have UL: "filter (\<lambda>x. compare sl (fst x) key \<le> 0) xs = pairs sl ?U" using lv(2) pairs_upto[of sl key "lv 0"] by simp
  have F: "FindEqual sl key = Some (Some (last (head sl # ?U)))"
    using FindEqual_skl[OF lv(1)] by (simp add: pred_at_def)
  show ?thesis
  proof (cases ?U rule: rev_cases)
    case Nil
    then show ?thesis
      using F m UL skl_wf_node[OF lv(1), of "head sl"] comparator.cmp_eq[OF c]
      by (auto simp: Get_def ptr_simps spec_get_def sentinel_def)
  next
    case (snoc us a)
    then have a: "a \<in> set (lv 0)" by (metis filter_is_subset in_set_conv_decomp subsetD)
    have "pairs sl ?U \<noteq> []" using snoc by simp
    then show ?thesis
      using F m UL last_upto[OF lv(1) snoc] skl_wf_node[OF lv(1), of a] comparator.cmp_eq[OF c] a
      by (simp add: Get_def ptr_simps spec_get_def snoc)
  qed
qed

lemma GetSize_loop_result:
  "lseg h 0 as None \<Longrightarrow> GetSize_loop h (ptr as None) cnt = Some (cnt + of_nat (length as))"
proof (induction as arbitrary: cnt)
  case Nil
  then show ?case by (simp add: GetSize_loop.simps)
next
  case (Cons a as)
  then have "GetSize_loop h (ptr as None) (cnt + 1) = Some (cnt + 1 + of_nat (length as))" by simp
  then show ?case using Cons.prems
    by (subst GetSize_loop.simps) (cases as, auto simp: ptr_simps add.assoc)
qed

lemma GetSize_repr:
  assumes "repr full sl xs"
  shows "GetSize sl = Some (of_nat (length xs))"
proof -
  obtain lv where lv: "skl sl lv" "pairs sl (lv 0) = xs" using assms by (auto simp: repr_def rep_def)
  then show ?thesis
    using skl_first[OF lv(1)] GetSize_loop_result[OF skl_level0[OF lv(1)], of 0]
    by (auto simp: GetSize_def)
qed

section \<open>Freeing nodes\<close>

lemma lseg_heap_cong:
  assumes "\<And>a. a \<in> set xs \<Longrightarrow> h' a = h a"
  shows "lseg h' i xs q = lseg h i xs q"
  using assms by (intro lseg_cong) (simp add: valid_def wf_node_def hgt_def nxt_def)

lemma Clear_loop_result:
  assumes "lseg h 0 as None" "distinct as"
  shows "\<exists>h'. Clear_loop h (ptr as None) cnt = Some (cnt + of_nat (length as), h') \<and>
    (\<forall>a\<in>set as. h' a = None) \<and> (\<forall>a. a \<notin> set as \<longrightarrow> h' a = h a)"
  using assms
proof (induction as arbitrary: h cnt)
  case Nil
  then show ?case by (simp add: Clear_loop.simps)
next
  case (Cons a as)
  have a: "wf_node h a" "valid h a 0" "nxt h a 0 = ptr as None" using Cons.prems by (auto simp: valid_def)
  obtain h1 where h1: "clear_nexts (Some a) h = Some h1" "shapes h1 = shapes h"
    "\<forall>b j. nxt h1 b j = (if j < hgt h a \<and> b = a then None else nxt h b j)"
    using clear_nexts_result[OF a(1)] by blast
  have same: "h1 b = h b" if "b \<noteq> a" for b
    using that h1(2,3) by (intro heap_ext) auto
  let ?h2 = "h1(a := None)"
  have "lseg ?h2 0 as None"
    using Cons.prems same by (subst lseg_heap_cong[where h=h]) auto
  then obtain h' where "Clear_loop ?h2 (ptr as None) (cnt + 1) = Some (cnt + 1 + of_nat (length as), h')"
    "\<forall>a\<in>set as. h' a = None" "\<forall>b. b \<notin> set as \<longrightarrow> h' b = ?h2 b"
    using Cons.IH[of ?h2 "cnt + 1"] Cons.prems(2) by (auto simp del: fun_upd_apply)
  then show ?case
    using a h1 same Cons.prems(2) shapes_eqD(1)[OF h1(2)]
    by (subst Clear_loop.simps) (auto simp: ptr_simps add.assoc)
qed

lemma nxt_beyond: "wf_node h a \<Longrightarrow> \<not> j < hgt h a \<Longrightarrow> nxt h a j = None"
  by (auto simp: nxt_def hgt_def wf_node_def split: option.splits)

lemma skl_empty:
  assumes skl: "skl sl lv"
    and hd: "shapes h (head sl) = shapes (heap sl) (head sl)" "\<And>j. nxt h (head sl) j = None"
    and sub: "\<And>a. h a \<noteq> None \<Longrightarrow> heap sl a \<noteq> None"
  shows "skl (sl\<lparr>heap := h, tail := None\<rparr>) (\<lambda>_. [])" "full_levels (sl\<lparr>heap := h, tail := None\<rparr>) (\<lambda>_. [])"
proof -
  have "hgt h (head sl) = MaxHeight sl" "wf_node h (head sl)"
    using hd(1) sklD(6)[OF skl] skl_wf_node[OF skl, of "head sl"]
    by (auto simp: shapes_def hgt_def wf_node_def split: option.splits)
  then show "skl (sl\<lparr>heap := h, tail := None\<rparr>) (\<lambda>_. [])"
    using sklD(1-4)[OF skl] sklD(5)[OF skl] sub hd(2) by (auto simp: skl_def valid_def tail_ok_def)
qed (simp add: full_levels_def)

lemma Clear_repr:
  assumes "rep full sl as"
  shows "\<exists>sl'. Clear sl = Some (of_nat (length as), sl') \<and> rep True sl' [] \<and>
    (\<forall>a\<in>set as. heap sl' a = None) \<and> tail sl' = None"
proof -
  obtain lv where lv: "skl sl lv" "lv 0 = as" using assms by (auto simp: rep_def)
  note d = sklD(10)[OF lv(1), of 0]
  obtain h where h: "clear_nexts (Some (head sl)) (heap sl) = Some h" "shapes h = shapes (heap sl)"
    "\<And>b j. nxt h b j = (if j < hgt (heap sl) (head sl) \<and> b = head sl then None else nxt (heap sl) b j)"
    using clear_nexts_result[OF skl_wf_node[OF lv(1)], of "head sl"] by auto
  have same: "h b = heap sl b" if "b \<noteq> head sl" for b
    using that h(2,3) by (intro heap_ext) auto
  have "h a = heap sl a" if "a \<in> set as" for a
    using that d lv(2) by (intro same) auto
  then have "lseg h 0 as None"
    using skl_level0[OF lv(1)] lv(2) by (subst lseg_heap_cong[where h="heap sl"]) auto
  then obtain h' where h': "Clear_loop h (ptr as None) 0 = Some (of_nat (length as), h')"
    "\<forall>a\<in>set as. h' a = None" "\<And>a. a \<notin> set as \<Longrightarrow> h' a = h a"
    using Clear_loop_result[of h as 0] d lv(2) by auto
  have n: "nxt h (head sl) j = None" for j
    using h(3)[of "head sl" j] nxt_beyond[OF skl_wf_node[OF lv(1)], of "head sl" j] by auto
  have hd: "h' (head sl) = h (head sl)" using h'(3) d lv(2) by simp
  have "h' a \<noteq> None \<Longrightarrow> heap sl a \<noteq> None" for a
    using h'(2) h'(3)[of a] shapes_eqD(6)[OF h(2), of a] by (cases "a \<in> set as") auto
  moreover have "shapes h' (head sl) = shapes (heap sl) (head sl)" "nxt h' (head sl) j = None" for j
    using hd n[of j] h(2) by (simp_all add: shapes_def nxt_def fun_eq_iff)
  ultimately have "rep True (sl\<lparr>heap := h', tail := None\<rparr>) []"
    using skl_empty[OF lv(1), of h'] unfolding rep_def by blast
  then show ?thesis
    using skl_first[OF lv(1)] h(1) h'(1,2) lv(2) by (auto simp: Clear_def)
qed

section \<open>The interface for clients\<close>

text \<open>
  What the storage layer relies on: an insertion succeeds and is the sorted insertion
  in front of equal keys, and a seek succeeds and reads the pairs from the key on.
\<close>

locale ordered_list = comparator cmp
  for cmp :: "'k \<Rightarrow> 'k \<Rightarrow> int" +
  fixes R :: "'s \<Rightarrow> ('k \<times> 'v) list \<Rightarrow> bool"
    and ins :: "'s \<Rightarrow> 'k \<Rightarrow> 'v \<Rightarrow> (nat \<times> 's) option"
    and seek :: "'s \<Rightarrow> 'k \<Rightarrow> addr option option"
    and read :: "'s \<Rightarrow> addr option \<Rightarrow> ('k \<times> 'v) list option"
  assumes ins_ok: "R s xs \<Longrightarrow> \<exists>h s'. ins s k v = Some (h, s') \<and> R s' (spec_insert cmp k v xs)"
    and seek_ok: "R s xs \<Longrightarrow> \<exists>p. seek s k = Some p \<and> read s p = Some (upper cmp k xs)"
    and sorted_ok: "R s xs \<Longrightarrow> sorted_wrt (\<lambda>x y. cmp (fst x) (fst y) \<le> 0) xs"
begin

lemma mset_spec_insert: "mset (spec_insert cmp k v xs) = add_mset (k, v) (mset xs)"
  by (simp add: spec_insert_def lower_def upper_def)

lemma upper_spec_insert: "upper cmp k (spec_insert cmp k v xs) = (k, v) # upper cmp k xs"
  by (simp add: spec_insert_def lower_def upper_def filter_empty_conv)

text \<open>A batch of insertions.\<close>

lemma foldM_ins:
  "R s xs \<Longrightarrow> \<exists>s' ys. foldM (\<lambda>(k, v) s. map_option snd (ins s k v)) kvs s = Some s' \<and>
     R s' ys \<and> mset ys = mset kvs + mset xs"
proof (induction kvs arbitrary: s xs)
  case (Cons kv kvs)
  obtain k v where kv: "kv = (k, v)" by force
  obtain h s1 where s1: "ins s k v = Some (h, s1)" "R s1 (spec_insert cmp k v xs)"
    using ins_ok[OF Cons.prems] by blast
  then show ?case using Cons.IH[OF s1(2)] by (auto simp: kv mset_spec_insert)
qed auto

lemma seek_after_ins:
  assumes "R s xs"
  shows "\<exists>h s' p. ins s k v = Some (h, s') \<and> seek s' k = Some p \<and> read s' p = Some ((k, v) # upper cmp k xs)"
proof -
  obtain h s' where s': "ins s k v = Some (h, s')" "R s' (spec_insert cmp k v xs)"
    using ins_ok[OF assms] by blast
  then show ?thesis using seek_ok[OF s'(2), of k] by (simp add: upper_spec_insert)
qed

end

definition time_repr :: "(64 word, 'v) skiplist \<Rightarrow> (64 word \<times> 'v) list \<Rightarrow> bool" where
  "time_repr sl xs \<longleftrightarrow> repr False sl xs \<and> compare sl = TimeComparator"

definition slice_repr :: "(bytes, 'v) skiplist \<Rightarrow> (bytes \<times> 'v) list \<Rightarrow> bool" where
  "slice_repr sl xs \<longleftrightarrow> repr True sl xs \<and> compare sl = SliceComparator"

interpretation time_list: ordered_list TimeComparator time_repr Insert it_Seek "\<lambda>sl p. collect (heap sl) p"
proof (unfold_locales, goal_cases)
  case (1 s xs k v)
  then show ?case using Insert_repr[of False s xs k v] by (auto simp: time_repr_def)
next
  case (2 s xs k)
  then show ?case using it_Seek_repr[of False s xs k] by (auto simp: time_repr_def)
next
  case (3 s xs)
  then show ?case using repr_sorted[of False s xs] by (auto simp: time_repr_def)
qed

interpretation slice_list: ordered_list SliceComparator slice_repr Insert it_Seek "\<lambda>sl p. collect (heap sl) p"
proof (unfold_locales, goal_cases)
  case (1 s xs k v)
  then show ?case using Insert_repr[of True s xs k v] by (auto simp: slice_repr_def)
next
  case (2 s xs k)
  then show ?case using it_Seek_repr[of True s xs k] by (auto simp: slice_repr_def)
next
  case (3 s xs)
  then show ?case using repr_sorted[of True s xs] by (auto simp: slice_repr_def)
qed

end
