(* ===== verification/Skiplist_Props.thy ===== *)
theory Skiplist_Props
  imports Skiplist_Spec
begin

text \<open>
  The properties of the random generator and of the skip list, and a small list on
  which each of them is applied.
\<close>

section \<open>A sample list\<close>

definition sample_list :: "(64 word, nat) skiplist" where
  "sample_list = the (foldM (\<lambda>(k, v) s. map_option snd (Insert s k v)) [(5, 1), (9, 2), (5, 3)]
     (new_skiplist 4 4 TimeComparator 0 0))"

lemma sample_step:
  assumes "repr True s xs" "compare s = TimeComparator"
  obtains s' where "map_option snd (Insert s k v) = Some s'"
    "repr True s' (spec_insert TimeComparator k v xs)" "compare s' = TimeComparator"
  using Insert_repr[OF assms(1), of k v] assms(2) by auto

lemma sample_list_repr:
  "repr True sample_list [(9, 2), (5, 3), (5, 1)]" "compare sample_list = TimeComparator"
proof -
  let ?s = "new_skiplist 4 4 TimeComparator 0 (0 :: nat)"
  have s: "repr True ?s []" "compare ?s = TimeComparator"
    by (rule new_skiplist_repr[OF time_cmp.comparator_axioms]) (simp_all add: new_skiplist_def)
  obtain s1 where 1: "map_option snd (Insert ?s 5 1) = Some s1" "repr True s1 [(5, 1)]" "compare s1 = TimeComparator"
    using sample_step[OF s, of 5 1] by (auto simp: spec_insert_def lower_def upper_def)
  obtain s2 where 2: "map_option snd (Insert s1 9 2) = Some s2" "repr True s2 [(9, 2), (5, 1)]" "compare s2 = TimeComparator"
    using sample_step[OF 1(2,3), of 9 2] by (auto simp: spec_insert_def lower_def upper_def TimeComparator_def)
  obtain s3 where 3: "map_option snd (Insert s2 5 3) = Some s3" "repr True s3 [(9, 2), (5, 3), (5, 1)]" "compare s3 = TimeComparator"
    using sample_step[OF 2(2,3), of 5 3] by (auto simp: spec_insert_def lower_def upper_def TimeComparator_def)
  have "sample_list = s3" using 1(1) 2(1) 3(1) by (auto simp: sample_list_def)
  then show "repr True sample_list [(9, 2), (5, 3), (5, 1)]" "compare sample_list = TimeComparator"
    using 3 by auto
qed

section \<open>Properties\<close>

text \<open>C33: \<open>Insert\<close> on a well-formed list always returns, never touches memory it should not,
  and implements sorted insertion: the new pair goes after the pairs whose key is strictly
  before its own and in front of all others (so the newest of equal keys comes first).  The
  result is well-formed again, with every node on all of its levels if that was so before.\<close>

theorem Insert_refines:
  assumes "repr full sl xs"
  shows "\<exists>height sl'. Insert sl key val = Some (height, sl') \<and> compare sl' = compare sl \<and>
    repr full sl' (spec_insert (compare sl) key val xs)"
  using Insert_repr[OF assms, of key val] by blast

theorem Insert_refines_witness:
  "\<exists>height sl'. Insert sample_list 5 8 = Some (height, sl') \<and> repr True sl' [(9, 2), (5, 8), (5, 3), (5, 1)]"
  using Insert_refines[OF sample_list_repr(1), of 5 8] sample_list_repr(2)
  by (auto simp: spec_insert_def lower_def upper_def TimeComparator_def)

text \<open>C34: \<open>Remove\<close> on a well-formed list whose nodes are on all of their levels returns the first
  node with the key (or NULL and an unchanged list when there is none), unlinked from every
  level, and leaves a well-formed list of the other pairs.\<close>

theorem Remove_refines:
  assumes "repr True sl xs"
  shows "\<exists>r sl'. Remove sl key = Some (r, sl') \<and> repr True sl' (spec_remove key xs) \<and>
    compare sl' = compare sl \<and>
    (case r of None \<Rightarrow> key \<notin> fst ` set xs \<and> sl' = sl
     | Some a \<Rightarrow> GetKey (heap sl') r = Some key \<and> map_of xs key = GetValue (heap sl') r)"
  using Remove_repr[OF assms] .

theorem Remove_refines_witness:
  "\<exists>r sl'. Remove sample_list 5 = Some (r, sl') \<and> repr True sl' [(9, 2), (5, 1)] \<and> GetValue (heap sl') r = Some 3"
  using Remove_refines[OF sample_list_repr(1), of 5] by (force split: option.splits)

definition splits_to :: "('k, 'v) skiplist \<Rightarrow> ('k \<times> 'v) list \<Rightarrow> nat \<Rightarrow> (addr option \<times> ('k, 'v) skiplist) option \<Rightarrow> bool" where
  "splits_to sl xs n r \<longleftrightarrow> (\<exists>p sl'. r = Some (p, sl') \<and> compare sl' = compare sl \<and>
     repr False sl' (take n xs) \<and> collect (heap sl') p = Some (drop n xs))"

lemma split_at_splits_to:
  assumes "rep full sl as" "\<exists>p sl'. r = Some (p, sl') \<and> split_at n sl as p sl'"
  shows "splits_to sl (pairs sl as) n r"
  using assms split_at_repr[OF assms(1)] split_at_collect by (fastforce simp: splits_to_def)

text \<open>C35: The four splits always return.  \<open>Split\<close> keeps the pairs strictly before the key,
  \<open>SplitByPos\<close> the first \<open>pos\<close> pairs, \<open>SplitByKeyOrPos\<close> the shorter and \<open>SplitByKeyAndPos\<close> the
  longer of these two prefixes; the kept part is a well-formed list, and the returned pointer
  leads to exactly the remaining pairs, in order.\<close>

theorem splits_refine:
  assumes "repr full sl xs"
  shows "splits_to sl xs (length (lower (compare sl) key xs)) (Split sl key) \<and>
    splits_to sl xs pos (SplitByPos sl pos) \<and>
    splits_to sl xs (min (length (lower (compare sl) key xs)) pos) (SplitByKeyOrPos sl key pos) \<and>
    splits_to sl xs (max (length (lower (compare sl) key xs)) pos) (SplitByKeyAndPos sl key pos)"
proof -
  obtain lv where lv: "skl sl lv" "pairs sl (lv 0) = xs" using assms by (auto simp: repr_def rep_def)
  have r: "rep False sl (lv 0)" using lv(1) by (auto simp: rep_def)
  have k: "length (lower (compare sl) key xs) = count_before sl (lv 0) key"
    using lv(2) pairs_simps(4)[of sl "filter (before sl key) (lv 0)"] by (simp add: pairs_filter)
  note s = split_at_splits_to[OF r, unfolded lv(2)]
  show ?thesis unfolding k
    by (intro conjI s Split_at[OF lv(1)] SplitByPos_at[OF lv(1)] SplitByKeyOrPos_at[OF lv(1)]
        SplitByKeyAndPos_at[OF lv(1)])
qed

theorem splits_refine_witness:
  "splits_to sample_list [(9, 2), (5, 3), (5, 1)] 2 (SplitByPos sample_list 2) \<and>
   splits_to sample_list [(9, 2), (5, 3), (5, 1)] 1 (SplitByKeyOrPos sample_list 5 2) \<and>
   splits_to sample_list [(9, 2), (5, 3), (5, 1)] 2 (SplitByKeyAndPos sample_list 5 2)"
proof -
  have "length (lower (compare sample_list) 5 [(9, 2), (5, 3), (5, 1 :: nat)]) = 1"
    by (simp add: sample_list_repr(2) lower_def TimeComparator_def)
  then show ?thesis using splits_refine[OF sample_list_repr(1), of 5 2] by (simp del: One_nat_def)
qed

text \<open>C36: \<open>Get\<close> always returns; it finds the value of the last (oldest) pair with the key.  The
  one exception is the sentinel's own key \<open>K()\<close>: when no pair is at or before it, the
  search stops on the sentinel and \<open>Get\<close> reports success with the sentinel's value.\<close>

theorem Get_refines:
  assumes "repr full sl xs"
  shows "Get sl key = Some
    (if (\<forall>x\<in>set xs. compare sl (fst x) key > 0) \<and> fst (sentinel sl) = key then Some (snd (sentinel sl))
     else map_of (rev xs) key)"
proof -
  have "(filter (\<lambda>x. compare sl (fst x) key \<le> 0) xs = []) = (\<forall>x\<in>set xs. compare sl (fst x) key > 0)"
    by (auto simp: filter_empty_conv)
  then show ?thesis using Get_repr[OF assms, of key] unfolding spec_get_def by simp
qed

theorem Get_refines_witness:
  "Get sample_list 5 = Some (Some 1) \<and>
   Get (new_skiplist 4 4 TimeComparator 0 (7 :: nat)) 0 = Some (Some 7)"
proof
  show "Get sample_list 5 = Some (Some 1)"
    using Get_refines[OF sample_list_repr(1), of 5] sample_list_repr(2) by (simp add: TimeComparator_def)
  have "repr True (new_skiplist 4 4 TimeComparator 0 (7 :: nat)) []"
    by (rule new_skiplist_repr[OF time_cmp.comparator_axioms]) simp_all
  then show "Get (new_skiplist 4 4 TimeComparator 0 (7 :: nat)) 0 = Some (Some 7)"
    using Get_refines[of True "new_skiplist 4 4 TimeComparator 0 (7 :: nat)" "[]" 0]
    by (simp add: sentinel_def new_skiplist_def keyat_def valat_def new_node_def)
qed

text \<open>C37: A batch of insertions into a time list always succeeds, and an iterator placed with
  \<open>SeekToFirst\<close> then reads exactly the inserted pairs and the old ones, newest time first;
  an iterator placed with \<open>Seek\<close> reads those with a time not after the one sought.\<close>

theorem insert_iterate:
  assumes "time_repr sl xs"
  shows "\<exists>sl' ys p q. foldM (\<lambda>(k, v) s. map_option snd (Insert s k v)) kvs sl = Some sl' \<and>
    it_SeekToFirst sl' = Some p \<and> collect (heap sl') p = Some ys \<and>
    mset ys = mset kvs + mset xs \<and> sorted_wrt (\<lambda>x y. fst x \<ge> fst y) ys \<and>
    it_Seek sl' t = Some q \<and> collect (heap sl') q = Some (filter (\<lambda>x. fst x \<le> t) ys)"
proof -
  obtain sl' ys where s: "foldM (\<lambda>(k, v) s. map_option snd (Insert s k v)) kvs sl = Some sl'"
    "time_repr sl' ys" "mset ys = mset kvs + mset xs"
    using time_list.foldM_ins[OF assms] by blast
  have r: "repr False sl' ys" using s(2) by (simp add: time_repr_def)
  have "sorted_wrt (\<lambda>x y. fst x \<ge> fst y) ys"
    using time_list.sorted_ok[OF s(2)] by (rule sorted_wrt_mono_rel[rotated]) (auto simp: TimeComparator_def split: if_splits)
  moreover have "upper TimeComparator t ys = filter (\<lambda>x. fst x \<le> t) ys"
    by (auto simp: upper_def TimeComparator_def not_less intro!: filter_cong)
  ultimately show ?thesis
    using s it_SeekToFirst_repr[OF r] time_list.seek_ok[OF s(2), of t] by auto
qed

theorem insert_iterate_witness:
  "\<exists>sl' ys p q. foldM (\<lambda>(k, v) s. map_option snd (Insert s k v)) [(7, 4)] sample_list = Some sl' \<and>
    it_SeekToFirst sl' = Some p \<and> collect (heap sl') p = Some ys \<and>
    mset ys = mset [(7, 4)] + mset [(9, 2), (5, 3), (5, 1)] \<and> sorted_wrt (\<lambda>x y. fst x \<ge> fst y) ys \<and>
    it_Seek sl' 6 = Some q \<and> collect (heap sl') q = Some (filter (\<lambda>x. fst x \<le> 6) ys)"
proof -
  have "rep True sample_list as \<Longrightarrow> rep False sample_list as" for as by (rule rep_weaken)
  then have "time_repr sample_list [(9, 2), (5, 3), (5, 1)]"
    using sample_list_repr by (auto simp: time_repr_def repr_def)
  then show ?thesis by (rule insert_iterate)
qed

text \<open>C38: \<open>Clear\<close> always returns the number of nodes (modulo \<open>2 ^ 64\<close>), deletes every one of them exactly
  once, and leaves an empty well-formed list.\<close>

theorem Clear_frees:
  assumes "rep full sl as"
  shows "\<exists>sl'. Clear sl = Some (of_nat (length as), sl') \<and> repr True sl' [] \<and>
    (\<forall>a\<in>set as. heap sl' a = None) \<and> it_SeekToLast sl' = None"
  using Clear_repr[OF assms] by (force simp: repr_def it_SeekToLast_def GetLast_def)

theorem Clear_frees_witness:
  "\<exists>as sl'. length as = 3 \<and> rep True sample_list as \<and> Clear sample_list = Some (3, sl') \<and> repr True sl' []"
proof -
  obtain as where as: "rep True sample_list as" "pairs sample_list as = [(9, 2), (5, 3), (5, 1)]"
    using sample_list_repr(1) by (auto simp: repr_def)
  have "length as = 3" using arg_cong[OF as(2), of length] by simp
  then show ?thesis using Clear_frees[OF as(1)] as(1) by auto
qed

text \<open>C39: When a split at a key cuts every node off, \<open>tail_\<close> is left pointing at the sentinel: the
  list is empty, but an iterator placed with \<open>SeekToLast\<close> is valid and reads the sentinel's
  default key and value.\<close>

theorem Split_all_leaves_sentinel:
  assumes "repr full sl xs" "lower (compare sl) key xs = []"
  shows "\<exists>p sl'. Split sl key = Some (p, sl') \<and> repr False sl' [] \<and> IsEmpty sl' = Some True \<and>
    it_Valid (it_SeekToLast sl') \<and> it_GetKey sl' (it_SeekToLast sl') = Some (fst (sentinel sl)) \<and>
    it_GetValue sl' (it_SeekToLast sl') = Some (snd (sentinel sl))"
proof -
  obtain lv where lv: "skl sl lv" "pairs sl (lv 0) = xs" using assms by (auto simp: repr_def rep_def)
  have F: "filter (before sl key) (lv 0) = []"
    using assms(2) lv(2) by (metis pairs_filter(1) pairs_simps(4) length_0_conv)
  obtain h' p where S: "Split sl key = Some (p, sl\<lparr>heap := h', tail := Some (pred sl lv key 0)\<rparr>)"
    and s: "skl (sl\<lparr>heap := h', tail := Some (pred sl lv key 0)\<rparr>) (\<lambda>i. filter (before sl key) (lv i))"
    and sh: "shapes h' = shapes (heap sl)"
    using Split_skl[OF lv(1), of key] by blast
  let ?sl' = "sl\<lparr>heap := h', tail := Some (pred sl lv key 0)\<rparr>"
  have h: "pred sl lv key 0 = head sl" using F by (simp add: pred_at_def)
  have "wf_node h' (head sl)" using skl_wf_node[OF s, of "head sl"] by simp
  moreover have "repr False ?sl' []" using s F by (force simp: repr_def rep_def)
  moreover have "IsEmpty ?sl' = Some True" using skl_first[OF s] F by (simp add: IsEmpty_def)
  ultimately show ?thesis using S h shapes_eqD(3,4)[OF sh]
    by (auto simp: it_SeekToLast_def GetLast_def it_Valid_def it_GetKey_def it_GetValue_def ptr_simps sentinel_def)
qed

theorem Split_all_leaves_sentinel_witness:
  "\<exists>p sl'. Split sample_list 9 = Some (p, sl') \<and> IsEmpty sl' = Some True \<and> it_Valid (it_SeekToLast sl')"
  using Split_all_leaves_sentinel[OF sample_list_repr(1), of 9] sample_list_repr(2)
  by (force simp: lower_def TimeComparator_def)

text \<open>C40: The generator's two-step reduction is multiplication by 16807 modulo the Mersenne
  prime \<open>2 ^ 31 - 1\<close>, and it never reaches a seed on which it would be stuck.\<close>

theorem Next_lehmer:
  assumes "good_seed seed"
  shows "unat (fst (Next seed)) = unat seed * 16807 mod (2 ^ 31 - 1) \<and> good_seed (snd (Next seed))"
  using Next_value(1)[OF assms] Next_good[OF assms] by simp

theorem Next_lehmer_witness:
  "good_seed (Random 0xdeadbeef) \<and> good_seed (snd (Next (Random 0xdeadbeef)))"
  using Next_lehmer[OF Random_good] Random_good by blast

end
