(* ===== verification/Ttl.thy ===== *)
theory Ttl
  imports Prelude
begin

text \<open>
  Time-to-live settings: \<open>TTLType\<close> and \<open>TTLSt\<close> of \<open>src/storage/schema.h\<close>.  A setting bounds
  the age of a record (absolute), the number of records of a key (latest), or both.
\<close>

section \<open>The setting\<close>

datatype TTLType = kAbsoluteTime | kRelativeTime | kLatestTime | kAbsAndLat | kAbsOrLat

record TTLSt =
  abs_ttl :: "64 word"
  lat_ttl :: "64 word"
  ttl_type :: TTLType

definition TTLSt_default :: TTLSt where
  "TTLSt_default = \<lparr>abs_ttl = 0, lat_ttl = 0, ttl_type = kAbsoluteTime\<rparr>"

text \<open>
  The message enumerations: \<open>api::TTLType\<close> of \<open>tablet.proto\<close> has the five members of \<open>TTLType\<close>,
  \<open>type::TTLType\<close> of \<open>type.proto\<close> the same; anything unknown becomes \<open>kAbsoluteTime\<close>.
\<close>

definition ConvertTTLType :: "TTLType \<Rightarrow> TTLType" where
  "ConvertTTLType t = (case t of
       kAbsoluteTime \<Rightarrow> kAbsoluteTime | kLatestTime \<Rightarrow> kLatestTime
     | kAbsAndLat \<Rightarrow> kAbsAndLat | kAbsOrLat \<Rightarrow> kAbsOrLat | _ \<Rightarrow> kAbsoluteTime)"

text \<open>From a message, in which the absolute bound is in minutes.\<close>

definition TTLSt_of_desc :: "64 word \<Rightarrow> 64 word \<Rightarrow> TTLType \<Rightarrow> TTLSt" where
  "TTLSt_of_desc minutes lat type =
     \<lparr>abs_ttl = minutes * 60 * 1000, lat_ttl = lat, ttl_type = ConvertTTLType type\<rparr>"

definition NeedGc :: "TTLSt \<Rightarrow> bool" where
  "NeedGc t = (case ttl_type t of
       kAbsoluteTime \<Rightarrow> abs_ttl t \<noteq> 0
     | kLatestTime \<Rightarrow> lat_ttl t \<noteq> 0
     | kAbsAndLat \<Rightarrow> \<not> (abs_ttl t = 0 \<or> lat_ttl t = 0)
     | kAbsOrLat \<Rightarrow> \<not> (abs_ttl t = 0 \<and> lat_ttl t = 0)
     | _ \<Rightarrow> True)"

text \<open>\<open>ts\<close> is the record's time and \<open>abs_ttl\<close> the latest expired time; \<open>record_idx\<close> counts from 1.\<close>

definition IsExpired :: "TTLSt \<Rightarrow> 64 word \<Rightarrow> 32 word \<Rightarrow> bool" where
  "IsExpired t ts record_idx = (case ttl_type t of
       kAbsoluteTime \<Rightarrow> if abs_ttl t = 0 then False else ts \<le> abs_ttl t
     | kLatestTime \<Rightarrow> if lat_ttl t = 0 then False else ucast record_idx > lat_ttl t
     | kAbsAndLat \<Rightarrow> if abs_ttl t = 0 \<or> lat_ttl t = 0 then False
                     else ts \<le> abs_ttl t \<and> ucast record_idx > lat_ttl t
     | kAbsOrLat \<Rightarrow>
         if abs_ttl t = 0 then (if lat_ttl t = 0 then False else ucast record_idx > lat_ttl t)
         else if lat_ttl t = 0 then ts \<le> abs_ttl t
         else ts \<le> abs_ttl t \<or> ucast record_idx > lat_ttl t
     | _ \<Rightarrow> True)"

lemma no_gc_never_expired: "\<not> NeedGc t \<Longrightarrow> \<not> IsExpired t ts idx"
  by (auto simp: NeedGc_def IsExpired_def split: TTLType.splits)

end
