(* ===== verification/Segment.thy ===== *)
theory Segment
  imports Skiplist_Spec Ttl
begin

text \<open>
  A segment of a table: \<open>src/storage/segment.h\<close>, \<open>src/storage/segment.cc\<close>, the byte counts of
  \<open>src/storage/record.h\<close> and the reader tickets of \<open>src/storage/ticket.cc\<close>.

  A segment maps a key to one time-ordered skip list per indexed time column.  The
  lists share data blocks, which carry a reference count (\<open>dim_cnt_down\<close>); blocks are
  shared between the segments of a table, so the block store is passed separately.
  Key entries are objects of their own, addressed by the key list's node values, by
  tickets and by the list of removed entries.

  The mutexes are not modelled: an operation is one atomic step.
\<close>

section \<open>Byte counts\<close>

text \<open>\<open>sizeof\<close> on the LP64 ABI the project is built for (\<open>segment_test.cc\<close> checks two of them).\<close>

definition DATA_BLOCK_BYTE_SIZE :: "32 word" where "DATA_BLOCK_BYTE_SIZE = 16"
definition KEY_ENTRY_BYTE_SIZE :: "32 word" where "KEY_ENTRY_BYTE_SIZE = 40"
definition ENTRY_NODE_SIZE :: "32 word" where "ENTRY_NODE_SIZE = 40"
definition DATA_NODE_SIZE :: "32 word" where "DATA_NODE_SIZE = 32"
definition KEY_ENTRY_PTR_SIZE :: "32 word" where "KEY_ENTRY_PTR_SIZE = 8"

definition GetRecordSize :: "32 word \<Rightarrow> 32 word" where
  "GetRecordSize value_size = value_size + DATA_BLOCK_BYTE_SIZE"

definition GetRecordPkIdxSize :: "nat \<Rightarrow> nat \<Rightarrow> nat \<Rightarrow> 32 word" where
  "GetRecordPkIdxSize height key_size key_entry_max_height =
     of_nat height * 8 + ENTRY_NODE_SIZE + KEY_ENTRY_BYTE_SIZE + of_nat key_size +
     of_nat key_entry_max_height * 8 + DATA_NODE_SIZE"

definition GetRecordPkMultiIdxSize :: "nat \<Rightarrow> nat \<Rightarrow> nat \<Rightarrow> nat \<Rightarrow> 32 word" where
  "GetRecordPkMultiIdxSize height key_size key_entry_max_height ts_cnt =
     of_nat height * 8 + ENTRY_NODE_SIZE + of_nat key_size +
     (KEY_ENTRY_PTR_SIZE + KEY_ENTRY_BYTE_SIZE + of_nat key_entry_max_height * 8 + DATA_NODE_SIZE) *
       of_nat ts_cnt"

definition GetRecordTsIdxSize :: "nat \<Rightarrow> 32 word" where
  "GetRecordTsIdxSize height = of_nat height * 8 + DATA_NODE_SIZE"

section \<open>Data blocks\<close>

record data_block =
  dim_cnt_down :: "8 word"
  blk_size :: "32 word"
  blk_data :: bytes

type_synonym blocks = "addr \<Rightarrow> data_block option"

definition new_DataBlock :: "8 word \<Rightarrow> bytes \<Rightarrow> 32 word \<Rightarrow> data_block" where
  "new_DataBlock dim_cnt input len =
     \<lparr>dim_cnt_down = dim_cnt, blk_size = len, blk_data = take (unat len) input\<rparr>"

text \<open>Giving up one reference: count down, or delete the block with the last one.\<close>

definition drop_ref :: "blocks \<Rightarrow> addr option \<Rightarrow> blocks option" where
  "drop_ref bs p = do {
     b \<leftarrow> p; d \<leftarrow> bs b;
     Some (if dim_cnt_down d > 1 then bs(b \<mapsto> d\<lparr>dim_cnt_down := dim_cnt_down d - 1\<rparr>)
           else bs(b := None)) }"

section \<open>Key entries\<close>

text \<open>\<open>TimeEntries\<close>: time to data block, newest first; the sentinel's value is NULL.\<close>

type_synonym time_entries = "(64 word, addr option) skiplist"

record key_entry =
  kentries :: time_entries
  refs :: "64 word"
  kcount :: "64 word"

definition new_KeyEntry :: "nat \<Rightarrow> key_entry" where
  "new_KeyEntry height = \<lparr>kentries = new_skiplist height 4 TimeComparator 0 None, refs = 0, kcount = 0\<rparr>"

partial_function (option) KeyEntry_Release_loop ::
    "time_entries \<Rightarrow> blocks \<Rightarrow> addr option \<Rightarrow> 64 word \<Rightarrow> (64 word \<times> blocks) option" where
  "KeyEntry_Release_loop es bs it cnt =
     (if \<not> it_Valid it then Some (cnt, bs)
      else Option.bind (it_GetValue es it) (\<lambda>block.
           Option.bind (drop_ref bs block) (\<lambda>bs'.
           Option.bind (it_Next es it) (\<lambda>it'. KeyEntry_Release_loop es bs' it' (cnt + 1)))))"

definition KeyEntry_Release :: "key_entry \<Rightarrow> blocks \<Rightarrow> (64 word \<times> key_entry \<times> blocks) option" where
  "KeyEntry_Release ke bs = do {
     it \<leftarrow> it_SeekToFirst (kentries ke);
     (cnt, bs') \<leftarrow> KeyEntry_Release_loop (kentries ke) bs it 0;
     (n, es) \<leftarrow> Clear (kentries ke);
     Some (cnt, ke\<lparr>kentries := es\<rparr>, bs') }"

definition KeyEntry_Ref :: "key_entry \<Rightarrow> key_entry" where
  "KeyEntry_Ref ke = ke\<lparr>refs := refs ke + 1\<rparr>"

definition KeyEntry_UnRef :: "key_entry \<Rightarrow> key_entry" where
  "KeyEntry_UnRef ke = ke\<lparr>refs := refs ke - 1\<rparr>"

section \<open>Segments\<close>

text \<open>
  The value of a key's node is a \<open>void*\<close>: NULL, a \<open>KeyEntry*\<close> when there is one time
  column, or an array of \<open>ts_cnt_\<close> pointers; it is modelled as an optional list of
  entry addresses, of length one in the second case.  The removed-entry list maps the
  GC version of the removal to the removed node of \<open>entries_\<close>.
\<close>

record segment =
  entries :: "(bytes, addr list option) skiplist"
  kes :: "addr \<Rightarrow> key_entry option"
  next_ke :: addr
  idx_cnt :: "64 word"
  idx_byte_size :: "64 word"
  pk_cnt :: "64 word"
  key_entry_max_height :: nat
  entry_free_list :: "(64 word, addr option) skiplist"
  ts_cnt :: nat
  gc_version :: "64 word"
  ts_idx_map :: "32 word \<Rightarrow> nat option"
  idx_cnt_vec :: "64 word list"
  ttl_offset :: "64 word"

text \<open>
  The constructors; \<open>max_h\<close> is the flag \<open>skiplist_max_height\<close> and \<open>offset\<close> the flag
  \<open>gc_safe_offset\<close> in minutes.  Both heights are cut to the eight bits of a \<open>uint8_t\<close>.  The milliseconds are computed
  with 32 bits and a sign; an overflow, which C++ leaves undefined, wraps around here.
\<close>

definition new_Segment :: "nat \<Rightarrow> 32 word \<Rightarrow> nat \<Rightarrow> segment" where
  "new_Segment max_h offset height =
     \<lparr>entries = new_skiplist (max_h mod 2 ^ 8) 4 SliceComparator [] None, kes = Map.empty, next_ke = 0,
      idx_cnt = 0, idx_byte_size = 0, pk_cnt = 0, key_entry_max_height = height mod 2 ^ 8,
      entry_free_list = new_skiplist 4 4 TimeComparator 0 None, ts_cnt = 1, gc_version = 0,
      ts_idx_map = Map.empty, idx_cnt_vec = [], ttl_offset = scast (offset * 60 * 1000)\<rparr>"

definition new_Segment_ts :: "nat \<Rightarrow> 32 word \<Rightarrow> nat \<Rightarrow> 32 word list \<Rightarrow> segment" where
  "new_Segment_ts max_h offset height ts_idx_vec =
     (new_Segment max_h offset height)\<lparr>ts_cnt := length ts_idx_vec,
      ts_idx_map := foldl (\<lambda>m i. m(ts_idx_vec ! i \<mapsto> i)) Map.empty [0..<length ts_idx_vec],
      idx_cnt_vec := replicate (length ts_idx_vec) 0\<rparr>"

definition GetIdxCnt :: "segment \<Rightarrow> 64 word option" where
  "GetIdxCnt sg = (if ts_cnt sg > 1 then arr_get (idx_cnt_vec sg) 0 else Some (idx_cnt sg))"

definition GetTsIdx :: "segment \<Rightarrow> 32 word \<Rightarrow> nat option" where
  "GetTsIdx sg raw_idx = ts_idx_map sg raw_idx"

definition GetIdxCnt_ts :: "segment \<Rightarrow> 32 word \<Rightarrow> 64 word option option" where
  "GetIdxCnt_ts sg ts_idx = (case GetTsIdx sg ts_idx of None \<Rightarrow> Some None
     | Some real_idx \<Rightarrow> map_option Some (arr_get (idx_cnt_vec sg) real_idx))"

definition IncrGcVersion :: "segment \<Rightarrow> segment" where
  "IncrGcVersion sg = sg\<lparr>gc_version := gc_version sg + 1\<rparr>"

text \<open>Looking a key up: \<open>entries_->Get(key, entry) < 0 || entry == NULL\<close> is \<open>None\<close> inside.\<close>

definition find_entry :: "segment \<Rightarrow> bytes \<Rightarrow> addr list option option" where
  "find_entry sg key = map_option (\<lambda>r. case r of None \<Rightarrow> None | Some v \<Rightarrow> v) (Get (entries sg) key)"

section \<open>Writes\<close>

text \<open>\<open>entry->entries.Insert(time, row)\<close> and \<open>entry->count_++\<close>.\<close>

definition entry_insert :: "segment \<Rightarrow> addr \<Rightarrow> 64 word \<Rightarrow> addr \<Rightarrow> (nat \<times> segment) option" where
  "entry_insert sg k time row = do {
     ke \<leftarrow> kes sg k;
     (height, es) \<leftarrow> Insert (kentries ke) time (Some row);
     Some (height, sg\<lparr>kes := (kes sg)(k \<mapsto> ke\<lparr>kentries := es, kcount := kcount ke + 1\<rparr>)\<rparr>) }"

definition Segment_Put :: "segment \<Rightarrow> bytes \<Rightarrow> 64 word \<Rightarrow> addr \<Rightarrow> segment option" where
  "Segment_Put sg key time row =
     (if ts_cnt sg > 1 then Some sg
      else do {
        entry \<leftarrow> find_entry sg key;
        (ks, sg1, byte_size) \<leftarrow> (case entry of
           None \<Rightarrow> do {
             (height, es) \<leftarrow> Insert (entries sg) key (Some [next_ke sg]);
             Some ([next_ke sg],
                   sg\<lparr>entries := es,
                      kes := (kes sg)(next_ke sg \<mapsto> new_KeyEntry (key_entry_max_height sg)),
                      next_ke := Suc (next_ke sg), pk_cnt := pk_cnt sg + 1\<rparr>,
                   GetRecordPkIdxSize height (length key) (key_entry_max_height sg)) }
         | Some ks \<Rightarrow> Some (ks, sg, 0));
        k \<leftarrow> arr_get ks 0;
        (height, sg2) \<leftarrow> entry_insert (sg1\<lparr>idx_cnt := idx_cnt sg1 + 1\<rparr>) k time row;
        Some (sg2\<lparr>idx_byte_size := idx_byte_size sg2 + ucast (byte_size + GetRecordTsIdxSize height)\<rparr>) })"

text \<open>\<open>Put(key, time, data, size)\<close> allocates the block; \<open>b\<close> is its address.\<close>

definition Segment_Put_data ::
    "segment \<Rightarrow> blocks \<Rightarrow> bytes \<Rightarrow> 64 word \<Rightarrow> addr \<Rightarrow> bytes \<Rightarrow> 32 word \<Rightarrow> (segment \<times> blocks) option" where
  "Segment_Put_data sg bs key time b data sz =
     (if ts_cnt sg > 1 then Some (sg, bs)
      else map_option (\<lambda>sg'. (sg', bs(b \<mapsto> new_DataBlock 1 data sz))) (Segment_Put sg key time b))"

text \<open>A time dimension of a record: column index and value.\<close>

type_synonym ts_dimension = "32 word \<times> 64 word"

text \<open>
  The body of the loop over the dimensions; \<open>arr\<close> is \<open>entry_arr\<close>, NULL until a
  dimension of this segment has been seen.
\<close>

definition new_entry_arr :: "segment \<Rightarrow> bytes \<Rightarrow> (addr list \<times> segment \<times> 32 word) option" where
  "new_entry_arr sg key = do {
     let ks = map (\<lambda>i. next_ke sg + i) [0..<ts_cnt sg] in
     do {
       (height, es) \<leftarrow> Insert (entries sg) key (Some ks);
       Some (ks,
             sg\<lparr>entries := es,
                kes := (\<lambda>a. if a \<in> set ks then Some (new_KeyEntry (key_entry_max_height sg)) else kes sg a),
                next_ke := next_ke sg + ts_cnt sg, pk_cnt := pk_cnt sg + 1\<rparr>,
             GetRecordPkMultiIdxSize height (length key) (key_entry_max_height sg) (ts_cnt sg)) } }"

definition Segment_Put_ts_step ::
    "bytes \<Rightarrow> addr \<Rightarrow> ts_dimension \<Rightarrow> (addr list option \<times> segment) \<Rightarrow> (addr list option \<times> segment) option" where
  "Segment_Put_ts_step key row cur = (\<lambda>(arr, sg).
     case ts_idx_map sg (fst cur) of
       None \<Rightarrow> Some (arr, sg)
     | Some pos \<Rightarrow> do {
         (ks, sg1, byte_size) \<leftarrow> (case arr of
            Some ks \<Rightarrow> Some (ks, sg, 0)
          | None \<Rightarrow> do {
              entry \<leftarrow> find_entry sg key;
              (case entry of Some ks \<Rightarrow> Some (ks, sg, 0) | None \<Rightarrow> new_entry_arr sg key) });
         k \<leftarrow> arr_get ks pos;
         (height, sg2) \<leftarrow> entry_insert sg1 k (snd cur) row;
         c \<leftarrow> arr_get (idx_cnt_vec sg2) pos;
         Some (Some ks,
               sg2\<lparr>idx_byte_size := idx_byte_size sg2 + ucast (byte_size + GetRecordTsIdxSize height),
                   idx_cnt_vec := (idx_cnt_vec sg2)[pos := c + 1]\<rparr>) })"

definition Segment_Put_ts :: "segment \<Rightarrow> bytes \<Rightarrow> ts_dimension list \<Rightarrow> addr \<Rightarrow> segment option" where
  "Segment_Put_ts sg key dims row =
     (if dims = [] then Some sg
      else if ts_cnt sg = 1 then
        (if length dims = 1 then Segment_Put sg key (snd (hd dims)) row
         else case find (\<lambda>d. ts_idx_map sg (fst d) \<noteq> None) dims of
                None \<Rightarrow> Some sg
              | Some d \<Rightarrow> Segment_Put sg key (snd d) row)
      else map_option snd (foldM (Segment_Put_ts_step key row) dims (None, sg)))"

section \<open>Reads\<close>

text \<open>
  \<open>Get\<close> returns false as \<open>Some None\<close>; otherwise the block pointer of the node the
  search ended at, which is NULL when that is the sentinel.
\<close>

definition entry_get :: "segment \<Rightarrow> addr \<Rightarrow> 64 word \<Rightarrow> addr option option" where
  "entry_get sg k time = do { ke \<leftarrow> kes sg k; Get_unchecked (kentries ke) time }"

definition Segment_Get :: "segment \<Rightarrow> bytes \<Rightarrow> 64 word \<Rightarrow> addr option option option" where
  "Segment_Get sg key time =
     (if ts_cnt sg > 1 then Some None
      else do {
        entry \<leftarrow> find_entry sg key;
        (case entry of None \<Rightarrow> Some None
         | Some ks \<Rightarrow> do { k \<leftarrow> arr_get ks 0; map_option Some (entry_get sg k time) }) })"

definition Segment_Get_ts :: "segment \<Rightarrow> bytes \<Rightarrow> 32 word \<Rightarrow> 64 word \<Rightarrow> addr option option option" where
  "Segment_Get_ts sg key idx time = (case ts_idx_map sg idx of
       None \<Rightarrow> Some None
     | Some pos \<Rightarrow>
         if ts_cnt sg = 1 then Segment_Get sg key time
         else do {
           entry \<leftarrow> find_entry sg key;
           (case entry of None \<Rightarrow> Some None
            | Some ks \<Rightarrow> do { k \<leftarrow> arr_get ks pos; map_option Some (entry_get sg k time) }) })"

definition Segment_GetCount :: "segment \<Rightarrow> bytes \<Rightarrow> 64 word option option" where
  "Segment_GetCount sg key =
     (if ts_cnt sg > 1 then Some None
      else do {
        entry \<leftarrow> find_entry sg key;
        (case entry of None \<Rightarrow> Some None
         | Some ks \<Rightarrow> do { k \<leftarrow> arr_get ks 0; ke \<leftarrow> kes sg k; Some (Some (kcount ke)) }) })"

definition Segment_GetCount_ts :: "segment \<Rightarrow> bytes \<Rightarrow> 32 word \<Rightarrow> 64 word option option" where
  "Segment_GetCount_ts sg key idx = (case ts_idx_map sg idx of
       None \<Rightarrow> Some None
     | Some pos \<Rightarrow>
         if ts_cnt sg = 1 then Segment_GetCount sg key
         else do {
           entry \<leftarrow> find_entry sg key;
           (case entry of None \<Rightarrow> Some None
            | Some ks \<Rightarrow> do { k \<leftarrow> arr_get ks pos; ke \<leftarrow> kes sg k; Some (Some (kcount ke)) }) })"

section \<open>Deletion and the removed-entry list\<close>

definition Segment_Delete :: "segment \<Rightarrow> bytes \<Rightarrow> (bool \<times> segment) option" where
  "Segment_Delete sg key = do {
     (entry_node, es) \<leftarrow> Remove (entries sg) key;
     if entry_node = None then Some (False, sg\<lparr>entries := es\<rparr>)
     else do {
       (h, fl) \<leftarrow> Insert (entry_free_list sg) (gc_version sg) entry_node;
       Some (True, sg\<lparr>entries := es, entry_free_list := fl\<rparr>) } }"

text \<open>The three counters every collection updates.\<close>

record gc_counts =
  gc_idx_cnt :: "64 word"
  gc_record_cnt :: "64 word"
  gc_record_byte_size :: "64 word"

definition no_counts :: gc_counts where
  "no_counts = \<lparr>gc_idx_cnt = 0, gc_record_cnt = 0, gc_record_byte_size = 0\<rparr>"

type_synonym gc_state = "segment \<times> blocks \<times> gc_counts"

text \<open>
  What a walk over cut-off nodes changes: the nodes' heap, the blocks, the segment's
  byte count, and the counters.
\<close>

record free_state =
  fheap :: "(64 word, addr option) heap"
  fblocks :: blocks
  fbytes :: "64 word"
  fcounts :: gc_counts

definition FreeList_step :: "free_state \<Rightarrow> addr option \<Rightarrow> (addr option \<times> free_state) option" where
  "FreeList_step st node = do {
     height \<leftarrow> Height (fheap st) node;
     next \<leftarrow> GetNext (fheap st) node 0;
     val \<leftarrow> GetValue (fheap st) node;
     b \<leftarrow> val;
     d \<leftarrow> fblocks st b;
     bs \<leftarrow> drop_ref (fblocks st) val;
     h \<leftarrow> delete_node (fheap st) node;
     let c = fcounts st;
         c1 = c\<lparr>gc_idx_cnt := gc_idx_cnt c + 1\<rparr>;
         c2 = (if dim_cnt_down d > 1 then c1
               else c1\<lparr>gc_record_cnt := gc_record_cnt c1 + 1,
                       gc_record_byte_size := gc_record_byte_size c1 + ucast (GetRecordSize (blk_size d))\<rparr>) in
     Some (next, \<lparr>fheap = h, fblocks = bs,
                  fbytes = fbytes st - ucast (GetRecordTsIdxSize height), fcounts = c2\<rparr>) }"

text \<open>\<open>FreeList\<close> on the nodes of the entry \<open>k\<close>, whose heap the nodes live in.\<close>

definition FreeList ::
    "segment \<Rightarrow> blocks \<Rightarrow> gc_counts \<Rightarrow> addr \<Rightarrow> addr option \<Rightarrow> gc_state option" where
  "FreeList sg bs c k node = do {
     ke \<leftarrow> kes sg k;
     st \<leftarrow> walk FreeList_step
       \<lparr>fheap = heap (kentries ke), fblocks = bs, fbytes = idx_byte_size sg, fcounts = c\<rparr> node;
     Some (sg\<lparr>kes := (kes sg)(k \<mapsto> ke\<lparr>kentries := (kentries ke)\<lparr>heap := fheap st\<rparr>\<rparr>),
              idx_byte_size := fbytes st\<rparr>, fblocks st, fcounts st) }"

text \<open>Replacing the list of an entry, and lowering its count.\<close>

definition set_entries :: "segment \<Rightarrow> addr \<Rightarrow> time_entries \<Rightarrow> segment option" where
  "set_entries sg k es = do { ke \<leftarrow> kes sg k; Some (sg\<lparr>kes := (kes sg)(k \<mapsto> ke\<lparr>kentries := es\<rparr>)\<rparr>) }"

definition sub_count :: "segment \<Rightarrow> addr \<Rightarrow> 64 word \<Rightarrow> segment option" where
  "sub_count sg k n = do { ke \<leftarrow> kes sg k; Some (sg\<lparr>kes := (kes sg)(k \<mapsto> ke\<lparr>kcount := kcount ke - n\<rparr>)\<rparr>) }"

text \<open>The part of \<open>FreeEntry\<close> for one key entry: free all its nodes, then the entry.\<close>

definition FreeEntry_one ::
    "segment \<Rightarrow> blocks \<Rightarrow> gc_counts \<Rightarrow> addr \<Rightarrow> gc_state option" where
  "FreeEntry_one sg bs c k = do {
     ke \<leftarrow> kes sg k;
     it \<leftarrow> it_SeekToFirst (kentries ke);
     (sg1, bs1, c1) \<leftarrow>
       (if it_Valid it then do {
          ts \<leftarrow> it_GetKey (kentries ke) it;
          (data_node, es) \<leftarrow> Split (kentries ke) ts;
          sg0 \<leftarrow> set_entries sg k es;
          FreeList sg0 bs c k data_node }
        else Some (sg, bs, c));
     Some (sg1\<lparr>kes := (kes sg1)(k := None)\<rparr>, bs1, c1) }"

definition FreeEntry ::
    "segment \<Rightarrow> blocks \<Rightarrow> gc_counts \<Rightarrow> addr option \<Rightarrow> gc_state option" where
  "FreeEntry sg bs c entry_node =
     (if entry_node = None then Some (sg, bs, c)
      else do {
        key \<leftarrow> GetKey (heap (entries sg)) entry_node;
        height \<leftarrow> Height (heap (entries sg)) entry_node;
        val \<leftarrow> GetValue (heap (entries sg)) entry_node;
        ks \<leftarrow> val;
        (if ts_cnt sg > 1 then do {
           (sg1, bs1, c1) \<leftarrow> foldM (\<lambda>i (sg, bs, c). do {
              k \<leftarrow> arr_get ks i;
              (sg', bs', c') \<leftarrow> FreeEntry_one sg bs c k;
              n \<leftarrow> arr_get (idx_cnt_vec sg') i;
              Some (sg'\<lparr>idx_cnt_vec := (idx_cnt_vec sg')[i := n - (gc_idx_cnt c' - gc_idx_cnt c)]\<rparr>, bs', c') })
             [0..<ts_cnt sg] (sg, bs, c);
           Some (sg1\<lparr>idx_byte_size := idx_byte_size sg1 -
                   ucast (GetRecordPkMultiIdxSize height (length key) (key_entry_max_height sg) (ts_cnt sg))\<rparr>, bs1, c1) }
         else do {
           k \<leftarrow> arr_get ks 0;
           (sg1, bs1, c1) \<leftarrow> FreeEntry_one sg bs c k;
           Some (sg1\<lparr>idx_byte_size := idx_byte_size sg1 -
                     ucast (GetRecordPkIdxSize height (length key) (key_entry_max_height sg)),
                     idx_cnt := idx_cnt sg1 - (gc_idx_cnt c1 - gc_idx_cnt c)\<rparr>, bs1, c1) }) })"

text \<open>
  \<open>GcEntryFreeList\<close>: cut the removed-entry list at the version, then free each entry, its
  node of \<open>entries_\<close>, and the list node itself.
\<close>

definition GcEntryFreeList_step ::
    "gc_state \<Rightarrow> addr option \<Rightarrow> (addr option \<times> gc_state) option" where
  "GcEntryFreeList_step st node = (case st of (sg, bs, c) \<Rightarrow> do {
     entry_node \<leftarrow> GetValue (heap (entry_free_list sg)) node;
     (sg1, bs1, c1) \<leftarrow> FreeEntry sg bs c entry_node;
     h \<leftarrow> delete_node (heap (entries sg1)) entry_node;
     next \<leftarrow> GetNext (heap (entry_free_list sg1)) node 0;
     fh \<leftarrow> delete_node (heap (entry_free_list sg1)) node;
     Some (next, (sg1\<lparr>entries := (entries sg1)\<lparr>heap := h\<rparr>,
                      entry_free_list := (entry_free_list sg1)\<lparr>heap := fh\<rparr>,
                      pk_cnt := pk_cnt sg1 - 1\<rparr>, bs1, c1)) })"

definition GcEntryFreeList ::
    "segment \<Rightarrow> blocks \<Rightarrow> gc_counts \<Rightarrow> 64 word \<Rightarrow> gc_state option" where
  "GcEntryFreeList sg bs c version = do {
     (node, fl) \<leftarrow> Split (entry_free_list sg) version;
     walk GcEntryFreeList_step (sg\<lparr>entry_free_list := fl\<rparr>, bs, c) node }"

text \<open>\<open>delta\<close> is the flag \<open>gc_deleted_pk_version_delta\<close>.\<close>

definition GcFreeList ::
    "64 word \<Rightarrow> segment \<Rightarrow> blocks \<Rightarrow> gc_counts \<Rightarrow> gc_state option" where
  "GcFreeList delta sg bs c =
     (if gc_version sg < delta then Some (sg, bs, c)
      else GcEntryFreeList sg bs c (gc_version sg - delta))"

section \<open>Garbage collection of live keys\<close>

text \<open>
  The end of every collection body: free the cut-off nodes with a counter of their
  own, and lower the entry's count by it.
\<close>

definition free_nodes :: "gc_state \<Rightarrow> addr \<Rightarrow> addr option \<Rightarrow> gc_state option" where
  "free_nodes st k node = (case st of (sg, bs, c) \<Rightarrow> do {
     (sg1, bs1, c1) \<leftarrow> FreeList sg bs (c\<lparr>gc_idx_cnt := 0\<rparr>) k node;
     sg2 \<leftarrow> sub_count sg1 k (gc_idx_cnt c1);
     Some (sg2, bs1, c1\<lparr>gc_idx_cnt := gc_idx_cnt c + gc_idx_cnt c1\<rparr>) })"

text \<open>A split of the entry's list that is skipped while a reader holds the entry.\<close>

definition split_unref ::
    "segment \<Rightarrow> addr \<Rightarrow> (time_entries \<Rightarrow> (addr option \<times> time_entries) option) \<Rightarrow> (addr option \<times> segment) option" where
  "split_unref sg k split = do {
     ke \<leftarrow> kes sg k;
     if refs ke \<le> 0 then do {
       (node, es) \<leftarrow> split (kentries ke);
       sg' \<leftarrow> set_entries sg k es;
       Some (node, sg') }
     else Some (None, sg) }"

definition SplitList :: "segment \<Rightarrow> addr \<Rightarrow> 64 word \<Rightarrow> (addr option \<times> segment) option" where
  "SplitList sg k ts = split_unref sg k (\<lambda>es. Split es ts)"

text \<open>Taking a key out: its node goes to the removed-entry list.\<close>

definition remove_key :: "segment \<Rightarrow> bytes \<Rightarrow> segment option" where
  "remove_key sg key = do {
     (entry_node, es) \<leftarrow> Remove (entries sg) key;
     let sg1 = sg\<lparr>entries := es\<rparr> in
     if entry_node = None then Some sg1
     else do {
       (h, fl) \<leftarrow> Insert (entry_free_list sg1) (gc_version sg1) entry_node;
       Some (sg1\<lparr>entry_free_list := fl\<rparr>) } }"

text \<open>Taking the key out once its time list is empty.\<close>

definition move_if_empty :: "segment \<Rightarrow> addr \<Rightarrow> bytes \<Rightarrow> segment option" where
  "move_if_empty sg k key = do {
     ke \<leftarrow> kes sg k;
     empty \<leftarrow> IsEmpty (kentries ke);
     if empty then remove_key sg key else Some sg }"

text \<open>\<open>(KeyEntry* )it->GetValue()\<close>.\<close>

definition entry_at :: "segment \<Rightarrow> addr option \<Rightarrow> addr option" where
  "entry_at sg it = do { val \<leftarrow> it_GetValue (entries sg) it; ks \<leftarrow> val; arr_get ks 0 }"

definition Gc4Head_step :: "64 word \<Rightarrow> gc_state \<Rightarrow> addr option \<Rightarrow> (addr option \<times> gc_state) option" where
  "Gc4Head_step keep_cnt st it = (case st of (sg, bs, c) \<Rightarrow> do {
     k \<leftarrow> entry_at sg it;
     (node, sg1) \<leftarrow> split_unref sg k (\<lambda>es. SplitByPos es (unat keep_cnt));
     (sg2, bs2, c2) \<leftarrow> free_nodes (sg1, bs, c) k node;
     next \<leftarrow> it_Next (entries sg2) it;
     Some (next, (sg2, bs2, c2)) })"

text \<open>The frame of the four collections: iterate over the keys, then lower \<open>idx_cnt_\<close>.\<close>

definition gc_all ::
    "(gc_state \<Rightarrow> addr option \<Rightarrow> (addr option \<times> gc_state) option) \<Rightarrow> gc_state \<Rightarrow> gc_state option" where
  "gc_all step st = (case st of (sg, bs, c) \<Rightarrow> do {
     it \<leftarrow> it_SeekToFirst (entries sg);
     (sg1, bs1, c1) \<leftarrow> walk step (sg, bs, c) it;
     Some (sg1\<lparr>idx_cnt := idx_cnt sg1 - (gc_idx_cnt c1 - gc_idx_cnt c)\<rparr>, bs1, c1) })"

definition Gc4Head :: "gc_state \<Rightarrow> 64 word \<Rightarrow> gc_state option" where
  "Gc4Head st keep_cnt = (if keep_cnt = 0 then Some st else gc_all (Gc4Head_step keep_cnt) st)"

definition Gc4TTL_step :: "64 word \<Rightarrow> gc_state \<Rightarrow> addr option \<Rightarrow> (addr option \<times> gc_state) option" where
  "Gc4TTL_step time st it = (case st of (sg, bs, c) \<Rightarrow> do {
     k \<leftarrow> entry_at sg it;
     key \<leftarrow> it_GetKey (entries sg) it;
     next \<leftarrow> it_Next (entries sg) it;
     ke \<leftarrow> kes sg k;
     (case GetLast (kentries ke) of None \<Rightarrow> Some (next, st)
      | Some l \<Rightarrow> do {
          lk \<leftarrow> GetKey (heap (kentries ke)) (Some l);
          if lk > time then Some (next, st)
          else do {
            (node, sg1) \<leftarrow> SplitList sg k time;
            sg2 \<leftarrow> move_if_empty sg1 k key;
            st' \<leftarrow> free_nodes (sg2, bs, c) k node;
            Some (next, st') } }) })"

definition Gc4TTL :: "gc_state \<Rightarrow> 64 word \<Rightarrow> gc_state option" where
  "Gc4TTL st time = gc_all (Gc4TTL_step time) st"

definition Gc4TTLAndHead_step ::
    "64 word \<Rightarrow> 64 word \<Rightarrow> gc_state \<Rightarrow> addr option \<Rightarrow> (addr option \<times> gc_state) option" where
  "Gc4TTLAndHead_step time keep_cnt st it = (case st of (sg, bs, c) \<Rightarrow> do {
     k \<leftarrow> entry_at sg it;
     ke \<leftarrow> kes sg k;
     next \<leftarrow> it_Next (entries sg) it;
     (case GetLast (kentries ke) of None \<Rightarrow> Some (next, st)
      | Some l \<Rightarrow> do {
          lk \<leftarrow> GetKey (heap (kentries ke)) (Some l);
          if lk > time then Some (next, st)
          else do {
            (node, sg1) \<leftarrow> split_unref sg k (\<lambda>es. SplitByKeyAndPos es time (unat keep_cnt));
            st' \<leftarrow> free_nodes (sg1, bs, c) k node;
            Some (next, st') } }) })"

definition Gc4TTLAndHead :: "gc_state \<Rightarrow> 64 word \<Rightarrow> 64 word \<Rightarrow> gc_state option" where
  "Gc4TTLAndHead st time keep_cnt =
     (if time = 0 \<or> keep_cnt = 0 then Some st else gc_all (Gc4TTLAndHead_step time keep_cnt) st)"

definition Gc4TTLOrHead_step ::
    "64 word \<Rightarrow> 64 word \<Rightarrow> gc_state \<Rightarrow> addr option \<Rightarrow> (addr option \<times> gc_state) option" where
  "Gc4TTLOrHead_step time keep_cnt st it = (case st of (sg, bs, c) \<Rightarrow> do {
     k \<leftarrow> entry_at sg it;
     key \<leftarrow> it_GetKey (entries sg) it;
     next \<leftarrow> it_Next (entries sg) it;
     ke \<leftarrow> kes sg k;
     if GetLast (kentries ke) = None then Some (next, st)
     else do {
       (node, sg1) \<leftarrow> split_unref sg k (\<lambda>es. SplitByKeyOrPos es time (unat keep_cnt));
       sg2 \<leftarrow> move_if_empty sg1 k key;
       st' \<leftarrow> free_nodes (sg2, bs, c) k node;
       Some (next, st') } })"

definition Gc4TTLOrHead :: "gc_state \<Rightarrow> 64 word \<Rightarrow> 64 word \<Rightarrow> gc_state option" where
  "Gc4TTLOrHead st time keep_cnt =
     (if time = 0 \<and> keep_cnt = 0 then Some st
      else if time = 0 then Gc4Head st keep_cnt
      else if keep_cnt = 0 then Gc4TTL st time
      else gc_all (Gc4TTLOrHead_step time keep_cnt) st)"

text \<open>\<open>cur_time\<close> is the clock in milliseconds; the subtractions are in \<open>uint64_t\<close>.\<close>

definition ExecuteGc :: "64 word \<Rightarrow> TTLSt \<Rightarrow> gc_state \<Rightarrow> gc_state option" where
  "ExecuteGc cur_time ttl st = (case ttl_type ttl of
       kAbsoluteTime \<Rightarrow>
         if abs_ttl ttl = 0 then Some st
         else Gc4TTL st (cur_time - ttl_offset (fst st) - abs_ttl ttl)
     | kLatestTime \<Rightarrow>
         if lat_ttl ttl = 0 then Some st else Gc4Head st (lat_ttl ttl)
     | kAbsAndLat \<Rightarrow>
         if abs_ttl ttl = 0 \<or> lat_ttl ttl = 0 then Some st
         else Gc4TTLAndHead st (cur_time - ttl_offset (fst st) - abs_ttl ttl) (lat_ttl ttl)
     | kAbsOrLat \<Rightarrow>
         if abs_ttl ttl = 0 \<and> lat_ttl ttl = 0 then Some st
         else Gc4TTLOrHead st
                (if abs_ttl ttl = 0 then 0 else cur_time - ttl_offset (fst st) - abs_ttl ttl) (lat_ttl ttl)
     | _ \<Rightarrow> Some st)"

section \<open>Collection with several time columns\<close>

text \<open>
  One round of the inner loop of \<open>GcAllType\<close>, over the settings in key order.  The
  boolean says that the function has returned (an unsupported setting); the number is
  \<open>empty_cnt\<close>.
\<close>

definition last_expired :: "segment \<Rightarrow> addr \<Rightarrow> 64 word \<Rightarrow> bool option" where
  "last_expired sg k time = do {
     ke \<leftarrow> kes sg k;
     (case GetLast (kentries ke) of None \<Rightarrow> Some False
      | Some l \<Rightarrow> map_option (\<lambda>lk. \<not> lk > time) (GetKey (heap (kentries ke)) (Some l))) }"

definition count_if_empty :: "segment \<Rightarrow> addr \<Rightarrow> nat \<Rightarrow> nat option" where
  "count_if_empty sg k empty_cnt = do {
     ke \<leftarrow> kes sg k; e \<leftarrow> IsEmpty (kentries ke); Some (if e then Suc empty_cnt else empty_cnt) }"

definition GcAllType_finish ::
    "gc_state \<Rightarrow> addr \<Rightarrow> nat \<Rightarrow> addr option \<Rightarrow> nat \<Rightarrow> (bool \<times> nat \<times> gc_state) option" where
  "GcAllType_finish st k pos node empty_cnt = do {
     (sg1, bs1, c1) \<leftarrow> free_nodes st k node;
     n \<leftarrow> arr_get (idx_cnt_vec sg1) pos;
     Some (False, empty_cnt,
           (sg1\<lparr>idx_cnt_vec := (idx_cnt_vec sg1)[pos := n - (gc_idx_cnt c1 - gc_idx_cnt (snd (snd st)))]\<rparr>, bs1, c1)) }"

definition GcAllType_one ::
    "addr list \<Rightarrow> 32 word \<times> TTLSt \<Rightarrow> nat \<Rightarrow> gc_state \<Rightarrow> (bool \<times> nat \<times> gc_state) option" where
  "GcAllType_one ks kv empty_cnt st = (case st of (sg, bs, c) \<Rightarrow>
     let ttl = snd kv in
     if \<not> NeedGc ttl then Some (False, empty_cnt, st)
     else case ts_idx_map sg (fst kv) of None \<Rightarrow> Some (False, empty_cnt, st)
     | Some pos \<Rightarrow>
       if pos \<ge> ts_cnt sg then Some (False, empty_cnt, st)
       else do {
         k \<leftarrow> arr_get ks pos;
         (case ttl_type ttl of
            kAbsoluteTime \<Rightarrow> do {
              expired \<leftarrow> last_expired sg k (abs_ttl ttl);
              if \<not> expired then Some (False, empty_cnt, st)
              else do {
                (node, sg1) \<leftarrow> SplitList sg k (abs_ttl ttl);
                e \<leftarrow> count_if_empty sg1 k empty_cnt;
                GcAllType_finish (sg1, bs, c) k pos node e } }
          | kLatestTime \<Rightarrow> do {
              (node, sg1) \<leftarrow> split_unref sg k (\<lambda>es. SplitByPos es (unat (lat_ttl ttl)));
              GcAllType_finish (sg1, bs, c) k pos node empty_cnt }
          | kAbsAndLat \<Rightarrow> do {
              expired \<leftarrow> last_expired sg k (abs_ttl ttl);
              if \<not> expired then Some (False, empty_cnt, st)
              else do {
                (node, sg1) \<leftarrow> split_unref sg k (\<lambda>es. SplitByKeyAndPos es (abs_ttl ttl) (unat (lat_ttl ttl)));
                GcAllType_finish (sg1, bs, c) k pos node empty_cnt } }
          | kAbsOrLat \<Rightarrow> do {
              ke \<leftarrow> kes sg k;
              if GetLast (kentries ke) = None then Some (False, empty_cnt, st)
              else do {
                (node, sg1) \<leftarrow> split_unref sg k (\<lambda>es.
                   if abs_ttl ttl = 0 then SplitByPos es (unat (lat_ttl ttl))
                   else if lat_ttl ttl = 0 then Split es (abs_ttl ttl)
                   else SplitByKeyOrPos es (abs_ttl ttl) (unat (lat_ttl ttl)));
                e \<leftarrow> count_if_empty sg1 k empty_cnt;
                GcAllType_finish (sg1, bs, c) k pos node e } }
          | kRelativeTime \<Rightarrow> Some (True, empty_cnt, st)) })"

fun GcAllType_for ::
    "addr list \<Rightarrow> (32 word \<times> TTLSt) list \<Rightarrow> nat \<Rightarrow> gc_state \<Rightarrow> (bool \<times> nat \<times> gc_state) option" where
  "GcAllType_for ks [] empty_cnt st = Some (False, empty_cnt, st)"
| "GcAllType_for ks (kv # kvs) empty_cnt st = do {
     (returned, e, st') \<leftarrow> GcAllType_one ks kv empty_cnt st;
     if returned then Some (True, e, st') else GcAllType_for ks kvs e st' }"

text \<open>Whether all lists of a key are empty.\<close>

definition all_empty :: "segment \<Rightarrow> addr list \<Rightarrow> bool option" where
  "all_empty sg ks = foldM (\<lambda>i b. if \<not> b then Some False else do {
       k \<leftarrow> arr_get ks i; ke \<leftarrow> kes sg k; IsEmpty (kentries ke) }) [0..<ts_cnt sg] True"

definition GcAllType_step ::
    "(32 word \<times> TTLSt) list \<Rightarrow> gc_state \<Rightarrow> addr option \<Rightarrow> (addr option \<times> gc_state) option" where
  "GcAllType_step ttls st it = (case st of (sg, bs, c) \<Rightarrow> do {
     val \<leftarrow> it_GetValue (entries sg) it;
     ks \<leftarrow> val;
     key \<leftarrow> it_GetKey (entries sg) it;
     next \<leftarrow> it_Next (entries sg) it;
     (returned, empty_cnt, (sg1, bs1, c1)) \<leftarrow> GcAllType_for ks ttls 0 st;
     if returned then Some (None, (sg1, bs1, c1))
     else if empty_cnt = ts_cnt sg1 then do {
       e \<leftarrow> all_empty sg1 ks;
       sg2 \<leftarrow> (if e then remove_key sg1 key else Some sg1);
       Some (next, (sg2, bs1, c1)) }
     else Some (next, (sg1, bs1, c1)) })"

definition GcAllType :: "(32 word \<times> TTLSt) list \<Rightarrow> gc_state \<Rightarrow> gc_state option" where
  "GcAllType ttls st = (case st of (sg, bs, c) \<Rightarrow> do {
     it \<leftarrow> it_SeekToFirst (entries sg);
     walk (GcAllType_step ttls) (sg, bs, c) it })"

text \<open>The map of settings as a list in key order.\<close>

definition ExecuteGc_map :: "64 word \<Rightarrow> (32 word \<times> TTLSt) list \<Rightarrow> gc_state \<Rightarrow> gc_state option" where
  "ExecuteGc_map cur_time ttls st =
     (if ttls = [] then Some st
      else if ts_cnt (fst st) \<le> 1 then ExecuteGc cur_time (snd (hd ttls)) st
      else if \<exists>kv\<in>set ttls. ts_idx_map (fst st) (fst kv) = None then Some st
      else if \<not> (\<exists>kv\<in>set ttls. NeedGc (snd kv)) then Some st
      else GcAllType ttls st)"

section \<open>Releasing a segment\<close>

definition Release_entries :: "addr list \<Rightarrow> (64 word \<times> segment \<times> blocks) \<Rightarrow> (64 word \<times> segment \<times> blocks) option" where
  "Release_entries ks st = foldM (\<lambda>i (cnt, sg, bs). do {
       k \<leftarrow> arr_get ks i;
       ke \<leftarrow> kes sg k;
       (n, ke', bs') \<leftarrow> KeyEntry_Release ke bs;
       Some (cnt + n, sg\<lparr>kes := (kes sg)(k := None)\<rparr>, bs') })
     [0..<(if ts_cnt (fst (snd st)) > 1 then ts_cnt (fst (snd st)) else 1)] st"

definition Release_step ::
    "(64 word \<times> segment \<times> blocks) \<Rightarrow> addr option \<Rightarrow> (addr option \<times> (64 word \<times> segment \<times> blocks)) option" where
  "Release_step st it = (case st of (cnt, sg, bs) \<Rightarrow> do {
     val \<leftarrow> it_GetValue (entries sg) it;
     (cnt', sg', bs') \<leftarrow> (case val of None \<Rightarrow> Some (cnt, sg, bs) | Some ks \<Rightarrow> Release_entries ks (cnt, sg, bs));
     next \<leftarrow> it_Next (entries sg') it;
     Some (next, (cnt', sg', bs')) })"

definition Release_free_step ::
    "(segment \<times> blocks) \<Rightarrow> addr option \<Rightarrow> (addr option \<times> (segment \<times> blocks)) option" where
  "Release_free_step st it = (case st of (sg, bs) \<Rightarrow> do {
     node \<leftarrow> it_GetValue (entry_free_list sg) it;
     val \<leftarrow> GetValue (heap (entries sg)) node;
     ks \<leftarrow> val;
     (cnt', sg1, bs1) \<leftarrow> Release_entries ks (0, sg, bs);
     h \<leftarrow> delete_node (heap (entries sg1)) node;
     next \<leftarrow> it_Next (entry_free_list sg1) it;
     Some (next, (sg1\<lparr>entries := (entries sg1)\<lparr>heap := h\<rparr>\<rparr>, bs1)) })"

definition Segment_Release :: "segment \<Rightarrow> blocks \<Rightarrow> (64 word \<times> segment \<times> blocks) option" where
  "Segment_Release sg bs = do {
     it \<leftarrow> it_SeekToFirst (entries sg);
     (cnt, sg1, bs1) \<leftarrow> walk Release_step (0, sg, bs) it;
     (n, es) \<leftarrow> Clear (entries sg1);
     f_it \<leftarrow> it_SeekToFirst (entry_free_list sg1);
     (sg2, bs2) \<leftarrow> walk Release_free_step (sg1\<lparr>entries := es\<rparr>, bs1) f_it;
     (m, fl) \<leftarrow> Clear (entry_free_list sg2);
     Some (cnt, sg2\<lparr>entry_free_list := fl, idx_cnt_vec := []\<rparr>, bs2) }"

definition ReleaseAndCount_step :: "gc_state \<Rightarrow> addr option \<Rightarrow> (addr option \<times> gc_state) option" where
  "ReleaseAndCount_step st it = (case st of (sg, bs, c) \<Rightarrow> do {
     key \<leftarrow> it_GetKey (entries sg) it;
     (entry_node, es) \<leftarrow> Remove (entries sg) key;
     (sg1, bs1, c1) \<leftarrow> FreeEntry (sg\<lparr>entries := es\<rparr>) bs c entry_node;
     next \<leftarrow> it_Next (entries sg1) it;
     Some (next, (sg1\<lparr>pk_cnt := pk_cnt sg1 - 1\<rparr>, bs1, c1)) })"

definition ReleaseAndCount :: "gc_state \<Rightarrow> gc_state option" where
  "ReleaseAndCount st = (case st of (sg, bs, c) \<Rightarrow> do {
     it \<leftarrow> it_SeekToFirst (entries sg);
     (sg1, bs1, c1) \<leftarrow> walk ReleaseAndCount_step (sg, bs, c) it;
     (sg2, bs2, c2) \<leftarrow> GcEntryFreeList sg1 bs1 c1 (gc_version sg1);
     (cnt, sg3, bs3) \<leftarrow> Segment_Release sg2 bs2;
     Some (sg3, bs3, c2) })"

section \<open>Readers\<close>

text \<open>A ticket is the list of the entries it holds, the last one at the end.\<close>

definition Ticket_Push :: "segment \<Rightarrow> addr list \<Rightarrow> addr option \<Rightarrow> (segment \<times> addr list) option" where
  "Ticket_Push sg ticket entry = (case entry of None \<Rightarrow> Some (sg, ticket)
     | Some k \<Rightarrow> do {
         ke \<leftarrow> kes sg k;
         Some (sg\<lparr>kes := (kes sg)(k \<mapsto> KeyEntry_Ref ke)\<rparr>, ticket @ [k]) })"

definition Ticket_Pop :: "segment \<Rightarrow> addr list \<Rightarrow> (segment \<times> addr list) option" where
  "Ticket_Pop sg ticket =
     (if ticket = [] then Some (sg, ticket)
      else do {
        ke \<leftarrow> kes sg (last ticket);
        Some (sg\<lparr>kes := (kes sg)(last ticket \<mapsto> KeyEntry_UnRef ke)\<rparr>, butlast ticket) })"

definition Ticket_destroy :: "segment \<Rightarrow> addr list \<Rightarrow> segment option" where
  "Ticket_destroy sg ticket = foldM (\<lambda>k sg. do {
     ke \<leftarrow> kes sg k; Some (sg\<lparr>kes := (kes sg)(k \<mapsto> KeyEntry_UnRef ke)\<rparr>) }) ticket sg"

text \<open>
  A \<open>MemTableIterator\<close>: no iterator at all, or one on the entry \<open>k\<close> at a node.
\<close>

type_synonym mt_iterator = "(addr \<times> addr option) option"

definition Segment_NewIterator :: "segment \<Rightarrow> bytes \<Rightarrow> addr list \<Rightarrow> (mt_iterator \<times> segment \<times> addr list) option" where
  "Segment_NewIterator sg key ticket =
     (if ts_cnt sg > 1 then Some (None, sg, ticket)
      else do {
        entry \<leftarrow> find_entry sg key;
        (case entry of None \<Rightarrow> Some (None, sg, ticket)
         | Some ks \<Rightarrow> do {
             k \<leftarrow> arr_get ks 0;
             (sg', ticket') \<leftarrow> Ticket_Push sg ticket (Some k);
             Some (Some (k, None), sg', ticket') }) })"

definition Segment_NewIterator_ts ::
    "segment \<Rightarrow> bytes \<Rightarrow> 32 word \<Rightarrow> addr list \<Rightarrow> (mt_iterator \<times> segment \<times> addr list) option" where
  "Segment_NewIterator_ts sg key idx ticket = (case ts_idx_map sg idx of
       None \<Rightarrow> Some (None, sg, ticket)
     | Some pos \<Rightarrow>
         if ts_cnt sg = 1 then Segment_NewIterator sg key ticket
         else do {
           entry \<leftarrow> find_entry sg key;
           (case entry of None \<Rightarrow> Some (None, sg, ticket)
            | Some ks \<Rightarrow> do {
                k \<leftarrow> arr_get ks pos;
                (sg', ticket') \<leftarrow> Ticket_Push sg ticket (Some k);
                Some (Some (k, None), sg', ticket') }) })"

definition mt_Seek :: "segment \<Rightarrow> mt_iterator \<Rightarrow> 64 word \<Rightarrow> mt_iterator option" where
  "mt_Seek sg it time = (case it of None \<Rightarrow> Some None
     | Some (k, node) \<Rightarrow> do { ke \<leftarrow> kes sg k; p \<leftarrow> it_Seek (kentries ke) time; Some (Some (k, p)) })"

definition mt_SeekToFirst :: "segment \<Rightarrow> mt_iterator \<Rightarrow> mt_iterator option" where
  "mt_SeekToFirst sg it = (case it of None \<Rightarrow> Some None
     | Some (k, node) \<Rightarrow> do { ke \<leftarrow> kes sg k; p \<leftarrow> it_SeekToFirst (kentries ke); Some (Some (k, p)) })"

definition mt_SeekToLast :: "segment \<Rightarrow> mt_iterator \<Rightarrow> mt_iterator option" where
  "mt_SeekToLast sg it = (case it of None \<Rightarrow> Some None
     | Some (k, node) \<Rightarrow> do { ke \<leftarrow> kes sg k; Some (Some (k, it_SeekToLast (kentries ke))) })"

definition mt_Valid :: "mt_iterator \<Rightarrow> bool" where
  "mt_Valid it = (case it of None \<Rightarrow> False | Some (k, node) \<Rightarrow> it_Valid node)"

definition mt_Next :: "segment \<Rightarrow> mt_iterator \<Rightarrow> mt_iterator option" where
  "mt_Next sg it = (case it of None \<Rightarrow> Some None
     | Some (k, node) \<Rightarrow> do { ke \<leftarrow> kes sg k; p \<leftarrow> it_Next (kentries ke) node; Some (Some (k, p)) })"

definition mt_GetKey :: "segment \<Rightarrow> mt_iterator \<Rightarrow> 64 word option" where
  "mt_GetKey sg it = do { (k, node) \<leftarrow> it; ke \<leftarrow> kes sg k; it_GetKey (kentries ke) node }"

definition mt_GetValue :: "segment \<Rightarrow> blocks \<Rightarrow> mt_iterator \<Rightarrow> bytes option" where
  "mt_GetValue sg bs it = do {
     (k, node) \<leftarrow> it; ke \<leftarrow> kes sg k; val \<leftarrow> it_GetValue (kentries ke) node; b \<leftarrow> val; d \<leftarrow> bs b;
     Some (blk_data d) }"

end
