(* ===== verification/Segment_Inv.thy ===== *)
theory Segment_Inv
  imports Segment
begin

text \<open>
  The invariant of a segment and its preservation: what every node, key entry and data
  block is owned by, and what the counters count.
\<close>

section \<open>Dropping references to blocks\<close>

text \<open>The store after giving up one reference for every member of a list.\<close>

definition drop_refs :: "blocks \<Rightarrow> addr list \<Rightarrow> blocks" where
  "drop_refs bs l b = (case bs b of None \<Rightarrow> None
     | Some d \<Rightarrow> if count_list l b = 0 then Some d
                else if unat (dim_cnt_down d) \<le> count_list l b then None
                else Some (d\<lparr>dim_cnt_down := dim_cnt_down d - of_nat (count_list l b)\<rparr>))"

definition enough_refs :: "blocks \<Rightarrow> addr list \<Rightarrow> bool" where
  "enough_refs bs l \<longleftrightarrow> (\<forall>b\<in>set l. \<exists>d. bs b = Some d \<and> count_list l b \<le> unat (dim_cnt_down d))"

lemma drop_refs_Nil [simp]: "drop_refs bs [] = bs"
  by (intro ext) (auto simp: drop_refs_def split: option.splits)

lemma drop_refs_other: "x \<noteq> b \<Longrightarrow> bs' x = bs x \<Longrightarrow> drop_refs bs' l x = drop_refs bs (b # l) x"
  by (cases "bs x") (auto simp: drop_refs_def)

lemma drop_ref_step:
  assumes "enough_refs bs (b # l)"
  shows "\<exists>bs'. drop_ref bs (Some b) = Some bs' \<and> enough_refs bs' l \<and> drop_refs bs' l = drop_refs bs (b # l)"
proof -
  obtain d where d: "bs b = Some d" "Suc (count_list l b) \<le> unat (dim_cnt_down d)"
    using assms by (auto simp: enough_refs_def)
  let ?d' = "d\<lparr>dim_cnt_down := dim_cnt_down d - 1\<rparr>"
  have gt: "dim_cnt_down d > 1 \<longleftrightarrow> unat (dim_cnt_down d) > 1" by (simp add: word_less_nat_alt)
  show ?thesis
  proof (cases "dim_cnt_down d > 1")
    case True
    have u: "unat (dim_cnt_down d - 1) = unat (dim_cnt_down d) - 1"
      using d(2) by (simp add: unat_sub word_le_nat_alt)
    have "drop_ref bs (Some b) = Some (bs(b \<mapsto> ?d'))" using d True by (simp add: drop_ref_def)
    moreover have "enough_refs (bs(b \<mapsto> ?d')) l"
      using assms d u by (auto simp: enough_refs_def split: if_splits)
    moreover have "drop_refs (bs(b \<mapsto> ?d')) l = drop_refs bs (b # l)"
    proof
      fix x
      show "drop_refs (bs(b \<mapsto> ?d')) l x = drop_refs bs (b # l) x"
        using d u True gt drop_refs_other[of x b "bs(b \<mapsto> ?d')" bs l]
        by (cases "x = b") (auto simp: drop_refs_def algebra_simps)
    qed
    ultimately show ?thesis by blast
  next
    case False
    then have one: "unat (dim_cnt_down d) = 1" "count_list l b = 0" using d gt by auto
    have "drop_ref bs (Some b) = Some (bs(b := None))" using d False by (simp add: drop_ref_def)
    moreover have "enough_refs (bs(b := None)) l"
      using assms one by (auto simp: enough_refs_def count_list_0_iff split: if_splits)
    moreover have "drop_refs (bs(b := None)) l = drop_refs bs (b # l)"
    proof
      fix x
      show "drop_refs (bs(b := None)) l x = drop_refs bs (b # l) x"
        using d one drop_refs_other[of x b "bs(b := None)" bs l] by (cases "x = b") (auto simp: drop_refs_def)
    qed
    ultimately show ?thesis by blast
  qed
qed

text \<open>The blocks that a list of references holds alone: dropping the list deletes them.\<close>

definition freed :: "blocks \<Rightarrow> addr list \<Rightarrow> addr set" where
  "freed bs l = {b \<in> set l. drop_refs bs l b = None}"

lemma finite_freed [simp]: "finite (freed bs l)"
  by (simp add: freed_def)

lemma freed_Nil [simp]: "freed bs [] = {}"
  by (simp add: freed_def)

lemma freed_step:
  assumes "enough_refs bs (b # l)" "drop_ref bs (Some b) = Some bs'" "bs b = Some d"
    and "drop_refs bs' l = drop_refs bs (b # l)"
  shows "freed bs (b # l) = (if dim_cnt_down d > 1 then freed bs' l else insert b (freed bs' l))"
    and "\<not> dim_cnt_down d > 1 \<Longrightarrow> b \<notin> freed bs' l"
proof -
  have gt: "dim_cnt_down d > 1 \<longleftrightarrow> unat (dim_cnt_down d) > 1" by (simp add: word_less_nat_alt)
  have le: "Suc (count_list l b) \<le> unat (dim_cnt_down d)" using assms(1,3) by (auto simp: enough_refs_def)
  have "b \<notin> set l" if "\<not> dim_cnt_down d > 1" using that gt le count_list_0_iff[of l b] by auto
  then show "\<not> dim_cnt_down d > 1 \<Longrightarrow> b \<notin> freed bs' l" by (auto simp: freed_def)
  have "drop_refs bs (b # l) b \<noteq> None" if "b \<notin> set l" "dim_cnt_down d > 1"
    using that gt assms(3) by (auto simp: drop_refs_def)
  moreover have "drop_refs bs (b # l) b = None" if "\<not> dim_cnt_down d > 1"
    using that gt le assms(3) by (auto simp: drop_refs_def)
  ultimately show "freed bs (b # l) = (if dim_cnt_down d > 1 then freed bs' l else insert b (freed bs' l))"
    using assms(4) unfolding freed_def by (cases "b \<in> set l") auto
qed

section \<open>Walking and freeing a chain\<close>

lemma walk_rule:
  assumes "I as st"
    and "\<And>a ws st. I (a # ws) st \<Longrightarrow> \<exists>st'. body st (Some a) = Some (ptr ws None, st') \<and> I ws st'"
  shows "\<exists>st'. walk body st (ptr as None) = Some st' \<and> I [] st'"
  using assms(1)
proof (induction as arbitrary: st)
  case Nil
  then show ?case by (simp add: walk.simps)
next
  case (Cons a ws)
  obtain st' where st': "body st (Some a) = Some (ptr ws None, st')" "I ws st'"
    using assms(2)[OF Cons.prems] by blast
  then show ?case using Cons.IH[OF st'(2)] by (subst walk.simps) simp
qed

text \<open>The block addresses a list of cut-off nodes refers to.\<close>

definition block_vals :: "(64 word, addr option) heap \<Rightarrow> addr list \<Rightarrow> addr list" where
  "block_vals h as = map (\<lambda>a. the (valat h a)) as"

lemma FreeList_walk:
  assumes "lseg h 0 as None" "distinct as" "\<forall>a\<in>set as. valat h a \<noteq> None"
    and "enough_refs bs (block_vals h as)"
  shows "\<exists>st. walk FreeList_step \<lparr>fheap = h, fblocks = bs, fbytes = B, fcounts = c\<rparr> (ptr as None) = Some st \<and>
    (\<forall>a. fheap st a = (if a \<in> set as then None else h a)) \<and>
    fblocks st = drop_refs bs (block_vals h as) \<and>
    gc_idx_cnt (fcounts st) = gc_idx_cnt c + of_nat (length as) \<and>
    gc_record_cnt (fcounts st) = gc_record_cnt c + of_nat (card (freed bs (block_vals h as)))"
proof -
  let ?I = "\<lambda>ws (st :: free_state). lseg (fheap st) 0 ws None \<and> distinct ws \<and> set ws \<subseteq> set as \<and>
    (\<forall>a. fheap st a = (if a \<in> set as - set ws then None else h a)) \<and>
    enough_refs (fblocks st) (block_vals h ws) \<and>
    drop_refs (fblocks st) (block_vals h ws) = drop_refs bs (block_vals h as) \<and>
    gc_idx_cnt (fcounts st) + of_nat (length ws) = gc_idx_cnt c + of_nat (length as) \<and>
    gc_record_cnt (fcounts st) + of_nat (card (freed (fblocks st) (block_vals h ws))) =
      gc_record_cnt c + of_nat (card (freed bs (block_vals h as)))"
  have "\<exists>st'. walk FreeList_step \<lparr>fheap = h, fblocks = bs, fbytes = B, fcounts = c\<rparr> (ptr as None) = Some st' \<and> ?I [] st'"
  proof (rule walk_rule[where I="?I"])
    show "?I as \<lparr>fheap = h, fblocks = bs, fbytes = B, fcounts = c\<rparr>" using assms by simp
    fix a ws st assume I: "?I (a # ws) st"
    let ?fh = "fheap st"
    have a: "a \<in> set as" "?fh a = h a" "wf_node ?fh a" "valid ?fh a 0" "nxt ?fh a 0 = ptr ws None"
      using I by (auto simp: valid_def)
    then obtain b where b: "valat h a = Some b" using assms(3) by auto
    then have v: "valat ?fh a = Some b" using a(2) by (simp add: valat_def)
    have e: "enough_refs (fblocks st) (b # block_vals h ws)" using I b by (simp add: block_vals_def)
    then obtain bs' where bs': "drop_ref (fblocks st) (Some b) = Some bs'" "enough_refs bs' (block_vals h ws)"
      "drop_refs bs' (block_vals h ws) = drop_refs (fblocks st) (b # block_vals h ws)"
      using drop_ref_step by blast
    obtain d where d: "fblocks st b = Some d" using e by (auto simp: enough_refs_def)
    have l: "lseg (?fh(a := None)) 0 ws None"
      using I by (subst lseg_heap_cong[where h="?fh"]) auto
    obtain st' where st': "FreeList_step st (Some a) = Some (ptr ws None, st')"
      and f: "fheap st' = ?fh(a := None)" "fblocks st' = bs'" "gc_idx_cnt (fcounts st') = gc_idx_cnt (fcounts st) + 1"
        "gc_record_cnt (fcounts st') = gc_record_cnt (fcounts st) + (if dim_cnt_down d > 1 then 0 else 1)"
      using a v d bs'(1) by (auto simp: FreeList_step_def ptr_simps Let_def)
    have "of_nat (card (freed (fblocks st) (b # block_vals h ws))) =
        (of_nat (card (freed bs' (block_vals h ws))) :: 64 word) + (if dim_cnt_down d > 1 then 0 else 1)"
      using freed_step[OF e bs'(1) d bs'(3)] by (auto simp: algebra_simps)
    then have "?I ws st'"
      using I a l f bs' b by (auto simp: block_vals_def algebra_simps)
    then show "\<exists>st'. FreeList_step st (Some a) = Some (ptr ws None, st') \<and> ?I ws st'" using st' by blast
  qed
  then show ?thesis by (auto simp: block_vals_def)
qed

section \<open>Key entries\<close>

text \<open>
  The time list \<open>es\<close> has the nodes \<open>as\<close> and no other allocated node but its sentinel, and they
  hold the times and block addresses \<open>xs\<close>.
\<close>

definition es_rep :: "time_entries \<Rightarrow> addr list \<Rightarrow> (64 word \<times> addr) list \<Rightarrow> bool" where
  "es_rep es as xs \<longleftrightarrow> rep False es as \<and> pairs es as = map (\<lambda>(t, b). (t, Some b)) xs \<and>
     dom (heap es) = insert (head es) (set as) \<and> compare es = TimeComparator \<and>
     valat (heap es) (head es) = None"

definition ke_rep :: "key_entry \<Rightarrow> (64 word \<times> addr) list \<Rightarrow> bool" where
  "ke_rep ke xs \<longleftrightarrow> (\<exists>as. es_rep (kentries ke) as xs) \<and> kcount ke = of_nat (length xs)"

definition time_insert :: "64 word \<Rightarrow> 'a \<Rightarrow> (64 word \<times> 'a) list \<Rightarrow> (64 word \<times> 'a) list" where
  "time_insert t b xs = filter (\<lambda>x. fst x > t) xs @ (t, b) # filter (\<lambda>x. \<not> fst x > t) xs"

definition newer :: "64 word \<Rightarrow> (64 word \<times> addr) list \<Rightarrow> nat" where
  "newer t xs = length (filter (\<lambda>x. fst x > t) xs)"

lemma lower_time:
  "lower TimeComparator t (map (\<lambda>(t, b). (t, Some b)) xs) = map (\<lambda>(t, b). (t, Some b)) (filter (\<lambda>x. fst x > t) xs)"
  "upper TimeComparator t (map (\<lambda>(t, b). (t, Some b)) xs) = map (\<lambda>(t, b). (t, Some b)) (filter (\<lambda>x. \<not> fst x > t) xs)"
  by (induction xs) (auto simp: lower_def upper_def TimeComparator_def)

lemma es_rep_length: "es_rep es as xs \<Longrightarrow> length as = length xs"
  unfolding es_rep_def by (metis length_map pairs_simps(4))

lemma es_rep_newer:
  assumes "es_rep es as xs"
  shows "count_before es as t = newer t xs"
  using assms pairs_simps(4)[of es "filter (before es t) as"]
  by (simp add: pairs_filter es_rep_def lower_time newer_def)

lemma new_es_rep: "1 \<le> height \<Longrightarrow> es_rep (new_skiplist height 4 TimeComparator 0 None) [] []"
  using new_skiplist_rep[OF time_cmp.comparator_axioms, of height 4 False 0 None]
  by (auto simp: es_rep_def new_skiplist_def valat_def new_node_def split: if_splits)

lemma new_KeyEntry_rep: "1 \<le> height \<Longrightarrow> ke_rep (new_KeyEntry height) []"
  using new_es_rep[of height] by (auto simp: ke_rep_def new_KeyEntry_def)

lemma shapes_dom: "shapes h' = shapes h \<Longrightarrow> dom h' = dom h"
  using shapes_eqD(6)[of h' h] by (auto simp: dom_def)

lemma es_rep_skl:
  assumes "es_rep es as xs"
  obtains lv where "skl es lv" "lv 0 = as"
  using assms by (auto simp: es_rep_def rep_def)

lemma es_insert:
  assumes "es_rep es as xs"
  shows "\<exists>h es' as'. Insert es t (Some b) = Some (h, es') \<and> 1 \<le> h \<and> h \<le> MaxHeight es \<and>
    es_rep es' as' (time_insert t b xs)"
proof -
  let ?n = "next_addr es" and ?as = "filter (before es t) as @ next_addr es # filter (\<lambda>a. \<not> before es t a) as"
  obtain h es' where I: "Insert es t (Some b) = Some (h, es')" "1 \<le> h" "h \<le> MaxHeight es"
    and r: "rep False es' ?as"
    and sh: "shapes (heap es') = shapes ((heap es)(?n \<mapsto> new_node t (Some b) h))"
    and c: "compare es' = compare es" "head es' = head es" and n: "?n \<notin> set as"
    using Insert_rep[of False es as t "Some b"] assms unfolding es_rep_def by blast
  have "pairs es' (filter P as) = pairs es (filter P as)" for P
    using n by (intro pairs_new_node(1)[OF sh]) auto
  moreover have "pairs es' [?n] = [(t, Some b)]" using pairs_new_node(2)[OF sh n] .
  ultimately have "pairs es' ?as = map (\<lambda>(t, b). (t, Some b)) (time_insert t b xs)"
    using assms by (simp add: pairs_filter es_rep_def lower_time time_insert_def)
  moreover have "dom (heap es') = insert (head es') (set ?as)"
    using shapes_dom[OF sh] assms c(2) by (auto simp: es_rep_def)
  moreover have "valat (heap es') (head es') = None"
  proof -
    obtain lv where lv: "skl es lv" using assms by (rule es_rep_skl)
    have "heap es (head es) \<noteq> None" using assms by (auto simp: es_rep_def dom_def)
    then have "head es \<noteq> ?n" using sklD(5)[OF lv, of "head es"] by auto
    then have "valat (heap es') (head es) = valat (heap es) (head es)"
      unfolding shapes_eqD(4)[OF sh] by (simp add: valat_def)
    then show ?thesis using assms c(2) by (simp add: es_rep_def)
  qed
  ultimately show ?thesis using I r c assms by (auto simp: es_rep_def)
qed

section \<open>Splits of a time list\<close>

text \<open>
  What a collection needs of a split: it keeps a prefix whose length \<open>keep\<close> gives, and cuts
  the rest off as a chain.
\<close>

locale cutter =
  fixes split :: "time_entries \<Rightarrow> (addr option \<times> time_entries) option"
    and keep :: "(64 word \<times> addr) list \<Rightarrow> nat"
  assumes cut_ok: "es_rep es as xs \<Longrightarrow> \<exists>p es'. split es = Some (p, es') \<and> split_at (keep xs) es as p es'"

interpretation by_time: cutter "\<lambda>es. Split es t" "newer t" for t
proof
  fix es as xs assume e: "es_rep es as xs"
  then obtain lv where "skl es lv" "lv 0 = as" by (rule es_rep_skl)
  then show "\<exists>p es'. Split es t = Some (p, es') \<and> split_at (newer t xs) es as p es'"
    using Split_at[of es lv t] es_rep_newer[OF e, of t] by simp
qed

interpretation by_pos: cutter "\<lambda>es. SplitByPos es n" "\<lambda>xs. n" for n
proof
  fix es as xs assume e: "es_rep es as xs"
  then obtain lv where "skl es lv" "lv 0 = as" by (rule es_rep_skl)
  then show "\<exists>p es'. SplitByPos es n = Some (p, es') \<and> split_at n es as p es'"
    using SplitByPos_at[of es lv n] by simp
qed

interpretation by_time_or_pos: cutter "\<lambda>es. SplitByKeyOrPos es t n" "\<lambda>xs. min (newer t xs) n" for t n
proof
  fix es as xs assume e: "es_rep es as xs"
  then obtain lv where "skl es lv" "lv 0 = as" by (rule es_rep_skl)
  then show "\<exists>p es'. SplitByKeyOrPos es t n = Some (p, es') \<and> split_at (min (newer t xs) n) es as p es'"
    using SplitByKeyOrPos_at[of es lv t n] es_rep_newer[OF e, of t] by simp
qed

interpretation by_time_and_pos: cutter "\<lambda>es. SplitByKeyAndPos es t n" "\<lambda>xs. max (newer t xs) n" for t n
proof
  fix es as xs assume e: "es_rep es as xs"
  then obtain lv where "skl es lv" "lv 0 = as" by (rule es_rep_skl)
  then show "\<exists>p es'. SplitByKeyAndPos es t n = Some (p, es') \<and> split_at (max (newer t xs) n) es as p es'"
    using SplitByKeyAndPos_at[of es lv t n] es_rep_newer[OF e, of t] by simp
qed

section \<open>Freeing what a split cut off\<close>

lemma skl_restrict:
  assumes skl: "skl sl lv"
    and same: "\<And>a. a = head sl \<or> a \<in> set (lv 0) \<Longrightarrow> h a = heap sl a"
    and sub: "\<And>a. h a \<noteq> None \<Longrightarrow> heap sl a \<noteq> None"
  shows "skl (sl\<lparr>heap := h\<rparr>) lv"
proof -
  have cell: "hgt h a = hgt (heap sl) a" "keyat h a = keyat (heap sl) a" "nxt h a i = nxt (heap sl) a i"
    if "a = head sl \<or> a \<in> set (lv 0)" for a i
    using same[OF that] by (simp_all add: hgt_def keyat_def nxt_def)
  have "lseg h i (head sl # lv i) None" if "i < MaxHeight sl" for i
    using sklD(7)[OF skl that] skl_levels[OF skl, of i] same
    by (subst lseg_heap_cong[where h="heap sl"]) auto
  moreover have "sorted_wrt (key_le (sl\<lparr>heap := h\<rparr>)) (lv i)" for i
  proof (rule sorted_wrt_mono_rel[OF _ sklD(11)[OF skl, of i]])
    fix a b assume "a \<in> set (lv i)" "b \<in> set (lv i)" "key_le sl a b"
    moreover from this have "keyat h a = keyat (heap sl) a" "keyat h b = keyat (heap sl) b"
      using skl_levels[OF skl, of i] by (auto intro: cell(2))
    ultimately show "key_le (sl\<lparr>heap := h\<rparr>) a b" by (simp add: key_le_def)
  qed
  moreover have "a < next_addr sl" if "h a \<noteq> None" for a
    using sub[OF that] by (rule sklD(5)[OF skl])
  moreover have "tail_ok (sl\<lparr>heap := h\<rparr>) (lv 0)" using sklD(14)[OF skl] by (simp add: tail_ok_def)
  ultimately show ?thesis
    using sklD(1-4,6,8-10,12,13)[OF skl] cell unfolding skl_def by simp
qed

lemma split_at_es:
  assumes "es_rep es as xs" "split_at n es as p es'"
  shows "p = ptr (drop n as) None" "lseg (heap es') 0 (drop n as) None" "shapes (heap es') = shapes (heap es)"
    "head es' = head es" "compare es' = compare es" "distinct (head es # as)"
    "block_vals (heap es') (drop n as) = map snd (drop n xs)" "\<forall>a\<in>set as. valat (heap es') a \<noteq> None"
    "MaxHeight es' = MaxHeight es"
proof -
  show "p = ptr (drop n as) None" "lseg (heap es') 0 (drop n as) None" and sh: "shapes (heap es') = shapes (heap es)"
    using assms(2) by (auto simp: split_at_def)
  have eq: "es' = es\<lparr>heap := heap es', tail := tail es'\<rparr>" using assms(2) unfolding split_at_def by blast
  show "head es' = head es" "compare es' = compare es" "MaxHeight es' = MaxHeight es"
    using arg_cong[OF eq, of head] arg_cong[OF eq, of compare] arg_cong[OF eq, of MaxHeight] by simp_all
  obtain lv where "skl es lv" "lv 0 = as" using assms(1) by (rule es_rep_skl)
  then show "distinct (head es # as)" using sklD(10)[of es lv 0] by simp
  have p: "pairs es as = map (\<lambda>(t, b). (t, Some b)) xs" using assms(1) by (simp add: es_rep_def)
  have "valat (heap es') = valat (heap es)" using shapes_eqD(4)[OF sh] by (intro ext)
  then have v: "map (valat (heap es')) as = map (\<lambda>x. Some (snd x)) xs"
    using arg_cong[OF p, of "map snd"] by (simp add: pairs_def comp_def case_prod_unfold)
  have "map (\<lambda>a. the (valat (heap es') a)) as = map snd xs"
    using arg_cong[OF v, of "map the"] by (simp add: comp_def)
  then show "block_vals (heap es') (drop n as) = map snd (drop n xs)"
    unfolding block_vals_def by (metis drop_map)
  have "set (map (valat (heap es')) as) = set (map (\<lambda>x. Some (snd x)) xs)" using v by simp
  then show "\<forall>a\<in>set as. valat (heap es') a \<noteq> None" by (auto simp: image_iff set_eq_iff)
qed

text \<open>Once the chain is deleted, the list holds the kept prefix and nothing else.\<close>

lemma es_cut:
  assumes e: "es_rep es as xs" and s: "split_at n es as p es'"
    and h: "\<And>a. h a = (if a \<in> set (drop n as) then None else heap es' a)"
  shows "es_rep (es'\<lparr>heap := h\<rparr>) (take n as) (take n xs)"
proof -
  note f = split_at_es[OF e s]
  obtain lv' where lv': "skl es' lv'" "lv' 0 = take n as" using s by (auto simp: split_at_def)
  have disj: "a \<notin> set (drop n as)" if "a = head es' \<or> a \<in> set (take n as)" for a
    using that f(4,6) set_take_disj_set_drop_if_distinct[of as n n] by (auto dest: in_set_dropD)
  have "skl (es'\<lparr>heap := h\<rparr>) lv'"
    using disj lv'(2) by (intro skl_restrict[OF lv'(1)]) (auto simp: h split: if_splits)
  then have "rep False (es'\<lparr>heap := h\<rparr>) (take n as)" using lv'(2) by (auto simp: rep_def)
  moreover have "pairs (es'\<lparr>heap := h\<rparr>) (take n as) = map (\<lambda>(t, b). (t, Some b)) (take n xs)"
  proof -
    have "pairs (es'\<lparr>heap := h\<rparr>) (take n as) = pairs es' (take n as)"
      using disj by (auto simp: pairs_def keyat_def valat_def h)
    also have "\<dots> = take n (pairs es as)" using pairs_shapes[OF f(3)] by simp
    also have "pairs es as = map (\<lambda>(t, b). (t, Some b)) xs" using e by (simp add: es_rep_def)
    finally show ?thesis by (simp only: take_map)
  qed
  moreover have "dom h = insert (head es') (set (take n as))"
  proof -
    have "dom (heap es') = insert (head es) (set (take n as) \<union> set (drop n as))"
      using shapes_dom[OF f(3)] e by (simp add: es_rep_def set_append[symmetric] del: set_append)
    then show ?thesis using disj f(4) by (auto simp: dom_def h set_eq_iff)
  qed
  moreover have "valat h (head es') = None"
    using e f(4) disj shapes_eqD(4)[OF f(3)] by (simp add: es_rep_def valat_def h)
  ultimately show ?thesis using f(5) e by (simp add: es_rep_def)
qed

lemma split_free:
  assumes e: "es_rep es as xs" and s: "split_at n es as p es'"
    and r: "enough_refs bs (map snd (drop n xs))"
  shows "\<exists>st. walk FreeList_step \<lparr>fheap = heap es', fblocks = bs, fbytes = B, fcounts = c\<rparr> p = Some st \<and>
    es_rep (es'\<lparr>heap := fheap st\<rparr>) (take n as) (take n xs) \<and>
    fblocks st = drop_refs bs (map snd (drop n xs)) \<and>
    gc_idx_cnt (fcounts st) = gc_idx_cnt c + of_nat (length (drop n xs)) \<and>
    gc_record_cnt (fcounts st) = gc_record_cnt c + of_nat (card (freed bs (map snd (drop n xs))))"
proof -
  note f = split_at_es[OF e s]
  have d: "distinct (drop n as)" using f(6) by simp
  obtain st where st: "walk FreeList_step \<lparr>fheap = heap es', fblocks = bs, fbytes = B, fcounts = c\<rparr> p = Some st"
    "\<And>a. fheap st a = (if a \<in> set (drop n as) then None else heap es' a)"
    "fblocks st = drop_refs bs (map snd (drop n xs))"
    "gc_idx_cnt (fcounts st) = gc_idx_cnt c + of_nat (length (drop n as))"
    "gc_record_cnt (fcounts st) = gc_record_cnt c + of_nat (card (freed bs (map snd (drop n xs))))"
    using FreeList_walk[OF f(2) d, of bs B c] f(1,7,8) r by (force dest: in_set_dropD)
  have "es_rep (es'\<lparr>heap := fheap st\<rparr>) (take n as) (take n xs)" by (rule es_cut[OF e s st(2)])
  then show ?thesis using st es_rep_length[OF e] by auto
qed

end
