(* ===== verification/Segment_Rep.thy ===== *)
theory Segment_Rep
  imports Segment_Inv
begin

text \<open>
  The representation invariant of a segment.  \<open>as\<close> are the nodes of the live keys, \<open>vs\<close> the
  versions and removed nodes waiting in \<open>entry_free_list_\<close>, and \<open>T k\<close> the times and blocks of
  the key entry \<open>k\<close>.  Every allocated node and key entry is reachable from exactly one of \<open>as\<close>
  and \<open>vs\<close>: nothing leaks and nothing is shared.
\<close>

section \<open>The invariant\<close>

definition own :: "segment \<Rightarrow> addr \<Rightarrow> addr list" where
  "own sg a = (case valat (heap (entries sg)) a of None \<Rightarrow> [] | Some ks \<Rightarrow> ks)"

abbreviation owned :: "segment \<Rightarrow> addr list \<Rightarrow> addr list" where
  "owned sg as \<equiv> concat (map (own sg) as)"

abbreviation key_of :: "segment \<Rightarrow> addr \<Rightarrow> bytes" where
  "key_of sg a \<equiv> keyat (heap (entries sg)) a"

definition keys_rep :: "segment \<Rightarrow> addr list \<Rightarrow> addr list \<Rightarrow> bool" where
  "keys_rep sg as rs \<longleftrightarrow>
     rep True (entries sg) as \<and> compare (entries sg) = SliceComparator \<and>
     sentinel (entries sg) = ([], None) \<and>
     dom (heap (entries sg)) = insert (head (entries sg)) (set (as @ rs)) \<and>
     distinct (head (entries sg) # as @ rs) \<and> distinct (map (key_of sg) as) \<and>
     (\<forall>a\<in>set (as @ rs). wf_node (heap (entries sg)) a \<and>
        valat (heap (entries sg)) a = Some (own sg a) \<and> length (own sg a) = ts_cnt sg)"

definition seg_rep ::
    "segment \<Rightarrow> addr list \<Rightarrow> (64 word \<times> addr) list \<Rightarrow> (addr \<Rightarrow> (64 word \<times> addr) list) \<Rightarrow> bool" where
  "seg_rep sg as vs T \<longleftrightarrow>
     keys_rep sg as (map snd vs) \<and> (\<exists>fs. es_rep (entry_free_list sg) fs vs) \<and>
     distinct (owned sg (as @ map snd vs)) \<and> dom (kes sg) = set (owned sg (as @ map snd vs)) \<and>
     (\<forall>k ke. kes sg k = Some ke \<longrightarrow> ke_rep ke (T k) \<and> k < next_ke sg) \<and>
     1 \<le> ts_cnt sg \<and> 1 \<le> key_entry_max_height sg \<and>
     pk_cnt sg = of_nat (length as + length vs)"

text \<open>
  References: how often the time lists of the entries \<open>ks\<close> refer to a block.  \<open>ext b\<close> are the
  references from outside the segment.  A block is stored exactly when there is a reference to it,
  and its count is the number of references.
\<close>

definition refs_of :: "(addr \<Rightarrow> (64 word \<times> addr) list) \<Rightarrow> addr list \<Rightarrow> addr \<Rightarrow> nat" where
  "refs_of T ks b = sum_list (map (\<lambda>k. count_list (map snd (T k)) b) ks)"

definition blocks_ok :: "(addr \<Rightarrow> nat) \<Rightarrow> (addr \<Rightarrow> nat) \<Rightarrow> blocks \<Rightarrow> bool" where
  "blocks_ok n ext bs \<longleftrightarrow> (\<forall>b. case bs b of None \<Rightarrow> n b = 0 \<and> ext b = 0
     | Some d \<Rightarrow> unat (dim_cnt_down d) = n b + ext b \<and> 0 < n b + ext b)"

lemma blocks_ok_shift:
  assumes "blocks_ok n ext bs" "\<And>b. n' b + ext' b = n b + ext b"
  shows "blocks_ok n' ext' bs"
  unfolding blocks_ok_def
proof
  fix b
  show "case bs b of None \<Rightarrow> n' b = 0 \<and> ext' b = 0 | Some d \<Rightarrow> unat (dim_cnt_down d) = n' b + ext' b \<and> 0 < n' b + ext' b"
    using assms(1)[unfolded blocks_ok_def, rule_format, of b] assms(2)[of b] by (cases "bs b") auto
qed

text \<open>Dropping the references of a list keeps the counts exact.\<close>

lemma blocks_ok_drop:
  assumes ok: "blocks_ok n ext bs" and n: "\<And>b. n' b + count_list l b = n b"
  shows "enough_refs bs l" "blocks_ok n' ext (drop_refs bs l)"
proof -
  have b: "(bs b = None \<longrightarrow> n b = 0 \<and> ext b = 0) \<and> (\<forall>d. bs b = Some d \<longrightarrow> unat (dim_cnt_down d) = n b + ext b \<and> 0 < n b + ext b)" for b
    using ok[unfolded blocks_ok_def, rule_format, of b] by (cases "bs b") auto
  show "enough_refs bs l"
    unfolding enough_refs_def
  proof
    fix x assume "x \<in> set l"
    then have "0 < n x" using n[of x] count_list_0_iff[of l x] by linarith
    then show "\<exists>d. bs x = Some d \<and> count_list l x \<le> unat (dim_cnt_down d)"
      using b[of x] n[of x] by (cases "bs x") auto
  qed
  show "blocks_ok n' ext (drop_refs bs l)"
    unfolding blocks_ok_def
  proof
    fix x
    show "case drop_refs bs l x of None \<Rightarrow> n' x = 0 \<and> ext x = 0 | Some d \<Rightarrow> unat (dim_cnt_down d) = n' x + ext x \<and> 0 < n' x + ext x"
    proof (cases "bs x")
      case None
      then show ?thesis using b[of x] n[of x] by (simp add: drop_refs_def)
    next
      case (Some d)
      have "unat (dim_cnt_down d - of_nat (count_list l x)) = unat (dim_cnt_down d) - count_list l x"
        if "count_list l x < unat (dim_cnt_down d)"
      proof -
        have "unat (of_nat (count_list l x) :: 8 word) = count_list l x"
          using that unsigned_less[of "dim_cnt_down d", where ?'a = nat] by (simp add: unat_of_nat)
        then show ?thesis using that by (simp add: unat_sub word_le_nat_alt)
      qed
      then show ?thesis using Some b[of x] n[of x] by (auto simp: drop_refs_def)
    qed
  qed
qed

text \<open>A collection only deletes blocks and lowers counts.\<close>

definition shrunk :: "blocks \<Rightarrow> blocks \<Rightarrow> bool" where
  "shrunk bs bs' \<longleftrightarrow> finite (dom bs - dom bs') \<and>
     (\<forall>b d. bs' b = Some d \<longrightarrow> 
       (\<exists>d0. bs b = Some d0 \<and> blk_size d = blk_size d0 \<and> blk_data d = blk_data d0))"

lemma shrunk_refl [simp]: "shrunk bs bs"
  by (auto simp: shrunk_def)

lemma shrunk_dom: "shrunk bs bs' \<Longrightarrow> dom bs' \<subseteq> dom bs"
  by (force simp: shrunk_def)

lemma shrunk_trans:
  assumes "shrunk bs bs'" "shrunk bs' bs''"
  shows "shrunk bs bs''" "card (dom bs - dom bs'') = card (dom bs - dom bs') + card (dom bs' - dom bs'')"
proof -
  have e: "dom bs - dom bs'' = (dom bs - dom bs') \<union> (dom bs' - dom bs'')"
    using shrunk_dom[OF assms(1)] shrunk_dom[OF assms(2)] by auto
  show "shrunk bs bs''" unfolding shrunk_def
  proof (intro conjI allI impI)
    show "finite (dom bs - dom bs'')" unfolding e using assms by (simp add: shrunk_def)
    fix b d assume "bs'' b = Some d"
    then obtain d1 where d1: "bs' b = Some d1" "blk_size d = blk_size d1" "blk_data d = blk_data d1"
      using assms(2) by (auto simp: shrunk_def)
    then obtain d0 where "bs b = Some d0" "blk_size d1 = blk_size d0" "blk_data d1 = blk_data d0"
      using assms(1) unfolding shrunk_def by blast
    then show "\<exists>d0. bs b = Some d0 \<and> blk_size d = blk_size d0 \<and> blk_data d = blk_data d0" using d1 by simp
  qed
  show "card (dom bs - dom bs'') = card (dom bs - dom bs') + card (dom bs' - dom bs'')"
    unfolding e using assms by (intro card_Un_disjoint) (auto simp: shrunk_def)
qed

lemma shrunk_drop:
  assumes "enough_refs bs l"
  shows "shrunk bs (drop_refs bs l)" "dom bs - dom (drop_refs bs l) = freed bs l"
proof -
  show f: "dom bs - dom (drop_refs bs l) = freed bs l"
    using assms by (fastforce simp: freed_def drop_refs_def enough_refs_def dom_def count_list_0_iff split: option.splits if_splits)
  show "shrunk bs (drop_refs bs l)"
    unfolding shrunk_def f
    by (auto simp: drop_refs_def split: option.splits if_splits)
qed

section \<open>Consequences\<close>

lemma seg_repD:
  assumes "seg_rep sg as vs T"
  shows "keys_rep sg as (map snd vs)" "\<exists>fs. es_rep (entry_free_list sg) fs vs" "distinct (owned sg (as @ map snd vs))"
    "dom (kes sg) = set (owned sg (as @ map snd vs))" "\<And>k ke. kes sg k = Some ke \<Longrightarrow> ke_rep ke (T k)"
    "\<And>k ke. kes sg k = Some ke \<Longrightarrow> k < next_ke sg" "1 \<le> ts_cnt sg" "1 \<le> key_entry_max_height sg"
    "pk_cnt sg = of_nat (length as + length vs)"
  using assms unfolding seg_rep_def by blast+

lemma keys_repD:
  assumes "keys_rep sg as rs"
  shows "rep True (entries sg) as" "compare (entries sg) = SliceComparator"
    "sentinel (entries sg) = ([], None)"
    "dom (heap (entries sg)) = insert (head (entries sg)) (set (as @ rs))"
    "distinct (head (entries sg) # as @ rs)" "distinct (map (key_of sg) as)"
    "\<And>a. a \<in> set (as @ rs) \<Longrightarrow> wf_node (heap (entries sg)) a"
    "\<And>a. a \<in> set (as @ rs) \<Longrightarrow> valat (heap (entries sg)) a = Some (own sg a)"
    "\<And>a. a \<in> set (as @ rs) \<Longrightarrow> length (own sg a) = ts_cnt sg"
  using assms unfolding keys_rep_def by blast+

text \<open>The invariant mentions only these fields; \<open>keys_rep\<close> only \<open>entries\<close> and \<open>ts_cnt\<close>.\<close>

lemma keys_rep_cong:
  "entries sg' = entries sg \<Longrightarrow> ts_cnt sg' = ts_cnt sg \<Longrightarrow> keys_rep sg' as rs = keys_rep sg as rs"
  by (simp add: keys_rep_def own_def)

lemma own_cong: "entries sg' = entries sg \<Longrightarrow> own sg' = own sg"
  by (intro ext) (simp add: own_def)

lemma seg_rep_cong:
  assumes "entries sg' = entries sg" "kes sg' = kes sg" "next_ke sg' = next_ke sg"
    "entry_free_list sg' = entry_free_list sg" "ts_cnt sg' = ts_cnt sg" "pk_cnt sg' = pk_cnt sg"
    "key_entry_max_height sg' = key_entry_max_height sg"
  shows "seg_rep sg' as vs T = seg_rep sg as vs T"
  unfolding seg_rep_def keys_rep_cong[OF assms(1,5)] own_cong[OF assms(1)] assms by (rule refl)

text \<open>Replacing one key entry.\<close>

lemma seg_rep_entry:
  assumes "seg_rep sg as vs T" "kes sg k = Some ke" "ke_rep ke' xs"
  shows "seg_rep (sg\<lparr>kes := (kes sg)(k \<mapsto> ke')\<rparr>) as vs (T(k := xs))"
proof -
  let ?sg = "sg\<lparr>kes := (kes sg)(k \<mapsto> ke')\<rparr>"
  have "own ?sg = own sg" by (rule own_cong) simp
  moreover have "keys_rep ?sg as (map snd vs)" using seg_repD(1)[OF assms(1)] keys_rep_cong[of ?sg sg] by simp
  moreover have "dom (kes ?sg) = dom (kes sg)" using assms(2) by auto
  ultimately show ?thesis
    using seg_repD[OF assms(1)] assms(2,3) unfolding seg_rep_def by (auto simp del: map_append)
qed

lemma es_of_node:
  assumes "seg_rep sg as vs T" "a \<in> set (as @ map snd vs)" "i < ts_cnt sg"
  shows "\<exists>ke. kes sg (own sg a ! i) = Some ke \<and> ke_rep ke (T (own sg a ! i))"
proof -
  have "length (own sg a) = ts_cnt sg" using assms keys_repD(9)[OF seg_repD(1)] by blast
  then have "own sg a ! i \<in> set (owned sg (as @ map snd vs))" using assms(2,3) by fastforce
  then obtain ke where "kes sg (own sg a ! i) = Some ke"
    using seg_repD(4)[OF assms(1)] by (metis domD)
  then show ?thesis using seg_repD(5)[OF assms(1)] by blast
qed

section \<open>A new segment\<close>

lemma new_Segment_rep:
  assumes "1 \<le> max_h mod 2 ^ 8" "1 \<le> height mod 2 ^ 8"
  shows "seg_rep (new_Segment max_h offset height) [] [] T"
proof -
  have "rep True (new_skiplist (max_h mod 2 ^ 8) 4 SliceComparator [] (None :: addr list option)) []"
    using assms by (intro new_skiplist_rep slice_cmp.comparator_axioms; simp)
  moreover have "\<exists>fs. es_rep (new_skiplist 4 4 TimeComparator 0 None) fs []"
    using new_es_rep[of 4] by auto
  ultimately show ?thesis using assms
    by (auto simp: seg_rep_def keys_rep_def new_Segment_def new_skiplist_def sentinel_def
        keyat_def valat_def new_node_def split: if_splits)
qed

section \<open>Looking a key up\<close>

definition find_node :: "segment \<Rightarrow> addr list \<Rightarrow> bytes \<Rightarrow> addr option" where
  "find_node sg as key = find (\<lambda>a. key_of sg a = key) as"

text \<open>The contents of a segment: the time lists of each live key.\<close>

definition seg_view :: "segment \<Rightarrow> addr list \<Rightarrow> (addr \<Rightarrow> (64 word \<times> addr) list) \<Rightarrow> bytes \<Rightarrow> (64 word \<times> addr) list list option" where
  "seg_view sg as T key = map_option (\<lambda>a. map T (own sg a)) (find_node sg as key)"

lemma map_of_rev: "distinct (map fst xs) \<Longrightarrow> map_of (rev xs) = map_of xs"
  by (metis distinct_rev map_of_inject_set rev_map set_rev)

lemma map_of_pairs:
  "map_of (pairs sl as) key = map_option (valat (heap sl)) (find (\<lambda>a. keyat (heap sl) a = key) as)"
  by (induction as) auto

lemma find_entry_rep:
  assumes "keys_rep sg as rs"
  shows "find_entry sg key = Some (map_option (own sg) (find_node sg as key))"
proof -
  let ?es = "entries sg" and ?xs = "pairs (entries sg) as"
  have r: "repr True ?es ?xs" using keys_repD(1)[OF assms] by (auto simp: repr_def)
  have d: "distinct (map fst ?xs)" using keys_repD(6)[OF assms] by (simp add: pairs_def comp_def)
  have G: "Get ?es key = Some (spec_get SliceComparator ([], None) ?xs key)"
    using Get_repr[OF r, of key] keys_repD(2,3)[OF assms] by simp
  have m: "map_of (rev ?xs) key = map_option (\<lambda>a. Some (own sg a)) (find_node sg as key)"
  proof -
    have "valat (heap ?es) a = Some (own sg a)" if "find_node sg as key = Some a" for a
      using findSomeD[OF that[unfolded find_node_def]] keys_repD(8)[OF assms, of a] by simp
    then show ?thesis
      unfolding map_of_rev[OF d] map_of_pairs find_node_def[symmetric] by (cases "find_node sg as key") auto
  qed
  show ?thesis
  proof (cases "filter (\<lambda>x. SliceComparator (fst x) key \<le> 0) ?xs = [] \<and> [] = key")
    case True
    have "SliceComparator key key \<le> 0" by simp
    then have "map_of (rev ?xs) key = None"
      using True unfolding map_of_rev[OF d] map_of_eq_None_iff by (auto simp: filter_empty_conv)
    then have "find_node sg as key = None" using m by (cases "find_node sg as key") auto
    moreover have "spec_get SliceComparator ([], None) ?xs key = Some None"
      unfolding spec_get_def fst_conv snd_conv if_P[OF True] by (rule refl)
    ultimately show ?thesis by (simp add: find_entry_def G)
  next
    case False
    then show ?thesis using m
      by (cases "find_node sg as key") (auto simp: find_entry_def G spec_get_def)
  qed
qed

section \<open>Adding a key\<close>

text \<open>
  The segment after \<open>entries_->Insert(key, ks)\<close> of a new key: \<open>es\<close> is the new key list, and the
  entries \<open>ks\<close> are new.
\<close>

definition with_key :: "segment \<Rightarrow> (bytes, addr list option) skiplist \<Rightarrow> addr list \<Rightarrow> addr \<Rightarrow> segment" where
  "with_key sg es ks n = sg\<lparr>entries := es,
     kes := (\<lambda>a. if a \<in> set ks then Some (new_KeyEntry (key_entry_max_height sg)) else kes sg a),
     next_ke := n, pk_cnt := pk_cnt sg + 1\<rparr>"

lemma with_key_own:
  assumes K: "keys_rep sg as rs"
    and sh: "shapes (heap es) = shapes ((heap (entries sg))(next_addr (entries sg) \<mapsto> new_node key (Some ks) h))"
  shows "b \<in> insert (head (entries sg)) (set (as @ rs)) \<Longrightarrow> b \<noteq> next_addr (entries sg)"
    and "b \<in> set (as @ rs) \<Longrightarrow> own (with_key sg es ks n) b = own sg b"
    and "b \<in> set (as @ rs) \<Longrightarrow> key_of (with_key sg es ks n) b = key_of sg b"
    and "own (with_key sg es ks n) (next_addr (entries sg)) = ks"
    and "key_of (with_key sg es ks n) (next_addr (entries sg)) = key"
proof -
  let ?es = "entries sg"
  obtain lv where "skl ?es lv" using keys_repD(1)[OF K] by (auto simp: rep_def)
  then have ne: "b \<noteq> next_addr ?es" if "b \<in> insert (head ?es) (set (as @ rs))" for b
    using sklD(5)[of ?es lv b] that keys_repD(4)[OF K] by (metis domIff less_irrefl)
  then show "b \<in> insert (head (entries sg)) (set (as @ rs)) \<Longrightarrow> b \<noteq> next_addr (entries sg)" .
  note fr = new_node_frame[OF sh]
  show "b \<in> set (as @ rs) \<Longrightarrow> own (with_key sg es ks n) b = own sg b"
    "b \<in> set (as @ rs) \<Longrightarrow> key_of (with_key sg es ks n) b = key_of sg b"
    using ne[of b] fr(2,3)[of b] by (auto simp: own_def with_key_def)
  show "own (with_key sg es ks n) (next_addr (entries sg)) = ks"
    "key_of (with_key sg es ks n) (next_addr (entries sg)) = key"
    by (simp_all add: own_def with_key_def fr)
qed

lemma with_key_keys:
  assumes K: "keys_rep sg as rs" and new: "find_node sg as key = None" and ks: "length ks = ts_cnt sg"
    and r: "rep True es (filter P as @ next_addr (entries sg) # filter (\<lambda>b. \<not> P b) as)"
    and sh: "shapes (heap es) = shapes ((heap (entries sg))(next_addr (entries sg) \<mapsto> new_node key (Some ks) h))"
    and c: "compare es = compare (entries sg)" "head es = head (entries sg)"
  shows "keys_rep (with_key sg es ks n) (filter P as @ next_addr (entries sg) # filter (\<lambda>b. \<not> P b) as) rs"
proof -
  let ?sg = "with_key sg es ks n" and ?a = "next_addr (entries sg)"
  let ?as = "filter P as @ ?a # filter (\<lambda>b. \<not> P b) as"
  note fr = new_node_frame[OF sh] and own = with_key_own[OF K sh]
  have es: "entries ?sg = es" "ts_cnt ?sg = ts_cnt sg" by (simp_all add: with_key_def)
  have "sentinel es = ([], None)"
    using keys_repD(3)[OF K] own(1)[of "head (entries sg)"] fr(2,3)[of "head (entries sg)"] c
    by (simp add: sentinel_def)
  moreover have "dom (heap es) = insert (head es) (set (?as @ rs))"
    using shapes_dom[OF sh] keys_repD(4)[OF K] c by auto
  moreover have "distinct (head es # ?as @ rs)"
    using keys_repD(5)[OF K] own(1) c by auto
  moreover have "distinct (map (key_of ?sg) ?as)"
  proof -
    have "key \<notin> key_of sg ` set as" using new by (auto simp: find_node_def find_None_iff)
    moreover have "map (key_of ?sg) (filter Q as) = map (key_of sg) (filter Q as)" for Q
      using own(3) by simp
    ultimately show ?thesis
      using keys_repD(6)[OF K] own(5) by (auto simp: distinct_map inj_on_def)
  qed
  moreover have "wf_node (heap es) b \<and> valat (heap es) b = Some (own ?sg b) \<and> length (own ?sg b) = ts_cnt sg"
    if "b \<in> set (?as @ rs)" for b
  proof (cases "b = ?a")
    case True
    then show ?thesis using own(4) ks fr by simp
  next
    case False
    then have b: "b \<in> set (as @ rs)" using that by auto
    then show ?thesis using own(2)[OF b] keys_repD(7-9)[OF K b] False fr(3,6)[of b] by simp
  qed
  moreover have "compare es = SliceComparator" using c(1) keys_repD(2)[OF K] by simp
  ultimately show ?thesis
    using r unfolding keys_rep_def es by blast
qed

lemma with_key_rep:
  assumes rep: "seg_rep sg as vs T" and K: "keys_rep (with_key sg es ks n) as' (map snd vs)"
    and m: "mset as' = add_mset a (mset as)"
    and own: "\<And>b. b \<in> set (as @ map snd vs) \<Longrightarrow> own (with_key sg es ks n) b = own sg b" "own (with_key sg es ks n) a = ks"
    and ks: "distinct ks" "\<And>k. k \<in> set ks \<Longrightarrow> next_ke sg \<le> k \<and> k < n" "next_ke sg \<le> n"
  shows "seg_rep (with_key sg es ks n) as' vs (\<lambda>k. if k \<in> set ks then [] else T k)"
proof -
  let ?sg = "with_key sg es ks n"
  have kn: "k \<notin> set (owned sg (as @ map snd vs))" if "k \<in> set ks" for k
  proof
    assume "k \<in> set (owned sg (as @ map snd vs))"
    then obtain ke where "kes sg k = Some ke" using seg_repD(4)[OF rep] by (metis domD)
    then show False using seg_repD(6)[OF rep] ks(2)[OF that] by fastforce
  qed
  have o: "owned ?sg (a # as @ map snd vs) = ks @ owned sg (as @ map snd vs)"
    using own by (simp cong: map_cong)
  have "mset (as' @ map snd vs) = mset (a # as @ map snd vs)" using m by simp
  note oc = distinct_concat_cong[OF this, of "own ?sg", unfolded o]
  have "distinct (owned ?sg (as' @ map snd vs))"
    unfolding oc using ks(1) seg_repD(3)[OF rep] kn by (auto simp del: map_append)
  moreover have "dom (kes ?sg) = set (owned ?sg (as' @ map snd vs))"
    unfolding oc using seg_repD(4)[OF rep] by (auto simp: with_key_def dom_def simp del: map_append)
  moreover have "ke_rep ke (if k \<in> set ks then [] else T k) \<and> k < n" if "kes ?sg k = Some ke" for k ke
    using that new_KeyEntry_rep[OF seg_repD(8)[OF rep]] seg_repD(5,6)[OF rep, of k ke] ks
    by (auto simp: with_key_def split: if_splits)
  moreover have "length as' = Suc (length as)" using arg_cong[OF m, of size] by simp
  ultimately show ?thesis
    using K seg_repD(2,7-9)[OF rep] unfolding seg_rep_def by (simp add: with_key_def)
qed

lemma add_key:
  assumes rep: "seg_rep sg as vs T" and new: "find_node sg as key = None"
    and ks: "length ks = ts_cnt sg" "distinct ks" "\<And>k. k \<in> set ks \<Longrightarrow> next_ke sg \<le> k \<and> k < n" "next_ke sg \<le> n"
  shows "\<exists>h es as' a. Insert (entries sg) key (Some ks) = Some (h, es) \<and> 1 \<le> h \<and>
    seg_rep (with_key sg es ks n) as' vs (\<lambda>k. if k \<in> set ks then [] else T k) \<and>
    mset as' = add_mset a (mset as) \<and> own (with_key sg es ks n) a = ks \<and> key_of (with_key sg es ks n) a = key \<and>
    (\<forall>b\<in>set (as @ map snd vs). own (with_key sg es ks n) b = own sg b \<and> key_of (with_key sg es ks n) b = key_of sg b)"
proof -
  note K = seg_repD(1)[OF rep]
  let ?es = "entries sg" and ?a = "next_addr (entries sg)"
  let ?as' = "filter (before ?es key) as @ ?a # filter (\<lambda>b. \<not> before ?es key b) as"
  obtain h es where I: "Insert ?es key (Some ks) = Some (h, es)" "1 \<le> h"
    and r: "rep True es ?as'"
    and sh: "shapes (heap es) = shapes ((heap ?es)(?a \<mapsto> new_node key (Some ks) h))"
    and c: "compare es = compare ?es" "head es = head ?es"
    using Insert_rep[OF keys_repD(1)[OF K], of key "Some ks"] by blast
  note own = with_key_own[OF K sh]
  have m: "mset ?as' = add_mset ?a (mset as)" by simp
  have "keys_rep (with_key sg es ks n) ?as' (map snd vs)" by (rule with_key_keys[OF K new ks(1) r sh c])
  then have "seg_rep (with_key sg es ks n) ?as' vs (\<lambda>k. if k \<in> set ks then [] else T k)"
    by (rule with_key_rep[OF rep _ m own(2,4) ks(2-4)])
  then show ?thesis using I m own(2-5) by blast
qed

section \<open>Views and references under updates\<close>

lemma find_node_Some:
  assumes "distinct (map (key_of sg) as)"
  shows "find_node sg as key = Some a \<longleftrightarrow> a \<in> set as \<and> key_of sg a = key"
proof
  assume "a \<in> set as \<and> key_of sg a = key"
  then show "find_node sg as key = Some a"
    using assms by (induction as) (auto simp: find_node_def)
qed (use findSomeD in \<open>force simp: find_node_def\<close>)

lemma find_node_None: "find_node sg as key = None \<longleftrightarrow> key \<notin> key_of sg ` set as"
  by (auto simp: find_node_def find_None_iff)

lemma find_node_cong:
  assumes "distinct (map (key_of sg) as)" "distinct (map (key_of sg') as')"
    and "{a \<in> set as'. key_of sg' a = key} = {a \<in> set as. key_of sg a = key}"
  shows "find_node sg' as' key = find_node sg as key"
proof (cases "find_node sg as key")
  case None
  then have "{a \<in> set as'. key_of sg' a = key} = {}" unfolding assms(3) by (auto simp: find_node_None)
  then have "find_node sg' as' key = None" by (auto simp: find_node_None)
  then show ?thesis using None by simp
next
  case (Some a)
  then have "a \<in> {a \<in> set as'. key_of sg' a = key}"
    using assms(3) find_node_Some[OF assms(1)] by blast
  then show ?thesis using find_node_Some[OF assms(2), of key a] Some by simp
qed

lemma refs_of_Nil [simp]: "refs_of T [] b = 0"
  and refs_of_Cons [simp]: "refs_of T (k # ks) b = count_list (map snd (T k)) b + refs_of T ks b"
  and refs_of_append [simp]: "refs_of T (ks @ ks') b = refs_of T ks b + refs_of T ks' b"
  by (simp_all add: refs_of_def)

lemma refs_of_cong: "(\<And>k. k \<in> set ks \<Longrightarrow> T' k = T k) \<Longrightarrow> refs_of T' ks b = refs_of T ks b"
  unfolding refs_of_def by (rule arg_cong[where f = sum_list]) simp

lemma refs_of_mset: "mset ks = mset ks' \<Longrightarrow> refs_of T ks b = refs_of T ks' b"
  by (simp add: refs_of_def flip: sum_mset_sum_list)

lemma sum_list_upd:
  fixes f :: "'b \<Rightarrow> nat"
  assumes "distinct ks" "k \<in> set ks"
  shows "sum_list (map (\<lambda>k'. f ((T(k := ys)) k')) ks) + f (T k) = sum_list (map (\<lambda>k'. f (T k')) ks) + f ys"
  using assms
proof (induction ks)
  case (Cons k' ks)
  show ?case
  proof (cases "k = k'")
    case True
    have "sum_list (map (\<lambda>k'. f ((T(k := ys)) k')) ks) = sum_list (map (\<lambda>k'. f (T k')) ks)"
      using Cons.prems True by (intro arg_cong[where f = sum_list]) auto
    then show ?thesis using True by simp
  next
    case False
    then have "sum_list (map (\<lambda>k'. f ((T(k := ys)) k')) ks) + f (T k) = sum_list (map (\<lambda>k'. f (T k')) ks) + f ys"
      using Cons.prems by (intro Cons.IH) auto
    then show ?thesis using False by simp
  qed
qed simp

lemma refs_of_upd:
  "distinct ks \<Longrightarrow> k \<in> set ks \<Longrightarrow>
   refs_of (T(k := ys)) ks b + count_list (map snd (T k)) b = refs_of T ks b + count_list (map snd ys) b"
  unfolding refs_of_def by (rule sum_list_upd)

text \<open>The number of index entries.\<close>

definition total_len :: "(addr \<Rightarrow> (64 word \<times> addr) list) \<Rightarrow> addr list \<Rightarrow> nat" where
  "total_len T ks = sum_list (map (\<lambda>k. length (T k)) ks)"

lemma total_upd:
  "distinct ks \<Longrightarrow> k \<in> set ks \<Longrightarrow> total_len (T(k := ys)) ks + length (T k) = total_len T ks + length ys"
  unfolding total_len_def by (rule sum_list_upd)

lemma total_append [simp]: "total_len T (ks @ ks') = total_len T ks + total_len T ks'"
  and total_Cons [simp]: "total_len T (k # ks) = length (T k) + total_len T ks"
  and total_Nil [simp]: "total_len T [] = 0"
  by (simp_all add: total_len_def)

lemma total_cong: "(\<And>k. k \<in> set ks \<Longrightarrow> T' k = T k) \<Longrightarrow> total_len T' ks = total_len T ks"
  unfolding total_len_def by (rule arg_cong[where f = sum_list]) simp

lemma total_mset: "mset ks = mset ks' \<Longrightarrow> total_len T ks = total_len T ks'"
  by (simp add: total_len_def flip: sum_mset_sum_list)

lemma length_time_insert [simp]: "length (time_insert t r xs) = Suc (length xs)"
  using sum_length_filter_compl[of "\<lambda>x. fst x > t" xs] by (simp add: time_insert_def)

lemma count_time_insert: "count_list (map snd (time_insert t r xs)) b = (if b = r then 1 else 0) + count_list (map snd xs) b"
proof -
  have "count_list (map snd xs) b =
      count_list (map snd (filter (\<lambda>x. fst x > t) xs)) b + count_list (map snd (filter (\<lambda>x. \<not> fst x > t) xs)) b"
    by (induction xs) auto
  then show ?thesis by (simp add: time_insert_def)
qed

section \<open>Put\<close>

lemma entry_insert_rep:
  assumes rep: "seg_rep sg as vs T" and k: "kes sg k = Some ke"
  shows "\<exists>h ke'. entry_insert sg k t row = Some (h, sg\<lparr>kes := (kes sg)(k \<mapsto> ke')\<rparr>) \<and>
    refs ke' = refs ke \<and> 1 \<le> h \<and>
    seg_rep (sg\<lparr>kes := (kes sg)(k \<mapsto> ke')\<rparr>) as vs (T(k := time_insert t row (T k)))"
proof -
  obtain eas where e: "es_rep (kentries ke) eas (T k)" "kcount ke = of_nat (length (T k))"
    using seg_repD(5)[OF rep k] by (auto simp: ke_rep_def)
  obtain h es' eas' where I: "Insert (kentries ke) t (Some row) = Some (h, es')" "1 \<le> h"
    "es_rep es' eas' (time_insert t row (T k))"
    using es_insert[OF e(1)] by blast
  let ?ke = "ke\<lparr>kentries := es', kcount := kcount ke + 1\<rparr>"
  have "ke_rep ?ke (time_insert t row (T k))"
    using I(3) e(2) by (auto simp: ke_rep_def)
  then show ?thesis using I k seg_rep_entry[OF rep k] by (auto simp: entry_insert_def)
qed

text \<open>The removed keys: the version of the removal and the time lists.\<close>

definition removed_view :: "segment \<Rightarrow> (64 word \<times> addr) list \<Rightarrow> (addr \<Rightarrow> (64 word \<times> addr) list) \<Rightarrow> (64 word \<times> (64 word \<times> addr) list list) list" where
  "removed_view sg vs T = map (\<lambda>(v, a). (v, map T (own sg a))) vs"

lemma own_upd:
  assumes "seg_rep sg as vs T" "k \<in> set (own sg a)" "a \<in> set (as @ map snd vs)" "b \<in> set (as @ map snd vs)" "b \<noteq> a"
  shows "map (T(k := ys)) (own sg b) = map T (own sg b)"
proof -
  have "set (own sg a) \<inter> set (own sg b) = {}"
    using concat_disjoint[OF seg_repD(3)[OF assms(1)] assms(3,4)] assms(5) by blast
  then show ?thesis using assms(2) by (intro map_cong) auto
qed

end
