(* ===== verification/Segment_Ops.thy ===== *)
theory Segment_Ops
  imports Segment_Rep
begin

text \<open>
  What the operations of a segment with one time column do to its contents: the time list of
  every live key, the removed keys and the references to the data blocks.
\<close>

section \<open>The contents of a segment\<close>

text \<open>
  \<open>V\<close> is the time list of every live key, \<open>D\<close> the removed keys with the version of their
  removal, \<open>bs\<close> the block store and \<open>ext\<close> the references held outside the segment.  A live key
  has at least one record.
\<close>

definition seg_st ::
    "segment \<Rightarrow> blocks \<Rightarrow> (addr \<Rightarrow> nat) \<Rightarrow> addr list \<Rightarrow> (64 word \<times> addr) list \<Rightarrow> (addr \<Rightarrow> (64 word \<times> addr) list) \<Rightarrow> bool" where
  "seg_st sg bs ext as vs T \<longleftrightarrow> ts_cnt sg = 1 \<and> seg_rep sg as vs T \<and>
     blocks_ok (refs_of T (owned sg (as @ map snd vs))) ext bs \<and>
     idx_cnt sg = of_nat (total_len T (owned sg (as @ map snd vs)))"

definition seg_ok ::
    "segment \<Rightarrow> blocks \<Rightarrow> (addr \<Rightarrow> nat) \<Rightarrow> (bytes \<Rightarrow> (64 word \<times> addr) list list option) \<Rightarrow>
     (64 word \<times> (64 word \<times> addr) list list) list \<Rightarrow> bool" where
  "seg_ok sg bs ext V D \<longleftrightarrow> (\<forall>key xss. V key = Some xss \<longrightarrow> [] \<notin> set xss) \<and>
     (\<exists>as vs T. seg_st sg bs ext as vs T \<and> seg_view sg as T = V \<and> removed_view sg vs T = D)"

lemma own_single:
  assumes "seg_rep sg as vs T" "ts_cnt sg = 1" "a \<in> set (as @ map snd vs)"
  obtains k ke where "own sg a = [k]" "kes sg k = Some ke" "ke_rep ke (T k)"
proof -
  have "length (own sg a) = 1" using keys_repD(9)[OF seg_repD(1)[OF assms(1)] assms(3)] assms(2) by simp
  then obtain k where "own sg a = [k]" by (cases "own sg a") auto
  then show ?thesis using es_of_node[OF assms(1,3), of 0] assms(2) that by auto
qed

lemma removed_view_cong:
  "(\<And>v a. (v, a) \<in> set vs \<Longrightarrow> map T' (own sg' a) = map T (own sg a)) \<Longrightarrow> removed_view sg' vs T' = removed_view sg vs T"
  by (auto simp: removed_view_def)

text \<open>Changing the time list of one live key.\<close>

lemma view_upd:
  assumes rep: "seg_rep sg as vs T" and a: "a \<in> set as" "k \<in> set (own sg a)"
    and es: "entries sg' = entries sg"
  shows "seg_view sg' as (T(k := ys)) = (seg_view sg as T)(key_of sg a \<mapsto> map (T(k := ys)) (own sg a))"
    and "removed_view sg' vs (T(k := ys)) = removed_view sg vs T"
proof -
  note K = seg_repD(1)[OF rep]
  have o: "own sg' = own sg" by (rule own_cong[OF es])
  have f: "find_node sg' as = find_node sg as" by (simp add: find_node_def es fun_eq_iff)
  show "seg_view sg' as (T(k := ys)) = (seg_view sg as T)(key_of sg a \<mapsto> map (T(k := ys)) (own sg a))"
  proof
    fix key
    show "seg_view sg' as (T(k := ys)) key = ((seg_view sg as T)(key_of sg a \<mapsto> map (T(k := ys)) (own sg a))) key"
    proof (cases "key = key_of sg a")
      case True
      then have "find_node sg as key = Some a" using find_node_Some[OF keys_repD(6)[OF K]] a(1) by simp
      then show ?thesis using True by (simp add: seg_view_def f o)
    next
      case False
      have "map (T(k := ys)) (own sg b) = map T (own sg b)" if "find_node sg as key = Some b" for b
        using that find_node_Some[OF keys_repD(6)[OF K]] False a by (intro own_upd[OF rep a(2)]) auto
      then show ?thesis using False by (cases "find_node sg as key") (auto simp: seg_view_def f o)
    qed
  qed
  show "removed_view sg' vs (T(k := ys)) = removed_view sg vs T"
  proof (rule removed_view_cong)
    fix v b assume "(v, b) \<in> set vs"
    then have b: "b \<in> set (map snd vs)" by (force simp: image_iff)
    then have "b \<noteq> a" using keys_repD(5)[OF K] a(1) by auto
    then show "map (T(k := ys)) (own sg' b) = map T (own sg b)"
      unfolding o using a b by (intro own_upd[OF rep a(2)]) auto
  qed
qed

section \<open>Put\<close>

lemma put_at:
  assumes st: "seg_st sg bs ext as vs T" and a: "a \<in> set as" "own sg a = [k]" and x: "0 < ext row"
  shows "\<exists>h sg'. entry_insert (sg\<lparr>idx_cnt := idx_cnt sg + 1\<rparr>) k t row = Some (h, sg') \<and>
    (\<forall>B. seg_st (sg'\<lparr>idx_byte_size := B\<rparr>) bs (ext(row := ext row - 1)) as vs (T(k := time_insert t row (T k)))) \<and>
    entries sg' = entries sg"
proof -
  define ks where "ks = owned sg (as @ map snd vs)"
  let ?T = "T(k := time_insert t row (T k))"
  have rep: "seg_rep sg as vs T" and ts: "ts_cnt sg = 1" using st by (simp_all add: seg_st_def)
  have kk: "k \<in> set ks" using a by (force simp: ks_def)
  then obtain ke where k: "kes sg k = Some ke" using seg_repD(4)[OF rep] by (metis domD ks_def)
  have d: "distinct ks" using seg_repD(3)[OF rep] by (simp only: ks_def)
  have "seg_rep (sg\<lparr>idx_cnt := idx_cnt sg + 1\<rparr>) as vs T" using rep by (subst seg_rep_cong[where sg = sg]) auto
  then obtain h ke' where I: "entry_insert (sg\<lparr>idx_cnt := idx_cnt sg + 1\<rparr>) k t row =
      Some (h, sg\<lparr>idx_cnt := idx_cnt sg + 1, kes := (kes sg)(k \<mapsto> ke')\<rparr>)"
    and r: "seg_rep (sg\<lparr>idx_cnt := idx_cnt sg + 1, kes := (kes sg)(k \<mapsto> ke')\<rparr>) as vs ?T"
    using entry_insert_rep[of "sg\<lparr>idx_cnt := idx_cnt sg + 1\<rparr>" as vs T k ke t row] k by auto
  let ?sg = "\<lambda>B. sg\<lparr>idx_cnt := idx_cnt sg + 1, kes := (kes sg)(k \<mapsto> ke'), idx_byte_size := B\<rparr>"
  have o: "own (?sg B) = own sg" for B by (rule own_cong) simp
  have r': "seg_rep (?sg B) as vs ?T" for B using r by (rule seg_rep_cong[THEN iffD1, rotated -1]) simp_all
  have n: "refs_of ?T ks b = refs_of T ks b + (if b = row then 1 else 0)" for b
    using refs_of_upd[OF d kk, of T "time_insert t row (T k)" b] count_time_insert[of t row "T k" b]
    by simp
  have "total_len ?T ks = Suc (total_len T ks)"
    using total_upd[OF d kk, of T "time_insert t row (T k)"] by simp
  moreover have "blocks_ok (refs_of ?T ks) (ext(row := ext row - 1)) bs"
    using st x n unfolding seg_st_def ks_def[symmetric] by (elim conjE blocks_ok_shift) auto
  ultimately show ?thesis using I r' st o unfolding seg_st_def by (simp add: ks_def del: fun_upd_apply map_append)
qed


text \<open>The time list of a key, empty when there is none.\<close>

definition times :: "(bytes \<Rightarrow> (64 word \<times> addr) list list option) \<Rightarrow> bytes \<Rightarrow> (64 word \<times> addr) list" where
  "times V key = (case V key of Some (xs # _) \<Rightarrow> xs | _ \<Rightarrow> [])"

lemma put_key:
  assumes st: "seg_st sg bs ext as vs T" and new: "find_node sg as key = None"
  shows "\<exists>h sg1 as' T' a.
    (do { (height, es) \<leftarrow> Insert (entries sg) key (Some [next_ke sg]);
          Some ([next_ke sg],
                sg\<lparr>entries := es, kes := (kes sg)(next_ke sg \<mapsto> new_KeyEntry (key_entry_max_height sg)),
                   next_ke := Suc (next_ke sg), pk_cnt := pk_cnt sg + 1\<rparr>,
                GetRecordPkIdxSize height (length key) (key_entry_max_height sg)) }) =
      Some ([next_ke sg], sg1, GetRecordPkIdxSize h (length key) (key_entry_max_height sg)) \<and>
    seg_st sg1 bs ext as' vs T' \<and> a \<in> set as' \<and> own sg1 a = [next_ke sg] \<and> key_of sg1 a = key \<and>
    T' (next_ke sg) = [] \<and>
    seg_view sg1 as' T' = (seg_view sg as T)(key \<mapsto> [[]]) \<and> removed_view sg1 vs T' = removed_view sg vs T"
proof -
  let ?k = "next_ke sg" and ?T = "\<lambda>k. if k \<in> set [next_ke sg] then [] else T k"
  have rep: "seg_rep sg as vs T" and ts: "ts_cnt sg = 1" using st by (simp_all add: seg_st_def)
  obtain h es as' a where I: "Insert (entries sg) key (Some [?k]) = Some (h, es)"
    and r: "seg_rep (with_key sg es [?k] (Suc ?k)) as' vs ?T"
    and m: "mset as' = add_mset a (mset as)" and a: "own (with_key sg es [?k] (Suc ?k)) a = [?k]"
      "key_of (with_key sg es [?k] (Suc ?k)) a = key"
    and o: "\<And>b. b \<in> set (as @ map snd vs) \<Longrightarrow> own (with_key sg es [?k] (Suc ?k)) b = own sg b"
      "\<And>b. b \<in> set (as @ map snd vs) \<Longrightarrow> key_of (with_key sg es [?k] (Suc ?k)) b = key_of sg b"
    using add_key[OF rep new, of "[?k]" "Suc ?k"] ts by auto
  let ?sg = "with_key sg es [?k] (Suc ?k)"
  have sg: "sg\<lparr>entries := es, kes := (kes sg)(?k \<mapsto> new_KeyEntry (key_entry_max_height sg)),
      next_ke := Suc ?k, pk_cnt := pk_cnt sg + 1\<rparr> = ?sg"
    by (auto simp: with_key_def fun_upd_def)
  have T: "?T k = T k" if "k \<in> set (owned sg (as @ map snd vs))" for k
    using that seg_repD(4,6)[OF rep] by (metis domD less_irrefl list.set(1,2) singletonD)
  have To: "map ?T (own ?sg b) = map T (own sg b)" if "b \<in> set (as @ map snd vs)" for b
    unfolding o(1)[OF that] using that by (intro map_cong T) (auto simp del: map_append)
  let ?ks = "owned sg (as @ map snd vs)" and ?ks' = "owned ?sg (as' @ map snd vs)"
  have "owned ?sg (a # as @ map snd vs) = ?k # ?ks"
    using a(1) o(1) by (simp cong: map_cong)
  moreover have "mset ?ks' = mset (owned ?sg (a # as @ map snd vs))"
    by (rule mset_concat_cong) (simp add: m)
  ultimately have ks: "mset ?ks' = mset (?k # ?ks)" by simp
  have "refs_of ?T ?ks' = refs_of T ?ks"
    by (rule HOL.ext) (use refs_of_mset[OF ks] refs_of_cong[of ?ks ?T T] T in \<open>simp del: map_append\<close>)
  moreover have "total_len ?T ?ks' = total_len T ?ks"
    unfolding total_mset[OF ks] using total_cong[of ?ks ?T T] T by simp
  ultimately have st': "seg_st ?sg bs ext as' vs ?T"
    using r st unfolding seg_st_def by (simp add: with_key_def del: map_append)
  note d = keys_repD(6)[OF seg_repD(1)[OF rep]] and d' = keys_repD(6)[OF seg_repD(1)[OF r]]
  have s': "set as' = insert a (set as)" using m by (metis set_mset_add_mset_insert set_mset_mset)
  have "seg_view ?sg as' ?T key' = ((seg_view sg as T)(key \<mapsto> [[]])) key'" for key'
  proof (cases "key' = key")
    case True
    then have "find_node ?sg as' key' = Some a" using find_node_Some[OF d'] s' a(2) by blast
    then show ?thesis using True a(1) by (simp add: seg_view_def)
  next
    case False
    have "{b \<in> set as'. key_of ?sg b = key'} = {b \<in> set as. key_of sg b = key'}"
      using s' a(2) False o(2) by auto
    then have f: "find_node ?sg as' key' = find_node sg as key'" by (rule find_node_cong[OF d d'])
    have "map ?T (own ?sg b) = map T (own sg b)" if "find_node sg as key' = Some b" for b
      using that find_node_Some[OF d] by (intro To) simp
    then show ?thesis using False f by (cases "find_node sg as key'") (auto simp: seg_view_def)
  qed
  then have "seg_view ?sg as' ?T = (seg_view sg as T)(key \<mapsto> [[]])" by (rule HOL.ext)
  moreover have "removed_view ?sg vs ?T = removed_view sg vs T"
    by (rule removed_view_cong, rule To) force
  moreover have "a \<in> set as'" "?T ?k = []" using s' by auto
  ultimately show ?thesis using I st' a sg
    by - (rule exI[of _ h], rule exI[of _ ?sg], rule exI[of _ as'], rule exI[of _ ?T],
        rule exI[of _ a], simp)
qed

lemma Put_ok:
  assumes ok: "seg_ok sg bs ext V D" and x: "0 < ext row"
  shows "\<exists>sg'. Segment_Put sg key t row = Some sg' \<and>
    seg_ok sg' bs (ext(row := ext row - 1)) (V(key \<mapsto> [time_insert t row (times V key)])) D"
proof -
  obtain as vs T where st: "seg_st sg bs ext as vs T" and V: "seg_view sg as T = V" and D: "removed_view sg vs T = D"
    using ok by (auto simp: seg_ok_def)
  have rep: "seg_rep sg as vs T" and ts: "ts_cnt sg = 1" using st by (simp_all add: seg_st_def)
  note fe = find_entry_rep[OF seg_repD(1)[OF rep], of key]
  obtain ks sg1 bz as' T' a where E: "(case map_option (own sg) (find_node sg as key) of
        None \<Rightarrow> do {
          (height, es) \<leftarrow> Insert (entries sg) key (Some [next_ke sg]);
          Some ([next_ke sg],
                sg\<lparr>entries := es, kes := (kes sg)(next_ke sg \<mapsto> new_KeyEntry (key_entry_max_height sg)),
                   next_ke := Suc (next_ke sg), pk_cnt := pk_cnt sg + 1\<rparr>,
                GetRecordPkIdxSize height (length key) (key_entry_max_height sg)) }
      | Some ks \<Rightarrow> Some (ks, sg, 0)) = Some (ks, sg1, bz)"
    and st1: "seg_st sg1 bs ext as' vs T'" and a: "a \<in> set as'" "own sg1 a = ks" "key_of sg1 a = key"
    and k: "length ks = 1" "T' (hd ks) = times V key"
    and V1: "(seg_view sg1 as' T')(key \<mapsto> xss) = V(key \<mapsto> xss)"
    and D1: "removed_view sg1 vs T' = D" for xss
  proof (cases "find_node sg as key")
    case None
    then have "times V key = []" using V by (auto simp: times_def seg_view_def)
    then show ?thesis using put_key[OF st None] None V D that by fastforce
  next
    case (Some a)
    then have a: "a \<in> set as" "key_of sg a = key"
      using find_node_Some[OF keys_repD(6)[OF seg_repD(1)[OF rep]]] by auto
    obtain k where "own sg a = [k]" using own_single[OF rep ts, of a] a by auto
    moreover from this have "times V key = T k" using V Some by (auto simp: times_def seg_view_def)
    ultimately show ?thesis using that[of "own sg a" sg 0 as T a] Some a st V D by simp
  qed
  obtain k where ks: "ks = [k]" using k(1) by (cases ks) auto
  let ?T = "T'(k := time_insert t row (T' k))"
  obtain h sg2 where I: "entry_insert (sg1\<lparr>idx_cnt := idx_cnt sg1 + 1\<rparr>) k t row = Some (h, sg2)"
    and es: "entries sg2 = entries sg1"
    and st2: "seg_st (sg2\<lparr>idx_byte_size := idx_byte_size sg2 + ucast (bz + GetRecordTsIdxSize h)\<rparr>) bs
      (ext(row := ext row - 1)) as' vs ?T"
    using put_at[OF st1 a(1) _ x, of k t] a(2) ks by metis
  let ?sg = "sg2\<lparr>idx_byte_size := idx_byte_size sg2 + ucast (bz + GetRecordTsIdxSize h)\<rparr>"
  have P: "Segment_Put sg key t row = Some ?sg"
    using ts E I ks by (simp add: Segment_Put_def fe arr_get_def)
  have rep1: "seg_rep sg1 as' vs T'" using st1 by (simp add: seg_st_def)
  have es': "entries ?sg = entries sg1" using es by simp
  have "seg_view ?sg as' ?T = V(key \<mapsto> [time_insert t row (times V key)])"
    using view_upd(1)[OF rep1 a(1) _ es'] a(2,3) ks k(2) V1 by simp
  moreover have "removed_view ?sg vs ?T = D"
    using view_upd(2)[OF rep1 a(1) _ es'] a(2) ks D1 by simp
  moreover have "[] \<notin> set xss" if "(V(key \<mapsto> [time_insert t row (times V key)])) key' = Some xss" for key' xss
    using that ok by (auto simp: seg_ok_def time_insert_def split: if_splits)
  ultimately show ?thesis using P st2 unfolding seg_ok_def by blast
qed

section \<open>Taking a key out\<close>

lemma mset_time_insert: "mset (time_insert t b xs) = add_mset (t, b) (mset xs)"
  by (simp add: time_insert_def)

lemma remove_at:
  assumes rep: "seg_rep sg (us @ a # ws) vs T"
  shows "\<exists>es h fl. Remove (entries sg) (key_of sg a) = Some (Some a, es) \<and>
    Insert (entry_free_list sg) (gc_version sg) (Some a) = Some (h, fl) \<and>
    seg_rep (sg\<lparr>entries := es, entry_free_list := fl\<rparr>) (us @ ws) (time_insert (gc_version sg) a vs) T \<and>
    (\<forall>b. keyat (heap es) b = key_of sg b \<and> own (sg\<lparr>entries := es, entry_free_list := fl\<rparr>) b = own sg b)"
proof -
  note K = seg_repD(1)[OF rep]
  obtain lv where lv: "skl (entries sg) lv" "full_levels (entries sg) lv" "lv 0 = us @ a # ws"
    using keys_repD(1)[OF K] by (auto simp: rep_def)
  have "find_node sg (us @ a # ws) (key_of sg a) = Some a"
    using find_node_Some[OF keys_repD(6)[OF K]] by simp
  then have fe: "first_eq (entries sg) (lv 0) (key_of sg a) = Some a"
    by (simp add: first_eq_def find_node_def lv(3))
  obtain h' tl0 where R: "Remove (entries sg) (key_of sg a) = Some (Some a, (entries sg)\<lparr>heap := h', tail := tl0\<rparr>)"
    and skl': "skl ((entries sg)\<lparr>heap := h', tail := tl0\<rparr>) (drop_node a lv)"
      "full_levels ((entries sg)\<lparr>heap := h', tail := tl0\<rparr>) (drop_node a lv)"
    and sh: "shapes h' = shapes (heap (entries sg))"
    using Remove_found[OF lv(1,2) fe] by blast
  obtain fs where "es_rep (entry_free_list sg) fs vs" using seg_repD(2)[OF rep] by blast
  then obtain h fl fs' where I: "Insert (entry_free_list sg) (gc_version sg) (Some a) = Some (h, fl)"
    "es_rep fl fs' (time_insert (gc_version sg) a vs)"
    using es_insert by blast
  let ?es = "(entries sg)\<lparr>heap := h', tail := tl0\<rparr>" and ?vs = "time_insert (gc_version sg) a vs"
  let ?sg = "sg\<lparr>entries := ?es, entry_free_list := fl\<rparr>"
  have key: "keyat h' b = key_of sg b" and own: "own ?sg b = own sg b" for b
    using shapes_eqD(3,4)[OF sh, of b] by (simp_all add: own_def)
  have m: "mset ((us @ ws) @ map snd ?vs) = mset ((us @ a # ws) @ map snd vs)"
    by (simp add: mset_time_insert)
  have s': "set ((us @ ws) @ map snd ?vs) = set ((us @ a # ws) @ map snd vs)" using m by (metis mset_eq_setD)
  have "filter (\<lambda>b. b \<noteq> a) us = us" "filter (\<lambda>b. b \<noteq> a) ws = ws"
    using keys_repD(5)[OF K] by (auto intro!: filter_True)
  then have "drop_node a lv 0 = us @ ws" using lv(3) by (simp add: drop_node_def)
  then have "rep True ?es (us @ ws)" using skl' by (auto simp: rep_def)
  moreover have "distinct (head (entries sg) # (us @ ws) @ map snd ?vs)"
    using keys_repD(5)[OF K] s' mset_eq_imp_distinct_iff[OF m] by (metis distinct.simps(2))
  moreover have "sentinel ?es = ([], None)" "dom h' = insert (head (entries sg)) (set ((us @ ws) @ map snd ?vs))"
    using keys_repD(3,4)[OF K] shapes_dom[OF sh] shapes_eqD(3,4)[OF sh] s' by (simp_all add: sentinel_def)
  moreover have "distinct (map (keyat h') (us @ ws))"
    using keys_repD(6)[OF K] unfolding key by simp
  moreover have "wf_node h' b \<and> valat h' b = Some (own ?sg b) \<and> length (own ?sg b) = ts_cnt sg"
    if "b \<in> set ((us @ ws) @ map snd ?vs)" for b
    using keys_repD(7-9)[OF K, of b] that unfolding s' own shapes_eqD(1,4)[OF sh] by blast
  ultimately have "keys_rep ?sg (us @ ws) (map snd ?vs)"
    using keys_repD(2)[OF K] unfolding keys_rep_def by simp
  moreover have o: "own ?sg = own sg" using own by (rule HOL.ext)
  moreover have "length ?vs = Suc (length vs)" by simp
  ultimately have "seg_rep ?sg (us @ ws) ?vs T"
    using seg_repD(3-9)[OF rep] I(2) unfolding seg_rep_def o distinct_concat_cong[OF m]
    by (auto simp del: map_append)
  then show ?thesis using R I(1) key own by auto
qed

text \<open>The contents after a removal, and the state: nothing but the owner of the key changes.\<close>

lemma map_time_insert:
  "map (\<lambda>(v, a). (v, f a)) (time_insert t b xs) = time_insert t (f b) (map (\<lambda>(v, a). (v, f a)) xs)"
  by (simp add: time_insert_def filter_map comp_def case_prod_unfold)

lemma view_remove:
  assumes d: "distinct (map (key_of sg) (us @ a # ws))" and d': "distinct (map (key_of sg') (us @ ws))"
    and key: "\<And>b. key_of sg' b = key_of sg b" and own: "\<And>b. own sg' b = own sg b"
  shows "seg_view sg' (us @ ws) T = (seg_view sg (us @ a # ws) T)(key_of sg a := None)"
    "removed_view sg' (time_insert v a vs) T = time_insert v (map T (own sg a)) (removed_view sg vs T)"
proof
  fix key
  show "seg_view sg' (us @ ws) T key = ((seg_view sg (us @ a # ws) T)(key_of sg a := None)) key"
  proof (cases "key = key_of sg a")
    case True
    then have "find_node sg' (us @ ws) key = None"
      using d unfolding find_node_None assms(3) by auto
    then show ?thesis using True by (simp add: seg_view_def)
  next
    case False
    have "find_node sg' (us @ ws) key = find_node sg (us @ a # ws) key"
      using False by (intro find_node_cong[OF d d']) (auto simp: assms(3))
    then show ?thesis using False by (simp add: seg_view_def own)
  qed
next
  show "removed_view sg' (time_insert v a vs) T = time_insert v (map T (own sg a)) (removed_view sg vs T)"
    unfolding removed_view_def own by (rule map_time_insert)
qed

lemma st_remove:
  assumes st: "seg_st sg bs ext (us @ a # ws) vs T"
    and rep: "seg_rep sg' (us @ ws) (time_insert v a vs) T"
    and own: "\<And>b. own sg' b = own sg b" and f: "ts_cnt sg' = ts_cnt sg" "idx_cnt sg' = idx_cnt sg"
  shows "seg_st sg' bs ext (us @ ws) (time_insert v a vs) T"
proof -
  have o: "own sg' = own sg" using own by (rule HOL.ext)
  have "mset (owned sg ((us @ ws) @ map snd (time_insert v a vs))) = mset (owned sg ((us @ a # ws) @ map snd vs))"
    by (rule mset_concat_cong) (simp add: mset_time_insert)
  then have "refs_of T (owned sg ((us @ ws) @ map snd (time_insert v a vs))) = refs_of T (owned sg ((us @ a # ws) @ map snd vs))"
    "total_len T (owned sg ((us @ ws) @ map snd (time_insert v a vs))) = total_len T (owned sg ((us @ a # ws) @ map snd vs))"
    using refs_of_mset total_mset by blast+
  then show ?thesis using st rep f unfolding seg_st_def o by simp
qed

lemma Delete_ok:
  assumes ok: "seg_ok sg bs ext V D"
  shows "\<exists>sg'. Segment_Delete sg key = Some (key \<in> dom V, sg') \<and>
    seg_ok sg' bs ext (V(key := None))
      (case V key of None \<Rightarrow> D | Some xss \<Rightarrow> time_insert (gc_version sg) xss D)"
proof -
  obtain as vs T where st: "seg_st sg bs ext as vs T" and V: "seg_view sg as T = V" and D: "removed_view sg vs T = D"
    using ok by (auto simp: seg_ok_def)
  have rep: "seg_rep sg as vs T" using st by (simp add: seg_st_def)
  note K = seg_repD(1)[OF rep]
  show ?thesis
  proof (cases "find_node sg as key")
    case None
    obtain lv where lv: "skl (entries sg) lv" "lv 0 = as" using keys_repD(1)[OF K] by (auto simp: rep_def)
    have "Remove (entries sg) key = Some (None, entries sg)"
      using None lv by (intro Remove_absent[OF lv(1)]) (simp add: first_eq_def find_node_def)
    moreover have "V key = None" using V None by (auto simp: seg_view_def)
    moreover from this have "V(key := None) = V" by (rule fun_upd_idem)
    ultimately show ?thesis using ok by (auto simp: Segment_Delete_def)
  next
    case (Some a)
    then have a: "a \<in> set as" "key_of sg a = key" using find_node_Some[OF keys_repD(6)[OF K]] by auto
    then obtain us ws where as: "as = us @ a # ws" by (metis split_list)
    obtain es h fl where R: "Remove (entries sg) key = Some (Some a, es)"
      "Insert (entry_free_list sg) (gc_version sg) (Some a) = Some (h, fl)"
      and r: "seg_rep (sg\<lparr>entries := es, entry_free_list := fl\<rparr>) (us @ ws) (time_insert (gc_version sg) a vs) T"
      and k: "\<And>b. keyat (heap es) b = key_of sg b" "\<And>b. own (sg\<lparr>entries := es, entry_free_list := fl\<rparr>) b = own sg b"
      using remove_at[OF rep[unfolded as]] a(2) by blast
    let ?sg = "sg\<lparr>entries := es, entry_free_list := fl\<rparr>"
    have Vk: "V key = Some (map T (own sg a))" using V Some by (auto simp: seg_view_def)
    have "seg_st ?sg bs ext (us @ ws) (time_insert (gc_version sg) a vs) T"
      by (rule st_remove[OF st[unfolded as] r k(2)]) simp_all
    moreover have "seg_view ?sg (us @ ws) T = V(key := None)"
      "removed_view ?sg (time_insert (gc_version sg) a vs) T = time_insert (gc_version sg) (map T (own sg a)) D"
      using view_remove[OF keys_repD(6)[OF K, unfolded as] keys_repD(6)[OF seg_repD(1)[OF r]] _ k(2)] k(1) V D a(2) as by simp_all
    moreover have "Segment_Delete sg key = Some (True, ?sg)" using R by (simp add: Segment_Delete_def)
    moreover have "[] \<notin> set xss" if "(V(key := None)) key' = Some xss" for key' xss
      using that ok by (auto simp: seg_ok_def split: if_splits)
    ultimately show ?thesis using Vk unfolding seg_ok_def by (auto simp: domIff)
  qed
qed

end
