(* ===== verification/Segment_Gc.thy ===== *)
theory Segment_Gc
  imports Segment_Ops "HOL-Library.Sublist"
begin

text \<open>
  Garbage collection of a segment with one time column: each of the four collectors keeps a
  prefix of every time list that no reader holds, frees the rest with the blocks that lose
  their last reference, and takes out the keys that become empty.
\<close>

section \<open>Cutting one time list\<close>

lemma skl_IsEmpty: "skl sl lv \<Longrightarrow> IsEmpty sl = Some (lv 0 = [])"
  by (cases "lv 0") (simp_all add: IsEmpty_def skl_first)

context cutter
begin

lemma cut:
  assumes e: "ke_rep ke xs" and r: "enough_refs bs (map snd (drop (keep xs) xs))"
  shows "\<exists>p es'. split (kentries ke) = Some (p, es') \<and> IsEmpty es' = Some (take (keep xs) xs = []) \<and>
    (\<forall>sg c. kes sg k = Some (ke\<lparr>kentries := es'\<rparr>) \<longrightarrow>
      (\<exists>ke' B c'. free_nodes (sg, bs, c) k p =
         Some (sg\<lparr>kes := (kes sg)(k \<mapsto> ke'), idx_byte_size := B\<rparr>, drop_refs bs (map snd (drop (keep xs) xs)), c') \<and>
       ke_rep ke' (take (keep xs) xs) \<and> refs ke' = refs ke \<and>
       gc_idx_cnt c' = gc_idx_cnt c + of_nat (length (drop (keep xs) xs)) \<and>
       gc_record_cnt c' = gc_record_cnt c + of_nat (card (freed bs (map snd (drop (keep xs) xs))))))"
proof -
  let ?n = "keep xs"
  obtain as where as: "es_rep (kentries ke) as xs" and cnt: "kcount ke = of_nat (length xs)"
    using e by (auto simp: ke_rep_def)
  obtain p es' where s: "split (kentries ke) = Some (p, es')" and at: "split_at ?n (kentries ke) as p es'"
    using cut_ok[OF as] by blast
  obtain lv' where "skl es' lv'" "lv' 0 = take ?n as" using at by (auto simp: split_at_def)
  then have empty: "IsEmpty es' = Some (take ?n xs = [])"
    using skl_IsEmpty[of es' lv'] es_rep_length[OF as] by (cases as; cases xs) auto
  have "\<exists>ke' B c'. free_nodes (sg, bs, c) k p =
      Some (sg\<lparr>kes := (kes sg)(k \<mapsto> ke'), idx_byte_size := B\<rparr>, drop_refs bs (map snd (drop ?n xs)), c') \<and>
      ke_rep ke' (take ?n xs) \<and> refs ke' = refs ke \<and>
      gc_idx_cnt c' = gc_idx_cnt c + of_nat (length (drop ?n xs)) \<and>
      gc_record_cnt c' = gc_record_cnt c + of_nat (card (freed bs (map snd (drop ?n xs))))"
    if k: "kes sg k = Some (ke\<lparr>kentries := es'\<rparr>)" for sg c
  proof -
    obtain st where w: "walk FreeList_step \<lparr>fheap = heap es', fblocks = bs, fbytes = idx_byte_size sg,
          fcounts = c\<lparr>gc_idx_cnt := 0\<rparr>\<rparr> p = Some st"
      and st: "es_rep (es'\<lparr>heap := fheap st\<rparr>) (take ?n as) (take ?n xs)"
        "fblocks st = drop_refs bs (map snd (drop ?n xs))"
        "gc_idx_cnt (fcounts st) = of_nat (length (drop ?n xs))"
        "gc_record_cnt (fcounts st) = gc_record_cnt c + of_nat (card (freed bs (map snd (drop ?n xs))))"
      using split_free[OF as at r, of "idx_byte_size sg" "c\<lparr>gc_idx_cnt := 0\<rparr>"] by auto
    have "length xs = length (take ?n xs) + length (drop ?n xs)" by (metis append_take_drop_id length_append)
    then have "kcount ke - of_nat (length (drop ?n xs)) = of_nat (length (take ?n xs))"
      unfolding cnt by (metis add_diff_cancel_right' of_nat_add)
    then have "ke_rep (ke\<lparr>kentries := es'\<lparr>heap := fheap st\<rparr>, kcount := kcount ke - of_nat (length (drop ?n xs))\<rparr>) (take ?n xs)"
      using st(1) by (auto simp: ke_rep_def)
    then show ?thesis using w k st
      by (auto simp: free_nodes_def FreeList_def sub_count_def
          intro!: exI[of _ "fbytes st"] exI[of _ "ke\<lparr>kentries := es'\<lparr>heap := fheap st\<rparr>, kcount := kcount ke - of_nat (length (drop ?n xs))\<rparr>"])
  qed
  then show ?thesis using s empty by blast
qed

end

section \<open>One round of a collector\<close>

text \<open>What is kept and cut off of the list \<open>xs\<close> of the entry \<open>ke\<close>: a reader's list is left alone.\<close>

definition kept :: "((64 word \<times> addr) list \<Rightarrow> nat) \<Rightarrow> key_entry \<Rightarrow> (64 word \<times> addr) list \<Rightarrow> (64 word \<times> addr) list" where
  "kept keep ke xs = (if refs ke > 0 then xs else take (keep xs) xs)"

definition cut_off :: "((64 word \<times> addr) list \<Rightarrow> nat) \<Rightarrow> key_entry \<Rightarrow> (64 word \<times> addr) list \<Rightarrow> addr list" where
  "cut_off keep ke xs = (if refs ke > 0 then [] else map snd (drop (keep xs) xs))"

lemma kept_cut_off: "map snd (kept keep ke xs) @ cut_off keep ke xs = map snd xs"
  by (simp add: kept_def cut_off_def flip: map_append)

text \<open>
  The state after the round for the key of node \<open>a\<close> with the entry \<open>k\<close>: the list is \<open>ys\<close>, the
  references \<open>ds\<close> are given up, and an empty key has moved to the removed-entry list.
\<close>

definition same_refs :: "segment \<Rightarrow> segment \<Rightarrow> bool" where
  "same_refs sg sg' \<longleftrightarrow> (\<forall>k. map_option refs (kes sg' k) = map_option refs (kes sg k))"

definition collected ::
    "segment \<Rightarrow> addr list \<Rightarrow> addr \<Rightarrow> addr list \<Rightarrow> (64 word \<times> addr) list \<Rightarrow> (addr \<Rightarrow> (64 word \<times> addr) list) \<Rightarrow> addr \<Rightarrow>
     (64 word \<times> addr) list \<Rightarrow> segment \<Rightarrow> bool" where
  "collected sg us a ws vs T k ys sg' \<longleftrightarrow>
     (if ys = [] then seg_rep sg' (us @ ws) (time_insert (gc_version sg) a vs) (T(k := ys))
      else seg_rep sg' (us @ a # ws) vs (T(k := ys))) \<and>
     (\<forall>b. key_of sg' b = key_of sg b \<and> own sg' b = own sg b) \<and> same_refs sg sg' \<and>
     idx_cnt sg' = idx_cnt sg \<and> ts_cnt sg' = ts_cnt sg \<and> gc_version sg' = gc_version sg"

definition counted :: "blocks \<Rightarrow> gc_counts \<Rightarrow> addr list \<Rightarrow> gc_counts \<Rightarrow> bool" where
  "counted bs c ds c' \<longleftrightarrow> gc_idx_cnt c' = gc_idx_cnt c + of_nat (length ds) \<and>
     gc_record_cnt c' = gc_record_cnt c + of_nat (card (freed bs ds))"

lemma counted_Nil [simp]: "counted bs c [] c"
  by (simp add: counted_def)

locale collector =
  fixes step :: "gc_state \<Rightarrow> addr option \<Rightarrow> (addr option \<times> gc_state) option"
    and keep :: "(64 word \<times> addr) list \<Rightarrow> nat"
  assumes step_ok: "seg_rep sg (us @ a # ws) vs T \<Longrightarrow> own sg a = [k] \<Longrightarrow> kes sg k = Some ke \<Longrightarrow> T k \<noteq> [] \<Longrightarrow>
    enough_refs bs (cut_off keep ke (T k)) \<Longrightarrow>
    \<exists>sg' c'. step (sg, bs, c) (Some a) =
        Some (ptr ws None, (sg', drop_refs bs (cut_off keep ke (T k)), c')) \<and>
      collected sg us a ws vs T k (kept keep ke (T k)) sg' \<and> counted bs c (cut_off keep ke (T k)) c'"

text \<open>Replacing the entry keeps the key; removing the key afterwards moves it.\<close>

lemma collected_keep:
  assumes rep: "seg_rep sg (us @ a # ws) vs T" and k: "kes sg k = Some ke"
    and ke': "ke_rep ke' ys" "refs ke' = refs ke" "ys \<noteq> []"
  shows "collected sg us a ws vs T k ys (sg\<lparr>kes := (kes sg)(k \<mapsto> ke'), idx_byte_size := B\<rparr>)"
proof -
  let ?sg = "sg\<lparr>kes := (kes sg)(k \<mapsto> ke')\<rparr>"
  have "seg_rep ?sg (us @ a # ws) vs (T(k := ys))" by (rule seg_rep_entry[OF rep k ke'(1)])
  then have "seg_rep (?sg\<lparr>idx_byte_size := B\<rparr>) (us @ a # ws) vs (T(k := ys))"
    by (rule seg_rep_cong[THEN iffD1, rotated -1]) simp_all
  moreover have "own (?sg\<lparr>idx_byte_size := B\<rparr>) = own sg" by (rule own_cong) simp
  ultimately show ?thesis using ke' k by (simp add: collected_def same_refs_def)
qed

lemma collected_gone:
  assumes rep: "seg_rep sg (us @ a # ws) vs T" and k: "kes sg k = Some ke"
  shows "\<exists>es fl. (\<forall>f. remove_key (sg\<lparr>kes := f\<rparr>) (key_of sg a) = Some (sg\<lparr>kes := f, entries := es, entry_free_list := fl\<rparr>)) \<and>
    (\<forall>ke' B. ke_rep ke' [] \<longrightarrow> refs ke' = refs ke \<longrightarrow> collected sg us a ws vs T k []
      (sg\<lparr>kes := (kes sg)(k \<mapsto> ke'), entries := es, entry_free_list := fl, idx_byte_size := B\<rparr>))"
proof -
  obtain es h fl where R: "Remove (entries sg) (key_of sg a) = Some (Some a, es)"
    "Insert (entry_free_list sg) (gc_version sg) (Some a) = Some (h, fl)"
    using remove_at[OF rep] by blast
  have "collected sg us a ws vs T k []
      (sg\<lparr>kes := (kes sg)(k \<mapsto> ke'), entries := es, entry_free_list := fl, idx_byte_size := B\<rparr>)"
    if ke': "ke_rep ke' []" "refs ke' = refs ke" for ke' B
  proof -
    let ?sg = "sg\<lparr>kes := (kes sg)(k \<mapsto> ke')\<rparr>"
    have "seg_rep ?sg (us @ a # ws) vs (T(k := []))" by (rule seg_rep_entry[OF rep k ke'(1)])
    from remove_at[OF this]
    have r: "seg_rep (?sg\<lparr>entries := es, entry_free_list := fl\<rparr>) (us @ ws) (time_insert (gc_version sg) a vs) (T(k := []))"
      and o: "\<And>b. keyat (heap es) b = key_of sg b" "\<And>b. own (?sg\<lparr>entries := es, entry_free_list := fl\<rparr>) b = own ?sg b"
      using R by auto
    have "seg_rep (?sg\<lparr>entries := es, entry_free_list := fl, idx_byte_size := B\<rparr>) (us @ ws) (time_insert (gc_version sg) a vs) (T(k := []))"
      using r by (rule seg_rep_cong[THEN iffD1, rotated -1]) simp_all
    moreover have "own (?sg\<lparr>entries := es, entry_free_list := fl, idx_byte_size := B\<rparr>) b = own sg b" for b
      using o(2)[of b] by (simp add: own_def)
    ultimately show ?thesis using o(1) ke' k by (auto simp: collected_def same_refs_def)
  qed
  then show ?thesis using R by (intro exI[of _ es] exI[of _ fl]) (simp add: remove_key_def)
qed

section \<open>The four collectors\<close>

text \<open>Reading the current key, entry and successor, and the oldest time of an entry.\<close>

lemma at_key:
  assumes rep: "seg_rep sg (us @ a # ws) vs T" and o: "own sg a = [k]"
  shows "entry_at sg (Some a) = Some k" "it_GetKey (entries sg) (Some a) = Some (key_of sg a)"
    "it_Next (entries sg) (Some a) = Some (ptr ws None)"
proof -
  note K = seg_repD(1)[OF rep]
  obtain lv where lv: "skl (entries sg) lv" "lv 0 = us @ a # ws" using keys_repD(1)[OF K] by (auto simp: rep_def)
  have v: "valid (heap (entries sg)) a 0" "nxt (heap (entries sg)) a 0 = ptr ws None"
    using sklD(7)[OF lv(1) skl_MaxHeight[OF lv(1)]] lv(2) by simp_all
  then have w: "wf_node (heap (entries sg)) a" by (simp add: valid_def)
  show "entry_at sg (Some a) = Some k"
    using w keys_repD(8)[OF K, of a] o
    by (simp add: entry_at_def it_GetValue_def it_Valid_def assert_that_def ptr_simps arr_get_def)
  show "it_GetKey (entries sg) (Some a) = Some (key_of sg a)"
    using w by (simp add: it_GetKey_def it_Valid_def assert_that_def ptr_simps)
  show "it_Next (entries sg) (Some a) = Some (ptr ws None)"
    using v by (simp add: it_Next_def it_Valid_def assert_that_def ptr_simps)
qed

lemma es_rep_sorted:
  assumes "es_rep es as xs"
  shows "sorted_wrt (\<lambda>x y. fst x \<ge> fst y) xs"
proof -
  obtain lv where "skl es lv" "lv 0 = as" using assms by (rule es_rep_skl)
  then have "sorted_wrt (\<lambda>a b. keyat (heap es) a \<ge> keyat (heap es) b) as"
    using sklD(11)[of es lv 0] assms
    by (auto simp: key_le_def[abs_def] es_rep_def TimeComparator_def elim!: sorted_wrt_mono_rel[rotated] split: if_splits)
  then have "sorted_wrt (\<lambda>x y. fst x \<ge> fst y) (pairs es as)" by (simp add: pairs_def sorted_wrt_map)
  then show ?thesis using assms by (simp add: es_rep_def sorted_wrt_map case_prod_unfold)
qed

lemma last_time:
  assumes "ke_rep ke xs" "xs \<noteq> []"
  obtains l where "GetLast (kentries ke) = Some l" "GetKey (heap (kentries ke)) (Some l) = Some (fst (last xs))"
    "IsEmpty (kentries ke) = Some False"
proof -
  obtain as where e: "es_rep (kentries ke) as xs" using assms(1) by (auto simp: ke_rep_def)
  obtain lv where lv: "skl (kentries ke) lv" "lv 0 = as" using e by (rule es_rep_skl)
  have ne: "as \<noteq> []" using es_rep_length[OF e] assms(2) by auto
  then have t: "GetLast (kentries ke) = Some (last as)"
    using sklD(14)[OF lv(1)] lv(2) by (simp add: tail_ok_def GetLast_def)
  have "fst (last (pairs (kentries ke) as)) = keyat (heap (kentries ke)) (last as)"
    using ne by (simp add: pairs_def last_map)
  moreover have "fst (last (map (\<lambda>(t, b). (t, Some b)) xs)) = fst (last xs)"
    using assms(2) by (simp add: last_map case_prod_unfold)
  ultimately have "keyat (heap (kentries ke)) (last as) = fst (last xs)" using e by (simp add: es_rep_def)
  then show ?thesis
    using that[OF t] skl_wf_node[OF lv(1), of "last as"] skl_IsEmpty[OF lv(1)] lv(2) ne by (simp add: ptr_simps)
qed

lemma all_newer:
  assumes "ke_rep ke xs" "xs \<noteq> []" "fst (last xs) > t"
  shows "newer t xs = length xs"
proof -
  obtain as where "es_rep (kentries ke) as xs" using assms(1) by (auto simp: ke_rep_def)
  then have s: "sorted_wrt (\<lambda>x y. fst x \<ge> fst y) xs" by (rule es_rep_sorted)
  have "fst x > t" if "x \<in> set xs" for x
  proof -
    have "x \<in> set (butlast xs @ [last xs])" using that assms(2) by simp
    moreover have "sorted_wrt (\<lambda>x y. fst x \<ge> fst y) (butlast xs @ [last xs])" using s assms(2) by simp
    ultimately show ?thesis using assms(3) by (auto simp: sorted_wrt_append)
  qed
  then show ?thesis by (simp add: newer_def)
qed

lemma free_none:
  "kes sg k = Some ke \<Longrightarrow> free_nodes (sg, bs, c) k None = Some (sg, bs, c)"
  by (simp add: free_nodes_def FreeList_def sub_count_def walk.simps fun_upd_idem)

lemma collected_same:
  assumes "seg_rep sg (us @ a # ws) vs T" "T k \<noteq> []"
  shows "collected sg us a ws vs T k (T k) sg"
  using assms by (simp add: collected_def same_refs_def)

context cutter
begin

lemma round_keep:
  assumes rep: "seg_rep sg (us @ a # ws) vs T" and k: "kes sg k = Some ke" and ne: "T k \<noteq> []"
    and r: "enough_refs bs (cut_off keep ke (T k))" and kept: "kept keep ke (T k) \<noteq> []"
  shows "\<exists>p sg1 sg' c'. split_unref sg k split = Some (p, sg1) \<and> move_if_empty sg1 k key = Some sg1 \<and>
    free_nodes (sg1, bs, c) k p = Some (sg', drop_refs bs (cut_off keep ke (T k)), c') \<and> entries sg' = entries sg \<and>
    collected sg us a ws vs T k (kept keep ke (T k)) sg' \<and> counted bs c (cut_off keep ke (T k)) c'"
proof -
  have e: "ke_rep ke (T k)" by (rule seg_repD(5)[OF rep k])
  show ?thesis
  proof (cases "refs ke > 0")
    case True
    obtain l where "IsEmpty (kentries ke) = Some False" using last_time[OF e ne] by blast
    then show ?thesis
      using True k collected_same[where T = T and k = k, OF rep ne] free_none[OF k]
      by (auto simp: split_unref_def kept_def cut_off_def move_if_empty_def)
  next
    case False
    then have z: "refs ke = 0" by (simp add: word_gt_0)
    from False have c: "kept keep ke (T k) = take (keep (T k)) (T k)" "cut_off keep ke (T k) = map snd (drop (keep (T k)) (T k))"
      by (simp_all add: kept_def cut_off_def)
    obtain p es' where s: "split (kentries ke) = Some (p, es')" and m: "IsEmpty es' = Some False"
      and f: "\<And>sg c. kes sg k = Some (ke\<lparr>kentries := es'\<rparr>) \<Longrightarrow>
        \<exists>ke' B c'. free_nodes (sg, bs, c) k p =
            Some (sg\<lparr>kes := (kes sg)(k \<mapsto> ke'), idx_byte_size := B\<rparr>, drop_refs bs (cut_off keep ke (T k)), c') \<and>
          ke_rep ke' (kept keep ke (T k)) \<and> refs ke' = refs ke \<and> counted bs c (cut_off keep ke (T k)) c'"
      using cut[OF e r[unfolded c], where k = k] kept unfolding c counted_def by (simp only: length_map) blast
    let ?sg1 = "sg\<lparr>kes := (kes sg)(k \<mapsto> ke\<lparr>kentries := es'\<rparr>)\<rparr>"
    obtain ke' B c' where f': "free_nodes (?sg1, bs, c) k p =
        Some (sg\<lparr>kes := (kes sg)(k \<mapsto> ke'), idx_byte_size := B\<rparr>, drop_refs bs (cut_off keep ke (T k)), c')"
      and ke': "ke_rep ke' (kept keep ke (T k))" "refs ke' = refs ke" "counted bs c (cut_off keep ke (T k)) c'"
      using f[of ?sg1 c] by auto
    have "split_unref sg k split = Some (p, ?sg1)" "move_if_empty ?sg1 k key = Some ?sg1"
      using s k m z by (simp_all add: split_unref_def set_entries_def move_if_empty_def)
    then show ?thesis using f' ke'(3) collected_keep[OF rep k ke'(1,2) kept] by force
  qed
qed

lemma round_move:
  assumes rep: "seg_rep sg (us @ a # ws) vs T" and k: "kes sg k = Some ke" and ne: "T k \<noteq> []"
    and r: "enough_refs bs (cut_off keep ke (T k))"
  shows "\<exists>p sg1 sg2 sg' c'. split_unref sg k split = Some (p, sg1) \<and> move_if_empty sg1 k (key_of sg a) = Some sg2 \<and>
    free_nodes (sg2, bs, c) k p = Some (sg', drop_refs bs (cut_off keep ke (T k)), c') \<and>
    collected sg us a ws vs T k (kept keep ke (T k)) sg' \<and> counted bs c (cut_off keep ke (T k)) c'"
proof (cases "kept keep ke (T k) = []")
  case False
  then show ?thesis using round_keep[OF rep k ne r] by blast
next
  case True
  then have z: "refs ke = 0" using ne by (auto simp: kept_def word_gt_0 split: if_splits)
  then have c: "kept keep ke (T k) = take (keep (T k)) (T k)" "cut_off keep ke (T k) = map snd (drop (keep (T k)) (T k))"
    by (simp_all add: kept_def cut_off_def)
  obtain p es' where s: "split (kentries ke) = Some (p, es')" and m: "IsEmpty es' = Some True"
    and f: "\<And>sg c. kes sg k = Some (ke\<lparr>kentries := es'\<rparr>) \<Longrightarrow>
      \<exists>ke' B c'. free_nodes (sg, bs, c) k p =
          Some (sg\<lparr>kes := (kes sg)(k \<mapsto> ke'), idx_byte_size := B\<rparr>, drop_refs bs (cut_off keep ke (T k)), c') \<and>
        ke_rep ke' [] \<and> refs ke' = refs ke \<and> counted bs c (cut_off keep ke (T k)) c'"
    using cut[OF seg_repD(5)[OF rep k] r[unfolded c], where k = k] True unfolding c counted_def
    by (simp only: length_map simp_thms) blast
  let ?sg1 = "sg\<lparr>kes := (kes sg)(k \<mapsto> ke\<lparr>kentries := es'\<rparr>)\<rparr>"
  obtain es fl where rm: "remove_key ?sg1 (key_of sg a) = Some (?sg1\<lparr>entries := es, entry_free_list := fl\<rparr>)"
    and gone: "\<And>ke' B. ke_rep ke' [] \<Longrightarrow> refs ke' = refs ke \<Longrightarrow> collected sg us a ws vs T k []
      (sg\<lparr>kes := (kes sg)(k \<mapsto> ke'), entries := es, entry_free_list := fl, idx_byte_size := B\<rparr>)"
    using collected_gone[OF rep k] by blast
  let ?sg2 = "?sg1\<lparr>entries := es, entry_free_list := fl\<rparr>"
  obtain ke' B c' where f': "free_nodes (?sg2, bs, c) k p =
      Some (sg\<lparr>kes := (kes sg)(k \<mapsto> ke'), entries := es, entry_free_list := fl, idx_byte_size := B\<rparr>,
        drop_refs bs (cut_off keep ke (T k)), c')"
    and ke': "ke_rep ke' []" "refs ke' = refs ke" "counted bs c (cut_off keep ke (T k)) c'"
  proof -
    have "kes ?sg2 k = Some (ke\<lparr>kentries := es'\<rparr>)" by simp
    from f[OF this, of c] obtain ke' B c' where "free_nodes (?sg2, bs, c) k p =
        Some (?sg2\<lparr>kes := (kes ?sg2)(k \<mapsto> ke'), idx_byte_size := B\<rparr>, drop_refs bs (cut_off keep ke (T k)), c')"
      "ke_rep ke' []" "refs ke' = refs ke" "counted bs c (cut_off keep ke (T k)) c'" by blast
    then show ?thesis by (intro that[where ke' = ke' and B = B and c' = c']) simp_all
  qed
  have "collected sg us a ws vs T k [] (sg\<lparr>kes := (kes sg)(k \<mapsto> ke'), entries := es, entry_free_list := fl, idx_byte_size := B\<rparr>)"
    by (rule gone[OF ke'(1,2)])
  moreover have "split_unref sg k split = Some (p, ?sg1)" "move_if_empty ?sg1 k (key_of sg a) = Some ?sg2"
    using s k m z rm by (simp_all add: split_unref_def set_entries_def move_if_empty_def)
  ultimately show ?thesis using f' ke'(3) True by fastforce
qed

end

lemma Gc4Head_collector: "n \<noteq> 0 \<Longrightarrow> collector (Gc4Head_step n) (\<lambda>_. unat n)"
proof
  fix sg :: segment and us a ws vs T k ke bs c
  assume n: "n \<noteq> 0" and rep: "seg_rep sg (us @ a # ws) vs T" and o: "own sg a = [k]" and k: "kes sg k = Some ke"
    and ne: "T k \<noteq> []" and r: "enough_refs bs (cut_off (\<lambda>_. unat n) ke (T k))"
  have "kept (\<lambda>_. unat n) ke (T k) \<noteq> []" using n ne by (auto simp: kept_def unat_eq_zero)
  then obtain p sg1 sg' c' where s: "split_unref sg k (\<lambda>es. SplitByPos es (unat n)) = Some (p, sg1)"
      "free_nodes (sg1, bs, c) k p = Some (sg', drop_refs bs (cut_off (\<lambda>_. unat n) ke (T k)), c')" "entries sg' = entries sg"
    and d: "collected sg us a ws vs T k (kept (\<lambda>_. unat n) ke (T k)) sg'" "counted bs c (cut_off (\<lambda>_. unat n) ke (T k)) c'"
    using by_pos.round_keep[OF rep k ne r] by blast
  have "Gc4Head_step n (sg, bs, c) (Some a) = Some (ptr ws None, sg', drop_refs bs (cut_off (\<lambda>_. unat n) ke (T k)), c')"
    using s at_key[OF rep o] by (simp add: Gc4Head_step_def)
  then show "\<exists>sg' c'. Gc4Head_step n (sg, bs, c) (Some a) =
      Some (ptr ws None, (sg', drop_refs bs (cut_off (\<lambda>_. unat n) ke (T k)), c')) \<and>
      collected sg us a ws vs T k (kept (\<lambda>_. unat n) ke (T k)) sg' \<and> counted bs c (cut_off (\<lambda>_. unat n) ke (T k)) c'"
    using d by blast
qed

text \<open>A round that is skipped because the oldest record has not expired.\<close>

lemma kept_all:
  assumes "length xs \<le> keep xs"
  shows "kept keep ke xs = xs" "cut_off keep ke xs = []"
  using assms by (simp_all add: kept_def cut_off_def)

interpretation ttl: collector "Gc4TTL_step t" "newer t" for t
proof
  fix sg :: segment and us a ws vs T k ke bs c
  assume rep: "seg_rep sg (us @ a # ws) vs T" and o: "own sg a = [k]" and k: "kes sg k = Some ke"
    and ne: "T k \<noteq> []" and r: "enough_refs bs (cut_off (newer t) ke (T k))"
  note e = seg_repD(5)[OF rep k]
  obtain l where l: "GetLast (kentries ke) = Some l" "GetKey (heap (kentries ke)) (Some l) = Some (fst (last (T k)))"
    using last_time[OF e ne] by blast
  show "\<exists>sg' c'. Gc4TTL_step t (sg, bs, c) (Some a) = Some (ptr ws None, (sg', drop_refs bs (cut_off (newer t) ke (T k)), c')) \<and>
      collected sg us a ws vs T k (kept (newer t) ke (T k)) sg' \<and> counted bs c (cut_off (newer t) ke (T k)) c'"
  proof (cases "fst (last (T k)) > t")
    case True
    then show ?thesis
      using l k at_key[OF rep o] kept_all[of "T k" "newer t" ke] all_newer[OF e ne] collected_same[where T = T and k = k, OF rep ne]
      by (auto simp: Gc4TTL_step_def)
  next
    case False
    obtain p sg1 sg2 sg' c' where s: "split_unref sg k (\<lambda>es. Split es t) = Some (p, sg1)"
        "move_if_empty sg1 k (key_of sg a) = Some sg2"
        "free_nodes (sg2, bs, c) k p = Some (sg', drop_refs bs (cut_off (newer t) ke (T k)), c')"
      and d: "collected sg us a ws vs T k (kept (newer t) ke (T k)) sg'" "counted bs c (cut_off (newer t) ke (T k)) c'"
      using by_time.round_move[OF rep k ne r] by blast
    then show ?thesis using False l k at_key[OF rep o] by (simp add: Gc4TTL_step_def SplitList_def)
  qed
qed

interpretation ttl_or_head: collector "Gc4TTLOrHead_step t n" "\<lambda>xs. min (newer t xs) (unat n)" for t n
proof
  fix sg :: segment and us a ws vs T k ke bs c
  let ?keep = "\<lambda>xs. min (newer t xs) (unat n)"
  assume rep: "seg_rep sg (us @ a # ws) vs T" and o: "own sg a = [k]" and k: "kes sg k = Some ke"
    and ne: "T k \<noteq> []" and r: "enough_refs bs (cut_off ?keep ke (T k))"
  obtain l where l: "GetLast (kentries ke) = Some l" using last_time[OF seg_repD(5)[OF rep k] ne] by blast
  obtain p sg1 sg2 sg' c' where s: "split_unref sg k (\<lambda>es. SplitByKeyOrPos es t (unat n)) = Some (p, sg1)"
      "move_if_empty sg1 k (key_of sg a) = Some sg2"
      "free_nodes (sg2, bs, c) k p = Some (sg', drop_refs bs (cut_off ?keep ke (T k)), c')"
    and d: "collected sg us a ws vs T k (kept ?keep ke (T k)) sg'" "counted bs c (cut_off ?keep ke (T k)) c'"
    using by_time_or_pos.round_move[OF rep k ne r] by blast
  have "Gc4TTLOrHead_step t n (sg, bs, c) (Some a) = Some (ptr ws None, (sg', drop_refs bs (cut_off ?keep ke (T k)), c'))"
    using s l k at_key[OF rep o] by (simp add: Gc4TTLOrHead_step_def)
  then show "\<exists>sg' c'. Gc4TTLOrHead_step t n (sg, bs, c) (Some a) =
      Some (ptr ws None, (sg', drop_refs bs (cut_off ?keep ke (T k)), c')) \<and>
      collected sg us a ws vs T k (kept ?keep ke (T k)) sg' \<and> counted bs c (cut_off ?keep ke (T k)) c'"
    using d by blast
qed

lemma Gc4TTLAndHead_collector: "n \<noteq> 0 \<Longrightarrow> collector (Gc4TTLAndHead_step t n) (\<lambda>xs. max (newer t xs) (unat n))"
proof
  fix sg :: segment and us a ws vs T k ke bs c
  let ?keep = "\<lambda>xs. max (newer t xs) (unat n)"
  assume n: "n \<noteq> 0" and rep: "seg_rep sg (us @ a # ws) vs T" and o: "own sg a = [k]" and k: "kes sg k = Some ke"
    and ne: "T k \<noteq> []" and r: "enough_refs bs (cut_off ?keep ke (T k))"
  note e = seg_repD(5)[OF rep k]
  obtain l where l: "GetLast (kentries ke) = Some l" "GetKey (heap (kentries ke)) (Some l) = Some (fst (last (T k)))"
    using last_time[OF e ne] by blast
  show "\<exists>sg' c'. Gc4TTLAndHead_step t n (sg, bs, c) (Some a) =
      Some (ptr ws None, (sg', drop_refs bs (cut_off ?keep ke (T k)), c')) \<and>
      collected sg us a ws vs T k (kept ?keep ke (T k)) sg' \<and> counted bs c (cut_off ?keep ke (T k)) c'"
  proof (cases "fst (last (T k)) > t")
    case True
    then show ?thesis
      using l k at_key[OF rep o] kept_all[of "T k" ?keep ke] all_newer[OF e ne] collected_same[where T = T and k = k, OF rep ne]
      by (auto simp: Gc4TTLAndHead_step_def)
  next
    case False
    have "kept ?keep ke (T k) \<noteq> []" using n ne by (auto simp: kept_def unat_eq_zero)
    then obtain p sg1 sg' c' where s: "split_unref sg k (\<lambda>es. SplitByKeyAndPos es t (unat n)) = Some (p, sg1)"
        "free_nodes (sg1, bs, c) k p = Some (sg', drop_refs bs (cut_off ?keep ke (T k)), c')"
      and d: "collected sg us a ws vs T k (kept ?keep ke (T k)) sg'" "counted bs c (cut_off ?keep ke (T k)) c'"
      using by_time_and_pos.round_keep[OF rep k ne r] by blast
    then show ?thesis using False l k at_key[OF rep o] by (simp add: Gc4TTLAndHead_step_def)
  qed
qed

section \<open>A whole collection\<close>

text \<open>Whether a reader holds the time list of a key.\<close>

definition held :: "segment \<Rightarrow> bytes \<Rightarrow> bool" where
  "held sg key = (case find_entry sg key of
       Some (Some (k # _)) \<Rightarrow> (case kes sg k of Some ke \<Rightarrow> refs ke > 0 | None \<Rightarrow> False)
     | _ \<Rightarrow> False)"

text \<open>The contents after a collection that keeps the first \<open>keep xs\<close> records of a list \<open>xs\<close>.\<close>

definition gc_view :: "((64 word \<times> addr) list \<Rightarrow> nat) \<Rightarrow> (bytes \<Rightarrow> bool) \<Rightarrow>
    (bytes \<Rightarrow> (64 word \<times> addr) list list option) \<Rightarrow> bytes \<Rightarrow> (64 word \<times> addr) list list option" where
  "gc_view keep h V key = (if h key then V key else
     case V key of Some [xs] \<Rightarrow> (let ys = take (keep xs) xs in if ys = [] then None else Some [ys]) | _ \<Rightarrow> None)"

lemma held_at:
  assumes rep: "seg_rep sg as vs T" and "a \<in> set as" "own sg a = [k]" "kes sg k = Some ke"
  shows "held sg (key_of sg a) = (refs ke > 0)"
proof -
  note K = seg_repD(1)[OF rep]
  have "find_node sg as (key_of sg a) = Some a" using find_node_Some[OF keys_repD(6)[OF K]] assms(2) by blast
  then show ?thesis using find_entry_rep[OF K, of "key_of sg a"] assms(3,4) by (simp add: held_def)
qed

lemma dom_view:
  "dom (seg_view sg as T) = key_of sg ` set as"
  "distinct (map (key_of sg) as) \<Longrightarrow> card (dom (seg_view sg as T)) = length as"
proof -
  show "dom (seg_view sg as T) = key_of sg ` set as"
  proof (rule set_eqI)
    fix key
    show "key \<in> dom (seg_view sg as T) \<longleftrightarrow> key \<in> key_of sg ` set as"
      using find_node_None[of sg as key] by (cases "find_node sg as key") (simp_all add: seg_view_def domIff)
  qed
  then show "distinct (map (key_of sg) as) \<Longrightarrow> card (dom (seg_view sg as T)) = length as"
    by (metis distinct_card length_map list.set_map)
qed

text \<open>
  The state while the nodes \<open>ws\<close> are still to be visited, relative to the contents \<open>V\<close> and \<open>D\<close>
  of \<open>sg0\<close> at the start: visited keys have their final lists.
\<close>

definition gc_inv ::
    "((64 word \<times> addr) list \<Rightarrow> nat) \<Rightarrow> (addr \<Rightarrow> nat) \<Rightarrow> segment \<Rightarrow> blocks \<Rightarrow> gc_counts \<Rightarrow> addr list \<Rightarrow>
     (bytes \<Rightarrow> (64 word \<times> addr) list list option) \<Rightarrow> (64 word \<times> (64 word \<times> addr) list list) list \<Rightarrow>
     addr list \<Rightarrow> gc_state \<Rightarrow> bool" where
  "gc_inv keep ext sg0 bs0 c0 as0 V D ws st \<longleftrightarrow> (case st of (sg, bs, c) \<Rightarrow> \<exists>us vs T n.
     seg_rep sg (us @ ws) vs T \<and> blocks_ok (refs_of T (owned sg ((us @ ws) @ map snd vs))) ext bs \<and>
     idx_cnt sg = idx_cnt sg0 \<and> ts_cnt sg = 1 \<and> gc_version sg = gc_version sg0 \<and> same_refs sg0 sg \<and>
     (\<forall>b. own sg b = own sg0 b \<and> key_of sg b = key_of sg0 b) \<and> suffix ws as0 \<and>
     idx_cnt sg = of_nat (total_len T (owned sg ((us @ ws) @ map snd vs))) + (gc_idx_cnt c - gc_idx_cnt c0) \<and>
     shrunk bs0 bs \<and> gc_record_cnt c = gc_record_cnt c0 + of_nat (card (dom bs0 - dom bs)) \<and>
     seg_view sg (us @ ws) T = (\<lambda>key. if key \<in> key_of sg0 ` set ws then V key else gc_view keep (held sg0) V key) \<and>
     mset (removed_view sg vs T) = mset D + replicate_mset n (gc_version sg0, [[]]) \<and>
     length us + length ws + n = length as0)"

text \<open>Giving up the references \<open>ds\<close> of one list.\<close>

lemma split_refs:
  assumes d: "distinct ks" "k \<in> set ks" and ys: "map snd ys @ ds = map snd (T k)"
  shows "refs_of (T(k := ys)) ks b + count_list ds b = refs_of T ks b"
    "total_len (T(k := ys)) ks + length ds = total_len T ks"
proof -
  have "count_list (map snd (T k)) b = count_list (map snd ys) b + count_list ds b"
    using arg_cong[OF ys, of "\<lambda>l. count_list l b"] by simp
  then show "refs_of (T(k := ys)) ks b + count_list ds b = refs_of T ks b"
    using refs_of_upd[OF d, of T ys b] by linarith
  have "length (T k) = length ys + length ds" using arg_cong[OF ys, of length] by simp
  then show "total_len (T(k := ys)) ks + length ds = total_len T ks" using total_upd[OF d, of T ys] by linarith
qed

text \<open>The references and the number of entries after a round.\<close>

lemma collected_refs:
  assumes rep: "seg_rep sg (us @ a # ws) vs T" and o: "own sg a = [k]"
    and c: "collected sg us a ws vs T k ys sg'" and ys: "map snd ys @ ds = map snd (T k)"
  obtains as' vs' where "seg_rep sg' as' vs' (T(k := ys))"
    "as' = us @ (if ys = [] then [] else [a]) @ ws" "vs' = (if ys = [] then time_insert (gc_version sg) a vs else vs)"
    "\<And>b. refs_of (T(k := ys)) (owned sg' (as' @ map snd vs')) b + count_list ds b =
       refs_of T (owned sg ((us @ a # ws) @ map snd vs)) b"
    "total_len (T(k := ys)) (owned sg' (as' @ map snd vs')) + length ds =
       total_len T (owned sg ((us @ a # ws) @ map snd vs))"
proof -
  define as' vs' where "as' = us @ (if ys = [] then [] else [a]) @ ws"
    and "vs' = (if ys = [] then time_insert (gc_version sg) a vs else vs)"
  let ?ks = "owned sg ((us @ a # ws) @ map snd vs)"
  have r: "seg_rep sg' as' vs' (T(k := ys))"
    using c by (auto simp: collected_def as'_def vs'_def split: if_splits)
  have "own sg' = own sg" using c by (auto simp: collected_def)
  then have ks: "mset (owned sg' (as' @ map snd vs')) = mset ?ks"
    using mset_concat_cong[of "as' @ map snd vs'" "(us @ a # ws) @ map snd vs" "own sg"]
    by (simp add: as'_def vs'_def mset_time_insert)
  have d: "distinct ?ks" "k \<in> set ?ks" using seg_repD(3)[OF rep] o by (auto simp del: map_append)
  show ?thesis using split_refs[where T = T, OF d ys]
    by (intro that[OF r as'_def vs'_def]) (simp_all only: refs_of_mset[OF ks] total_mset[OF ks])
qed

text \<open>The contents after a round.\<close>

lemma collected_view:
  assumes rep: "seg_rep sg (us @ a # ws) vs T" and o: "own sg a = [k]"
    and c: "collected sg us a ws vs T k ys sg'"
  shows "ys \<noteq> [] \<Longrightarrow> seg_view sg' (us @ a # ws) (T(k := ys)) = (seg_view sg (us @ a # ws) T)(key_of sg a \<mapsto> [ys])"
    "ys \<noteq> [] \<Longrightarrow> removed_view sg' vs (T(k := ys)) = removed_view sg vs T"
    "ys = [] \<Longrightarrow> seg_view sg' (us @ ws) (T(k := ys)) = (seg_view sg (us @ a # ws) T)(key_of sg a := None)"
    "ys = [] \<Longrightarrow> removed_view sg' (time_insert (gc_version sg) a vs) (T(k := ys)) =
       time_insert (gc_version sg) [[]] (removed_view sg vs T)"
proof -
  note d = keys_repD(6)[OF seg_repD(1)[OF rep]]
  have key: "\<And>b. key_of sg' b = key_of sg b" and own: "\<And>b. own sg' b = own sg b"
    using c by (auto simp: collected_def)
  have v: "seg_view sg (us @ a # ws) (T(k := ys)) = (seg_view sg (us @ a # ws) T)(key_of sg a \<mapsto> [ys])"
    "removed_view sg vs (T(k := ys)) = removed_view sg vs T"
    using view_upd[OF rep _ _ refl, of a k ys] o by simp_all
  have "find_node sg' as = find_node sg as" for as by (rule HOL.ext) (simp add: find_node_def key)
  then show "seg_view sg' (us @ a # ws) (T(k := ys)) = (seg_view sg (us @ a # ws) T)(key_of sg a \<mapsto> [ys])"
    unfolding v(1)[symmetric] by (intro HOL.ext) (simp add: seg_view_def own)
  show "removed_view sg' vs (T(k := ys)) = removed_view sg vs T"
    unfolding v(2)[symmetric] by (simp add: removed_view_def own)
  have d': "distinct (map (key_of sg') (us @ ws))" using d by (simp add: key)
  show "seg_view sg' (us @ ws) (T(k := ys)) = (seg_view sg (us @ a # ws) T)(key_of sg a := None)"
    unfolding view_remove(1)[OF d d' key own] v(1) by simp
  show "ys = [] \<Longrightarrow> removed_view sg' (time_insert (gc_version sg) a vs) (T(k := ys)) =
      time_insert (gc_version sg) [[]] (removed_view sg vs T)"
    using view_remove(2)[OF d d' key own, of "gc_version sg" vs "T(k := ys)"] o v(2) by simp
qed

context collector
begin

lemma step_inv:
  assumes rep0: "seg_rep sg0 as0 vs0 T0" and V: "\<And>key xss. V key = Some xss \<Longrightarrow> [] \<notin> set xss"
    and I: "gc_inv keep ext sg0 bs0 c0 as0 V D (a # ws) (sg, bs, c)"
  shows "\<exists>st'. step (sg, bs, c) (Some a) = Some (ptr ws None, st') \<and> gc_inv keep ext sg0 bs0 c0 as0 V D ws st'"
proof -
  obtain us vs T n where rep: "seg_rep sg (us @ a # ws) vs T"
    and bo: "blocks_ok (refs_of T (owned sg ((us @ a # ws) @ map snd vs))) ext bs"
    and f: "idx_cnt sg = idx_cnt sg0" "ts_cnt sg = 1" "gc_version sg = gc_version sg0" "same_refs sg0 sg"
      "\<And>b. own sg b = own sg0 b" "\<And>b. key_of sg b = key_of sg0 b" "suffix (a # ws) as0"
    and cnt: "idx_cnt sg = of_nat (total_len T (owned sg ((us @ a # ws) @ map snd vs))) + (gc_idx_cnt c - gc_idx_cnt c0)"
    and sh: "shrunk bs0 bs" "gc_record_cnt c = gc_record_cnt c0 + of_nat (card (dom bs0 - dom bs))"
    and view: "seg_view sg (us @ a # ws) T = (\<lambda>key. if key \<in> key_of sg0 ` set (a # ws) then V key else gc_view keep (held sg0) V key)"
    and rem: "mset (removed_view sg vs T) = mset D + replicate_mset n (gc_version sg0, [[]])"
      "length us + length (a # ws) + n = length as0"
    using I by (auto simp: gc_inv_def)
  obtain k ke where k: "own sg a = [k]" "kes sg k = Some ke" "ke_rep ke (T k)"
    by (rule own_single[OF rep f(2), of a]) auto
  note d = keys_repD(6)[OF seg_repD(1)[OF rep]]
  have Vk: "V (key_of sg a) = Some [T k]"
    using fun_cong[OF view, of "key_of sg a"] find_node_Some[OF d, of "key_of sg a" a] k(1) f(6) by (simp add: seg_view_def)
  then have ne: "T k \<noteq> []" using V by fastforce
  obtain ke0 where ke0: "kes sg0 k = Some ke0" "refs ke0 = refs ke"
    using f(4) k(2) unfolding same_refs_def by (metis map_option_eq_Some)
  have h: "held sg0 (key_of sg a) = (refs ke > 0)"
    using held_at[OF rep0, of a k ke0] ke0 k(1) f(5,6) set_mono_suffix[OF f(7)] by simp
  let ?ys = "kept keep ke (T k)" and ?ds = "cut_off keep ke (T k)"
  have gv: "gc_view keep (held sg0) V (key_of sg a) = (if ?ys = [] then None else Some [?ys])"
    using h Vk ne by (simp add: gc_view_def kept_def Let_def)
  note yd = kept_cut_off[of keep ke "T k"]
  have "distinct (owned sg ((us @ a # ws) @ map snd vs))" "k \<in> set (owned sg ((us @ a # ws) @ map snd vs))"
    using seg_repD(3)[OF rep] k(1) by (auto simp del: map_append)
  note er = blocks_ok_drop(1)[OF bo split_refs(1)[where T = T, OF this yd]]
  obtain sg' c' where st: "step (sg, bs, c) (Some a) = Some (ptr ws None, (sg', drop_refs bs ?ds, c'))"
    and c: "collected sg us a ws vs T k ?ys sg'" and c': "counted bs c ?ds c'"
    using step_ok[OF rep k(1,2) ne er] by blast
  obtain as' vs' where r': "seg_rep sg' as' vs' (T(k := ?ys))"
    and as': "as' = us @ (if ?ys = [] then [] else [a]) @ ws" "vs' = (if ?ys = [] then time_insert (gc_version sg) a vs else vs)"
    and rf: "\<And>b. refs_of (T(k := ?ys)) (owned sg' (as' @ map snd vs')) b + count_list ?ds b =
      refs_of T (owned sg ((us @ a # ws) @ map snd vs)) b"
    and tl: "total_len (T(k := ?ys)) (owned sg' (as' @ map snd vs')) + length ?ds =
      total_len T (owned sg ((us @ a # ws) @ map snd vs))"
    using collected_refs[where T = T, OF rep k(1) c yd] by blast
  let ?us = "us @ (if ?ys = [] then [] else [a])"
  have f': "idx_cnt sg' = idx_cnt sg0" "ts_cnt sg' = 1" "gc_version sg' = gc_version sg0" "same_refs sg0 sg'"
    "\<forall>b. own sg' b = own sg0 b \<and> key_of sg' b = key_of sg0 b" "suffix ws as0"
    using c f by (auto simp: collected_def same_refs_def suffix_def)
  have "gc_idx_cnt c' - gc_idx_cnt c0 = gc_idx_cnt c - gc_idx_cnt c0 + of_nat (length ?ds)"
    using c' by (simp add: counted_def)
  then have cnt': "idx_cnt sg' = of_nat (total_len (T(k := ?ys)) (owned sg' (as' @ map snd vs'))) + (gc_idx_cnt c' - gc_idx_cnt c0)"
    using cnt c unfolding tl[symmetric] by (simp add: collected_def)
  have sh': "shrunk bs0 (drop_refs bs ?ds)"
    "gc_record_cnt c' = gc_record_cnt c0 + of_nat (card (dom bs0 - dom (drop_refs bs ?ds)))"
    using shrunk_trans[OF sh(1) shrunk_drop(1)[OF er]] shrunk_drop(2)[OF er] c' sh(2) by (simp_all add: counted_def)
  have "key_of sg0 a \<notin> key_of sg0 ` set ws" using d f(6) by auto
  then have view': "seg_view sg' as' (T(k := ?ys)) = (\<lambda>key. if key \<in> key_of sg0 ` set ws then V key else gc_view keep (held sg0) V key)"
    using collected_view(1,3)[OF rep k(1) c] gv f(6) unfolding as' view by (auto simp: fun_eq_iff)
  define n' where "n' = (if ?ys = [] then Suc n else n)"
  have rem': "mset (removed_view sg' vs' (T(k := ?ys))) = mset D + replicate_mset n' (gc_version sg0, [[]])"
    "length ?us + length ws + n' = length as0"
    using collected_view(2,4)[OF rep k(1) c] rem f(3) unfolding as' by (auto simp: n'_def mset_time_insert)
  have "gc_inv keep ext sg0 bs0 c0 as0 V D ws (sg', drop_refs bs ?ds, c')"
    unfolding gc_inv_def prod.case
    by (intro exI[of _ ?us] exI[of _ vs'] exI[of _ "T(k := ?ys)"] exI[of _ n'] conjI)
      (use r' as' f' cnt' sh' view' rem' blocks_ok_drop(2)[OF bo rf] in \<open>simp_all del: map_append fun_upd_apply\<close>)
  then show ?thesis using st by blast
qed

lemma gc_all_ok:
  assumes ok: "seg_ok sg bs ext V D"
  shows "\<exists>sg' bs' c' D'. gc_all step (sg, bs, c) = Some (sg', bs', c') \<and>
    seg_ok sg' bs' ext (gc_view keep (held sg) V) D' \<and>
    mset D' = mset D + replicate_mset (card (dom V - dom (gc_view keep (held sg) V))) (gc_version sg, [[]]) \<and>
    shrunk bs bs' \<and> gc_record_cnt c' = gc_record_cnt c + of_nat (card (dom bs - dom bs'))"
proof -
  obtain as vs T where st: "seg_st sg bs ext as vs T" and V: "seg_view sg as T = V" and D: "removed_view sg vs T = D"
    using ok by (auto simp: seg_ok_def)
  have rep: "seg_rep sg as vs T" and ts: "ts_cnt sg = 1" using st by (simp_all add: seg_st_def)
  have V0: "[] \<notin> set xss" if "V key = Some xss" for key xss using ok that by (auto simp: seg_ok_def)
  have "\<not> held sg key" if "V key = None" for key
    using that V find_entry_rep[OF seg_repD(1)[OF rep], of key] by (auto simp: held_def seg_view_def split: option.splits)
  then have "gc_view keep (held sg) V key = None" if "V key = None" for key using that by (auto simp: gc_view_def)
  then have view: "V = (\<lambda>key. if key \<in> key_of sg ` set as then V key else gc_view keep (held sg) V key)"
    using dom_view(1)[of sg as T] V by (intro HOL.ext) (metis domIff)
  have "gc_inv keep ext sg bs c as V D as (sg, bs, c)"
    unfolding gc_inv_def prod.case
    by (intro exI[of _ "[]"] exI[of _ vs] exI[of _ T] exI[of _ 0] conjI)
      (use st V D view in \<open>simp_all add: seg_st_def same_refs_def del: map_append\<close>)
  then have "\<exists>st'. walk step (sg, bs, c) (ptr as None) = Some st' \<and> gc_inv keep ext sg bs c as V D [] st'"
  proof (rule walk_rule)
    fix a ws and st :: gc_state assume I: "gc_inv keep ext sg bs c as V D (a # ws) st"
    obtain sg1 bs1 c1 where st: "st = (sg1, bs1, c1)" by (cases st)
    show "\<exists>st'. step st (Some a) = Some (ptr ws None, st') \<and> gc_inv keep ext sg bs c as V D ws st'"
      unfolding st by (rule step_inv[OF rep _ I[unfolded st]]) (rule V0)
  qed
  then obtain st' where w: "walk step (sg, bs, c) (ptr as None) = Some st'" and I: "gc_inv keep ext sg bs c as V D [] st'"
    by blast
  obtain sg1 bs1 c1 where st': "st' = (sg1, bs1, c1)" by (cases st')
  obtain us vs' T' n where r: "seg_rep sg1 us vs' T'" and bo: "blocks_ok (refs_of T' (owned sg1 (us @ map snd vs'))) ext bs1"
    and f: "ts_cnt sg1 = 1" and cnt: "idx_cnt sg1 = of_nat (total_len T' (owned sg1 (us @ map snd vs'))) + (gc_idx_cnt c1 - gc_idx_cnt c)"
    and sh: "shrunk bs bs1" "gc_record_cnt c1 = gc_record_cnt c + of_nat (card (dom bs - dom bs1))"
    and v: "seg_view sg1 us T' = gc_view keep (held sg) V"
    and rm: "mset (removed_view sg1 vs' T') = mset D + replicate_mset n (gc_version sg, [[]])" "length us + n = length as"
    using I unfolding st' gc_inv_def by (auto simp del: map_append)
  let ?sg = "sg1\<lparr>idx_cnt := idx_cnt sg1 - (gc_idx_cnt c1 - gc_idx_cnt c)\<rparr>"
  have "own ?sg = own sg1" by (rule own_cong) simp
  moreover have "seg_rep ?sg us vs' T'" using r by (rule seg_rep_cong[THEN iffD1, rotated -1]) simp_all
  ultimately have "seg_st ?sg bs1 ext us vs' T'" using bo f cnt by (simp add: seg_st_def)
  moreover have "seg_view ?sg us T' = gc_view keep (held sg) V" "removed_view ?sg vs' T' = removed_view sg1 vs' T'"
    unfolding v[symmetric] using \<open>own ?sg = own sg1\<close>
    by (simp_all add: seg_view_def[abs_def] find_node_def removed_view_def)
  moreover have "[] \<notin> set xss" if "gc_view keep (held sg) V key = Some xss" for key xss
    using that V0 by (auto simp: gc_view_def Let_def split: if_splits option.splits list.splits)
  ultimately have "seg_ok ?sg bs1 ext (gc_view keep (held sg) V) (removed_view sg1 vs' T')"
    unfolding seg_ok_def by blast
  moreover have "n = card (dom V - dom (gc_view keep (held sg) V))"
  proof -
    have "dom (gc_view keep (held sg) V) \<subseteq> dom V" using \<open>\<And>key. V key = None \<Longrightarrow> gc_view keep (held sg) V key = None\<close> by force
    moreover have "card (dom V) = length as" "card (dom (gc_view keep (held sg) V)) = length us"
      using dom_view(2)[of sg as T] dom_view(2)[of sg1 us T'] keys_repD(6)[OF seg_repD(1)[OF rep]]
        keys_repD(6)[OF seg_repD(1)[OF r]] V v by simp_all
    moreover have "finite (dom (gc_view keep (held sg) V))" using dom_view(1)[of sg1 us T'] v by simp
    ultimately show ?thesis using rm(2) by (simp add: card_Diff_subset)
  qed
  moreover have "gc_all step (sg, bs, c) = Some (?sg, bs1, c1)"
  proof -
    obtain lv where "skl (entries sg) lv" "lv 0 = as" using keys_repD(1)[OF seg_repD(1)[OF rep]] by (auto simp: rep_def)
    then have "it_SeekToFirst (entries sg) = Some (ptr as None)"
      by (simp add: it_SeekToFirst_def it_Next_def it_Valid_def assert_that_def skl_first)
    then show ?thesis using w st' by (simp add: gc_all_def)
  qed
  ultimately show ?thesis using sh rm(1) by blast
qed

end

end
