(* ===== verification/Segment_Ttl.thy ===== *)
theory Segment_Ttl
  imports Segment_Gc
begin

text \<open>
  Collection against the meaning of a time-to-live setting: \<open>Segment::ExecuteGc\<close> removes exactly
  the records that \<open>TTLSt::IsExpired\<close> calls expired.
\<close>

section \<open>The records that have not expired\<close>

text \<open>Records are numbered from 1, newest first.\<close>

definition alive :: "TTLSt \<Rightarrow> (64 word \<times> addr) list \<Rightarrow> (64 word \<times> addr) list" where
  "alive ttl xs = map snd (filter (\<lambda>(i, x). \<not> IsExpired ttl (fst x) (of_nat i)) (enumerate 1 xs))"

definition live_view :: "TTLSt \<Rightarrow> (bytes \<Rightarrow> bool) \<Rightarrow>
    (bytes \<Rightarrow> (64 word \<times> addr) list list option) \<Rightarrow> bytes \<Rightarrow> (64 word \<times> addr) list list option" where
  "live_view ttl h V key = (if h key then V key else
     case V key of Some [xs] \<Rightarrow> (let ys = alive ttl xs in if ys = [] then None else Some [ys]) | _ \<Rightarrow> None)"

text \<open>A setting whose absolute bound is the newest expired time, as the readers use it.\<close>

definition at_time :: "64 word \<Rightarrow> 64 word \<Rightarrow> TTLSt \<Rightarrow> TTLSt" where
  "at_time now offset ttl = ttl\<lparr>abs_ttl := (if abs_ttl ttl = 0 then 0 else now - offset - abs_ttl ttl)\<rparr>"

lemma filter_enumerate_take:
  assumes "\<And>i. i < length xs \<Longrightarrow> P (m + i) (xs ! i) \<longleftrightarrow> i < n"
  shows "map snd (filter (\<lambda>(i, x). P i x) (enumerate m xs)) = take n xs"
  using assms
proof (induction xs arbitrary: m n)
  case (Cons x xs)
  have P: "P m x \<longleftrightarrow> 0 < n" using Cons.prems[of 0] by simp
  have "P (Suc m + i) (xs ! i) \<longleftrightarrow> i < n - 1" if "i < length xs" for i
    using Cons.prems[of "Suc i"] that P by auto
  then have "map snd (filter (\<lambda>(i, x). P i x) (enumerate (Suc m) xs)) = take (n - 1) xs" by (rule Cons.IH)
  then show ?case using P by (cases n) auto
qed simp

lemma newer_nth:
  assumes "sorted_wrt (\<lambda>x y. fst x \<ge> fst y) xs" "i < length xs"
  shows "t < fst (xs ! i) \<longleftrightarrow> i < newer t xs"
  using assms
proof (induction xs arbitrary: i)
  case (Cons x xs)
  have "newer t (x # xs) = 0" if "\<not> t < fst x"
    using Cons.prems(1) that by (fastforce simp: newer_def filter_empty_conv)
  moreover have "\<not> t < fst y" if "\<not> t < fst x" "y \<in> set xs" for y using Cons.prems(1) that by fastforce
  ultimately show ?case using Cons by (cases i) (auto simp: newer_def)
qed simp

text \<open>The records each kind of setting keeps.\<close>

lemma idx_gt:
  assumes "i < n" "n < 2 ^ 32"
  shows "(ucast (of_nat (Suc i) :: 32 word) > (lat :: 64 word)) \<longleftrightarrow> \<not> i < unat lat"
proof -
  have "unat (ucast (of_nat (Suc i) :: 32 word) :: 64 word) = Suc i"
    using assms by (simp add: unsigned_ucast_eq unat_of_nat take_bit_nat_eq_self del: of_nat_Suc)
  then show ?thesis by (auto simp: word_less_nat_alt)
qed

lemma alive_take:
  assumes s: "sorted_wrt (\<lambda>x y. fst x \<ge> fst y) xs" and n: "length xs < 2 ^ 32"
  shows "ttl_type ttl = kAbsoluteTime \<Longrightarrow> abs_ttl ttl \<noteq> 0 \<Longrightarrow> alive ttl xs = take (newer (abs_ttl ttl) xs) xs"
    "ttl_type ttl = kLatestTime \<Longrightarrow> lat_ttl ttl \<noteq> 0 \<Longrightarrow> alive ttl xs = take (unat (lat_ttl ttl)) xs"
    "ttl_type ttl = kAbsAndLat \<Longrightarrow> abs_ttl ttl \<noteq> 0 \<Longrightarrow> lat_ttl ttl \<noteq> 0 \<Longrightarrow>
       alive ttl xs = take (max (newer (abs_ttl ttl) xs) (unat (lat_ttl ttl))) xs"
    "ttl_type ttl = kAbsOrLat \<Longrightarrow> abs_ttl ttl \<noteq> 0 \<Longrightarrow> lat_ttl ttl \<noteq> 0 \<Longrightarrow>
       alive ttl xs = take (min (newer (abs_ttl ttl) xs) (unat (lat_ttl ttl))) xs"
    "ttl_type ttl = kAbsOrLat \<Longrightarrow> abs_ttl ttl = 0 \<Longrightarrow> lat_ttl ttl \<noteq> 0 \<Longrightarrow> alive ttl xs = take (unat (lat_ttl ttl)) xs"
    "ttl_type ttl = kAbsOrLat \<Longrightarrow> abs_ttl ttl \<noteq> 0 \<Longrightarrow> lat_ttl ttl = 0 \<Longrightarrow> alive ttl xs = take (newer (abs_ttl ttl) xs) xs"
    "\<not> NeedGc ttl \<Longrightarrow> alive ttl xs = take (length xs) xs"
  unfolding alive_def
  by ((rule filter_enumerate_take; use idx_gt[OF _ n, of _ "lat_ttl ttl"] newer_nth[OF s, of _ "abs_ttl ttl"] no_gc_never_expired[of ttl]
        in \<open>auto simp: IsExpired_def not_le\<close>))+

section \<open>ExecuteGc\<close>

lemma seg_ok_list:
  assumes "seg_ok sg bs ext V D" "V key = Some xss"
  obtains xs where "xss = [xs]" "xs \<noteq> []" "sorted_wrt (\<lambda>x y. fst x \<ge> fst y) xs"
proof -
  obtain as vs T where st: "seg_st sg bs ext as vs T" and V: "seg_view sg as T = V"
    using assms(1) by (auto simp: seg_ok_def)
  have rep: "seg_rep sg as vs T" "ts_cnt sg = 1" using st by (simp_all add: seg_st_def)
  obtain a where a: "find_node sg as key = Some a" "xss = map T (own sg a)"
    using V assms(2) by (auto simp: seg_view_def)
  then have "a \<in> set (as @ map snd vs)" by (auto simp: find_node_def dest: findSomeD)
  then obtain k ke where "own sg a = [k]" "ke_rep ke (T k)" by (rule own_single[OF rep]) blast
  then have "xss = [T k]" "sorted_wrt (\<lambda>x y. fst x \<ge> fst y) (T k)"
    using a(2) es_rep_sorted by (auto simp: ke_rep_def)
  moreover from this have "T k \<noteq> []" using assms unfolding seg_ok_def by fastforce
  ultimately show ?thesis using that by blast
qed

lemma gc_view_live:
  assumes ok: "seg_ok sg bs ext V D" and len: "\<And>key xs. V key = Some [xs] \<Longrightarrow> length xs < 2 ^ 32"
    and keep: "\<And>xs. sorted_wrt (\<lambda>x y. fst x \<ge> fst y) xs \<Longrightarrow> length xs < 2 ^ 32 \<Longrightarrow> alive ttl xs = take (keep xs) xs"
  shows "gc_view keep h V = live_view ttl h V"
proof
  fix key
  have "alive ttl xs = take (keep xs) xs" if "V key = Some [xs]" for xs
    using seg_ok_list[OF ok that] keep len that by (metis list.inject)
  then show "gc_view keep h V key = live_view ttl h V key"
    by (auto simp: gc_view_def live_view_def Let_def split: option.splits list.splits)
qed

text \<open>What a collection does to the contents, the blocks and the counter of deleted records.\<close>

definition gc_to :: "gc_state option \<Rightarrow> segment \<Rightarrow> blocks \<Rightarrow> gc_counts \<Rightarrow> (addr \<Rightarrow> nat) \<Rightarrow>
    (bytes \<Rightarrow> (64 word \<times> addr) list list option) \<Rightarrow> (64 word \<times> (64 word \<times> addr) list list) list \<Rightarrow>
    (bytes \<Rightarrow> (64 word \<times> addr) list list option) \<Rightarrow> bool" where
  "gc_to res sg bs c ext V D V' \<longleftrightarrow> (\<exists>sg' bs' c' D'. res = Some (sg', bs', c') \<and>
     seg_ok sg' bs' ext V' D' \<and> mset D' = mset D + replicate_mset (card (dom V - dom V')) (gc_version sg, [[]]) \<and>
     shrunk bs bs' \<and> gc_record_cnt c' = gc_record_cnt c + of_nat (card (dom bs - dom bs')))"

lemma gc_to_same: "seg_ok sg bs ext V D \<Longrightarrow> gc_to (Some (sg, bs, c)) sg bs c ext V D V"
  by (auto simp: gc_to_def)

lemma live_view_same:
  assumes ok: "seg_ok sg bs ext V D" and len: "\<And>key xs. V key = Some [xs] \<Longrightarrow> length xs < 2 ^ 32" and "\<not> NeedGc ttl"
  shows "live_view ttl h V = V"
proof
  fix key
  show "live_view ttl h V key = V key"
  proof (cases "V key")
    case (Some xss)
    then obtain xs where "xss = [xs]" "xs \<noteq> []" "sorted_wrt (\<lambda>x y. fst x \<ge> fst y) xs" by (rule seg_ok_list[OF ok])
    then show ?thesis using Some alive_take(7)[of xs ttl] len assms(3) by (auto simp: live_view_def)
  qed (simp add: live_view_def)
qed

lemma ExecuteGc_live:
  assumes ok: "seg_ok sg bs ext V D" and ty: "ttl_type ttl \<noteq> kRelativeTime"
    and time: "abs_ttl ttl \<noteq> 0 \<Longrightarrow> now \<noteq> ttl_offset sg + abs_ttl ttl"
    and len: "\<And>key xs. V key = Some [xs] \<Longrightarrow> length xs < 2 ^ 32"
  shows "gc_to (ExecuteGc now ttl (sg, bs, c)) sg bs c ext V D
     (live_view (at_time now (ttl_offset sg) ttl) (held sg) V)"
proof -
  let ?e = "at_time now (ttl_offset sg) ttl"
  have e: "ttl_type ?e = ttl_type ttl" "lat_ttl ?e = lat_ttl ttl"
    "abs_ttl ?e = (if abs_ttl ttl = 0 then 0 else now - ttl_offset sg - abs_ttl ttl)" by (simp_all add: at_time_def)
  have t: "abs_ttl ?e = 0 \<longleftrightarrow> abs_ttl ttl = 0" using time by (auto simp: e algebra_simps)
  note alive = alive_take[where ttl = ?e, unfolded e(1,2) t]
  have by_collector: "gc_to (gc_all step (sg, bs, c)) sg bs c ext V D (live_view ?e (held sg) V)"
    if "collector step keep" "\<And>xs. sorted_wrt (\<lambda>x y. fst x \<ge> fst y) xs \<Longrightarrow> length xs < 2 ^ 32 \<Longrightarrow> alive ?e xs = take (keep xs) xs"
    for step keep
  proof -
    have "gc_view keep (held sg) V = live_view ?e (held sg) V"
      by (rule gc_view_live[OF ok]) (use len that(2) in auto)
    then show ?thesis using collector.gc_all_ok[OF that(1) ok, of c] by (simp add: gc_to_def)
  qed
  have none: "gc_to (Some (sg, bs, c)) sg bs c ext V D (live_view ?e (held sg) V)" if "\<not> NeedGc ?e"
  proof -
    have "live_view ?e (held sg) V = V" by (rule live_view_same[OF ok _ that]) (use len in auto)
    then show ?thesis using gc_to_same[OF ok] by simp
  qed
  show ?thesis
  proof (cases "NeedGc ?e")
    case False
    then show ?thesis using none ty t by (cases "ttl_type ttl") (auto simp: ExecuteGc_def NeedGc_def e)
  next
    case True
    note head = by_collector[OF Gc4Head_collector] and both = by_collector[OF Gc4TTLAndHead_collector]
      and ttl = by_collector[OF ttl.collector_axioms] and either = by_collector[OF ttl_or_head.collector_axioms]
    show ?thesis
    proof (cases "ttl_type ttl")
      case kAbsoluteTime
      then show ?thesis using True t ttl alive(1) by (simp add: ExecuteGc_def Gc4TTL_def NeedGc_def e)
    next
      case kLatestTime
      then show ?thesis using True head alive(2) by (simp add: ExecuteGc_def Gc4Head_def NeedGc_def e)
    next
      case kAbsAndLat
      then show ?thesis using True t both alive(3) by (auto simp: ExecuteGc_def Gc4TTLAndHead_def NeedGc_def e)
    next
      case kAbsOrLat
      then show ?thesis
        using True t head ttl either alive(4-6)
        by (auto simp: ExecuteGc_def Gc4TTLOrHead_def Gc4Head_def Gc4TTL_def NeedGc_def e)
    qed (use ty in simp)
  qed
qed

end
