(* ===== verification/Segment_Free.thy ===== *)
theory Segment_Free
  imports Segment_Ttl
begin

text \<open>
  Freeing the removed keys: \<open>Segment::FreeEntry\<close>, \<open>GcEntryFreeList\<close> and \<open>GcFreeList\<close> return the nodes,
  key entries and data blocks of every key that was removed at an old enough version.
\<close>

section \<open>Freeing one key entry\<close>

lemma FreeEntry_one_ok:
  assumes k: "kes sg k = Some ke" and e: "ke_rep ke xs" and r: "enough_refs bs (map snd xs)"
  shows "\<exists>B c'. FreeEntry_one sg bs c k =
      Some (sg\<lparr>kes := (kes sg)(k := None), idx_byte_size := B\<rparr>, drop_refs bs (map snd xs), c') \<and>
    counted bs c (map snd xs) c'"
proof -
  obtain as where as: "es_rep (kentries ke) as xs" using e by (auto simp: ke_rep_def)
  obtain lv where lv: "skl (kentries ke) lv" "lv 0 = as" using as by (rule es_rep_skl)
  have first: "it_SeekToFirst (kentries ke) = Some (ptr as None)"
    using lv by (simp add: it_SeekToFirst_def it_Next_def it_Valid_def assert_that_def skl_first)
  show ?thesis
  proof (cases xs)
    case Nil
    then have "as = []" using es_rep_length[OF as] by simp
    then show ?thesis
      using k first Nil by (auto simp: FreeEntry_one_def it_Valid_def intro!: exI[of _ "idx_byte_size sg"])
  next
    case (Cons x xs')
    then obtain a as' where a: "as = a # as'" using es_rep_length[OF as] by (cases as) auto
    have "keyat (heap (kentries ke)) a = fst x" using as Cons a by (auto simp: es_rep_def pairs_def split: prod.splits)
    then have key: "it_GetKey (kentries ke) (Some a) = Some (fst x)"
      using skl_wf_node[OF lv(1), of a] lv(2) a by (simp add: it_GetKey_def it_Valid_def assert_that_def ptr_simps)
    have n: "newer (fst x) xs = 0"
      using es_rep_sorted[OF as] Cons by (auto simp: newer_def filter_empty_conv not_less)
    obtain p es' where s: "Split (kentries ke) (fst x) = Some (p, es')" and at: "split_at 0 (kentries ke) as p es'"
      using by_time.cut_ok[OF as, of "fst x"] n by auto
    obtain st where w: "walk FreeList_step \<lparr>fheap = heap es', fblocks = bs, fbytes = idx_byte_size sg, fcounts = c\<rparr> p = Some st"
      and st: "fblocks st = drop_refs bs (map snd xs)" "counted bs c (map snd xs) (fcounts st)"
      using split_free[OF as at, of bs "idx_byte_size sg" c] r by (auto simp: counted_def)
    show ?thesis using k first a key s w st
      by (auto simp: FreeEntry_one_def it_Valid_def set_entries_def FreeList_def intro!: exI[of _ "fbytes st"])
  qed
qed

section \<open>The segment without its removed-entry list\<close>

text \<open>\<open>seg_rep\<close> but for the list itself: \<open>rs\<close> are the removed nodes that are still allocated.\<close>

definition seg_core :: "segment \<Rightarrow> addr list \<Rightarrow> addr list \<Rightarrow> (addr \<Rightarrow> (64 word \<times> addr) list) \<Rightarrow> bool" where
  "seg_core sg as rs T \<longleftrightarrow>
     keys_rep sg as rs \<and> distinct (owned sg (as @ rs)) \<and> dom (kes sg) = set (owned sg (as @ rs)) \<and>
     (\<forall>k ke. kes sg k = Some ke \<longrightarrow> ke_rep ke (T k) \<and> k < next_ke sg) \<and>
     1 \<le> ts_cnt sg \<and> 1 \<le> key_entry_max_height sg \<and> pk_cnt sg = of_nat (length as + length rs)"

lemma seg_rep_core:
  "seg_rep sg as vs T \<longleftrightarrow> seg_core sg as (map snd vs) T \<and> (\<exists>fs. es_rep (entry_free_list sg) fs vs)"
  unfolding seg_rep_def seg_core_def by auto

lemma seg_core_cong:
  assumes "entries sg' = entries sg" "kes sg' = kes sg" "next_ke sg' = next_ke sg"
    "ts_cnt sg' = ts_cnt sg" "pk_cnt sg' = pk_cnt sg" "key_entry_max_height sg' = key_entry_max_height sg"
  shows "seg_core sg' as rs T = seg_core sg as rs T"
  unfolding seg_core_def keys_rep_cong[OF assms(1,4)] own_cong[OF assms(1)] assms by (rule refl)

text \<open>Deleting a removed node together with its entries.\<close>

lemma keys_delete:
  assumes K: "keys_rep sg as (rs1 @ r # rs2)" and e: "entries sg' = (entries sg)\<lparr>heap := (heap (entries sg))(r := None)\<rparr>"
    "ts_cnt sg' = ts_cnt sg"
  shows "keys_rep sg' as (rs1 @ rs2)" "\<And>b. b \<noteq> r \<Longrightarrow> own sg' b = own sg b \<and> key_of sg' b = key_of sg b"
proof -
  let ?h = "(heap (entries sg))(r := None)"
  obtain lv where lv: "skl (entries sg) lv" "full_levels (entries sg) lv" "lv 0 = as"
    using keys_repD(1)[OF K] by (auto simp: rep_def)
  have ne: "b \<noteq> r" if "b = head (entries sg) \<or> b \<in> set (as @ rs1 @ rs2)" for b
    using that keys_repD(5)[OF K] by auto
  have cell: "hgt ?h b = hgt (heap (entries sg)) b" "keyat ?h b = keyat (heap (entries sg)) b"
    "valat ?h b = valat (heap (entries sg)) b" "wf_node ?h b = wf_node (heap (entries sg)) b" if "b \<noteq> r" for b
    using that by (simp_all add: hgt_def keyat_def valat_def wf_node_def)
  show own: "\<And>b. b \<noteq> r \<Longrightarrow> own sg' b = own sg b \<and> key_of sg' b = key_of sg b"
    using cell by (simp add: own_def e)
  have "skl (entries sg') lv" unfolding e(1)
    using ne lv(3) by (intro skl_restrict[OF lv(1)]) (auto split: if_splits)
  moreover have "full_levels (entries sg') lv"
    using lv(2,3) ne cell(1) by (auto simp: full_levels_def e)
  ultimately have "rep True (entries sg') as" using lv(3) by (auto simp: rep_def)
  moreover have "sentinel (entries sg') = ([], None)"
    using keys_repD(3)[OF K] ne cell by (simp add: sentinel_def e)
  moreover have "dom ?h = insert (head (entries sg)) (set (as @ rs1 @ rs2))"
    using keys_repD(4,5)[OF K] by auto
  moreover have km: "map (key_of sg') as = map (key_of sg) as" using own ne by auto
  have "distinct (map (key_of sg') as)" unfolding km by (rule keys_repD(6)[OF K])
  moreover have "wf_node ?h b \<and> valat ?h b = Some (own sg' b) \<and> length (own sg' b) = ts_cnt sg"
    if "b \<in> set (as @ rs1 @ rs2)" for b
    using keys_repD(7-9)[OF K, of b] that ne[of b] cell(3,4)[of b] own[of b] by auto
  ultimately show "keys_rep sg' as (rs1 @ rs2)"
    using keys_repD(2,5)[OF K] unfolding keys_rep_def e by (simp add: Ball_def e)
qed

section \<open>Freeing one removed key\<close>

lemma core_delete:
  assumes C: "seg_core sg as (rs1 @ r # rs2) T" and ts: "ts_cnt sg = 1" and bo: "blocks_ok (refs_of T (owned sg (as @ rs1 @ r # rs2))) ext bs"
    and idx: "idx_cnt sg = of_nat (total_len T (owned sg (as @ rs1 @ r # rs2)))"
    and o: "own sg r = [k]"
  shows "\<exists>sg1 c' h. FreeEntry sg bs c (Some r) = Some (sg1, drop_refs bs (map snd (T k)), c') \<and>
    delete_node (heap (entries sg1)) (Some r) = Some h \<and>
    sg1 = sg\<lparr>kes := kes sg1, idx_byte_size := idx_byte_size sg1, idx_cnt := idx_cnt sg1\<rparr> \<and>
    (let sg' = sg1\<lparr>entries := (entries sg1)\<lparr>heap := h\<rparr>, pk_cnt := pk_cnt sg1 - 1\<rparr> in
      seg_core sg' as (rs1 @ rs2) T \<and> (\<forall>b\<in>set (as @ rs1 @ rs2). own sg' b = own sg b \<and> key_of sg' b = key_of sg b) \<and>
      blocks_ok (refs_of T (owned sg' (as @ rs1 @ rs2))) ext (drop_refs bs (map snd (T k))) \<and>
      idx_cnt sg' = of_nat (total_len T (owned sg' (as @ rs1 @ rs2)))) \<and>
    shrunk bs (drop_refs bs (map snd (T k))) \<and>
    gc_record_cnt c' = gc_record_cnt c + of_nat (card (dom bs - dom (drop_refs bs (map snd (T k)))))"
proof -
  have K: "keys_rep sg as (rs1 @ r # rs2)" and d: "distinct (owned sg (as @ rs1 @ r # rs2))"
    and dk: "dom (kes sg) = set (owned sg (as @ rs1 @ r # rs2))"
    and kr: "\<And>k ke. kes sg k = Some ke \<Longrightarrow> ke_rep ke (T k) \<and> k < next_ke sg"
    using C by (auto simp: seg_core_def)
  have "k \<in> dom (kes sg)" unfolding dk using o by simp
  then obtain ke where ke: "kes sg k = Some ke" "ke_rep ke (T k)" using kr by blast
  have ks: "mset (owned sg (as @ rs1 @ r # rs2)) = mset (k # owned sg (as @ rs1 @ rs2))" using o by simp
  have n: "refs_of T (owned sg (as @ rs1 @ rs2)) b + count_list (map snd (T k)) b = refs_of T (owned sg (as @ rs1 @ r # rs2)) b" for b
    using refs_of_mset[OF ks, of T b] by (simp only: refs_of_Cons)
  note er = blocks_ok_drop[OF bo n]
  obtain B c' where F: "FreeEntry_one sg bs c k =
      Some (sg\<lparr>kes := (kes sg)(k := None), idx_byte_size := B\<rparr>, drop_refs bs (map snd (T k)), c')" "counted bs c (map snd (T k)) c'"
    using FreeEntry_one_ok[OF ke er(1)] by blast
  have r: "wf_node (heap (entries sg)) r" "valat (heap (entries sg)) r = Some [k]"
    using keys_repD(7,8)[OF K, of r] o by auto
  obtain B' where B': "FreeEntry sg bs c (Some r) = Some (sg\<lparr>kes := (kes sg)(k := None), idx_byte_size := B',
      idx_cnt := idx_cnt sg - of_nat (length (T k))\<rparr>, drop_refs bs (map snd (T k)), c')"
    using F r ts by (auto simp: FreeEntry_def ptr_simps arr_get_def counted_def)
  let ?sg1 = "sg\<lparr>kes := (kes sg)(k := None), idx_byte_size := B', idx_cnt := idx_cnt sg - of_nat (length (T k))\<rparr>"
  let ?sg' = "?sg1\<lparr>entries := (entries sg)\<lparr>heap := (heap (entries sg))(r := None)\<rparr>, pk_cnt := pk_cnt sg - 1\<rparr>"
  have K': "keys_rep ?sg' as (rs1 @ rs2)" and own: "\<And>b. b \<noteq> r \<Longrightarrow> own ?sg' b = own sg b \<and> key_of ?sg' b = key_of sg b"
    using keys_delete[OF K, of ?sg'] by auto
  have ne: "b \<noteq> r" if "b \<in> set (as @ rs1 @ rs2)" for b using that keys_repD(5)[OF K] by auto
  have ow: "owned ?sg' (as @ rs1 @ rs2) = owned sg (as @ rs1 @ rs2)"
    using own ne by (intro arg_cong[where f = concat] map_cong) auto
  have d': "distinct (k # owned sg (as @ rs1 @ rs2))" using mset_eq_imp_distinct_iff[OF ks] d by blast
  have "set (owned sg (as @ rs1 @ r # rs2)) = insert k (set (owned sg (as @ rs1 @ rs2)))"
    using mset_eq_setD[OF ks] by simp
  then have "dom ((kes sg)(k := None)) = set (owned sg (as @ rs1 @ rs2))" using d' dk by auto
  then have core: "seg_core ?sg' as (rs1 @ rs2) T"
    using K' d' C unfolding seg_core_def ow by (simp add: kr split: if_splits)
  have "total_len T (owned sg (as @ rs1 @ r # rs2)) = length (T k) + total_len T (owned sg (as @ rs1 @ rs2))"
    using total_mset[OF ks, of T] by simp
  then have idx': "idx_cnt ?sg' = of_nat (total_len T (owned ?sg' (as @ rs1 @ rs2)))" unfolding ow using idx by simp
  have sh: "shrunk bs (drop_refs bs (map snd (T k)))"
    "gc_record_cnt c' = gc_record_cnt c + of_nat (card (dom bs - dom (drop_refs bs (map snd (T k)))))"
    using shrunk_drop[OF er(1)] F(2) by (simp_all add: counted_def)
  show ?thesis
    by (rule exI[of _ ?sg1], rule exI[of _ c'], rule exI[of _ "(heap (entries sg))(r := None)"])
      (use B' r core idx' sh er(2)[folded ow] own ne in \<open>simp add: ptr_simps del: map_append append_assoc\<close>)
qed

section \<open>Freeing the removed keys\<close>

definition free_inv ::
    "(addr \<Rightarrow> nat) \<Rightarrow> segment \<Rightarrow> blocks \<Rightarrow> gc_counts \<Rightarrow> addr list \<Rightarrow> addr list \<Rightarrow> addr list \<Rightarrow> (addr \<Rightarrow> (64 word \<times> addr) list) \<Rightarrow>
     addr list \<Rightarrow> gc_state \<Rightarrow> bool" where
  "free_inv ext sg0 bs0 c0 fs as rs T ws st \<longleftrightarrow> (case st of (sg, bs, c) \<Rightarrow> \<exists>rest.
     seg_core sg as (rs @ rest) T \<and> ts_cnt sg = 1 \<and>
     blocks_ok (refs_of T (owned sg (as @ rs @ rest))) ext bs \<and>
     idx_cnt sg = of_nat (total_len T (owned sg (as @ rs @ rest))) \<and>
     lseg (heap (entry_free_list sg)) 0 ws None \<and> distinct ws \<and> set ws \<subseteq> set fs \<and>
     map (valat (heap (entry_free_list sg))) ws = map Some rest \<and>
     entry_free_list sg = (entry_free_list sg0)\<lparr>heap := (\<lambda>a. if a \<in> set fs - set ws then None else heap (entry_free_list sg0) a)\<rparr> \<and>
     (\<forall>b\<in>set (as @ rs @ rest). own sg b = own sg0 b \<and> key_of sg b = key_of sg0 b) \<and>
     shrunk bs0 bs \<and> gc_record_cnt c = gc_record_cnt c0 + of_nat (card (dom bs0 - dom bs)))"

lemma free_step:
  assumes I: "free_inv ext sg0 bs0 c0 fs as rs T (f # ws) (sg, bs, c)"
  shows "\<exists>st'. GcEntryFreeList_step (sg, bs, c) (Some f) = Some (ptr ws None, st') \<and> free_inv ext sg0 bs0 c0 fs as rs T ws st'"
proof -
  obtain rest0 where raw: "seg_core sg as (rs @ rest0) T" "ts_cnt sg = 1"
    "blocks_ok (refs_of T (owned sg (as @ rs @ rest0))) ext bs"
    "idx_cnt sg = of_nat (total_len T (owned sg (as @ rs @ rest0)))"
    and l: "lseg (heap (entry_free_list sg)) 0 (f # ws) None" "distinct (f # ws)" "set (f # ws) \<subseteq> set fs"
    and v0: "map (valat (heap (entry_free_list sg))) (f # ws) = map Some rest0"
    and fl: "entry_free_list sg = (entry_free_list sg0)\<lparr>heap := (\<lambda>a. if a \<in> set fs - set (f # ws) then None else heap (entry_free_list sg0) a)\<rparr>"
    and own0: "\<forall>b\<in>set (as @ rs @ rest0). own sg b = own sg0 b \<and> key_of sg b = key_of sg0 b"
    and sh: "shrunk bs0 bs" "gc_record_cnt c = gc_record_cnt c0 + of_nat (card (dom bs0 - dom bs))"
    using I unfolding free_inv_def prod.case by (elim exE conjE) (rule that)
  obtain r rest where rest0: "rest0 = r # rest" using v0 by (cases rest0) auto
  note C = raw[unfolded rest0] and own = own0[unfolded rest0]
  have v: "valat (heap (entry_free_list sg)) f = Some r" "map (valat (heap (entry_free_list sg))) ws = map Some rest"
    using v0 rest0 by simp_all
  have K: "keys_rep sg as (rs @ r # rest)" using C(1) by (simp add: seg_core_def)
  obtain k where o: "own sg r = [k]"
    using keys_repD(9)[OF K, of r] C(2) by (cases "own sg r") auto
  obtain sg1 c' h where F: "FreeEntry sg bs c (Some r) = Some (sg1, drop_refs bs (map snd (T k)), c')"
    "delete_node (heap (entries sg1)) (Some r) = Some h"
    and sg1: "sg1 = sg\<lparr>kes := kes sg1, idx_byte_size := idx_byte_size sg1, idx_cnt := idx_cnt sg1\<rparr>"
    and P: "let sg' = sg1\<lparr>entries := (entries sg1)\<lparr>heap := h\<rparr>, pk_cnt := pk_cnt sg1 - 1\<rparr> in
      seg_core sg' as (rs @ rest) T \<and> (\<forall>b\<in>set (as @ rs @ rest). own sg' b = own sg b \<and> key_of sg' b = key_of sg b) \<and>
      blocks_ok (refs_of T (owned sg' (as @ rs @ rest))) ext (drop_refs bs (map snd (T k))) \<and>
      idx_cnt sg' = of_nat (total_len T (owned sg' (as @ rs @ rest)))"
    and sh1: "shrunk bs (drop_refs bs (map snd (T k)))"
      "gc_record_cnt c' = gc_record_cnt c + of_nat (card (dom bs - dom (drop_refs bs (map snd (T k)))))"
    using core_delete[OF C o, of c] by (elim exE conjE) (rule that)
  have fl1: "entry_free_list sg1 = entry_free_list sg" "ts_cnt sg1 = 1"
    using arg_cong[OF sg1, of entry_free_list] arg_cong[OF sg1, of ts_cnt] C(2) by simp_all
  let ?fh = "heap (entry_free_list sg)"
  let ?sg2 = "sg1\<lparr>entries := (entries sg1)\<lparr>heap := h\<rparr>, pk_cnt := pk_cnt sg1 - 1\<rparr>"
  let ?sg' = "?sg2\<lparr>entry_free_list := (entry_free_list sg)\<lparr>heap := ?fh(f := None)\<rparr>\<rparr>"
  have f: "valid ?fh f 0" "nxt ?fh f 0 = ptr ws None" "wf_node ?fh f" "f \<notin> set ws" using l by (auto simp: valid_def)
  have step: "GcEntryFreeList_step (sg, bs, c) (Some f) = Some (ptr ws None, (?sg', drop_refs bs (map snd (T k)), c'))"
    using F f v(1) by (simp add: GcEntryFreeList_step_def ptr_simps fl1)
  have o': "own ?sg' = own ?sg2" by (rule own_cong) simp
  have inv: "seg_core ?sg' as (rs @ rest) T" "ts_cnt ?sg' = 1"
    "blocks_ok (refs_of T (owned ?sg' (as @ rs @ rest))) ext (drop_refs bs (map snd (T k)))"
    "idx_cnt ?sg' = of_nat (total_len T (owned ?sg' (as @ rs @ rest)))"
    "\<forall>b\<in>set (as @ rs @ rest). own ?sg' b = own sg0 b \<and> key_of ?sg' b = key_of sg0 b"
    using seg_core_cong[of ?sg' ?sg2 as "rs @ rest" T] P own fl1(2) unfolding o' by (simp_all add: Let_def)
  have "lseg (?fh(f := None)) 0 ws None"
    using l(1) f(4) by (subst lseg_heap_cong[where h="?fh"]) auto
  moreover have "map (valat (?fh(f := None))) ws = map Some rest"
    using v(2) f(4) by (metis (mono_tags, lifting) fun_upd_other map_eq_conv valat_def)
  ultimately have fl': "lseg (heap (entry_free_list ?sg')) 0 ws None" "map (valat (heap (entry_free_list ?sg'))) ws = map Some rest"
    by simp_all
  have "(entry_free_list sg)\<lparr>heap := ?fh(f := None)\<rparr> =
      (entry_free_list sg0)\<lparr>heap := (\<lambda>a. if a \<in> set fs - set ws then None else heap (entry_free_list sg0) a)\<rparr>"
    unfolding fl using l(2,3) by (auto simp: fun_eq_iff)
  then have fl0: "entry_free_list ?sg' =
      (entry_free_list sg0)\<lparr>heap := (\<lambda>a. if a \<in> set fs - set ws then None else heap (entry_free_list sg0) a)\<rparr>" by simp
  have ws: "distinct ws" "set ws \<subseteq> set fs" using l by auto
  have sh': "shrunk bs0 (drop_refs bs (map snd (T k)))"
    "gc_record_cnt c' = gc_record_cnt c0 + of_nat (card (dom bs0 - dom (drop_refs bs (map snd (T k)))))"
    using shrunk_trans[OF sh(1) sh1(1)] sh(2) sh1(2) by simp_all
  have "free_inv ext sg0 bs0 c0 fs as rs T ws (?sg', drop_refs bs (map snd (T k)), c')"
    unfolding free_inv_def prod.case by (intro exI[of _ rest] conjI inv fl' ws fl0 sh')
  then show ?thesis using step by blast
qed

lemma filter_newer: "sorted_wrt (\<lambda>x y. fst x \<ge> fst y) xs \<Longrightarrow> filter (\<lambda>x. fst x > t) xs = take (newer t xs) xs"
proof (induction xs)
  case (Cons x xs)
  show ?case
  proof (cases "fst x > t")
    case True
    then show ?thesis using Cons by (simp add: newer_def)
  next
    case False
    then have "filter (\<lambda>x. fst x > t) (x # xs) = []" using Cons.prems by (fastforce simp: filter_empty_conv)
    then show ?thesis by (simp add: newer_def)
  qed
qed simp

lemma removed_filter:
  "filter (\<lambda>x. fst x > v) (removed_view sg vs T) = removed_view sg (filter (\<lambda>x. fst x > v) vs) T"
  by (simp add: removed_view_def filter_map comp_def case_prod_unfold)

lemma GcEntryFreeList_ok:
  assumes ok: "seg_ok sg bs ext V D"
  shows "\<exists>sg' bs' c'. GcEntryFreeList sg bs c ver = Some (sg', bs', c') \<and>
    seg_ok sg' bs' ext V (filter (\<lambda>x. fst x > ver) D) \<and>
    shrunk bs bs' \<and> gc_record_cnt c' = gc_record_cnt c + of_nat (card (dom bs - dom bs'))"
proof -
  obtain as vs T where st: "seg_st sg bs ext as vs T" and V: "seg_view sg as T = V" and D: "removed_view sg vs T = D"
    using ok by (auto simp: seg_ok_def)
  have core: "seg_core sg as (map snd vs) T" and ts: "ts_cnt sg = 1" using st by (simp_all add: seg_st_def seg_rep_core)
  obtain fs where e: "es_rep (entry_free_list sg) fs vs" using st by (auto simp: seg_st_def seg_rep_core)
  let ?n = "newer ver vs"
  obtain p fl where s: "Split (entry_free_list sg) ver = Some (p, fl)" and at: "split_at ?n (entry_free_list sg) fs p fl"
    using by_time.cut_ok[OF e] by blast
  note f = split_at_es[OF e at]
  let ?sg0 = "sg\<lparr>entry_free_list := fl\<rparr>" and ?rs = "map snd (take ?n vs)"
  have o: "own ?sg0 = own sg" by (rule own_cong) simp
  have vs: "map snd vs = ?rs @ map snd (drop ?n vs)" by (metis append_take_drop_id map_append)
  have v: "map (valat (heap fl)) (drop ?n fs) = map Some (map snd (drop ?n vs))"
    using f(8) by (auto simp: f(7)[symmetric] block_vals_def dest!: in_set_dropD)
  have "free_inv ext ?sg0 bs c (drop ?n fs) as ?rs T (drop ?n fs) (?sg0, bs, c)"
    unfolding free_inv_def prod.case o
  proof (intro exI[of _ "map snd (drop ?n vs)"] conjI)
    show "seg_core ?sg0 as (?rs @ map snd (drop ?n vs)) T"
      unfolding vs[symmetric] using core by (subst seg_core_cong[where sg = sg]) simp_all
  qed (use st ts f(2,6) v in \<open>simp_all add: seg_st_def vs[symmetric] del: map_append\<close>)
  then have "\<exists>st'. walk GcEntryFreeList_step (?sg0, bs, c) (ptr (drop ?n fs) None) = Some st' \<and>
      free_inv ext ?sg0 bs c (drop ?n fs) as ?rs T [] st'"
  proof (rule walk_rule)
    fix a ws and st :: gc_state assume I: "free_inv ext ?sg0 bs c (drop ?n fs) as ?rs T (a # ws) st"
    obtain sg1 bs1 c1 where st: "st = (sg1, bs1, c1)" by (cases st)
    show "\<exists>st'. GcEntryFreeList_step st (Some a) = Some (ptr ws None, st') \<and> free_inv ext ?sg0 bs c (drop ?n fs) as ?rs T ws st'"
      unfolding st by (rule free_step[OF I[unfolded st]])
  qed
  then obtain sg' bs' c' where w: "GcEntryFreeList sg bs c ver = Some (sg', bs', c')"
    and I: "free_inv ext ?sg0 bs c (drop ?n fs) as ?rs T [] (sg', bs', c')"
    using s f(1) by (auto simp: GcEntryFreeList_def)
  have c: "seg_core sg' as ?rs T" "ts_cnt sg' = 1" "blocks_ok (refs_of T (owned sg' (as @ ?rs))) ext bs'"
    "idx_cnt sg' = of_nat (total_len T (owned sg' (as @ ?rs)))"
    and own: "\<And>b. b \<in> set (as @ ?rs) \<Longrightarrow> own sg' b = own sg b \<and> key_of sg' b = key_of sg b"
    and fl: "entry_free_list sg' = fl\<lparr>heap := (\<lambda>a. if a \<in> set (drop ?n fs) then None else heap fl a)\<rparr>"
    and sh: "shrunk bs bs'" "gc_record_cnt c' = gc_record_cnt c + of_nat (card (dom bs - dom bs'))"
    using I unfolding free_inv_def prod.case o by (auto simp del: map_append cong: if_cong)
  have "es_rep (entry_free_list sg') (take ?n fs) (take ?n vs)" unfolding fl by (rule es_cut[OF e at]) simp
  then have "seg_st sg' bs' ext as (take ?n vs) T" using c by (auto simp: seg_st_def seg_rep_core)
  moreover have "seg_view sg' as T = V"
  proof
    fix key
    have n: "find_node sg' as key = find_node sg as key" using own by (auto simp: find_node_def intro!: find_cong)
    have "own sg' a = own sg a" if "find_node sg as key = Some a" for a
      using that own by (auto simp: find_node_def dest!: findSomeD)
    then show "seg_view sg' as T key = V key" unfolding V[symmetric] by (cases "find_node sg as key") (simp_all add: seg_view_def n)
  qed
  moreover have "removed_view sg' (take ?n vs) T = filter (\<lambda>x. fst x > ver) D"
  proof -
    have "removed_view sg' (take ?n vs) T = removed_view sg (take ?n vs) T"
      using own by (intro removed_view_cong) force
    then show ?thesis unfolding D[symmetric] removed_filter filter_newer[OF es_rep_sorted[OF e]] by simp
  qed
  moreover have "\<forall>key xss. V key = Some xss \<longrightarrow> [] \<notin> set xss" using ok by (simp add: seg_ok_def)
  ultimately show ?thesis using w sh unfolding seg_ok_def by blast
qed

end
