(* ===== verification/Segment_Props.thy ===== *)
theory Segment_Props
  imports Segment_Free
begin

text \<open>
  The properties of a segment with one time column, and a small segment on which each of them
  is applied.
\<close>

section \<open>A sample segment\<close>

definition sample_blocks :: blocks where
  "sample_blocks = [0 \<mapsto> new_DataBlock 1 [1, 2] 2, 1 \<mapsto> new_DataBlock 2 [3] 1]"

definition sample_segment :: segment where
  "sample_segment = the (do { sg \<leftarrow> Segment_Put (new_Segment 4 0 2) [7] 500 0; Segment_Put sg [7] 900 1 })"

lemma new_Segment_ok:
  assumes "1 \<le> max_h mod 2 ^ 8" "1 \<le> height mod 2 ^ 8" "blocks_ok (\<lambda>_. 0) ext bs"
  shows "seg_ok (new_Segment max_h offset height) bs ext Map.empty []"
proof -
  have "seg_st (new_Segment max_h offset height) bs ext [] [] (\<lambda>_. [])"
    using new_Segment_rep[OF assms(1,2)] assms(3)
    by (simp add: seg_st_def new_Segment_def refs_of_def[abs_def] total_len_def)
  moreover have "seg_view (new_Segment max_h offset height) [] (\<lambda>_. []) = Map.empty"
    by (simp add: seg_view_def[abs_def] find_node_def)
  ultimately show ?thesis unfolding seg_ok_def by (auto simp: removed_view_def)
qed

definition sample_ext :: "addr \<Rightarrow> nat" where
  "sample_ext b = (if b = 1 then 1 else 0)"

lemma sample_segment_ok:
  "\<exists>sg1. Segment_Put (new_Segment 4 0 2) [7] 500 0 = Some sg1 \<and> Segment_Put sg1 [7] 900 1 = Some sample_segment"
  "seg_ok sample_segment sample_blocks sample_ext [[7] \<mapsto> [[(900, 1), (500, 0)]]] []"
proof -
  let ?ext = "\<lambda>b. if b = 0 then 1 else if b = (1::nat) then 2 else (0::nat)"
  have "blocks_ok (\<lambda>_. 0) ?ext sample_blocks"
    by (auto simp: blocks_ok_def sample_blocks_def new_DataBlock_def)
  then have "seg_ok (new_Segment 4 0 2) sample_blocks ?ext Map.empty []" by (intro new_Segment_ok) simp_all
  then obtain sg1 where 1: "Segment_Put (new_Segment 4 0 2) [7] 500 0 = Some sg1"
    "seg_ok sg1 sample_blocks (?ext(0 := 0)) [[7] \<mapsto> [[(500, 0)]]] []"
    using Put_ok[of "new_Segment 4 0 2" sample_blocks ?ext Map.empty "[]" 0 "[7]" 500]
    by (auto simp: times_def time_insert_def)
  have "(?ext(0 := 0))(1 := 1) = sample_ext" by (auto simp: sample_ext_def)
  then obtain sg2 where 2: "Segment_Put sg1 [7] 900 1 = Some sg2"
    "seg_ok sg2 sample_blocks sample_ext [[7] \<mapsto> [[(900, 1), (500, 0)]]] []"
    using Put_ok[OF 1(2), of 1 "[7]" 900] by (auto simp: times_def time_insert_def)
  have "sample_segment = sg2" using 1(1) 2(1) by (simp add: sample_segment_def)
  then show "\<exists>sg1. Segment_Put (new_Segment 4 0 2) [7] 500 0 = Some sg1 \<and> Segment_Put sg1 [7] 900 1 = Some sample_segment"
    "seg_ok sample_segment sample_blocks sample_ext [[7] \<mapsto> [[(900, 1), (500, 0)]]] []"
    using 1(1) 2 by blast+
qed

text \<open>Writes change neither the settings of a segment nor the readers' holds.\<close>

lemma Put_frame:
  assumes "Segment_Put sg key t row = Some sg'" "\<And>k ke. kes sg k = Some ke \<Longrightarrow> refs ke = 0"
  shows "ttl_offset sg' = ttl_offset sg" "gc_version sg' = gc_version sg" "\<And>k ke. kes sg' k = Some ke \<Longrightarrow> refs ke = 0"
  using assms
  by (auto simp: Segment_Put_def entry_insert_def new_KeyEntry_def bind_eq_Some_conv split: option.splits if_splits prod.splits)

lemma unheld: "(\<And>k ke. kes sg k = Some ke \<Longrightarrow> refs ke = 0) \<Longrightarrow> \<not> held sg key"
  by (auto simp: held_def split: option.splits list.splits)

lemma sample_segment_frame:
  "ttl_offset sample_segment = 0" "gc_version sample_segment = 0" "\<And>key. \<not> held sample_segment key"
  "\<And>k ke. kes sample_segment k = Some ke \<Longrightarrow> refs ke = 0"
proof -
  obtain sg1 where p: "Segment_Put (new_Segment 4 0 2) [7] 500 0 = Some sg1" "Segment_Put sg1 [7] 900 1 = Some sample_segment"
    using sample_segment_ok(1) by blast
  have z: "\<And>k ke. kes (new_Segment 4 0 2) k = Some ke \<Longrightarrow> refs ke = 0" by (simp add: new_Segment_def)
  have z1: "\<And>k ke. kes sg1 k = Some ke \<Longrightarrow> refs ke = 0" by (rule Put_frame(3)[OF p(1)]) (rule z)
  have "ttl_offset sg1 = 0" "gc_version sg1 = 0"
    by (simp_all only: Put_frame(1,2)[OF p(1) z]) (simp_all add: new_Segment_def)
  then show "ttl_offset sample_segment = 0" "gc_version sample_segment = 0"
    by (simp_all only: Put_frame(1,2)[OF p(2) z1])
  show "\<And>k ke. kes sample_segment k = Some ke \<Longrightarrow> refs ke = 0" by (rule Put_frame(3)[OF p(2)]) (rule z1)
  then show "\<not> held sample_segment key" for key by (rule unheld)
qed

text \<open>A segment without keys refers to no block.\<close>

lemma seg_ok_empty:
  assumes "seg_ok sg bs ext Map.empty []"
  shows "blocks_ok (\<lambda>_. 0) ext bs"
proof -
  obtain as vs T where st: "seg_st sg bs ext as vs T" "seg_view sg as T = Map.empty" "removed_view sg vs T = []"
    using assms by (auto simp: seg_ok_def)
  then have "as = []" "vs = []" using dom_view(1)[of sg as T] by (auto simp: removed_view_def)
  then show ?thesis using st(1) by (simp add: seg_st_def refs_of_def[abs_def])
qed

section \<open>Properties\<close>

text \<open>C27: \<open>Put\<close> of a block for which the caller holds a reference always returns; the key's time
  list gets the new record in front of the records that are not newer, every other key and every
  removed key is as before, the caller's reference has moved into the segment, and the counters
  \<open>idx_cnt_\<close> and \<open>pk_cnt_\<close> are exact again.\<close>

theorem Put_refines:
  assumes "seg_ok sg bs ext V D" "0 < ext row"
  shows "\<exists>sg'. Segment_Put sg key t row = Some sg' \<and>
    seg_ok sg' bs (ext(row := ext row - 1)) (V(key \<mapsto> [time_insert t row (times V key)])) D"
  by (rule Put_ok[OF assms])

theorem Put_refines_witness:
  "\<exists>sg'. Segment_Put sample_segment [7] 700 1 = Some sg' \<and>
     seg_ok sg' sample_blocks (sample_ext(1 := 0)) [[7] \<mapsto> [[(900, 1), (700, 1), (500, 0)]]] []"
  using Put_refines[OF sample_segment_ok(2), of 1 "[7]" 700]
  by (simp add: sample_ext_def times_def time_insert_def)

text \<open>C29: \<open>Delete\<close> always returns whether the key was there; the key's records move, unchanged, to the
  removed-entry list under the current version, and no reference to a block is gained or lost.\<close>

theorem Delete_refines:
  assumes "seg_ok sg bs ext V D"
  shows "\<exists>sg'. Segment_Delete sg key = Some (key \<in> dom V, sg') \<and>
    seg_ok sg' bs ext (V(key := None)) (case V key of None \<Rightarrow> D | Some xss \<Rightarrow> time_insert (gc_version sg) xss D)"
  by (rule Delete_ok[OF assms])

theorem Delete_refines_witness:
  "\<exists>sg'. Segment_Delete sample_segment [7] = Some (True, sg') \<and>
     seg_ok sg' sample_blocks sample_ext Map.empty [(gc_version sample_segment, [[(900, 1), (500, 0)]])]"
  using Delete_refines[OF sample_segment_ok(2), of "[7]"] by (simp add: time_insert_def)

text \<open>C26: \<open>ExecuteGc\<close>, for every kind of setting but \<open>kRelativeTime\<close>, always returns and keeps exactly the records that
  \<open>TTLSt::IsExpired\<close> does not call expired (records numbered from 1, newest first), except that the
  list of a key a reader holds is left alone.  Keys without records move to the removed-entry list,
  a block is deleted exactly when its last reference goes, and \<open>gc_record_cnt\<close> grows by the number
  of deleted blocks.  The clock must not be exactly at the point where the expiry time is 0.\<close>

theorem ExecuteGc_expired:
  assumes "seg_ok sg bs ext V D" "ttl_type ttl \<noteq> kRelativeTime"
    and "abs_ttl ttl \<noteq> 0 \<Longrightarrow> now \<noteq> ttl_offset sg + abs_ttl ttl"
    and "\<And>key xs. V key = Some [xs] \<Longrightarrow> length xs < 2 ^ 32"
  shows "gc_to (ExecuteGc now ttl (sg, bs, c)) sg bs c ext V D
     (live_view (at_time now (ttl_offset sg) ttl) (held sg) V)"
  by (rule ExecuteGc_live[OF assms])

theorem ExecuteGc_expired_witness:
  "gc_to (ExecuteGc 1000 \<lparr>abs_ttl = 300, lat_ttl = 0, ttl_type = kAbsoluteTime\<rparr> (sample_segment, sample_blocks, no_counts))
     sample_segment sample_blocks no_counts sample_ext [[7] \<mapsto> [[(900, 1), (500, 0)]]] [] [[7] \<mapsto> [[(900, 1)]]]"
proof -
  let ?ttl = "\<lparr>abs_ttl = 300, lat_ttl = 0, ttl_type = kAbsoluteTime\<rparr>" and ?V = "[[7] \<mapsto> [[(900, 1), (500, 0)]]]"
  have "live_view (at_time 1000 (ttl_offset sample_segment) ?ttl) (held sample_segment) ?V = [[7] \<mapsto> [[(900, 1)]]]"
    by (rule HOL.ext) (simp add: live_view_def sample_segment_frame at_time_def alive_def IsExpired_def)
  moreover have "length xs < 2 ^ 32" if "?V key = Some [xs]" for key :: bytes and xs :: "(64 word \<times> addr) list"
    using that by (auto split: if_splits)
  ultimately show ?thesis
    using ExecuteGc_expired[OF sample_segment_ok(2), of ?ttl 1000 no_counts] by (simp add: sample_segment_frame(1))
qed

text \<open>C28: \<open>GcFreeList\<close> always returns; it frees exactly the keys removed at least
  \<open>gc_deleted_pk_version_delta\<close> collections ago, with their entries, nodes and last references, and
  leaves live keys and younger removed keys alone.\<close>

theorem GcFreeList_refines:
  assumes "seg_ok sg bs ext V D"
  shows "\<exists>sg' bs' c'. GcFreeList delta sg bs c = Some (sg', bs', c') \<and>
    seg_ok sg' bs' ext V (if gc_version sg < delta then D else filter (\<lambda>x. fst x > gc_version sg - delta) D) \<and>
    shrunk bs bs' \<and> gc_record_cnt c' = gc_record_cnt c + of_nat (card (dom bs - dom bs'))"
  using assms GcEntryFreeList_ok[OF assms, of c "gc_version sg - delta"] by (auto simp: GcFreeList_def)

theorem GcFreeList_refines_witness:
  "\<exists>sg1 sg' bs' c'. Segment_Delete sample_segment [7] = Some (True, sg1) \<and>
     GcFreeList 0 sg1 sample_blocks no_counts = Some (sg', bs', c') \<and>
     seg_ok sg' bs' sample_ext Map.empty [] \<and> bs' 0 = None"
proof -
  obtain sg1 where 1: "Segment_Delete sample_segment [7] = Some (True, sg1)"
    "seg_ok sg1 sample_blocks sample_ext Map.empty [(0, [[(900, 1), (500, 0)]])]"
    using Delete_ok[OF sample_segment_ok(2), of "[7]"] by (auto simp: time_insert_def sample_segment_frame)
  obtain sg' bs' c' where 2: "GcFreeList 0 sg1 sample_blocks no_counts = Some (sg', bs', c')"
    "seg_ok sg' bs' sample_ext Map.empty []"
    using GcFreeList_refines[OF 1(2), of 0 no_counts] by auto
  have "bs' 0 = None" using seg_ok_empty[OF 2(2), unfolded blocks_ok_def, rule_format, of 0]
    by (cases "bs' 0") (simp_all add: sample_ext_def)
  then show ?thesis using 1(1) 2 by blast
qed

section \<open>Readers\<close>

text \<open>Taking and giving up a reference on an entry changes nothing else.\<close>

lemma seg_ok_refs:
  assumes ok: "seg_ok sg bs ext V D" and k: "kes sg k = Some ke"
  shows "seg_ok (sg\<lparr>kes := (kes sg)(k \<mapsto> ke\<lparr>refs := n\<rparr>)\<rparr>) bs ext V D"
proof -
  let ?sg = "sg\<lparr>kes := (kes sg)(k \<mapsto> ke\<lparr>refs := n\<rparr>)\<rparr>"
  obtain as vs T where st: "seg_st sg bs ext as vs T" and V: "seg_view sg as T = V" and D: "removed_view sg vs T = D"
    using ok by (auto simp: seg_ok_def)
  have rep: "seg_rep sg as vs T" using st by (simp add: seg_st_def)
  have "ke_rep (ke\<lparr>refs := n\<rparr>) (T k)" using seg_repD(5)[OF rep k] by (simp add: ke_rep_def)
  then have r: "seg_rep ?sg as vs T" using seg_rep_entry[OF rep k, of "ke\<lparr>refs := n\<rparr>" "T k"] by simp
  have o: "own ?sg = own sg" by (rule own_cong) simp
  have "seg_st ?sg bs ext as vs T" using st r unfolding seg_st_def o by simp
  moreover have "seg_view ?sg as T = V" "removed_view ?sg vs T = D"
    unfolding V[symmetric] D[symmetric] by (simp_all add: seg_view_def[abs_def] removed_view_def o find_node_def)
  ultimately show ?thesis using ok unfolding seg_ok_def by blast
qed

lemma seg_ok_find:
  assumes ok: "seg_ok sg bs ext V D" and "V key = Some [xs]"
  obtains k ke where "find_entry sg key = Some (Some [k])" "kes sg k = Some ke" "ke_rep ke xs"
proof -
  obtain as vs T where st: "seg_st sg bs ext as vs T" and V: "seg_view sg as T = V"
    using ok by (auto simp: seg_ok_def)
  have rep: "seg_rep sg as vs T" "ts_cnt sg = 1" using st by (simp_all add: seg_st_def)
  obtain a where a: "find_node sg as key = Some a" "[xs] = map T (own sg a)"
    using V assms(2) by (auto simp: seg_view_def)
  then have "a \<in> set (as @ map snd vs)" by (auto simp: find_node_def dest: findSomeD)
  then obtain k ke where "own sg a = [k]" "kes sg k = Some ke" "ke_rep ke (T k)" by (rule own_single[OF rep]) blast
  then show ?thesis using that find_entry_rep[OF seg_repD(1)[OF rep(1)], of key] a by simp
qed

text \<open>What repeated \<open>Next\<close> reads from an iterator.\<close>

definition mt_collect :: "segment \<Rightarrow> mt_iterator \<Rightarrow> (64 word \<times> addr option) list option" where
  "mt_collect sg it = (case it of None \<Rightarrow> Some []
     | Some (k, node) \<Rightarrow> Option.bind (kes sg k) (\<lambda>ke. collect (heap (kentries ke)) node))"

lemma Segment_NewIterator_ok:
  assumes ok: "seg_ok sg bs ext V D" and V: "V key = Some [xs]"
    and no_wrap: "\<And>k ke. kes sg k = Some ke \<Longrightarrow> refs ke \<noteq> -1"
  shows "\<exists>it sg' ticket' it1 it2. Segment_NewIterator sg key ticket = Some (it, sg', ticket') \<and>
    seg_ok sg' bs ext V D \<and> held sg' key \<and> length ticket' = Suc (length ticket) \<and>
    mt_SeekToFirst sg' it = Some it1 \<and> mt_collect sg' it1 = Some (map (\<lambda>(t, b). (t, Some b)) xs) \<and>
    mt_Seek sg' it t = Some it2 \<and> mt_collect sg' it2 = Some (map (\<lambda>(t, b). (t, Some b)) (filter (\<lambda>x. fst x \<le> t) xs))"
proof -
  obtain k ke where k: "find_entry sg key = Some (Some [k])" "kes sg k = Some ke" "ke_rep ke xs"
    by (rule seg_ok_find[OF ok V])
  have ts: "ts_cnt sg = 1" using ok by (auto simp: seg_ok_def seg_st_def)
  let ?sg = "sg\<lparr>kes := (kes sg)(k \<mapsto> ke\<lparr>refs := refs ke + 1\<rparr>)\<rparr>"
  have ok': "seg_ok ?sg bs ext V D" by (rule seg_ok_refs[OF ok k(2)])
  have N: "Segment_NewIterator sg key ticket = Some (Some (k, None), ?sg, ticket @ [k])"
    using k ts by (simp add: Segment_NewIterator_def Ticket_Push_def KeyEntry_Ref_def arr_get_def)
  have "refs ke + 1 \<noteq> 0" using no_wrap[OF k(2)] by (metis add_eq_0_iff add.commute)
  moreover have "find_entry ?sg key = Some (Some [k])" using k(1) by (simp add: find_entry_def)
  ultimately have held: "held ?sg key" by (simp add: held_def word_gt_0)
  obtain as where e: "es_rep (kentries ke) as xs" using k(3) by (auto simp: ke_rep_def)
  let ?ps = "map (\<lambda>(t, b). (t, Some b)) xs"
  have r: "repr False (kentries ke) ?ps" "compare (kentries ke) = TimeComparator"
    using e by (auto simp: es_rep_def repr_def)
  obtain p1 where p1: "it_SeekToFirst (kentries ke) = Some p1" "collect (heap (kentries ke)) p1 = Some ?ps"
    using it_SeekToFirst_repr[OF r(1)] by blast
  obtain p2 where p2: "it_Seek (kentries ke) t = Some p2" "collect (heap (kentries ke)) p2 = Some (upper TimeComparator t ?ps)"
    using it_Seek_repr[OF r(1)] r(2) by metis
  have "upper TimeComparator t ?ps = map (\<lambda>(t, b). (t, Some b)) (filter (\<lambda>x. fst x \<le> t) xs)"
    unfolding lower_time(2) by (simp add: not_less)
  then show ?thesis using N ok' held p1 p2
    by (intro exI[of _ "Some (k, None)"] exI[of _ ?sg] exI[of _ "ticket @ [k]"] exI[of _ "Some (k, p1)"] exI[of _ "Some (k, p2)"])
      (simp add: mt_SeekToFirst_def mt_Seek_def mt_collect_def)
qed

text \<open>C30: \<open>NewIterator\<close> on a key takes a reference to its entry, so that collections leave the list
  alone while the ticket lives, and changes nothing else; the iterator reads all records from the
  newest to the oldest, and after \<open>Seek(t)\<close> those that are not newer than \<open>t\<close>.\<close>

theorem NewIterator_reads:
  assumes ok: "seg_ok sg bs ext V D" and V: "V key = Some [xs]"
    and no_wrap: "\<And>k ke. kes sg k = Some ke \<Longrightarrow> refs ke \<noteq> -1"
  shows "\<exists>it sg' ticket' it1 it2. Segment_NewIterator sg key ticket = Some (it, sg', ticket') \<and>
    seg_ok sg' bs ext V D \<and> held sg' key \<and> length ticket' = Suc (length ticket) \<and>
    mt_SeekToFirst sg' it = Some it1 \<and> mt_collect sg' it1 = Some (map (\<lambda>(t, b). (t, Some b)) xs) \<and>
    mt_Seek sg' it t = Some it2 \<and> mt_collect sg' it2 = Some (map (\<lambda>(t, b). (t, Some b)) (filter (\<lambda>x. fst x \<le> t) xs))"
  by (rule Segment_NewIterator_ok[OF assms])

theorem NewIterator_reads_witness:
  "\<exists>it sg' ticket' it1 it2. Segment_NewIterator sample_segment [7] [] = Some (it, sg', ticket') \<and> held sg' [7] \<and>
    mt_SeekToFirst sg' it = Some it1 \<and> mt_collect sg' it1 = Some [(900, Some 1), (500, Some 0)] \<and>
    mt_Seek sg' it 899 = Some it2 \<and> mt_collect sg' it2 = Some [(500, Some 0)]"
proof -
  have "refs ke \<noteq> -1" if "kes sample_segment k = Some ke" for k ke
    using sample_segment_frame(4)[OF that] by simp
  then show ?thesis
    using NewIterator_reads[OF sample_segment_ok(2), of "[7]" "[(900, 1), (500, 0)]" "[]" 899] by auto
qed

section \<open>Point reads\<close>

lemma Get_unchecked_repr:
  assumes r: "repr full sl xs" and ys: "filter (\<lambda>x. compare sl (fst x) key \<le> 0) xs = ys @ [y]"
  shows "Get_unchecked sl key = Some (snd y)"
proof -
  obtain lv where lv: "skl sl lv" "pairs sl (lv 0) = xs" using r by (auto simp: repr_def rep_def)
  let ?U = "filter (upto_key sl key) (lv 0)"
  have U: "pairs sl ?U = ys @ [y]" using ys lv(2) pairs_upto[of sl key "lv 0"] by simp
  then obtain us a where us: "?U = us @ [a]" by (cases ?U rule: rev_cases) auto
  then have "a \<in> set ?U" by simp
  then have a: "a \<in> set (lv 0)" by (metis filter_is_subset subsetD)
  have v: "snd y = valat (heap sl) a" using U us by auto
  from a show ?thesis
    using FindEqual_skl[OF lv(1), of key] us skl_wf_node[OF lv(1), of a] v
    by (simp add: Get_unchecked_def pred_at_def ptr_simps)
qed

lemma Get_unchecked_none:
  assumes r: "repr full sl xs" and ys: "filter (\<lambda>x. compare sl (fst x) key \<le> 0) xs = []"
  shows "Get_unchecked sl key = Some (snd (sentinel sl))"
proof -
  obtain lv where lv: "skl sl lv" "pairs sl (lv 0) = xs" using r by (auto simp: repr_def rep_def)
  have "pairs sl (filter (upto_key sl key) (lv 0)) = []" using ys lv(2) pairs_upto[of sl key "lv 0"] by simp
  then have "filter (upto_key sl key) (lv 0) = []" by (simp add: pairs_def)
  then show ?thesis using FindEqual_skl[OF lv(1), of key] skl_wf_node[OF lv(1), of "head sl"]
    by (simp add: Get_unchecked_def pred_at_def ptr_simps sentinel_def)
qed

lemma es_Get_unchecked:
  assumes e: "es_rep es as xs"
  shows "Get_unchecked es t = Some (case filter (\<lambda>x. fst x \<ge> t) xs of [] \<Rightarrow> None | ys \<Rightarrow> Some (snd (last ys)))"
proof -
  have r: "repr False es (map (\<lambda>(t, b). (t, Some b)) xs)" "compare es = TimeComparator" "snd (sentinel es) = None"
    using e by (auto simp: es_rep_def repr_def sentinel_def)
  have f: "filter (\<lambda>x. TimeComparator (fst x) t \<le> 0) (map (\<lambda>(t, b). (t, Some b)) xs) =
      map (\<lambda>(t, b). (t, Some b)) (filter (\<lambda>x. fst x \<ge> t) xs)"
    by (induction xs) (auto simp: TimeComparator_def)
  show ?thesis
  proof (cases "filter (\<lambda>x. fst x \<ge> t) xs" rule: rev_cases)
    case Nil
    then show ?thesis using Get_unchecked_none[OF r(1), of t] f r(2,3) by simp
  next
    case (snoc ys y)
    then have "Get_unchecked es t = Some (Some (snd y))"
      using Get_unchecked_repr[OF r(1), of t] f r(2) by (simp add: case_prod_unfold)
    then show ?thesis using snoc by (cases ys) (auto split: list.split)
  qed
qed

text \<open>C31: On a segment of one time column, \<open>Get(key, t)\<close> always returns.  It reports failure exactly for a
  missing key.  For a key that is there it reports success, with the block of the oldest record that
  is not older than \<open>t\<close>, which need not be a record of the time \<open>t\<close>: a time between two records
  gives the newer one.  When every record of the key is older than \<open>t\<close>, it reports success as well,
  with the block pointer NULL (\<open>Some (Some None)\<close>).\<close>

theorem Get_not_older:
  assumes ok: "seg_ok sg bs ext V D"
  shows "Segment_Get sg key t = Some (if V key = None then None
    else Some (case filter (\<lambda>x. fst x \<ge> t) (times V key) of [] \<Rightarrow> None | ys \<Rightarrow> Some (snd (last ys))))"
proof (cases "V key")
  case None
  have ts: "ts_cnt sg = 1" using ok by (auto simp: seg_ok_def seg_st_def)
  obtain as vs T where st: "seg_st sg bs ext as vs T" "seg_view sg as T = V" using ok by (auto simp: seg_ok_def)
  then have "find_node sg as key = None" using None by (auto simp: seg_view_def)
  then show ?thesis using find_entry_rep[of sg as "map snd vs" key] seg_repD(1)[of sg as vs T] st(1) ts None
    by (simp add: Segment_Get_def seg_st_def)
next
  case (Some xss)
  have ts: "ts_cnt sg = 1" using ok by (auto simp: seg_ok_def seg_st_def)
  obtain xs where xs: "xss = [xs]" using Some by (rule seg_ok_list[OF ok])
  obtain k ke where k: "find_entry sg key = Some (Some [k])" "kes sg k = Some ke" "ke_rep ke xs"
    using seg_ok_find[OF ok Some[unfolded xs]] by blast
  obtain as where e: "es_rep (kentries ke) as xs" using k(3) by (auto simp: ke_rep_def)
  show ?thesis using k ts Some xs es_Get_unchecked[OF e, of t]
    by (simp add: Segment_Get_def arr_get_def entry_get_def times_def)
qed

theorem Get_not_older_witness:
  "Segment_Get sample_segment [7] 600 = Some (Some (Some 1)) \<and> Segment_Get sample_segment [7] 1000 = Some (Some None) \<and>
   Segment_Get sample_segment [8] 600 = Some None"
  using Get_not_older[OF sample_segment_ok(2), of "[7]" 600] Get_not_older[OF sample_segment_ok(2), of "[7]" 1000]
    Get_not_older[OF sample_segment_ok(2), of "[8]" 600] by (simp add: times_def)

section \<open>Releasing with counts\<close>

lemma first_key_least:
  assumes rep: "seg_rep sg (a # ws) vs T" and V: "seg_view sg (a # ws) T key = Some xss"
  shows "SliceComparator (key_of sg a) key \<le> 0"
proof -
  note K = seg_repD(1)[OF rep]
  obtain lv where lv: "skl (entries sg) lv" "lv 0 = a # ws" using keys_repD(1)[OF K] by (auto simp: rep_def)
  obtain b where "find_node sg (a # ws) key = Some b" using V by (auto simp: seg_view_def)
  then have b: "b = a \<or> b \<in> set ws" "key_of sg b = key" by (auto simp: find_node_def dest: findSomeD split: if_splits)
  from b(1) show ?thesis
  proof
    assume "b = a"
    then show ?thesis using b(2) slice_cmp.cmp_eq[of key key] by simp
  next
    assume "b \<in> set ws"
    then show ?thesis using sklD(11)[OF lv(1), of 0] lv(2) b(2) keys_repD(2)[OF K] by (auto simp: key_le_def)
  qed
qed

text \<open>C32: the loop of \<open>ReleaseAndCount\<close> over a segment with live keys ends after the first key, however
  many there are: \<open>Remove\<close> has set the links of the node the iterator stands on to NULL.  Only the
  records of that key, the least in the order of the keys, are counted, and its node of the key list
  is not deleted.\<close>

theorem ReleaseAndCount_first_only:
  assumes ok: "seg_ok sg bs ext V D" and "V key = Some xss"
  shows "\<exists>it key1 xs1 sg' bs' c'. it_SeekToFirst (entries sg) = Some it \<and> V key1 = Some [xs1] \<and>
    (\<forall>key2\<in>dom V. SliceComparator key1 key2 \<le> 0) \<and>
    walk ReleaseAndCount_step (sg, bs, c) it = Some (sg', bs', c') \<and>
    gc_idx_cnt c' = gc_idx_cnt c + of_nat (length xs1) \<and>
    dom (heap (entries sg')) = dom (heap (entries sg))"
proof -
  obtain as vs T where st: "seg_st sg bs ext as vs T" and V: "seg_view sg as T = V" using ok by (auto simp: seg_ok_def)
  have rep: "seg_rep sg as vs T" and ts: "ts_cnt sg = 1"
    and bo: "blocks_ok (refs_of T (owned sg (as @ map snd vs))) ext bs" using st by (simp_all add: seg_st_def)
  note K = seg_repD(1)[OF rep]
  obtain lv where lv: "skl (entries sg) lv" "full_levels (entries sg) lv" "lv 0 = as"
    using keys_repD(1)[OF K] by (auto simp: rep_def)
  obtain a ws where as: "as = a # ws" using V assms(2) by (cases as) (auto simp: seg_view_def find_node_def)
  have fn: "find_node sg as (key_of sg a) = Some a" using find_node_Some[OF keys_repD(6)[OF K]] as by simp
  obtain k ke where k: "own sg a = [k]" "kes sg k = Some ke" "ke_rep ke (T k)"
    using as by (auto intro: own_single[OF rep ts, of a])
  obtain h' tl0 where R: "Remove (entries sg) (key_of sg a) = Some (Some a, (entries sg)\<lparr>heap := h', tail := tl0\<rparr>)"
    and sh: "shapes h' = shapes (heap (entries sg))" and nx: "\<forall>j<hgt h' a. nxt h' a j = None"
    using Remove_found[OF lv(1,2), of "key_of sg a" a] fn lv(3) by (auto simp: first_eq_def find_node_def)
  have "k \<in> set (owned sg (as @ map snd vs))" using as k(1) by simp
  then have "enough_refs bs (map snd (T k))"
    using blocks_ok_drop(1)[OF bo split_refs(1)[OF seg_repD(3)[OF rep], of k "[]" "map snd (T k)"]] by simp
  then obtain B c' where F: "FreeEntry_one (sg\<lparr>entries := (entries sg)\<lparr>heap := h', tail := tl0\<rparr>\<rparr>) bs c k =
      Some (sg\<lparr>entries := (entries sg)\<lparr>heap := h', tail := tl0\<rparr>, kes := (kes sg)(k := None), idx_byte_size := B\<rparr>,
        drop_refs bs (map snd (T k)), c')" "counted bs c (map snd (T k)) c'"
    using FreeEntry_one_ok[of "sg\<lparr>entries := (entries sg)\<lparr>heap := h', tail := tl0\<rparr>\<rparr>" k ke "T k" bs c] k by auto
  have w: "wf_node (heap (entries sg)) a" "valat (heap (entries sg)) a = Some [k]"
    using keys_repD(7,8)[OF K, of a] as k(1) by auto
  then have w': "wf_node h' a" "valat h' a = Some [k]" "keyat h' a = key_of sg a"
    using shapes_eqD(1,3,4)[OF sh, of a] by simp_all
  have "valid (heap (entries sg)) a 0"
    using sklD(7)[OF lv(1) skl_MaxHeight[OF lv(1)]] lv(3) as by simp
  then have v: "valid h' a 0" "nxt h' a 0 = None" using shapes_eqD(5)[OF sh] nx by (auto simp: valid_def)
  obtain sg' where s: "ReleaseAndCount_step (sg, bs, c) (Some a) = Some (None, (sg', drop_refs bs (map snd (T k)), c'))"
    and e: "entries sg' = (entries sg)\<lparr>heap := h', tail := tl0\<rparr>"
    using R F w w' v ts by (auto simp: ReleaseAndCount_step_def FreeEntry_def it_GetKey_def it_Next_def it_Valid_def
        assert_that_def ptr_simps arr_get_def)
  have "walk ReleaseAndCount_step (sg, bs, c) (Some a) = Some (sg', drop_refs bs (map snd (T k)), c')"
    using s by (subst walk.simps) (simp add: walk.simps)
  moreover have "it_SeekToFirst (entries sg) = Some (Some a)"
    using lv as by (simp add: it_SeekToFirst_def it_Next_def it_Valid_def assert_that_def skl_first)
  moreover have "V (key_of sg a) = Some [T k]" using fn k(1) V by (auto simp: seg_view_def)
  moreover have "dom (heap (entries sg')) = dom (heap (entries sg))" using shapes_dom[OF sh] e by simp
  moreover have "\<forall>key2\<in>dom V. SliceComparator (key_of sg a) key2 \<le> 0"
    using first_key_least[OF rep[unfolded as]] V as by (auto simp: dom_def)
  ultimately show ?thesis using F(2) unfolding counted_def length_map by blast
qed

theorem ReleaseAndCount_first_only_witness:
  "\<exists>sg it sg' bs' c'. Segment_Put sample_segment [8] 700 1 = Some sg \<and> it_SeekToFirst (entries sg) = Some it \<and>
    walk ReleaseAndCount_step (sg, sample_blocks, no_counts) it = Some (sg', bs', c') \<and>
    gc_idx_cnt c' = 2"
proof -
  obtain sg where sg: "Segment_Put sample_segment [8] 700 1 = Some sg"
    "seg_ok sg sample_blocks (sample_ext(1 := 0)) [[7] \<mapsto> [[(900, 1), (500, 0)]], [8] \<mapsto> [[(700, 1)]]] []"
    using Put_ok[OF sample_segment_ok(2), of 1 "[8]" 700] by (auto simp: sample_ext_def times_def time_insert_def)
  have "SliceComparator [8] [7] > 0" by code_simp
  then show ?thesis using ReleaseAndCount_first_only[OF sg(2), of "[7]" "[[(900, 1), (500, 0)]]" no_counts] sg(1)
    by (auto simp: no_counts_def split: if_splits)
qed

end
