(* ===== verification/Buffers.thy ===== *)
theory Buffers
  imports Prelude
begin

text \<open>Byte buffers of a fixed size, written and read by offset.\<close>

text \<open>\<open>memcpy (buf + off, xs, size)\<close>: writing past the end of the buffer is \<open>None\<close>.\<close>

definition blit :: "nat \<Rightarrow> 'a list \<Rightarrow> 'a list \<Rightarrow> 'a list option" where
  "blit off xs buf = (if off + length xs \<le> length buf
     then Some (take off buf @ xs @ drop (off + length xs) buf) else None)"

text \<open>\<open>memcpy (dst, buf + off, n)\<close>: reading past the end is \<open>None\<close>.\<close>

definition peek :: "nat \<Rightarrow> nat \<Rightarrow> 'a list \<Rightarrow> 'a list option" where
  "peek off n buf = (if off + n \<le> length buf then Some (take n (drop off buf)) else None)"

lemma blit_length: "blit off xs buf = Some buf' \<Longrightarrow> length buf' = length buf"
  by (auto simp: blit_def split: if_splits)

lemma blit_total: "off + length xs \<le> length buf \<Longrightarrow> \<exists>buf'. blit off xs buf = Some buf'"
  by (simp add: blit_def)

lemma blit_nth:
  assumes "blit off xs buf = Some buf'"
  shows "buf' ! i = (if off \<le> i \<and> i < off + length xs then xs ! (i - off) else buf ! i)"
proof -
  consider "i < off" | "off \<le> i" "i < off + length xs" | "off + length xs \<le> i" by linarith
  then show ?thesis
    using assms by cases (auto simp: blit_def nth_append split: if_splits)
qed

lemma peek_nth: "peek off n buf = Some xs \<Longrightarrow> i < n \<Longrightarrow> xs ! i = buf ! (off + i)"
  by (auto simp: peek_def split: if_splits)

lemma peek_length: "peek off n buf = Some xs \<Longrightarrow> length xs = n"
  by (auto simp: peek_def split: if_splits)

text \<open>What was written is read back, and other places keep what they hold.\<close>

lemma peek_blit_same: "blit off xs buf = Some buf' \<Longrightarrow> peek off (length xs) buf' = Some xs"
  by (auto simp: blit_def peek_def split: if_splits)

lemma peek_blit_other:
  assumes b: "blit off xs buf = Some buf'" and d: "i + n \<le> off \<or> off + length xs \<le> i"
  shows "peek i n buf' = peek i n buf"
proof (cases "i + n \<le> length buf")
  case True
  have "take n (drop i buf') = take n (drop i buf)"
    using d True by (intro nth_equalityI) (auto simp: blit_nth[OF b] blit_length[OF b])
  then show ?thesis using blit_length[OF b] by (simp add: peek_def)
next
  case False
  then show ?thesis using blit_length[OF b] by (simp add: peek_def)
qed

lemma blit_commute:
  assumes "p + length xs \<le> q"
  shows "Option.bind (blit p xs buf) (blit q ys) = Option.bind (blit q ys buf) (blit p xs)"
proof (cases "q + length ys \<le> length buf")
  case True
  then obtain b1 b2 where 1: "blit p xs buf = Some b1" and 2: "blit q ys buf = Some b2"
    using assms blit_total[of p xs buf] blit_total[of q ys buf] by auto
  then obtain c1 c2 where c: "blit q ys b1 = Some c1" "blit p xs b2 = Some c2"
    using True assms blit_total[of q ys b1] blit_total[of p xs b2] blit_length[OF 1] blit_length[OF 2] by auto
  have "c1 = c2"
    using assms blit_length[OF 1] blit_length[OF 2] blit_length[OF c(1)] blit_length[OF c(2)]
    by (intro nth_equalityI) (auto simp: blit_nth[OF c(1)] blit_nth[OF c(2)] blit_nth[OF 1] blit_nth[OF 2])
  then show ?thesis using 1 2 c by simp
next
  case False
  then show ?thesis by (cases "blit p xs buf") (auto simp: blit_def split: if_splits)
qed

end
