(* ===== verification/Coding.thy ===== *)
theory Coding
  imports Buffers
begin

text \<open>
  Fixed-width little-endian integers: \<open>src/log/coding.h\<close>.  Both branches of the source (a plain copy on a
  little-endian host, shifts otherwise) give the same bytes.
\<close>

unbundle bit_operations_syntax

definition EncodeFixed32 :: "32 word \<Rightarrow> bytes" where
  "EncodeFixed32 v = [ucast v, ucast (drop_bit 8 v), ucast (drop_bit 16 v), ucast (drop_bit 24 v)]"

definition EncodeFixed64 :: "64 word \<Rightarrow> bytes" where
  "EncodeFixed64 v = [ucast v, ucast (drop_bit 8 v), ucast (drop_bit 16 v), ucast (drop_bit 24 v),
     ucast (drop_bit 32 v), ucast (drop_bit 40 v), ucast (drop_bit 48 v), ucast (drop_bit 56 v)]"

text \<open>Reading past the end of the buffer is \<open>None\<close>.\<close>

fun DecodeFixed32 :: "bytes \<Rightarrow> 32 word option" where
  "DecodeFixed32 (b0 # b1 # b2 # b3 # _) =
     Some (ucast b0 OR push_bit 8 (ucast b1) OR push_bit 16 (ucast b2) OR push_bit 24 (ucast b3))"
| "DecodeFixed32 _ = None"

definition DecodeFixed64 :: "bytes \<Rightarrow> 64 word option" where
  "DecodeFixed64 bs = do {
     lo \<leftarrow> DecodeFixed32 bs; hi \<leftarrow> DecodeFixed32 (drop 4 bs);
     Some (push_bit 32 (ucast hi) OR ucast lo) }"

lemma length_Encode [simp]: "length (EncodeFixed32 v) = 4" "length (EncodeFixed64 w) = 8"
  by (simp_all add: EncodeFixed32_def EncodeFixed64_def)

lemma bytes_of_word32:
  "ucast (ucast v :: 8 word) OR push_bit 8 (ucast (ucast (drop_bit 8 v) :: 8 word)) OR
   push_bit 16 (ucast (ucast (drop_bit 16 v) :: 8 word)) OR push_bit 24 (ucast (ucast (drop_bit 24 v) :: 8 word)) = (v :: 32 word)"
proof (rule bit_word_eqI)
  fix n assume "n < LENGTH(32)"
  then consider "n < 8" | "8 \<le> n" "n < 16" | "16 \<le> n" "n < 24" | "24 \<le> n" "n < 32" by fastforce
  then show "bit (ucast (ucast v :: 8 word) OR push_bit 8 (ucast (ucast (drop_bit 8 v) :: 8 word)) OR
     push_bit 16 (ucast (ucast (drop_bit 16 v) :: 8 word)) OR push_bit 24 (ucast (ucast (drop_bit 24 v) :: 8 word)) :: 32 word) n = bit v n"
    by cases (auto simp: bit_simps)
qed

lemma Decode32_Encode [simp]: "DecodeFixed32 (EncodeFixed32 v @ rest) = Some v"
  by (simp add: EncodeFixed32_def bytes_of_word32)

lemma Decode32_None: "DecodeFixed32 bs = None \<longleftrightarrow> length bs < 4"
  by (cases bs rule: DecodeFixed32.cases) auto

lemma Decode64_Encode [simp]: "DecodeFixed64 (EncodeFixed64 v @ rest) = Some v"
proof -
  have "EncodeFixed64 v = EncodeFixed32 (ucast v) @ EncodeFixed32 (ucast (drop_bit 32 v))"
    by (auto simp: EncodeFixed64_def EncodeFixed32_def bit_simps intro!: bit_word_eqI)
  then have "DecodeFixed64 (EncodeFixed64 v @ rest) =
      Some (push_bit 32 (ucast (ucast (drop_bit 32 v) :: 32 word)) OR ucast (ucast v :: 32 word))"
    by (simp add: DecodeFixed64_def)
  also have "push_bit 32 (ucast (ucast (drop_bit 32 v) :: 32 word)) OR ucast (ucast v :: 32 word) = v"
    by (auto simp: bit_simps intro!: bit_word_eqI)
  finally show ?thesis .
qed

lemma bit_byte [simp]: "8 \<le> n \<Longrightarrow> \<not> bit (b :: 8 word) n"
  by (auto dest: bit_imp_le_length)

text \<open>Encoding what was decoded gives the bytes back: the decoding is injective on four bytes.\<close>

lemma Encode_Decode32: "length bs = 4 \<Longrightarrow> DecodeFixed32 bs = Some v \<Longrightarrow> EncodeFixed32 v = bs"
  by (cases bs rule: DecodeFixed32.cases) (auto simp: EncodeFixed32_def bit_simps intro!: bit_word_eqI)

end
