(* ===== verification/Log_File.thy ===== *)
theory Log_File
  imports Crc32c
begin

text \<open>
  What the log is written to and read from: the status codes (\<open>src/base/status.h\<close>), the writable file
  (\<open>src/log/writable_file.cc\<close>), the sequential file (\<open>src/log/sequential_file.cc\<close>) and the constants of
  the format (\<open>src/log/log_format.h\<close>).  Messages of a status are not modelled, only its code.
\<close>

section \<open>Status codes\<close>

datatype Status = OK | NotFound | Corruption | NotSupported | InvalidArgument | IOError | WaitRecord | Eof
  | InvalidRecord

section \<open>Writable files\<close>

text \<open>
  A stream opened for writing: the bytes on the device, the bytes that the C library holds back in its buffer, the
  counter \<open>wsize_\<close> of the class, how many bytes the device can still take, and whether it can be synchronised.  How
  many of the bytes before it and of its own an \<open>fwrite\<close> leaves in the buffer is the library's choice, \<open>keeps\<close>; the
  others go to the device at once.  When the device cannot take them all, it takes the first ones, the call fails
  and the library drops what it held.
\<close>

record wfile =
  content :: bytes
  unwritten :: bytes
  wsize :: nat
  room :: nat
  syncs :: bool
  keeps :: "nat \<Rightarrow> nat \<Rightarrow> nat"

definition NewWritableFile :: "(nat \<Rightarrow> nat \<Rightarrow> nat) \<Rightarrow> bytes \<Rightarrow> nat \<Rightarrow> wfile" where
  "NewWritableFile k old n = \<lparr>content = old, unwritten = [], wsize = 0, room = n, syncs = True, keeps = k\<rparr>"

text \<open>The first \<open>n\<close> of the bytes \<open>b\<close> are written to the device, the rest stays in the buffer.\<close>

definition drain :: "nat \<Rightarrow> bytes \<Rightarrow> wfile \<Rightarrow> wfile \<times> bool" where
  "drain n b f = (let out = take n b in
     if length out \<le> room f then (f\<lparr>content := content f @ out, room := room f - length out, unwritten := drop n b\<rparr>, True)
     else (f\<lparr>content := content f @ take (room f) out, room := 0, unwritten := []\<rparr>, False))"

definition fwrite :: "bytes \<Rightarrow> wfile \<Rightarrow> wfile \<times> bool" where
  "fwrite data f = (if data = [] then (f, True) else let b = unwritten f @ data in
     drain (length b - keeps f (length (unwritten f)) (length data)) b f)"

definition fflush :: "wfile \<Rightarrow> wfile \<times> bool" where
  "fflush f = drain (length (unwritten f)) (unwritten f) f"

definition Append :: "wfile \<Rightarrow> bytes \<Rightarrow> wfile \<times> Status" where
  "Append f data = (let (f1, ok) = fwrite data f in
     if \<not> ok then (f1, IOError) else (f1\<lparr>wsize := wsize f1 + length data\<rparr>, OK))"

text \<open>\<open>fclose\<close> writes what is held back; the stream is gone whatever the result.\<close>

definition Close :: "wfile \<Rightarrow> wfile \<times> Status" where
  "Close f = (let (f1, ok) = fflush f in (f1\<lparr>unwritten := []\<rparr>, if \<not> ok then IOError else OK))"

definition Flush :: "wfile \<Rightarrow> wfile \<times> Status" where
  "Flush f = (let (f1, ok) = fflush f in (f1, if ok then OK else IOError))"

definition Sync :: "wfile \<Rightarrow> wfile \<times> Status" where
  "Sync f = (let (f1, ok) = fflush f in (f1, if \<not> ok \<or> \<not> syncs f1 then IOError else OK))"

section \<open>Sequential files\<close>

text \<open>
  A stream opened for reading: the bytes of the file, the position, the end-of-file indicator (which a
  later read respects and a seek clears), whether reads fail and whether the stream can be positioned.
\<close>

record sfile =
  bytes_of :: bytes
  pos :: nat
  feof :: bool
  ferror :: bool
  seekable :: bool

definition NewSeqFile :: "bytes \<Rightarrow> sfile" where
  "NewSeqFile bs = \<lparr>bytes_of = bs, pos = 0, feof = False, ferror = False, seekable = True\<rparr>"

definition fread :: "nat \<Rightarrow> sfile \<Rightarrow> sfile \<times> bytes" where
  "fread n f = (if feof f \<or> ferror f then (f, []) else
     let r = take n (drop (pos f) (bytes_of f)) in
     (f\<lparr>pos := pos f + length r, feof := length r < n\<rparr>, r))"

definition Read :: "nat \<Rightarrow> sfile \<Rightarrow> sfile \<times> bytes \<times> Status" where
  "Read n f = (let (f1, r) = fread n f in
     (f1, r, if length r < n \<and> \<not> feof f1 then IOError else OK))"

text \<open>
  \<open>fseek\<close> takes a signed 64-bit offset, to which the unsigned argument of \<open>Skip\<close> and \<open>Seek\<close> is converted; it fails on
  a stream that cannot be positioned and for a position that is negative or has more than 63 bits.
\<close>

definition long_of :: "nat \<Rightarrow> int" where
  "long_of n = sint (of_nat n :: 64 word)"

definition fseek :: "int \<Rightarrow> sfile \<Rightarrow> sfile \<times> bool" where
  "fseek p f = (if seekable f \<and> 0 \<le> p \<and> p < 2 ^ 63 then (f\<lparr>pos := nat p, feof := False\<rparr>, True) else (f, False))"

definition Skip :: "nat \<Rightarrow> sfile \<Rightarrow> sfile \<times> Status" where
  "Skip n f = (let (f1, ok) = fseek (int (pos f) + long_of n) f in (f1, if ok then OK else IOError))"

text \<open>The argument of \<open>Tell\<close> is where the result goes, or null.\<close>

definition Tell :: "nat option \<Rightarrow> sfile \<Rightarrow> nat option \<times> Status" where
  "Tell p f = (if p = None then (p, InvalidArgument) else if \<not> seekable f then (p, IOError) else (Some (pos f), OK))"

definition Seek :: "nat \<Rightarrow> sfile \<Rightarrow> sfile \<times> Status" where
  "Seek n f = (let (f1, ok) = fseek (long_of n) f in (f1, if ok then OK else IOError))"

section \<open>The format\<close>

datatype RecordType = kZeroType | kFullType | kFirstType | kMiddleType | kLastType | kEofType

primrec type_code :: "RecordType \<Rightarrow> nat" where
  "type_code kZeroType = 0"
| "type_code kFullType = 1"
| "type_code kFirstType = 2"
| "type_code kMiddleType = 3"
| "type_code kLastType = 4"
| "type_code kEofType = 5"

datatype CompressType = kNoCompress | kZlib | kSnappy

primrec compress_code :: "CompressType \<Rightarrow> nat" where
  "compress_code kNoCompress = 0"
| "compress_code kZlib = 1"
| "compress_code kSnappy = 2"

definition kMaxRecordType :: nat where "kMaxRecordType = type_code kEofType"
definition kBlockSize :: nat where "kBlockSize = 4 * 1024"
definition kCompressBlockSize :: nat where "kCompressBlockSize = 1 * 1024 * 1024"
definition kHeaderSize :: nat where "kHeaderSize = 4 + 2 + 1"
definition kHeaderSizeForCompress :: nat where "kHeaderSizeForCompress = 4 + 4 + 1"
definition kHeaderSizeOfCompressBlock :: nat where "kHeaderSizeOfCompressBlock = 64"

lemma long_of_small: "n < 2 ^ 63 \<Longrightarrow> long_of n = int n"
  using sint_sbintrunc'[of "int n", where 'a = 64] by (simp add: long_of_def signed_take_bit_int_eq_self)

end
