(* ===== verification/Log_Writer.thy ===== *)
theory Log_Writer
  imports Log_File
begin

text \<open>
  The log writer, \<open>src/log/log_writer.cc\<close>.  The file is a sequence of blocks; a record is cut into
  fragments that each lie in one block, and a fragment has a header with its checksum, length and type.
  With compression a block is collected in \<open>buffer_\<close> and written, compressed, when it is full.

  The compression libraries are the parameter \<open>compress\<close>: the compressed bytes, or \<open>None\<close> for a failure
  code.  \<open>None\<close> as the result of an operation is undefined behaviour: an assertion fails, or bytes are
  read or written outside a buffer.
\<close>

unbundle bit_operations_syntax

record writer =
  dest :: wfile
  block_offset :: nat
  type_crc :: "32 word list"
  compress_type :: CompressType
  block_size :: nat
  header_size :: nat
  wbuffer :: bytes
  compress_buf :: bytes

definition InitTypeCrc :: "32 word list" where
  "InitTypeCrc = map (\<lambda>i. Value 0 [of_nat i]) [0..<kMaxRecordType + 1]"

definition GetCompressType :: "string \<Rightarrow> CompressType" where
  "GetCompressType s = (if s = ''zlib'' then kZlib else if s = ''snappy'' then kSnappy else kNoCompress)"

text \<open>
  Both constructors; the first one is for an empty file.  \<open>buf1\<close> and \<open>buf2\<close> are what the fresh buffers
  hold, used when the type is compressed.
\<close>

definition new_Writer_at :: "string \<Rightarrow> wfile \<Rightarrow> nat \<Rightarrow> bytes \<Rightarrow> bytes \<Rightarrow> writer" where
  "new_Writer_at ct f dest_length buf1 buf2 = (let
     c = GetCompressType ct;
     bs = (if c \<noteq> kNoCompress then kCompressBlockSize else kBlockSize) in
     \<lparr>dest = f, block_offset = dest_length mod bs, type_crc = InitTypeCrc, compress_type = c, block_size = bs,
      header_size = (if c \<noteq> kNoCompress then kHeaderSizeForCompress else kHeaderSize),
      wbuffer = (if c \<noteq> kNoCompress then take bs buf1 else []),
      compress_buf = (if c \<noteq> kNoCompress then take bs buf2 else [])\<rparr>)"

definition new_Writer :: "string \<Rightarrow> wfile \<Rightarrow> bytes \<Rightarrow> bytes \<Rightarrow> writer" where
  "new_Writer ct f buf1 buf2 = (new_Writer_at ct f 0 buf1 buf2)\<lparr>block_offset := 0\<rparr>"

text \<open>
  The block header has the length of the compressed data in four bytes and the type in the fifth.  The
  output of the library has to fit into \<open>compress_buf_\<close>.
\<close>

definition WriteCompressed :: "writer \<Rightarrow> bytes \<Rightarrow> writer \<times> Status" where
  "WriteCompressed w z = (let
     head = EncodeFixed32 (of_nat (length z)) @ [of_nat (compress_code (compress_type w))]
       @ replicate (kHeaderSizeOfCompressBlock - 5) 0;
     (f1, s1) = Append (dest w) head in
     if s1 \<noteq> OK then (w\<lparr>dest := f1\<rparr>, s1)
     else let (f2, s2) = Append f1 z;
              (f3, s3) = (if s2 = OK then Flush f2 else (f2, s2)) in
       (w\<lparr>dest := f3\<rparr>, s3))"

definition CompressRecord :: "(CompressType \<Rightarrow> bytes \<Rightarrow> bytes option) \<Rightarrow> writer \<Rightarrow> (writer \<times> Status) option" where
  "CompressRecord compress w = (
     if compress_type w = kNoCompress then Some (w, InvalidRecord)
     else case compress (compress_type w) (wbuffer w) of
       None \<Rightarrow> Some (w, InvalidRecord)
     | Some z \<Rightarrow> do {
         cb \<leftarrow> blit 0 z (compress_buf w);
         Some (WriteCompressed (w\<lparr>compress_buf := cb\<rparr>) z) })"

text \<open>The literal that fills a trailer has six zeros and its terminator; its write is not checked.\<close>

definition AppendInternal :: "(CompressType \<Rightarrow> bytes \<Rightarrow> bytes option) \<Rightarrow> writer \<Rightarrow> nat \<Rightarrow> (writer \<times> Status) option" where
  "AppendInternal compress w leftover = do {
     fill \<leftarrow> peek 0 leftover (replicate 7 0);
     if compress_type w = kNoCompress then Some (w\<lparr>dest := fst (Append (dest w) fill)\<rparr>, OK)
     else do {
       b \<leftarrow> blit (block_offset w) fill (wbuffer w);
       CompressRecord compress (w\<lparr>wbuffer := b\<rparr>) } }"

definition record_header :: "writer \<Rightarrow> RecordType \<Rightarrow> nat \<Rightarrow> 32 word \<Rightarrow> bytes" where
  "record_header w t n crc = EncodeFixed32 crc @
     (if compress_type w = kNoCompress then [of_nat n, of_nat (drop_bit 8 n), of_nat (type_code t)]
      else [of_nat n, of_nat (drop_bit 8 n), of_nat (drop_bit 16 n), of_nat (drop_bit 24 n), of_nat (type_code t)])"

definition EmitPhysicalRecord ::
    "(CompressType \<Rightarrow> bytes \<Rightarrow> bytes option) \<Rightarrow> writer \<Rightarrow> RecordType \<Rightarrow> bytes \<Rightarrow> (writer \<times> Status) option" where
  "EmitPhysicalRecord compress w t ptr = do {
     let n = length ptr;
     assert_that (if compress_type w = kNoCompress then n \<le> 0xffff else n \<le> 0xffffffff);
     assert_that (block_offset w + header_size w + n \<le> block_size w);
     let crc = Mask (Extend 0 (type_crc w ! type_code t) ptr);
     let buf = record_header w t n crc;
     if compress_type w = kNoCompress then
       let (f1, s1) = Append (dest w) buf;
           (f2, s2) = (if s1 = OK then Append f1 ptr else (f1, s1));
           (f3, s3) = (if s2 = OK then Flush f2 else (f2, s2)) in
       Some (w\<lparr>dest := f3, block_offset := block_offset w + header_size w + n\<rparr>, s3)
     else do {
       b1 \<leftarrow> blit (block_offset w) buf (wbuffer w);
       b2 \<leftarrow> blit (block_offset w + header_size w) ptr b1;
       let off = block_offset w + header_size w + n;
       b3 \<leftarrow> (if t = kEofType then blit off (replicate (block_size w - off) 0) b2 else Some b2);
       let w1 = w\<lparr>wbuffer := b3, block_offset := (if t = kEofType then block_size w else off)\<rparr>;
       if block_offset w1 = block_size w then CompressRecord compress w1 else Some (w1, OK) } }"

text \<open>
  What \<open>AddRecord\<close> and \<open>EndLog\<close> do before each fragment: when the rest of the block has no room for a
  header, fill it and go to the next block.
\<close>

definition SwitchBlock :: "(CompressType \<Rightarrow> bytes \<Rightarrow> bytes option) \<Rightarrow> writer \<Rightarrow> (writer \<times> Status) option" where
  "SwitchBlock compress w = do {
     assert_that (block_offset w \<le> block_size w);
     let leftover = block_size w - block_offset w;
     if leftover < header_size w then do {
       (w1, s) \<leftarrow> (if leftover > 0 then do {
           assert_that (if compress_type w = kNoCompress then header_size w = 7 else header_size w = 9);
           AppendInternal compress w leftover }
         else Some (w, OK));
       if s \<noteq> OK then Some (w1, s) else Some (w1\<lparr>block_offset := 0\<rparr>, OK) }
     else Some (w, OK) }"

definition EndLog :: "(CompressType \<Rightarrow> bytes \<Rightarrow> bytes option) \<Rightarrow> writer \<Rightarrow> (writer \<times> Status) option" where
  "EndLog compress w = do {
     (w1, s) \<leftarrow> SwitchBlock compress w;
     if s \<noteq> OK then Some (w1, s) else EmitPhysicalRecord compress w1 kEofType [] }"

definition fragment_type :: "bool \<Rightarrow> bool \<Rightarrow> RecordType" where
  "fragment_type begin end = (if begin \<and> end then kFullType else if begin then kFirstType
     else if end then kLastType else kMiddleType)"

partial_function (option) AddRecord_loop ::
    "(CompressType \<Rightarrow> bytes \<Rightarrow> bytes option) \<Rightarrow> writer \<Rightarrow> bool \<Rightarrow> bytes \<Rightarrow> (writer \<times> Status) option" where
  "AddRecord_loop compress w begin ptr = do {
     (w1, s1) \<leftarrow> SwitchBlock compress w;
     if s1 \<noteq> OK then Some (w1, s1)
     else do {
       let avail = block_size w1 - block_offset w1 - header_size w1;
       let fragment_length = min (length ptr) avail;
       (w2, s2) \<leftarrow> EmitPhysicalRecord compress w1 (fragment_type begin (length ptr = fragment_length))
         (take fragment_length ptr);
       let left = drop fragment_length ptr;
       if s2 = OK \<and> left \<noteq> [] then AddRecord_loop compress w2 False left else Some (w2, s2) } }"

definition AddRecord :: "(CompressType \<Rightarrow> bytes \<Rightarrow> bytes option) \<Rightarrow> writer \<Rightarrow> bytes \<Rightarrow> (writer \<times> Status) option" where
  "AddRecord compress w data = AddRecord_loop compress w True data"

section \<open>The write handle\<close>

text \<open>
  \<open>WriteHandle\<close> owns the file and the writer; the file is reached through the writer's \<open>dest_\<close>.
\<close>

definition new_WriteHandle :: "string \<Rightarrow> wfile \<Rightarrow> nat \<Rightarrow> bytes \<Rightarrow> bytes \<Rightarrow> writer" where
  "new_WriteHandle ct file dest_length b1 b2 = new_Writer_at ct file dest_length b1 b2"

definition WriteHandle_Write :: "(CompressType \<Rightarrow> bytes \<Rightarrow> bytes option) \<Rightarrow> writer \<Rightarrow> bytes \<Rightarrow> (writer \<times> Status) option" where
  "WriteHandle_Write compress lw data = AddRecord compress lw data"

definition WriteHandle_Sync :: "writer \<Rightarrow> writer \<times> Status" where
  "WriteHandle_Sync lw = (let (f1, s) = Sync (dest lw) in (lw\<lparr>dest := f1\<rparr>, s))"

definition WriteHandle_EndLog :: "(CompressType \<Rightarrow> bytes \<Rightarrow> bytes option) \<Rightarrow> writer \<Rightarrow> (writer \<times> Status) option" where
  "WriteHandle_EndLog compress lw = EndLog compress lw"

definition WriteHandle_GetSize :: "writer \<Rightarrow> nat" where
  "WriteHandle_GetSize lw = wsize (dest lw)"

end
