(* ===== verification/Log_Reader.thy ===== *)
theory Log_Reader
  imports Log_Writer
begin

text \<open>
  The log reader, \<open>src/log/log_reader.cc\<close>: \<open>Reader\<close> reads the records of one file, \<open>LogReader\<close> goes through
  the parts of a log.

  The decompression libraries are the parameter \<open>uncompress\<close>: the bytes of the block, or \<open>None\<close> for a
  failure code.  \<open>None\<close> as the result of an operation is undefined behaviour, as in the writer.
\<close>

unbundle bit_operations_syntax

record reader =
  rfile :: sfile
  reporter :: "(nat \<times> Status) list option"
  checksum :: bool
  backing_store :: bytes
  buffer :: bytes
  last_record_offset :: nat
  last_record_end_offset :: nat
  end_of_buffer_offset :: nat
  last_end_of_buffer_offset :: nat
  initial_offset :: nat
  resyncing :: bool
  compressed :: bool
  rblock_size :: nat
  rheader_size :: nat
  uncompress_buf :: bytes

text \<open>\<open>buf1\<close> and \<open>buf2\<close> are what the fresh buffers hold; a reporter collects what it is told.\<close>

definition new_Reader :: "sfile \<Rightarrow> (nat \<times> Status) list option \<Rightarrow> bool \<Rightarrow> 64 word \<Rightarrow> bool \<Rightarrow> bytes \<Rightarrow> bytes \<Rightarrow> reader" where
  "new_Reader f rep cs offset z buf1 buf2 = (let
     bs = (if z then kCompressBlockSize else kBlockSize) in
     \<lparr>rfile = f, reporter = rep, checksum = cs, backing_store = take bs buf1, buffer = [], last_record_offset = 0,
      last_record_end_offset = 0, end_of_buffer_offset = 0, last_end_of_buffer_offset = 0,
      initial_offset = unat offset, resyncing = (offset > 0), compressed = z, rblock_size = bs,
      rheader_size = (if z then kHeaderSizeForCompress else kHeaderSize),
      uncompress_buf = (if z then take bs buf2 else [])\<rparr>)"

text \<open>The results of \<open>ReadPhysicalRecord\<close> that are not types of records.\<close>

abbreviation kEof :: "32 word" where "kEof \<equiv> 6"
abbreviation kBadRecord :: "32 word" where "kBadRecord \<equiv> 7"
abbreviation kWaitRecord :: "32 word" where "kWaitRecord \<equiv> 8"

text \<open>Subtraction of 64-bit offsets, which wraps around.\<close>

definition sub64 :: "nat \<Rightarrow> nat \<Rightarrow> nat" where
  "sub64 a b = unat (of_nat a - of_nat b :: 64 word)"

definition ReportDrop :: "reader \<Rightarrow> nat \<Rightarrow> Status \<Rightarrow> reader" where
  "ReportDrop r n reason = (case reporter r of
     None \<Rightarrow> r
   | Some l \<Rightarrow> if sub64 (sub64 (end_of_buffer_offset r) (length (buffer r))) n \<ge> initial_offset r
       then r\<lparr>reporter := Some (l @ [(n, reason)])\<rparr> else r)"

definition ReportCorruption :: "reader \<Rightarrow> nat \<Rightarrow> reader" where
  "ReportCorruption r n = ReportDrop r n Corruption"

text \<open>The first block that can hold a record from the initial offset on; the addition wraps around.\<close>

definition initial_block :: "nat \<Rightarrow> nat \<Rightarrow> nat" where
  "initial_block bs offset = (let offset_in_block = offset mod bs; loc = offset - offset_in_block in
     if offset_in_block > bs - 6 then unat (of_nat loc + of_nat bs :: 64 word) else loc)"

definition SkipToInitialBlock :: "reader \<Rightarrow> reader \<times> bool" where
  "SkipToInitialBlock r = (let
     block_start_location = initial_block (rblock_size r) (initial_offset r);
     r1 = r\<lparr>end_of_buffer_offset := block_start_location\<rparr> in
     if block_start_location > 0
     then let (f1, s) = Skip block_start_location (rfile r1); r2 = r1\<lparr>rfile := f1\<rparr> in
       if s \<noteq> OK then (ReportDrop r2 block_start_location s, False) else (r2, True)
     else (r1, True))"

definition GoBackToLastBlock :: "reader \<Rightarrow> reader" where
  "GoBackToLastBlock r = (let
     offset_in_block = last_end_of_buffer_offset r mod rblock_size r;
     block_start_location = (if last_end_of_buffer_offset r > offset_in_block
       then last_end_of_buffer_offset r - offset_in_block else 0) in
     r\<lparr>end_of_buffer_offset := block_start_location, buffer := [],
       rfile := fst (Seek block_start_location (rfile r))\<rparr>)"

definition GoBackToStart :: "reader \<Rightarrow> reader" where
  "GoBackToStart r = r\<lparr>end_of_buffer_offset := 0, buffer := [], rfile := fst (Seek 0 (rfile r))\<rparr>"

section \<open>Physical records\<close>

text \<open>
  Both \<open>Read\<close> calls of the compressed case fill \<open>backing_store_\<close>, and what was in it stays there when they
  return less than they were asked for.  The result is \<open>Inl\<close> of the code to return, or \<open>Inr\<close> of the block.
\<close>

definition read_into :: "nat \<Rightarrow> reader \<Rightarrow> (reader \<times> Status) option" where
  "read_into n r = (let (f1, h, s) = Read n (rfile r) in do {
     store \<leftarrow> blit 0 h (backing_store r);
     Some (r\<lparr>rfile := f1, backing_store := store\<rparr>, s) })"

definition uncompress_block ::
    "(CompressType \<Rightarrow> bytes \<Rightarrow> bytes option) \<Rightarrow> reader \<Rightarrow> nat \<Rightarrow> bytes \<Rightarrow> (32 word + bytes) option" where
  "uncompress_block uncompress r ctype block = (
     if ctype = compress_code kSnappy then (case uncompress kSnappy block of
         None \<Rightarrow> Some (Inl kBadRecord)
       | Some u \<Rightarrow> do {
           assert_that (length u \<le> rblock_size r);
           Some (if length u \<noteq> rblock_size r then Inl kBadRecord else Inr u) })
     else if ctype = compress_code kZlib then (case uncompress kZlib block of
         None \<Rightarrow> Some (Inl kBadRecord)
       | Some u \<Rightarrow> Some (if length u \<noteq> rblock_size r then Inl kBadRecord else Inr u))
     else Some (Inl kBadRecord))"

definition ReadCompressedBlock ::
    "(CompressType \<Rightarrow> bytes \<Rightarrow> bytes option) \<Rightarrow> reader \<Rightarrow> (reader \<times> (32 word + bytes)) option" where
  "ReadCompressedBlock uncompress r = do {
     (r1, s1) \<leftarrow> read_into kHeaderSizeOfCompressBlock r;
     if s1 \<noteq> OK then Some (r1, Inl kWaitRecord)
     else do {
       compress_len \<leftarrow> DecodeFixed32 (backing_store r1);
       ctype \<leftarrow> peek 4 1 (backing_store r1);
       (r2, s2) \<leftarrow> read_into (unat compress_len) r1;
       if s2 \<noteq> OK then Some (r2, Inl kWaitRecord)
       else do {
         block \<leftarrow> peek 0 (unat compress_len) (backing_store r2);
         res \<leftarrow> uncompress_block uncompress r2 (unat (hd ctype)) block;
         Some (case res of Inl t \<Rightarrow> (r2, Inl t) | Inr u \<Rightarrow> (r2\<lparr>uncompress_buf := u\<rparr>, Inr u)) } } }"

text \<open>
  The next block.  \<open>Inl\<close> is the code to return, \<open>Inr\<close> the value of \<open>offset\<close>.
\<close>

definition ReadBlock ::
    "(CompressType \<Rightarrow> bytes \<Rightarrow> bytes option) \<Rightarrow> reader \<Rightarrow> (reader \<times> (32 word + nat)) option" where
  "ReadBlock uncompress r = do {
     let r0 = r\<lparr>buffer := []\<rparr>;
     (r1, s, res) \<leftarrow> (if \<not> compressed r0
       then let (f1, b, s) = Read (rblock_size r0) (rfile r0) in do {
         store \<leftarrow> blit 0 b (backing_store r0);
         Some (r0\<lparr>rfile := f1, backing_store := store\<rparr>, s, Inr b) }
       else do {
         (r1, res) \<leftarrow> ReadCompressedBlock uncompress r0;
         Some (r1, OK, res) });
     case res of
       Inl t \<Rightarrow> Some (r1, Inl t)
     | Inr b \<Rightarrow> do {
         let offset = end_of_buffer_offset r1;
         let r2 = r1\<lparr>buffer := b, end_of_buffer_offset := end_of_buffer_offset r1 + length b\<rparr>;
         if s \<noteq> OK then Some (ReportDrop (r2\<lparr>buffer := []\<rparr>) (rblock_size r2) s, Inl kWaitRecord)
         else if length b < rheader_size r2 then Some (r2, Inl kWaitRecord)
         else Some (r2, Inr offset) } }"

text \<open>
  The fields of a header.  The type is a \<open>char\<close> that is widened to an \<open>unsigned int\<close>; the length has
  two bytes, or four in a compressed file.
\<close>

definition header_type :: "reader \<Rightarrow> 32 word" where
  "header_type r = scast (buffer r ! (if compressed r then 8 else 6))"

definition header_length :: "reader \<Rightarrow> 32 word" where
  "header_length r = (let h = buffer r in
     if \<not> compressed r then ucast (h ! 4) OR push_bit 8 (ucast (h ! 5))
     else ucast (h ! 4) OR push_bit 8 (ucast (h ! 5)) OR push_bit 16 (ucast (h ! 6)) OR push_bit 24 (ucast (h ! 7)))"

definition ParsePhysicalRecord :: "reader \<Rightarrow> bytes \<Rightarrow> (reader \<times> 32 word \<times> bytes) option" where
  "ParsePhysicalRecord r result = do {
     let header = buffer r;
     let type = header_type r;
     let len = header_length r;
     let size = unat (of_nat (rheader_size r) + len);
     if size > length header then Some (r, kWaitRecord, result)
     else do {
       ok \<leftarrow> (if checksum r then do {
           stored \<leftarrow> DecodeFixed32 header;
           body \<leftarrow> peek (if \<not> compressed r then 6 else 8) (unat (1 + len)) header;
           Some (Value 0 body = Unmask stored) } else Some True);
       if \<not> ok then Some (ReportCorruption (r\<lparr>buffer := []\<rparr>) (length header), kBadRecord, result)
       else if type = of_nat (type_code kEofType) \<and> len = 0 then Some (r\<lparr>buffer := []\<rparr>, kEof, result)
       else if type = of_nat (type_code kZeroType) \<and> len = 0 then Some (r\<lparr>buffer := []\<rparr>, kBadRecord, result)
       else do {
         let r1 = r\<lparr>buffer := drop size header\<rparr>;
         if sub64 (sub64 (sub64 (end_of_buffer_offset r1) (length (buffer r1))) (rheader_size r1)) (unat len)
              < initial_offset r1
         then Some (r1, kBadRecord, [])
         else do {
           fragment \<leftarrow> peek (rheader_size r) (unat len) header;
           Some (r1, type, fragment) } } } }"

text \<open>\<open>offset\<close> is 0 when no block was read.\<close>

definition ReadPhysicalRecord ::
    "(CompressType \<Rightarrow> bytes \<Rightarrow> bytes option) \<Rightarrow> reader \<Rightarrow> bytes \<Rightarrow> (reader \<times> 32 word \<times> bytes \<times> nat) option" where
  "ReadPhysicalRecord uncompress r result = do {
     (r1, x) \<leftarrow> (if length (buffer r) < rheader_size r then ReadBlock uncompress r else Some (r, Inr 0));
     case x of
       Inl t \<Rightarrow> Some (r1, t, result, 0)
     | Inr offset \<Rightarrow> do {
         (r2, t, fragment) \<leftarrow> ParsePhysicalRecord r1 result;
         Some (r2, t, fragment, offset) } }"

section \<open>Logical records\<close>

text \<open>What is done with a complete record that started at \<open>prospective\<close>.\<close>

definition record_done :: "reader \<Rightarrow> nat \<Rightarrow> nat \<Rightarrow> reader" where
  "record_done r prospective offset = r\<lparr>last_record_offset := prospective,
     last_record_end_offset := sub64 (end_of_buffer_offset r) (length (buffer r)),
     last_end_of_buffer_offset := (if offset \<noteq> 0 then offset else last_end_of_buffer_offset r)\<rparr>"

text \<open>
  One round of the loop: \<open>Inl\<close> is the result, \<open>Inr\<close> the state to go on with (whether a fragmented record
  was begun, its offset, and the bytes of \<open>scratch\<close>).
\<close>

definition ReadRecord_step :: "reader \<Rightarrow> 32 word \<Rightarrow> bytes \<Rightarrow> nat \<Rightarrow> bool \<Rightarrow> nat \<Rightarrow> bytes \<Rightarrow>
    reader \<times> (Status \<times> bytes + bool \<times> nat \<times> bytes)" where
  "ReadRecord_step r record_type fragment offset in_frag prospective scratch = (let
     physical_record_offset = sub64 (sub64 (sub64 (end_of_buffer_offset r) (length (buffer r))) (rheader_size r))
       (length fragment) in
     if resyncing r \<and> record_type = of_nat (type_code kMiddleType) then (r, Inr (in_frag, prospective, scratch))
     else if resyncing r \<and> record_type = of_nat (type_code kLastType)
       then (r\<lparr>resyncing := False\<rparr>, Inr (in_frag, prospective, scratch))
     else let r1 = r\<lparr>resyncing := False\<rparr> in
     if record_type = of_nat (type_code kFullType)
       then (record_done r1 physical_record_offset offset, Inl (OK, fragment))
     else if record_type = kWaitRecord then (GoBackToLastBlock r1, Inl (WaitRecord, []))
     else if record_type = of_nat (type_code kFirstType)
       then (r1, Inr (True, physical_record_offset, fragment))
     else if record_type = of_nat (type_code kMiddleType)
       then (r1, Inr (in_frag, prospective, if in_frag then scratch @ fragment else scratch))
     else if record_type = of_nat (type_code kLastType)
       then if in_frag then (record_done r1 prospective offset, Inl (OK, scratch @ fragment))
         else (r1, Inr (in_frag, prospective, scratch))
     else if record_type = kEof then (r1, Inl (Eof, []))
     else if record_type = kBadRecord then (r1, Inl (InvalidRecord, []))
     else (ReportCorruption r1 (length fragment + (if in_frag then length scratch else 0)), Inl (InvalidRecord, [])))"

partial_function (option) ReadRecord_loop ::
    "(CompressType \<Rightarrow> bytes \<Rightarrow> bytes option) \<Rightarrow> reader \<Rightarrow> bytes \<Rightarrow> bool \<Rightarrow> nat \<Rightarrow> bytes \<Rightarrow> (reader \<times> Status \<times> bytes) option" where
  "ReadRecord_loop uncompress r fragment in_frag prospective scratch = do {
     (r1, record_type, fragment1, offset) \<leftarrow> ReadPhysicalRecord uncompress r fragment;
     case ReadRecord_step r1 record_type fragment1 offset in_frag prospective scratch of
       (r2, Inl (s, record)) \<Rightarrow> Some (r2, s, record)
     | (r2, Inr (in_frag1, prospective1, scratch1)) \<Rightarrow>
         ReadRecord_loop uncompress r2 fragment1 in_frag1 prospective1 scratch1 }"

definition ReadRecord :: "(CompressType \<Rightarrow> bytes \<Rightarrow> bytes option) \<Rightarrow> reader \<Rightarrow> (reader \<times> Status \<times> bytes) option" where
  "ReadRecord uncompress r = (
     let (r1, ok) = (if last_record_offset r < initial_offset r then SkipToInitialBlock r else (r, True)) in
     if \<not> ok then Some (r1, IOError, []) else ReadRecord_loop uncompress r1 [] False 0 [])"

section \<open>Reading a log of several parts\<close>

text \<open>
  \<open>logs_\<close> is a skip list from the index of a part to the first offset in it; its entries are listed here in
  the order its iterator visits them, with the greatest index first.  \<open>open_part\<close> is the file
  system: the bytes of the file of a part, if it can be opened.
\<close>

record log_reader =
  log_part_index :: int
  start_offset :: nat
  cur_reader :: "reader option"
  logs :: "(nat \<times> nat) list"
  lr_compressed :: bool

definition new_LogReader :: "(nat \<times> nat) list \<Rightarrow> bool \<Rightarrow> log_reader" where
  "new_LogReader parts z = \<lparr>log_part_index = -1, start_offset = 0, cur_reader = None, logs = parts, lr_compressed = z\<rparr>"

definition SetOffset :: "nat \<Rightarrow> log_reader \<Rightarrow> log_reader" where
  "SetOffset off lr = lr\<lparr>start_offset := off\<rparr>"

definition LogReader_GoBackToLastBlock :: "log_reader \<Rightarrow> log_reader" where
  "LogReader_GoBackToLastBlock lr = lr\<lparr>cur_reader := map_option GoBackToLastBlock (cur_reader lr)\<rparr>"

definition LogReader_GoBackToStart :: "log_reader \<Rightarrow> log_reader" where
  "LogReader_GoBackToStart lr = lr\<lparr>cur_reader := map_option GoBackToStart (cur_reader lr)\<rparr>"

definition GetLastRecordEndOffset :: "log_reader \<Rightarrow> nat" where
  "GetLastRecordEndOffset lr = (case cur_reader lr of None \<Rightarrow> 0 | Some r \<Rightarrow> last_record_end_offset r)"

definition GetEndLogIndex :: "log_reader \<Rightarrow> int" where
  "GetEndLogIndex lr = (case logs lr of [] \<Rightarrow> -1 | (i, _) # _ \<Rightarrow> int i)"

fun first_part :: "nat \<Rightarrow> (nat \<times> nat) list \<Rightarrow> int" where
  "first_part start [] = -1"
| "first_part start ((i, off) # ps) = (if off \<le> start then int i else first_part start ps)"

fun next_part :: "nat \<Rightarrow> (nat \<times> nat) list \<Rightarrow> int" where
  "next_part cur [] = -1"
| "next_part cur ((i, _) # ps) = (
     if i = cur + 1 then int i
     else if i = cur then -1
     else case ps of
       [] \<Rightarrow> -1
     | (j, _) # _ \<Rightarrow> if j \<le> cur \<and> i > cur then int i else next_part cur ps)"

definition RollRLogFile :: "(nat \<Rightarrow> bytes option) \<Rightarrow> bool \<Rightarrow> log_reader \<Rightarrow> bytes \<Rightarrow> bytes \<Rightarrow> log_reader \<times> int" where
  "RollRLogFile open_part enable_crc lr buf1 buf2 = (
     if logs lr = [] then (lr, -1)
     else let index = (if log_part_index lr < 0 then first_part (start_offset lr) (logs lr)
         else next_part (nat (log_part_index lr)) (logs lr)) in
       if index \<ge> 0 then (case open_part (nat index) of
           None \<Rightarrow> (lr, -1)
         | Some bs \<Rightarrow> (lr\<lparr>cur_reader := Some (new_Reader (NewSeqFile bs) None enable_crc 0 (lr_compressed lr) buf1 buf2),
             log_part_index := index\<rparr>, 0))
       else (lr, -1))"

definition ReadNextRecord ::
    "(CompressType \<Rightarrow> bytes \<Rightarrow> bytes option) \<Rightarrow> (nat \<Rightarrow> bytes option) \<Rightarrow> bool \<Rightarrow> log_reader \<Rightarrow> bytes \<Rightarrow> bytes \<Rightarrow>
      (log_reader \<times> Status \<times> bytes) option" where
  "ReadNextRecord uncompress open_part enable_crc lr buf1 buf2 = (
     let (lr1, rc) = (if cur_reader lr = None then RollRLogFile open_part enable_crc lr buf1 buf2 else (lr, 0)) in
     if rc < 0 then Some (lr1, WaitRecord, [])
     else do {
       r \<leftarrow> cur_reader lr1;
       (r1, s, record) \<leftarrow> ReadRecord uncompress r;
       let lr2 = lr1\<lparr>cur_reader := Some r1\<rparr>;
       if s = Eof then Some (fst (RollRLogFile open_part enable_crc lr2 buf1 buf2), Eof, record)
       else Some (lr2, s, record) })"

end
