(* ===== verification/Log_Layout.thy ===== *)
theory Log_Layout
  imports Log_Reader
begin

text \<open>
  The bytes of a log: where its physical records lie, and that the writer produces exactly this layout.
  \<open>z\<close> tells whether the log is compressed, which decides the size of a block and of a header.
\<close>

unbundle bit_operations_syntax

definition bsz :: "bool \<Rightarrow> nat" where "bsz z = (if z then kCompressBlockSize else kBlockSize)"
definition hsz :: "bool \<Rightarrow> nat" where "hsz z = (if z then kHeaderSizeForCompress else kHeaderSize)"

lemmas format_defs = kBlockSize_def kCompressBlockSize_def kHeaderSize_def kHeaderSizeForCompress_def

lemma sizes [simp]: "hsz z < bsz z" "0 < bsz z" "0 < hsz z" "0 < kBlockSize" "0 < kCompressBlockSize" "bsz z \<le> 2 ^ 20"
  "\<not> bsz z < hsz z" "hsz z \<le> bsz z" "bsz z \<noteq> hsz z" "hsz z \<noteq> bsz z" "hsz z \<noteq> 0"
  by (auto simp: bsz_def hsz_def format_defs)

lemma sizes_False: "bsz False = 4096" "hsz False = 7"
  by (simp_all add: bsz_def hsz_def format_defs)

section \<open>Layout\<close>

definition length_bytes :: "bool \<Rightarrow> nat \<Rightarrow> bytes" where
  "length_bytes z n = (if \<not> z then [of_nat n, of_nat (drop_bit 8 n)]
     else [of_nat n, of_nat (drop_bit 8 n), of_nat (drop_bit 16 n), of_nat (drop_bit 24 n)])"

definition phys :: "bool \<Rightarrow> RecordType \<Rightarrow> bytes \<Rightarrow> bytes" where
  "phys z t p = EncodeFixed32 (Mask (Value 0 (of_nat (type_code t) # p))) @ length_bytes z (length p)
     @ [of_nat (type_code t)] @ p"

text \<open>The trailer before a physical record at \<open>c\<close>: what is left of the block if it has no room for a header.\<close>

definition pad :: "bool \<Rightarrow> nat \<Rightarrow> nat" where
  "pad z c = (if bsz z - c mod bsz z < hsz z then bsz z - c mod bsz z else 0)"

fun enc :: "bool \<Rightarrow> nat \<Rightarrow> (RecordType \<times> bytes) list \<Rightarrow> bytes" where
  "enc z c [] = []"
| "enc z c ((t, p) # prs) = replicate (pad z c) 0 @ phys z t p @ enc z (c + pad z c + hsz z + length p) prs"

fun fits :: "bool \<Rightarrow> nat \<Rightarrow> (RecordType \<times> bytes) list \<Rightarrow> bool" where
  "fits z c [] \<longleftrightarrow> True"
| "fits z c ((t, p) # prs) \<longleftrightarrow> (c + pad z c) mod bsz z + hsz z + length p \<le> bsz z \<and>
     fits z (c + pad z c + hsz z + length p) prs"

text \<open>The length of the next fragment of \<open>data\<close>, and the fragments of it.\<close>

definition frag_len :: "bool \<Rightarrow> nat \<Rightarrow> bytes \<Rightarrow> nat" where
  "frag_len z c data = min (length data) (bsz z - (c + pad z c) mod bsz z - hsz z)"

function frags :: "bool \<Rightarrow> nat \<Rightarrow> bool \<Rightarrow> bytes \<Rightarrow> (RecordType \<times> bytes) list" where
  "frags z c begin data = (let n = frag_len z c data in
     (fragment_type begin (length data = n), take n data) #
     (if length data = n then [] else frags z (c + pad z c + hsz z + n) False (drop n data)))"
  by auto

lemma length_phys [simp]: "length (phys z t p) = hsz z + length p"
  by (simp add: phys_def length_bytes_def hsz_def format_defs)

lemma pad_cases:
  obtains (trailer) "bsz z - c mod bsz z < hsz z" "pad z c = bsz z - c mod bsz z" "(c + pad z c) mod bsz z = 0"
  | (inside) "hsz z \<le> bsz z - c mod bsz z" "pad z c = 0"
proof (cases "bsz z - c mod bsz z < hsz z")
  case True
  have "c + (bsz z - c mod bsz z) = bsz z * (c div bsz z) + bsz z"
    using mod_less_divisor[OF sizes(2), of c z] mult_div_mod_eq[of "bsz z" c] by linarith
  then have "(c + (bsz z - c mod bsz z)) mod bsz z = 0" by simp
  then show ?thesis using True that(1) by (simp add: pad_def)
next
  case False
  then show ?thesis using that(2) by (simp add: pad_def)
qed

lemma pad_mod: "(c + pad z c) mod bsz z + hsz z \<le> bsz z"
proof (cases rule: pad_cases[of z c])
  case trailer
  then show ?thesis by simp
next
  case inside
  then show ?thesis using mod_less_divisor[OF sizes(2), of c z] unfolding inside(2) add_0_right by linarith
qed

lemma pad_aligned: "c mod bsz z = 0 \<Longrightarrow> pad z c = 0"
  by (simp add: pad_def)

lemma frag_len_le: "frag_len z c d \<le> length d"
  by (simp add: frag_len_def)

lemma frag_len_min [simp]: "min (length d) (frag_len z c d) = frag_len z c d"
  by (simp add: frag_len_def)

lemma frag_len_fits: "(c + pad z c) mod bsz z + hsz z + frag_len z c d \<le> bsz z"
  using pad_mod[of c z] by (auto simp: frag_len_def)

lemma frag_len_0:
  assumes "frag_len z c d = 0" "d \<noteq> []"
  shows "(c + pad z c) mod bsz z + hsz z = bsz z" "(c + pad z c + hsz z) mod bsz z = 0"
proof -
  show m: "(c + pad z c) mod bsz z + hsz z = bsz z" using assms pad_mod[of c z] by (auto simp: frag_len_def min_def split: if_splits)
  have "(c + pad z c + hsz z) mod bsz z = ((c + pad z c) mod bsz z + hsz z) mod bsz z" by (simp add: mod_add_left_eq)
  then show "(c + pad z c + hsz z) mod bsz z = 0" unfolding m by simp
qed

termination frags
proof (relation "measures [\<lambda>(z, c, b, d). length d, \<lambda>(z, c, b, d). if (c + pad z c) mod bsz z + hsz z = bsz z then 1 else 0]",
    simp, goal_cases)
  case (1 z c b d n)
  show ?case
  proof (cases "n = 0")
    case True
    then have d: "d \<noteq> []" "frag_len z c d = 0" using 1 by auto
    then show ?thesis using True frag_len_0[OF d(2,1)] by (simp add: pad_aligned)
  next
    case False
    then show ?thesis using 1 frag_len_le[of z c d] by auto
  qed
qed

declare frags.simps [simp del]

lemma enc_append: "enc z c (a @ b) = enc z c a @ enc z (c + length (enc z c a)) b"
  by (induction z c a rule: enc.induct) (simp_all add: add.assoc)

lemma fits_append: "fits z c (a @ b) \<longleftrightarrow> fits z c a \<and> fits z (c + length (enc z c a)) b"
  by (induction z c a rule: enc.induct) (simp_all add: add.assoc)

lemma frags_unfold:
  "frags z c b d = (fragment_type b (length d = frag_len z c d), take (frag_len z c d) d) #
     (if length d = frag_len z c d then []
      else frags z (c + pad z c + hsz z + frag_len z c d) False (drop (frag_len z c d) d))"
  by (subst frags.simps) (simp add: Let_def)

lemma frags_fits: "fits z c (frags z c b d)"
proof (induction z c b d rule: frags.induct)
  case (1 z c b d)
  then show ?case using frag_len_fits[of c z d] by (subst frags_unfold) (simp add: frag_len_le min_absorb2)
qed

text \<open>A logical record is one full fragment, or a first, middle ones and a last.\<close>

fun continues :: "bytes \<Rightarrow> (RecordType \<times> bytes) list \<Rightarrow> bool" where
  "continues d [] \<longleftrightarrow> False"
| "continues d [(t, p)] \<longleftrightarrow> t = kLastType \<and> p = d"
| "continues d ((t, p) # prs) \<longleftrightarrow> t = kMiddleType \<and> (\<exists>d'. d = p @ d' \<and> continues d' prs)"

definition is_record :: "bytes \<Rightarrow> (RecordType \<times> bytes) list \<Rightarrow> bool" where
  "is_record d prs \<longleftrightarrow> prs = [(kFullType, d)] \<or> (\<exists>p d' rest. prs = (kFirstType, p) # rest \<and> d = p @ d' \<and> continues d' rest)"

lemma continues_Cons:
  "prs \<noteq> [] \<Longrightarrow> continues d ((t, p) # prs) \<longleftrightarrow> t = kMiddleType \<and> (\<exists>d'. d = p @ d' \<and> continues d' prs)"
  by (cases prs) auto

lemma frags_ne [simp]: "frags z c b d \<noteq> []"
  by (subst frags_unfold) simp

lemma frags_continues: "\<not> b \<Longrightarrow> continues d (frags z c b d)"
proof (induction z c b d rule: frags.induct)
  case (1 z c b d)
  then show ?case
    by (subst frags_unfold) (auto simp: fragment_type_def continues_Cons intro!: exI[of _ "drop (frag_len z c d) d"])
qed

lemma frags_record: "is_record d (frags z c True d)"
  by (subst frags_unfold)
    (auto simp: fragment_type_def is_record_def frags_continues intro!: exI[of _ "drop (frag_len z c d) d"])

end
