(* ===== verification/Log_Written.thy ===== *)
theory Log_Written
  imports Log_Layout
begin

text \<open>
  The writer produces the layout: what each operation of an uncompressed log appends to the file, also
  when the file cannot take all of it.
\<close>

section \<open>Appending to a file\<close>

text \<open>
  What the device has once the buffered bytes are written as far as it can take them, and how much it can take after
  that.  Whatever the library keeps back, handing \<open>E\<close> to a stream adds the first bytes of \<open>E\<close> that find room.
\<close>

definition flushed :: "wfile \<Rightarrow> bytes" where
  "flushed f = content f @ take (room f) (unwritten f)"

definition spare :: "wfile \<Rightarrow> nat" where
  "spare f = room f - length (unwritten f)"

definition handed :: "wfile \<Rightarrow> bytes \<Rightarrow> wfile \<Rightarrow> bool" where
  "handed f E f' \<longleftrightarrow> flushed f' = flushed f @ take (spare f) E \<and> spare f' = spare f - length E \<and>
     (length E \<le> spare f \<longrightarrow> wsize f' = wsize f + length E)"

lemma drain_flushed:
  assumes "drain n b f = (f', ok)"
  shows "flushed f' = content f @ take (room f) b" "spare f' = room f - length b" "wsize f' = wsize f"
    "length (unwritten f') \<le> room f' \<longleftrightarrow> ok \<longrightarrow> length b \<le> room f" "ok \<or> room f < length b \<and> unwritten f' = []"
proof -
  have "take n b @ take (m - n) (drop n b) = take m b" if "n \<le> m" for m using that by (metis le_add_diff_inverse take_add)
  then show "flushed f' = content f @ take (room f) b" "spare f' = room f - length b" "wsize f' = wsize f"
    "length (unwritten f') \<le> room f' \<longleftrightarrow> ok \<longrightarrow> length b \<le> room f" "ok \<or> room f < length b \<and> unwritten f' = []"
    using assms by (auto simp: drain_def flushed_def spare_def Let_def min_def split: if_splits)
qed

text \<open>A write that fails leaves nothing in the buffer; one that does not may have left more than the device can take.\<close>

lemma Append_handed:
  assumes "Append f E = (f', s)"
  shows "handed f E f'" "s = OK \<or> s = IOError \<and> spare f < length E \<and> unwritten f' = []"
    "s = OK \<Longrightarrow> E \<noteq> [] \<Longrightarrow> length (unwritten f') \<le> room f' \<longleftrightarrow> length E \<le> spare f"
proof -
  have "handed f E f' \<and> (s = OK \<or> s = IOError \<and> spare f < length E \<and> unwritten f' = []) \<and>
      (s = OK \<longrightarrow> E \<noteq> [] \<longrightarrow> (length (unwritten f') \<le> room f' \<longleftrightarrow> length E \<le> spare f))"
  proof (cases "E = []")
    case True
    then show ?thesis using assms by (auto simp: Append_def fwrite_def handed_def flushed_def spare_def)
  next
    case False
    then obtain f1 ok n where d: "drain n (unwritten f @ E) f = (f1, ok)" and f': "f' = (if ok then f1\<lparr>wsize := wsize f1 + length E\<rparr> else f1)"
        and s: "s = (if ok then OK else IOError)"
      using assms by (auto simp: Append_def fwrite_def Let_def split: prod.splits if_splits)
    have "flushed f' = flushed f1" "spare f' = spare f1" "unwritten f' = unwritten f1" "room f' = room f1" by (simp_all add: f' flushed_def spare_def)
    moreover have "length E \<le> room f - length (unwritten f) \<longleftrightarrow> length (unwritten f) + length E \<le> room f" using False by (cases E) auto
    ultimately show ?thesis using drain_flushed[OF d] s f' False by (auto simp: handed_def flushed_def[of f] spare_def[of f])
  qed
  then show "handed f E f'" "s = OK \<or> s = IOError \<and> spare f < length E \<and> unwritten f' = []"
    "s = OK \<Longrightarrow> E \<noteq> [] \<Longrightarrow> length (unwritten f') \<le> room f' \<longleftrightarrow> length E \<le> spare f" by blast+
qed

lemma Flush_flushed:
  assumes "Flush f = (f', s)"
  shows "flushed f' = flushed f" "spare f' = spare f" "wsize f' = wsize f" "unwritten f' = []"
    "s = (if length (unwritten f) \<le> room f then OK else IOError)"
  using assms by (auto simp: Flush_def fflush_def drain_def flushed_def spare_def Let_def split: if_splits)

lemma handed_trans:
  assumes "handed f E f1" "handed f1 E' f2" 
  shows "handed f (E @ E') f2"
  using assms by (auto simp: handed_def)

text \<open>\<open>f'\<close> and \<open>s\<close> are what is left and reported when \<open>E\<close> is written to \<open>f\<close> and flushed.\<close>

definition wrote :: "wfile \<Rightarrow> bytes \<Rightarrow> wfile \<Rightarrow> Status \<Rightarrow> bool" where
  "wrote f E f' s \<longleftrightarrow> handed f E f' \<and> unwritten f' = [] \<and> s = (if length E \<le> spare f then OK else IOError)"

lemma wrote_refl: "unwritten f = [] \<Longrightarrow> wrote f [] f OK"
  by (simp add: wrote_def handed_def)

lemma wrote_trans:
  assumes "wrote f E f1 OK" "wrote f1 E' f2 s"
  shows "wrote f (E @ E') f2 s"
  using assms by (auto simp: wrote_def handed_def split: if_splits)

lemma wrote_stop:
  assumes "wrote f E f1 s" "s \<noteq> OK"
  shows "wrote f (E @ E') f1 s"
  using assms by (auto simp: wrote_def handed_def split: if_splits)

text \<open>An unchecked write that failed makes the next write of at least a byte fail.\<close>

lemma wrote_unchecked:
  assumes "handed f E f1" "wrote f1 E' f2 s" "E' \<noteq> []"
  shows "wrote f (E @ E') f2 s"
  using assms by (cases "length E \<le> spare f") (auto simp: wrote_def handed_def split: if_splits)

lemma wrote_full:
  assumes "wrote f E f' OK" "unwritten f = []"
  shows "content f' = content f @ E" "length E \<le> room f" "unwritten f' = []" "room f' = room f - length E"
  using assms by (auto simp: wrote_def handed_def flushed_def spare_def split: if_splits)

lemma wrote_fits:
  assumes "wrote f E f' s" "unwritten f = []" "length E \<le> room f"
  shows "s = OK" "content f' = content f @ E" "room f' = room f - length E"
  using assms by (auto simp: wrote_def handed_def flushed_def spare_def)

text \<open>A header, a payload and a flush, each only if what is before it did not fail.\<close>

lemma flush_wrote:
  assumes a1: "Append f h = (f1, s1)" and a2: "(if s1 = OK then Append f1 p else (f1, s1)) = (f2, s2)"
    and a3: "(if s2 = OK then Flush f2 else (f2, s2)) = (f3, s3)" and h: "h \<noteq> []"
  shows "wrote f (h @ p) f3 s3"
proof (cases "s1 = OK")
  case False
  then have e: "f3 = f1" "s3 = s1" using a2 a3 by auto
  have "wrote f h f1 s1" using Append_handed(1,2)[OF a1] False by (auto simp: wrote_def)
  then show ?thesis unfolding e using False by (rule wrote_stop)
next
  case 1: True
  then have ap: "Append f1 p = (f2, s2)" using a2 by simp
  note H = Append_handed(1)[OF a1] Append_handed(1)[OF ap]
  show ?thesis
  proof (cases "s2 = OK")
    case False
    then have e: "f3 = f2" "s3 = s2" using a3 by auto
    have "s2 = IOError" "unwritten f2 = []" "spare f1 < length p" using Append_handed(2)[OF ap] False by auto
    then show ?thesis unfolding e using handed_trans[OF H] H(1) by (auto simp: wrote_def handed_def)
  next
    case 2: True
    then have fl: "Flush f2 = (f3, s3)" using a3 by simp
    note F = Flush_flushed[OF fl]
    have "length (unwritten f2) \<le> room f2 \<longleftrightarrow> length (h @ p) \<le> spare f"
    proof (cases "p = []")
      case True
      then have "unwritten f2 = unwritten f1" "room f2 = room f1" using ap by (auto simp: Append_def fwrite_def)
      then show ?thesis using Append_handed(3)[OF a1 1 h] True by simp
    next
      case False
      then have "length p \<le> spare f - length h \<longleftrightarrow> length (h @ p) \<le> spare f" by (cases p) auto
      moreover have "spare f1 = spare f - length h" using H(1) by (simp add: handed_def)
      ultimately show ?thesis using Append_handed(3)[OF ap 2 False] by simp
    qed
    moreover have "handed f (h @ p) f3" using handed_trans[OF H] F(1-3) by (simp add: handed_def)
    ultimately show ?thesis using F(4,5) by (simp add: wrote_def)
  qed
qed

section \<open>The operations of an uncompressed log\<close>

definition plain :: "writer \<Rightarrow> bool" where
  "plain w \<longleftrightarrow> compress_type w = kNoCompress \<and> block_size w = bsz False \<and> header_size w = hsz False \<and>
     type_crc w = InitTypeCrc"

definition at_end :: "writer \<Rightarrow> bool" where
  "at_end w \<longleftrightarrow> plain w \<and> block_offset w \<le> bsz False \<and> unwritten (dest w) = [] \<and>
     block_offset w mod bsz False = length (content (dest w)) mod bsz False"

lemma at_end_new:
  assumes "GetCompressType ct = kNoCompress" "n = length (content f)" "unwritten f = []"
  shows "at_end (new_Writer_at ct f n buf1 buf2)"
  using assms mod_less_divisor[of kBlockSize]
  by (auto simp: at_end_def plain_def new_Writer_at_def bsz_def hsz_def Let_def intro: less_imp_le)

lemma type_crc_nth: "InitTypeCrc ! type_code t = Value 0 [of_nat (type_code t)]"
proof -
  have "type_code t < kMaxRecordType + 1" by (cases t) (simp_all add: kMaxRecordType_def)
  then show ?thesis unfolding InitTypeCrc_def by (simp del: upt_Suc)
qed

lemma Extend_type: "Extend 0 (Value 0 [x]) p = Value 0 (x # p)"
  unfolding Value_def using Extend_append[of 0 0 "[x]" p 0 0] by simp

lemma Emit_wrote:
  assumes "plain w" "block_offset w + hsz False + length p \<le> bsz False"
  shows "\<exists>f s. EmitPhysicalRecord cmp w t p = Some (w\<lparr>dest := f, block_offset := block_offset w + hsz False + length p\<rparr>, s) \<and>
    wrote (dest w) (phys False t p) f s"
proof -
  let ?h = "record_header w t (length p) (Mask (Value 0 (of_nat (type_code t) # p)))"
  have h: "phys False t p = ?h @ p" using assms(1) by (simp add: phys_def record_header_def length_bytes_def plain_def)
  obtain f1 s1 where a1: "Append (dest w) ?h = (f1, s1)" by fastforce
  obtain f2 s2 where a2: "(if s1 = OK then Append f1 p else (f1, s1)) = (f2, s2)" by fastforce
  obtain f3 s3 where a3: "(if s2 = OK then Flush f2 else (f2, s2)) = (f3, s3)" by fastforce
  have "?h \<noteq> []" by (simp add: record_header_def)
  then have "wrote (dest w) (?h @ p) f3 s3" by (rule flush_wrote[OF a1 a2 a3])
  moreover have "length p \<le> 0xffff" using assms(2) by (simp add: sizes_False)
  ultimately show ?thesis
    using assms a1 a2 a3 by (auto simp: EmitPhysicalRecord_def plain_def Let_def type_crc_nth Extend_type h)
qed

lemma Switch_wrote:
  assumes "at_end w"
  shows "\<exists>f. SwitchBlock cmp w = Some (w\<lparr>dest := f,
      block_offset := (length (content (dest w)) + pad False (length (content (dest w)))) mod bsz False\<rparr>, OK) \<and>
    handed (dest w) (replicate (pad False (length (content (dest w)))) 0) f"
proof -
  let ?c = "length (content (dest w))" let ?o = "block_offset w"
  have o: "?o \<le> bsz False" "?o mod bsz False = ?c mod bsz False" and p: "plain w"
    using assms by (auto simp: at_end_def)
  consider "?o = bsz False" | "?o < bsz False" using o by linarith
  then show ?thesis
  proof cases
    case 1
    then have "?c mod bsz False = 0" "pad False ?c = 0" using o by (simp_all add: pad_aligned)
    then show ?thesis using 1 p by (intro exI[of _ "dest w"]) (simp add: SwitchBlock_def plain_def handed_def)
  next
    case 2
    then have m: "?c mod bsz False = ?o" using o by simp
    show ?thesis
    proof (cases rule: pad_cases[of False ?c])
      case trailer
      have "peek 0 (bsz False - ?o) (replicate 7 0 :: bytes) = Some (replicate (bsz False - ?o) 0)"
        using trailer(1) m by (simp add: peek_def sizes_False min_absorb1)
      moreover obtain f s where "Append (dest w) (replicate (bsz False - ?o) 0) = (f, s)" by fastforce
      ultimately show ?thesis using trailer m p 2 Append_handed(1)
        by (intro exI[of _ f]) (simp add: SwitchBlock_def AppendInternal_def plain_def sizes_False)
    next
      case inside
      then show ?thesis using 2 p m
        by (intro exI[of _ "dest w"]) (simp add: SwitchBlock_def plain_def handed_def)
    qed
  qed
qed

text \<open>One fragment, with the trailer before it.\<close>

lemma fragment_wrote:
  assumes w: "at_end w" and c: "c = length (content (dest w))"
    and fit: "(c + pad False c) mod bsz False + hsz False + length p \<le> bsz False"
  obtains w1 w2 s where "SwitchBlock cmp w = Some (w1, OK)" "plain w1" "block_offset w1 = (c + pad False c) mod bsz False"
    "EmitPhysicalRecord cmp w1 t p = Some (w2, s)"
    "wrote (dest w) (enc False c [(t, p)]) (dest w2) s" "s = OK \<Longrightarrow> at_end w2"
proof -
  let ?o = "(c + pad False c) mod bsz False"
  obtain f1 where sw: "SwitchBlock cmp w = Some (w\<lparr>dest := f1, block_offset := ?o\<rparr>, OK)"
    and w1: "handed (dest w) (replicate (pad False c) 0) f1"
    using Switch_wrote[OF w, of cmp] c by blast
  have pl: "plain (w\<lparr>dest := f1, block_offset := ?o\<rparr>)" using w by (simp add: at_end_def plain_def)
  obtain f2 s2 where em: "EmitPhysicalRecord cmp (w\<lparr>dest := f1, block_offset := ?o\<rparr>) t p =
      Some (w\<lparr>dest := f2, block_offset := ?o + hsz False + length p\<rparr>, s2)" and w2: "wrote f1 (phys False t p) f2 s2"
    using Emit_wrote[OF pl, of p cmp t] fit by auto
  have "phys False t p \<noteq> []" using length_phys[of False t p] by (metis sizes(3) add_gr_0 length_greater_0_conv)
  then have wr: "wrote (dest w) (enc False c [(t, p)]) f2 s2" using wrote_unchecked[OF w1 w2] by simp
  have "at_end (w\<lparr>dest := f2, block_offset := ?o + hsz False + length p\<rparr>)" if "s2 = OK"
  proof -
    have "length (content f2) = c + pad False c + (hsz False + length p)" "unwritten f2 = []"
      using wrote_full[of "dest w" _ f2] wr that c w by (simp_all add: at_end_def)
    then show ?thesis using pl fit by (simp add: at_end_def plain_def add.assoc mod_add_left_eq)
  qed
  then show ?thesis using that[OF sw pl _ em] wr by simp
qed

lemma AddRecord_loop_wrote:
  assumes "at_end w" "c = length (content (dest w))"
  shows "\<exists>w' s. AddRecord_loop cmp w b d = Some (w', s) \<and>
    wrote (dest w) (enc False c (frags False c b d)) (dest w') s \<and> (s = OK \<longrightarrow> at_end w')"
  using assms
proof (induction "False" c b d arbitrary: w rule: frags.induct)
  case (1 c b d)
  let ?n = "frag_len False c d" let ?t = "fragment_type b (length d = ?n)"
  have len: "length (take ?n d) = ?n" using frag_len_le[of False c d] by simp
  obtain w1 w2 s where sw: "SwitchBlock cmp w = Some (w1, OK)" "plain w1" "block_offset w1 = (c + pad False c) mod bsz False"
    and em: "EmitPhysicalRecord cmp w1 ?t (take ?n d) = Some (w2, s)"
    and wr: "wrote (dest w) (enc False c [(?t, take ?n d)]) (dest w2) s" and e: "s = OK \<Longrightarrow> at_end w2"
    using fragment_wrote[OF 1(2,3), of "take ?n d" cmp ?t] frag_len_fits[of c False d] unfolding len by blast
  have n: "min (length d) (block_size w1 - block_offset w1 - header_size w1) = ?n"
    using sw by (simp add: frag_len_def plain_def)
  have loop: "AddRecord_loop cmp w b d = (if s = OK \<and> drop ?n d \<noteq> [] then AddRecord_loop cmp w2 False (drop ?n d) else Some (w2, s))"
    by (subst AddRecord_loop.simps) (simp add: sw(1) n em Let_def del: diff_diff_left drop_eq_Nil drop_eq_Nil2)
  have un: "enc False c (frags False c b d) = enc False c [(?t, take ?n d)] @
      (if length d = ?n then [] else enc False (c + pad False c + hsz False + ?n) (frags False (c + pad False c + hsz False + ?n) False (drop ?n d)))"
    by (subst frags_unfold) (simp add: len)
  show ?case
  proof (cases "s = OK \<and> length d \<noteq> ?n")
    case True
    then have "length (content (dest w2)) = c + pad False c + hsz False + ?n"
      using wrote_full(1)[of "dest w" _ "dest w2"] wr 1(2,3) len by (simp add: at_end_def)
    moreover have "drop ?n d \<noteq> []" using True frag_len_le[of False c d] by auto
    ultimately show ?thesis
      using 1(1)[OF refl _ e] True wr unfolding loop un by (auto dest: wrote_trans)
  next
    case False
    then show ?thesis using wr e wrote_stop[OF wr] unfolding loop un by (auto simp del: enc.simps)
  qed
qed

lemmas AddRecord_wrote = AddRecord_loop_wrote[where b = True, folded AddRecord_def]

lemma EndLog_wrote:
  assumes "at_end w" "c = length (content (dest w))"
  shows "\<exists>w' s. EndLog cmp w = Some (w', s) \<and> wrote (dest w) (enc False c [(kEofType, [])]) (dest w') s \<and>
    (s = OK \<longrightarrow> at_end w')"
proof -
  obtain w1 w2 s where "SwitchBlock cmp w = Some (w1, OK)" "EmitPhysicalRecord cmp w1 kEofType [] = Some (w2, s)"
    "wrote (dest w) (enc False c [(kEofType, [])]) (dest w2) s" "s = OK \<Longrightarrow> at_end w2"
    using fragment_wrote[OF assms, of "[]" cmp kEofType] pad_mod[of c False] unfolding list.size(3) add_0_right by blast
  then show ?thesis by (simp add: EndLog_def)
qed

section \<open>Several records\<close>

text \<open>Writing records one after the other, up to the first error.\<close>

fun AddRecords :: "(CompressType \<Rightarrow> bytes \<Rightarrow> bytes option) \<Rightarrow> writer \<Rightarrow> bytes list \<Rightarrow> (writer \<times> Status) option" where
  "AddRecords cmp w [] = Some (w, OK)"
| "AddRecords cmp w (d # ds) = do {
     (w1, s) \<leftarrow> AddRecord cmp w d;
     if s = OK then AddRecords cmp w1 ds else Some (w1, s) }"

text \<open>The physical records of a list of records from position \<open>c\<close> on.\<close>

fun all_frags :: "bool \<Rightarrow> nat \<Rightarrow> bytes list \<Rightarrow> (RecordType \<times> bytes) list" where
  "all_frags z c [] = []"
| "all_frags z c (d # ds) = (let fs = frags z c True d in fs @ all_frags z (c + length (enc z c fs)) ds)"

lemma AddRecords_wrote:
  assumes "at_end w" "c = length (content (dest w))"
  shows "\<exists>w' s. AddRecords cmp w ds = Some (w', s) \<and> wrote (dest w) (enc False c (all_frags False c ds)) (dest w') s \<and>
    (s = OK \<longrightarrow> at_end w')"
  using assms
proof (induction ds arbitrary: w c)
  case Nil
  then show ?case by (simp add: wrote_refl at_end_def)
next
  case (Cons d ds)
  let ?E = "enc False c (frags False c True d)"
  obtain w1 s1 where 1: "AddRecord cmp w d = Some (w1, s1)" "wrote (dest w) ?E (dest w1) s1" "s1 = OK \<Longrightarrow> at_end w1"
    using AddRecord_wrote[OF Cons.prems, of cmp d] by blast
  have un: "enc False c (all_frags False c (d # ds)) = ?E @ enc False (c + length ?E) (all_frags False (c + length ?E) ds)"
    by (simp add: Let_def enc_append)
  show ?case
  proof (cases "s1 = OK")
    case True
    then have "c + length ?E = length (content (dest w1))" using wrote_full(1)[of "dest w" ?E "dest w1"] 1 Cons.prems by (simp add: at_end_def)
    from Cons.IH[OF 1(3)[OF True] this] show ?thesis
      using 1 True unfolding un by (auto dest: wrote_trans)
  next
    case False
    then show ?thesis using 1 unfolding un by (auto intro: wrote_stop)
  qed
qed

text \<open>A record takes at most twice its length and two headers with their trailers.\<close>

lemma length_enc_frags:
  "length (enc False c (frags False c b d)) \<le> 2 * length d + 13 + (if c mod bsz False = 0 then 0 else 13)"
proof (induction "False" c b d rule: frags.induct)
  case (1 c b d)
  let ?n = "frag_len False c d" let ?c = "c + pad False c + hsz False + ?n"
  have p: "pad False c + hsz False \<le> 13"
    by (cases rule: pad_cases[of False c]) (simp_all add: sizes_False)
  have un: "length (enc False c (frags False c b d)) = pad False c + hsz False + ?n +
      (if length d = ?n then 0 else length (enc False ?c (frags False ?c False (drop ?n d))))"
    using frag_len_le[of False c d] by (subst frags_unfold) (simp add: min_absorb2)
  show ?case
  proof (cases "length d = ?n")
    case True
    then show ?thesis unfolding un using p by simp
  next
    case False
    then have lt: "?n < length d" using frag_len_le[of False c d] by simp
    then have m: "(c + pad False c) mod bsz False + hsz False + ?n = bsz False"
      using pad_mod[of c False] by (auto simp: frag_len_def min_def split: if_splits)
    then have "?c mod bsz False = 0"
      by (metis (no_types, lifting) add.assoc mod_add_left_eq mod_self)
    then have IH: "length (enc False ?c (frags False ?c False (drop ?n d))) \<le> 2 * (length d - ?n) + 13"
      using 1[OF refl False] by simp
    moreover have "pad False c = 0" "?n = 4089" if "c mod bsz False = 0"
      using m that by (simp_all add: pad_aligned sizes_False)
    ultimately show ?thesis unfolding un using p lt by (cases "c mod bsz False = 0") (auto simp: sizes_False)
  qed
qed

lemma length_enc_all: "length (enc False c (all_frags False c ds)) \<le> (\<Sum>d\<leftarrow>ds. 2 * length d + 26)"
proof (induction ds arbitrary: c)
  case (Cons d ds)
  let ?E = "enc False c (frags False c True d)"
  have "length ?E \<le> 2 * length d + 26" using length_enc_frags[of c True d] by (auto split: if_splits)
  then show ?case using Cons[of "c + length ?E"] by (simp add: Let_def enc_append)
qed simp

end
