(* ===== verification/Log_Readback.thy ===== *)
theory Log_Readback
  imports Log_Written "HOL-Library.Sublist"
begin

text \<open>
  The reader on the layout: every physical record of an uncompressed log is found again, and the
  fragments of a record are put together.
\<close>

unbundle bit_operations_syntax

section \<open>Parsing one physical record\<close>

lemma header_type_phys:
  assumes "buffer r = phys (compressed r) t p @ rest"
  shows "header_type r = of_nat (type_code t)"
  using assms by (cases t) (simp_all add: header_type_def phys_def length_bytes_def EncodeFixed32_def nth_append)

lemma two_bytes:
  assumes "n < 2 ^ 16"
  shows "(ucast (of_nat n :: 8 word) OR push_bit 8 (ucast (of_nat (drop_bit 8 n) :: 8 word)) :: 32 word) = of_nat n"
proof (rule bit_word_eqI)
  fix k assume "k < LENGTH(32)"
  then consider "k < 8" | "8 \<le> k" "k < 16" | "16 \<le> k" "k < 32" by fastforce
  moreover have "\<not> bit n k" if "16 \<le> k"
    using assms that by (metis bit_take_bit_iff linorder_not_le take_bit_nat_eq_self)
  ultimately show "bit (ucast (of_nat n :: 8 word) OR push_bit 8 (ucast (of_nat (drop_bit 8 n) :: 8 word)) :: 32 word) k
      = bit (of_nat n :: 32 word) k"
    by cases (auto simp: bit_simps)
qed

lemma four_bytes:
  assumes "n < 2 ^ 32"
  shows "(ucast (of_nat n :: 8 word) OR push_bit 8 (ucast (of_nat (drop_bit 8 n) :: 8 word)) OR
      push_bit 16 (ucast (of_nat (drop_bit 16 n) :: 8 word)) OR push_bit 24 (ucast (of_nat (drop_bit 24 n) :: 8 word)) :: 32 word) = of_nat n"
proof (rule bit_word_eqI)
  fix k assume "k < LENGTH(32)"
  then consider "k < 8" | "8 \<le> k" "k < 16" | "16 \<le> k" "k < 24" | "24 \<le> k" "k < 32" by fastforce
  then show "bit (ucast (of_nat n :: 8 word) OR push_bit 8 (ucast (of_nat (drop_bit 8 n) :: 8 word)) OR
      push_bit 16 (ucast (of_nat (drop_bit 16 n) :: 8 word)) OR push_bit 24 (ucast (of_nat (drop_bit 24 n) :: 8 word)) :: 32 word) k
      = bit (of_nat n :: 32 word) k"
    by cases (auto simp: bit_simps)
qed

lemma header_length_bytes:
  assumes "buffer r = h @ length_bytes (compressed r) n @ rest" "length h = 4" "n \<le> bsz (compressed r)"
  shows "header_length r = of_nat n"
proof -
  have p: "n < 2 ^ 32" "\<not> compressed r \<Longrightarrow> n < 2 ^ 16"
    using assms(3) by (auto simp: bsz_def format_defs split: if_splits)
  have "\<And>i. buffer r ! (4 + i) = (length_bytes (compressed r) n @ rest) ! i"
    unfolding assms(1) using assms(2) by (simp add: nth_append)
  from this[of 0] this[of 1] this[of 2] this[of 3] show ?thesis
    using two_bytes[of n] four_bytes[of n] p
    by (simp add: header_length_def length_bytes_def Let_def)
qed

lemma header_length_phys:
  assumes "buffer r = phys (compressed r) t p @ rest" "length p \<le> bsz (compressed r)"
  shows "header_length r = of_nat (length p)"
  using header_length_bytes[of r "EncodeFixed32 (Mask (Value 0 (of_nat (type_code t) # p)))" "length p"
    "of_nat (type_code t) # p @ rest"] assms by (simp add: phys_def)

lemma Parse_phys:
  assumes b: "buffer r = phys (compressed r) t p @ rest" and h: "rheader_size r = hsz (compressed r)"
    and p: "length p \<le> bsz (compressed r)" and i: "initial_offset r = 0"
  shows "ParsePhysicalRecord r res = Some (
    if t = kEofType \<and> p = [] then (r\<lparr>buffer := []\<rparr>, kEof, res)
    else if t = kZeroType \<and> p = [] then (r\<lparr>buffer := []\<rparr>, kBadRecord, res)
    else (r\<lparr>buffer := rest\<rparr>, of_nat (type_code t), p))"
proof -
  have pb: "length p \<le> 2 ^ 20" using p sizes(6) order_trans by blast
  have u: "unat (of_nat n :: 32 word) = n" if "n \<le> 2 ^ 20 + 9" for n using that by (simp add: unat_of_nat)
  have s1: "unat (1 + of_nat (length p) :: 32 word) = 1 + length p" using u[of "1 + length p"] pb by simp
  have s2: "unat (of_nat (hsz (compressed r)) + of_nat (length p) :: 32 word) = hsz (compressed r) + length p"
    using u[of "hsz (compressed r) + length p"] pb by (simp add: hsz_def format_defs)
  have body: "peek (if \<not> compressed r then 6 else 8) (1 + length p) (buffer r) = Some (of_nat (type_code t) # p)"
    unfolding b by (simp add: peek_def phys_def length_bytes_def)
  have frag: "peek (rheader_size r) (length p) (buffer r) = Some p"
    unfolding b h by (simp add: peek_def phys_def length_bytes_def hsz_def format_defs)
  have crc: "DecodeFixed32 (buffer r) = Some (Mask (Value 0 (of_nat (type_code t) # p)))"
    unfolding b phys_def append_assoc by simp
  have z: "(of_nat (length p) :: 32 word) = 0 \<longleftrightarrow> p = []" 
  proof -
    have "unat (of_nat (length p) :: 32 word) = length p" using u pb by simp
    then show ?thesis by (metis length_0_conv of_nat_0 unat_eq_0)
  qed
  have ty: "(of_nat (type_code t) :: 32 word) = of_nat (type_code t') \<longleftrightarrow> t = t'" for t'
    by (cases t; cases t') simp_all
  show ?thesis
    unfolding ParsePhysicalRecord_def Let_def header_type_phys[OF b] header_length_phys[OF b p] h s2 s1 crc body z ty
    using u[of "length p"] pb frag h i b by (auto simp: z ty)
qed

section \<open>The position of a reader\<close>

text \<open>
  The reader is at position \<open>c\<close> of the file \<open>F\<close>, and from there on lie the physical records \<open>prs\<close>.  Its
  buffer is what was read and not yet parsed of the block of \<open>c\<close>.
\<close>

definition plain_reader :: "reader \<Rightarrow> bytes \<Rightarrow> bool" where
  "plain_reader r F \<longleftrightarrow> \<not> compressed r \<and> rblock_size r = bsz False \<and> rheader_size r = hsz False \<and>
     initial_offset r = 0 \<and> \<not> resyncing r \<and> length (backing_store r) = bsz False \<and>
     \<not> ferror (rfile r) \<and> seekable (rfile r) \<and> bytes_of (rfile r) = F \<and> pos (rfile r) = end_of_buffer_offset r"

definition reads :: "reader \<Rightarrow> bytes \<Rightarrow> nat \<Rightarrow> (RecordType \<times> bytes) list \<Rightarrow> bool" where
  "reads r F c prs \<longleftrightarrow> plain_reader r F \<and>
     c \<le> end_of_buffer_offset r \<and> end_of_buffer_offset r \<le> length F \<and>
     end_of_buffer_offset r \<le> (c div bsz False + 1) * bsz False \<and>
     (end_of_buffer_offset r mod bsz False = 0 \<or> end_of_buffer_offset r = length F) \<and>
     (feof (rfile r) \<longrightarrow> end_of_buffer_offset r = length F) \<and>
     buffer r = take (end_of_buffer_offset r - c) (drop c F) \<and>
     drop c F = enc False c prs \<and> fits False c prs"

lemma pad_idem [simp]: "pad z (c + pad z c) = 0"
  by (cases rule: pad_cases[of z c]) (simp_all add: pad_aligned)

lemma enc_pad: "enc z c (x # prs) = replicate (pad z c) 0 @ enc z (c + pad z c) (x # prs)"
  by (cases x) simp

lemma fits_pad: "fits z c (x # prs) \<longleftrightarrow> fits z (c + pad z c) (x # prs)"
  by (cases x) simp

lemma drop_pad:
  assumes "drop c F = enc z c (x # prs)"
  shows "drop (c + pad z c) F = enc z (c + pad z c) (x # prs)"
proof -
  have "drop (c + pad z c) F = drop (pad z c) (drop c F)" by (simp add: add.commute)
  then show ?thesis unfolding assms enc_pad[of z c] by simp
qed

text \<open>The end of the block of \<open>c\<close>.\<close>

lemma block_end: "(c div bsz z + 1) * bsz z = c + (bsz z - c mod bsz z)"
proof -
  have "c mod bsz z < bsz z" by simp
  then show ?thesis using div_mult_mod_eq[of c "bsz z"] unfolding distrib_right by linarith
qed

lemma next_aligned:
  assumes "e mod bsz z = 0" "c < e"
  shows "(c div bsz z + 1) * bsz z \<le> e"
proof -
  obtain k where e: "e = bsz z * k" using assms(1) by (auto simp: mod_eq_0_iff_dvd dvd_def)
  then have "c div bsz z < k" using assms(2) by (simp add: less_mult_imp_div_less mult.commute)
  then show ?thesis unfolding e by (metis Suc_eq_plus1 Suc_leI mult.commute mult_le_mono1)
qed

lemma reads_end:
  assumes "reads r F c prs"
  shows "end_of_buffer_offset r \<le> c + (bsz False - c mod bsz False)"
  using assms unfolding reads_def block_end by blast

lemma reads_buffer:
  assumes "reads r F c prs"
  shows "length (buffer r) = end_of_buffer_offset r - c"
proof -
  have "buffer r = take (end_of_buffer_offset r - c) (drop c F)" "end_of_buffer_offset r \<le> length F"
    using assms unfolding reads_def by blast+
  then show ?thesis by simp
qed

text \<open>Before a physical record is parsed, a block is read if the trailer of the last one was reached.\<close>

lemma refill_trailer:
  assumes r: "reads r F c (x # prs)" and b: "length (buffer r) < hsz False"
  shows "end_of_buffer_offset r = c + pad False c" "(c + pad False c) mod bsz False = 0"
    "\<not> feof (rfile r)"
proof -
  let ?e = "end_of_buffer_offset r"
  obtain t p where x: "x = (t, p)" by fastforce
  have F: "drop c F = replicate (pad False c) 0 @ phys False t p @ enc False (c + pad False c + hsz False + length p) prs"
    and e: "c \<le> ?e" "?e \<le> length F" "?e mod bsz False = 0 \<or> ?e = length F"
    and f: "feof (rfile r) \<Longrightarrow> ?e = length F"
    using r unfolding reads_def x by auto
  have len: "length F - c \<ge> pad False c + hsz False" using arg_cong[OF F, of length] by simp
  have bl: "?e - c < hsz False" using b reads_buffer[OF r] by simp
  have "?e \<noteq> length F"
  proof
    assume "?e = length F"
    then have "pad False c + hsz False < hsz False" using len bl by simp
    then show False by simp
  qed
  then have m: "?e mod bsz False = 0" and nf: "\<not> feof (rfile r)" using e f by auto
  show "\<not> feof (rfile r)" by (rule nf)
  show "?e = c + pad False c"
  proof (cases "c = ?e")
    case True
    then show ?thesis using m by (metis pad_aligned add_0_right)
  next
    case False
    then have "?e = c + (bsz False - c mod bsz False)" using next_aligned[OF m, of c] e reads_end[OF r] block_end[of c False] by simp
    then show ?thesis using bl by (simp add: pad_def)
  qed
  then show "(c + pad False c) mod bsz False = 0" using m by simp
qed

lemma refill:
  assumes r: "reads r F c (x # prs)"
  shows "\<exists>r1 off. (if length (buffer r) < rheader_size r then ReadBlock unc r else Some (r, Inr 0)) = Some (r1, Inr off) \<and>
    reads r1 F (c + pad False c) (x # prs) \<and> hsz False \<le> length (buffer r1) \<and>
    last_end_of_buffer_offset r1 = last_end_of_buffer_offset r \<and>
    (off = 0 \<or> off = c + pad False c \<and> off mod bsz False = 0)"
proof (cases "length (buffer r) < hsz False")
  case True
  let ?c = "c + pad False c"
  note tr = refill_trailer[OF r True]
  have F: "drop ?c F = enc False ?c (x # prs)" and cl: "?c \<le> length F"
    using r tr(1) drop_pad unfolding reads_def by (blast, metis)
  let ?b = "take (bsz False) (drop ?c F)"
  have hb: "hsz False \<le> length ?b" 
  proof -
    have "hsz False \<le> length (drop ?c F)" unfolding F by (cases x) simp
    then show ?thesis by simp
  qed
  have pr: "plain_reader r F" "pos (rfile r) = ?c" "fits False ?c (x # prs)"
    using r tr(1) fits_pad[of False c x prs] by (auto simp: reads_def plain_reader_def)
  define f1 where "f1 = (rfile r)\<lparr>pos := ?c + length ?b, feof := length ?b < bsz False\<rparr>"
  have rd: "Read (bsz False) (rfile r) = (f1, ?b, OK)" "bytes_of f1 = F" "pos f1 = ?c + length ?b" "\<not> ferror f1"
      "feof f1 \<longleftrightarrow> length ?b < bsz False" "seekable f1"
    using pr tr(3) by (simp_all add: Read_def fread_def plain_reader_def Let_def f1_def)
  obtain st where st: "blit 0 ?b (backing_store r) = Some st" "length st = bsz False"
    using pr blit_total[of 0 ?b "backing_store r"] blit_length by (fastforce simp: plain_reader_def)
  let ?r1 = "r\<lparr>rfile := f1, backing_store := st, buffer := ?b, end_of_buffer_offset := ?c + length ?b\<rparr>"
  have "ReadBlock unc r = Some (?r1, Inr ?c)"
    using rd(1) st pr tr hb by (simp add: ReadBlock_def plain_reader_def Let_def not_less del: length_take)
  moreover have "reads ?r1 F ?c (x # prs)"
  proof -
    have len: "?c + length ?b = (if bsz False \<le> length F - ?c then ?c + bsz False else length F)" using cl by simp
    have be: "(?c div bsz False + 1) * bsz False = ?c + bsz False" unfolding block_end using tr(2) by simp
    have "(?c + bsz False) mod bsz False = 0" using tr(2) by simp
    then have "(?c + length ?b) mod bsz False = 0 \<or> ?c + length ?b = length F" unfolding len by auto
    moreover have "length ?b < bsz False \<Longrightarrow> ?c + length ?b = length F" using len by (auto split: if_splits)
    moreover have "plain_reader ?r1 F" using pr rd st by (simp add: plain_reader_def)
    moreover have "?c + length ?b \<le> ?c + bsz False" "?c + length ?b \<le> length F" using cl by auto
    ultimately show ?thesis unfolding reads_def be using F pr(3) rd(5) by auto
  qed
  ultimately show ?thesis using True pr tr hb by (auto simp: plain_reader_def)
next
  case False
  then have "hsz False \<le> bsz False - c mod bsz False" using reads_buffer[OF r] reads_end[OF r] by simp
  then have "pad False c = 0" by (simp add: pad_def)
  then show ?thesis using False r by (auto simp: reads_def plain_reader_def)
qed

text \<open>The record is in the buffer, and parsing it leaves the reader behind it.\<close>

lemma buffer_phys:
  assumes r: "reads r F c ((t, p) # prs)" and c: "pad False c = 0" and b: "buffer r \<noteq> []"
  shows "\<exists>rest. buffer r = phys False t p @ rest \<and>
    rest = take (end_of_buffer_offset r - (c + hsz False + length p)) (drop (c + hsz False + length p) F) \<and>
    c + hsz False + length p \<le> end_of_buffer_offset r"
proof -
  let ?e = "end_of_buffer_offset r" let ?c = "c + hsz False + length p"
  have F: "drop c F = phys False t p @ enc False ?c prs" and fit: "c mod bsz False + hsz False + length p \<le> bsz False"
    and bu: "buffer r = take (?e - c) (drop c F)" and e: "?e mod bsz False = 0 \<or> ?e = length F"
    using r c unfolding reads_def by auto
  have "?c \<le> ?e"
    using e
  proof
    assume "?e mod bsz False = 0"
    moreover have "c < ?e" using b bu by auto
    ultimately show ?thesis using next_aligned[of ?e False c] fit unfolding block_end by linarith
  next
    assume "?e = length F"
    moreover have "length F - c \<ge> hsz False + length p" using arg_cong[OF F, of length] by simp
    moreover have "c \<le> ?e" using r unfolding reads_def by blast
    ultimately show ?thesis by linarith
  qed
  moreover have "drop ?c F = enc False ?c prs"
  proof -
    have "drop ?c F = drop (hsz False + length p) (drop c F)" by (simp add: add.commute add.left_commute)
    then show ?thesis unfolding F by simp
  qed
  moreover have "buffer r = phys False t p @ take (?e - ?c) (enc False ?c prs)"
    unfolding bu F using \<open>?c \<le> ?e\<close> by (simp add: add.assoc)
  ultimately show ?thesis by simp
qed

lemma reads_next:
  assumes r: "reads r F c ((t, p) # prs)" and c: "pad False c = 0" and b: "buffer r \<noteq> []"
    and e: "\<not> (t = kEofType \<and> p = [])" "\<not> (t = kZeroType \<and> p = [])"
  shows "\<exists>r1. ParsePhysicalRecord r res = Some (r1, of_nat (type_code t), p) \<and>
    reads r1 F (c + hsz False + length p) prs \<and> last_end_of_buffer_offset r1 = last_end_of_buffer_offset r"
proof -
  let ?c = "c + hsz False + length p"
  obtain rest where bu: "buffer r = phys False t p @ rest" "rest = take (end_of_buffer_offset r - ?c) (drop ?c F)"
    and le: "?c \<le> end_of_buffer_offset r" using buffer_phys[OF r c b] by blast
  have pl: "plain_reader r F" using r unfolding reads_def by blast
  have F: "drop ?c F = enc False ?c prs" "fits False ?c prs" "length p \<le> bsz False"
  proof -
    have "drop ?c F = drop (hsz False + length p) (drop c F)" by (simp add: add.commute add.left_commute)
    then show "drop ?c F = enc False ?c prs" using r c unfolding reads_def by simp
    show "fits False ?c prs" "length p \<le> bsz False" using r c unfolding reads_def by auto
  qed
  have "ParsePhysicalRecord r res = Some (r\<lparr>buffer := rest\<rparr>, of_nat (type_code t), p)"
    using Parse_phys[of r t p rest res] bu(1) F(3) e pl by (auto simp: plain_reader_def)
  moreover have "reads (r\<lparr>buffer := rest\<rparr>) F ?c prs"
  proof -
    have "(c div bsz False + 1) * bsz False \<le> (?c div bsz False + 1) * bsz False"
      by (intro mult_le_mono1 add_le_mono1 div_le_mono) simp
    moreover have "end_of_buffer_offset r \<le> (c div bsz False + 1) * bsz False" using r unfolding reads_def by blast
    ultimately have "end_of_buffer_offset r \<le> (?c div bsz False + 1) * bsz False" by (rule order_trans[rotated])
    moreover have "plain_reader (r\<lparr>buffer := rest\<rparr>) F" using pl by (simp add: plain_reader_def)
    ultimately show ?thesis using r le bu(2) F(1,2) unfolding reads_def by simp
  qed
  ultimately show ?thesis by auto
qed

text \<open>
  The next physical record.  When it is the first of its block, the offset of the block is reported, which
  is where the record lies.
\<close>

definition starts :: "bytes \<Rightarrow> nat \<Rightarrow> (RecordType \<times> bytes) list \<Rightarrow> bool" where
  "starts F B prs \<longleftrightarrow> B mod bsz False = 0 \<and> B \<le> length F \<and> drop B F = enc False B prs \<and> fits False B prs"

lemma ReadPhysical_next:
  assumes r: "reads r F c ((t, p) # prs)"
    and e: "\<not> (t = kEofType \<and> p = [])" "\<not> (t = kZeroType \<and> p = [])"
  shows "\<exists>r1 c1 off. ReadPhysicalRecord unc r res = Some (r1, of_nat (type_code t), p, off) \<and> reads r1 F c1 prs \<and>
    last_end_of_buffer_offset r1 = last_end_of_buffer_offset r \<and> (off = 0 \<or> starts F off ((t, p) # prs))"
proof -
  obtain r1 off where 1: "(if length (buffer r) < rheader_size r then ReadBlock unc r else Some (r, Inr 0)) = Some (r1, Inr off)"
      "reads r1 F (c + pad False c) ((t, p) # prs)" "hsz False \<le> length (buffer r1)"
      "last_end_of_buffer_offset r1 = last_end_of_buffer_offset r" "off = 0 \<or> off = c + pad False c \<and> off mod bsz False = 0"
    using refill[OF r, of unc] by (elim exE conjE) (rule that)
  have "buffer r1 \<noteq> []" using 1(3) by (auto simp: hsz_def format_defs)
  from reads_next[OF 1(2) pad_idem this e, of res] obtain r2 where
    2: "ParsePhysicalRecord r1 res = Some (r2, of_nat (type_code t), p)"
      "reads r2 F (c + pad False c + hsz False + length p) prs" "last_end_of_buffer_offset r2 = last_end_of_buffer_offset r1"
    by blast
  have "off = 0 \<or> starts F off ((t, p) # prs)" using 1(2,5) unfolding starts_def reads_def by auto
  then show ?thesis using 1 2 by (auto simp: ReadPhysicalRecord_def)
qed

text \<open>At the end of the file the reader waits, and an end record ends the log.\<close>

lemma ReadPhysical_wait:
  assumes r: "reads r F c []"
  shows "\<exists>r1. ReadPhysicalRecord unc r res = Some (r1, kWaitRecord, res, 0) \<and> plain_reader r1 F \<and>
    last_end_of_buffer_offset r1 = last_end_of_buffer_offset r"
proof -
  have e: "end_of_buffer_offset r = length F" "c = length F" "buffer r = []" and pl: "plain_reader r F"
    using r unfolding reads_def by auto
  let ?f = "(rfile r)\<lparr>feof := True\<rparr>"
  have rd: "Read (bsz False) (rfile r) = (?f, [], OK)"
    using pl e by (auto simp: Read_def fread_def plain_reader_def Let_def)
  then show ?thesis
    using pl e(1,3) by (auto simp: ReadPhysicalRecord_def ReadBlock_def plain_reader_def blit_def Let_def)
qed

lemma ReadPhysical_eof:
  assumes r: "reads r F c ((kEofType, []) # prs)"
  shows "\<exists>r1 off. ReadPhysicalRecord unc r res = Some (r1, kEof, res, off) \<and> plain_reader r1 F"
proof -
  obtain r1 off where 1: "(if length (buffer r) < rheader_size r then ReadBlock unc r else Some (r, Inr 0)) = Some (r1, Inr off)"
      "reads r1 F (c + pad False c) ((kEofType, []) # prs)" "hsz False \<le> length (buffer r1)"
    using refill[OF r, of unc] by (elim exE conjE) (rule that)
  have "buffer r1 \<noteq> []" using 1(3) by (auto simp: hsz_def format_defs)
  then obtain rest where bu: "buffer r1 = phys False kEofType [] @ rest" using buffer_phys[OF 1(2) pad_idem] by blast
  have pl: "plain_reader r1 F" using 1(2) unfolding reads_def by blast
  then have "ParsePhysicalRecord r1 res = Some (r1\<lparr>buffer := []\<rparr>, kEof, res)"
    using Parse_phys[of r1 kEofType "[]" rest res] bu by (simp add: plain_reader_def)
  then show ?thesis using 1 pl by (auto simp: ReadPhysicalRecord_def plain_reader_def)
qed

end
