(* ===== verification/Log_Tail.thy ===== *)
theory Log_Tail
  imports Log_Readback
begin

text \<open>
  Logical records: the reader puts the fragments of a record together, waits at the end of the file, and
  after it went back to the start of a block skips the fragments whose start it does not see.
\<close>

lemma reads_step:
  "reads (record_done r a b) F c prs \<longleftrightarrow> reads r F c prs" "reads r F c prs \<Longrightarrow> r\<lparr>resyncing := False\<rparr> = r"
  by (simp_all add: reads_def plain_reader_def record_done_def)

lemma not_resyncing: "reads r F c prs \<Longrightarrow> \<not> resyncing r"
  by (simp add: reads_def plain_reader_def)

definition strays :: "(RecordType \<times> bytes) list \<Rightarrow> bool" where
  "strays prs \<longleftrightarrow> list_all (\<lambda>(t, p). t = kMiddleType \<or> t = kLastType) prs"

text \<open>Where the reader would go back to after it delivered \<open>d\<close>.\<close>

definition tracks :: "reader \<Rightarrow> reader \<Rightarrow> bytes \<Rightarrow> bytes \<Rightarrow> (RecordType \<times> bytes) list \<Rightarrow> bool" where
  "tracks r r1 F d rest \<longleftrightarrow> last_end_of_buffer_offset r1 = last_end_of_buffer_offset r \<or>
     (\<exists>fs. starts F (last_end_of_buffer_offset r1) (fs @ rest) \<and> (strays fs \<or> is_record d fs))"

lemma continue_loop:
  assumes "continues d fs" "reads r F c (fs @ rest)"
  shows "\<exists>r1 c1. ReadRecord_loop unc r res True pr scr = Some (r1, OK, scr @ d) \<and> reads r1 F c1 rest \<and> tracks r r1 F d0 rest"
  using assms
proof (induction d fs arbitrary: r c res scr rule: continues.induct)
  case (1 d)
  then show ?case by simp
next
  case (2 d t p)
  then have t: "t = kLastType" "p = d" by auto
  obtain r1 c1 off where s: "ReadPhysicalRecord unc r res = Some (r1, of_nat (type_code kLastType), d, off)" "reads r1 F c1 rest"
      "last_end_of_buffer_offset r1 = last_end_of_buffer_offset r" "off = 0 \<or> starts F off ((kLastType, d) # rest)"
    using ReadPhysical_next[of r F c t p rest unc res] 2(2) t by auto
  let ?r2 = "record_done (r1\<lparr>resyncing := False\<rparr>) pr off"
  have "ReadRecord_loop unc r res True pr scr = Some (?r2, OK, scr @ d)"
    using s(1) not_resyncing[OF s(2)] by (subst ReadRecord_loop.simps) (simp add: ReadRecord_step_def Let_def)
  moreover have "reads ?r2 F c1 rest" using s(2) reads_step by simp
  moreover have "tracks r ?r2 F d0 rest"
    using s(3,4) by (cases "off = 0") (auto simp: tracks_def record_done_def strays_def intro!: exI[of _ "[(kLastType, d)]"])
  ultimately show ?case by blast
next
  case (3 d t p q fs)
  then obtain d' where t: "t = kMiddleType" "d = p @ d'" "continues d' (q # fs)" by auto
  obtain r1 c1 off where s: "ReadPhysicalRecord unc r res = Some (r1, of_nat (type_code kMiddleType), p, off)"
      "reads r1 F c1 (q # fs @ rest)" "last_end_of_buffer_offset r1 = last_end_of_buffer_offset r"
    using ReadPhysical_next[of r F c t p "q # fs @ rest" unc res] 3(3) t(1) by auto
  have "ReadRecord_loop unc r res True pr scr = ReadRecord_loop unc r1 p True pr (scr @ p)"
    using s(1) not_resyncing[OF s(2)]
    by (subst ReadRecord_loop.simps) (simp add: ReadRecord_step_def Let_def reads_step(2)[OF s(2)])
  moreover obtain r2 c2 where "ReadRecord_loop unc r1 p True pr (scr @ p) = Some (r2, OK, (scr @ p) @ d')"
      "reads r2 F c2 rest" "tracks r1 r2 F d0 rest"
    using 3(1)[OF t(3), of r1 c1 p "scr @ p"] s(2) by auto
  ultimately show ?case using t(2) s(3) by (auto simp: tracks_def)
qed

text \<open>Stray fragments are skipped.\<close>

lemma stray_loop:
  assumes "strays fs" "reads r F c (fs @ rest)"
  shows "\<exists>r1 c1 res1. ReadRecord_loop unc r res False pr scr = ReadRecord_loop unc r1 res1 False pr scr \<and>
    reads r1 F c1 rest \<and> last_end_of_buffer_offset r1 = last_end_of_buffer_offset r"
  using assms
proof (induction fs arbitrary: r c res)
  case Nil
  then show ?case by auto
next
  case (Cons x fs)
  obtain t p where x: "x = (t, p)" by fastforce
  with Cons have t: "t = kMiddleType \<or> t = kLastType" "strays fs" by (auto simp: strays_def)
  obtain r1 c1 off where s: "ReadPhysicalRecord unc r res = Some (r1, of_nat (type_code t), p, off)"
      "reads r1 F c1 (fs @ rest)" "last_end_of_buffer_offset r1 = last_end_of_buffer_offset r"
    using ReadPhysical_next[of r F c t p "fs @ rest" unc res] Cons(3) t(1) x by auto
  have "ReadRecord_loop unc r res False pr scr = ReadRecord_loop unc r1 p False pr scr"
    using s(1) t(1) not_resyncing[OF s(2)]
    by (subst ReadRecord_loop.simps) (auto simp: ReadRecord_step_def Let_def reads_step(2)[OF s(2)])
  then show ?case using Cons.IH[OF t(2) s(2)] s(3) by fastforce
qed

lemma record_loop:
  assumes "is_record d fs" "reads r F c (fs @ rest)"
  shows "\<exists>r1 c1. ReadRecord_loop unc r res False pr scr = Some (r1, OK, d) \<and> reads r1 F c1 rest \<and> tracks r r1 F d rest"
  using assms(1) unfolding is_record_def
proof (elim disjE exE conjE)
  assume fs: "fs = [(kFullType, d)]"
  obtain r1 c1 off where s: "ReadPhysicalRecord unc r res = Some (r1, of_nat (type_code kFullType), d, off)" "reads r1 F c1 rest"
      "last_end_of_buffer_offset r1 = last_end_of_buffer_offset r" "off = 0 \<or> starts F off ((kFullType, d) # rest)"
    using ReadPhysical_next[of r F c kFullType d rest unc res] assms(2) fs by auto
  have "\<exists>a. ReadRecord_loop unc r res False pr scr = Some (record_done (r1\<lparr>resyncing := False\<rparr>) a off, OK, d)"
    using s(1) not_resyncing[OF s(2)] by (subst ReadRecord_loop.simps) (auto simp: ReadRecord_step_def Let_def)
  then obtain a where "ReadRecord_loop unc r res False pr scr = Some (record_done (r1\<lparr>resyncing := False\<rparr>) a off, OK, d)"
    by blast
  moreover have "reads (record_done (r1\<lparr>resyncing := False\<rparr>) a off) F c1 rest" using s(2) reads_step by simp
  moreover have "tracks r (record_done (r1\<lparr>resyncing := False\<rparr>) a off) F d rest"
    using s(3,4) by (cases "off = 0") (auto simp: tracks_def record_done_def is_record_def intro!: exI[of _ "[(kFullType, d)]"])
  ultimately show ?thesis by blast
next
  fix p d' fs' assume fs: "fs = (kFirstType, p) # fs'" "d = p @ d'" "continues d' fs'"
  obtain r1 c1 off where s: "ReadPhysicalRecord unc r res = Some (r1, of_nat (type_code kFirstType), p, off)"
      "reads r1 F c1 (fs' @ rest)" "last_end_of_buffer_offset r1 = last_end_of_buffer_offset r"
    using ReadPhysical_next[of r F c kFirstType p "fs' @ rest" unc res] assms(2) fs(1) by auto
  have "\<exists>a. ReadRecord_loop unc r res False pr scr = ReadRecord_loop unc r1 p True a p"
    using s(1) not_resyncing[OF s(2)]
    by (subst ReadRecord_loop.simps) (auto simp: ReadRecord_step_def Let_def reads_step(2)[OF s(2)])
  then obtain a where "ReadRecord_loop unc r res False pr scr = ReadRecord_loop unc r1 p True a p" by blast
  moreover obtain r2 c2 where "ReadRecord_loop unc r1 p True a p = Some (r2, OK, p @ d')"
      "reads r2 F c2 rest" "tracks r1 r2 F d rest"
    using continue_loop[OF fs(3) s(2)] by blast
  ultimately show ?thesis using fs(2) s(3) by (auto simp: tracks_def)
qed

text \<open>The three results of reading on: a record, the wait for more, the end.\<close>

lemma ReadRecord_plain:
  "reads r F c prs \<Longrightarrow> ReadRecord unc r = ReadRecord_loop unc r [] False 0 []"
  by (simp add: ReadRecord_def reads_def plain_reader_def)

lemma ReadRecord_next:
  assumes "strays st" "is_record d fs" "reads r F c (st @ fs @ rest)"
  shows "\<exists>r1 c1. ReadRecord unc r = Some (r1, OK, d) \<and> reads r1 F c1 rest \<and> tracks r r1 F d rest"
proof -
  obtain r1 c1 res1 where 1: "ReadRecord unc r = ReadRecord_loop unc r1 res1 False 0 []" "reads r1 F c1 (fs @ rest)"
      "last_end_of_buffer_offset r1 = last_end_of_buffer_offset r"
    using stray_loop[OF assms(1,3), of unc "[]" 0 "[]"] ReadRecord_plain[OF assms(3)] by auto
  then show ?thesis using record_loop[OF assms(2) 1(2), of unc res1 0 "[]"] by (auto simp: tracks_def)
qed

lemma ReadRecord_wait:
  assumes "strays st" "reads r F c st"
  shows "\<exists>r1. ReadRecord unc r = Some (GoBackToLastBlock r1, WaitRecord, []) \<and> plain_reader r1 F \<and>
    last_end_of_buffer_offset r1 = last_end_of_buffer_offset r"
proof -
  obtain r1 c1 res1 where 1: "ReadRecord unc r = ReadRecord_loop unc r1 res1 False 0 []" "reads r1 F c1 []"
      "last_end_of_buffer_offset r1 = last_end_of_buffer_offset r"
    using stray_loop[OF assms(1), of r F c "[]" unc "[]" 0 "[]"] assms(2) ReadRecord_plain[OF assms(2)] by auto
  obtain r2 where 2: "ReadPhysicalRecord unc r1 res1 = Some (r2, kWaitRecord, res1, 0)" "plain_reader r2 F"
      "last_end_of_buffer_offset r2 = last_end_of_buffer_offset r1"
    using ReadPhysical_wait[OF 1(2), of unc res1] by blast
  then have "ReadRecord_loop unc r1 res1 False 0 [] = Some (GoBackToLastBlock (r2\<lparr>resyncing := False\<rparr>), WaitRecord, [])"
    by (subst ReadRecord_loop.simps) (simp add: ReadRecord_step_def Let_def plain_reader_def)
  moreover have "plain_reader (r2\<lparr>resyncing := False\<rparr>) F" using 2(2) by (simp add: plain_reader_def)
  ultimately show ?thesis using 1 2(3) by fastforce
qed

lemma ReadRecord_eof:
  assumes "strays st" "reads r F c (st @ (kEofType, []) # rest)"
  shows "\<exists>r1. ReadRecord unc r = Some (r1, Eof, [])"
proof -
  obtain r1 c1 res1 where 1: "ReadRecord unc r = ReadRecord_loop unc r1 res1 False 0 []"
      "reads r1 F c1 ((kEofType, []) # rest)"
    using stray_loop[OF assms, of unc "[]" 0 "[]"] ReadRecord_plain[OF assms(2)] by auto
  obtain r2 off where "ReadPhysicalRecord unc r1 res1 = Some (r2, kEof, res1, off)" "plain_reader r2 F"
    using ReadPhysical_eof[OF 1(2), of unc res1] by blast
  then show ?thesis unfolding 1(1)
    by (subst ReadRecord_loop.simps) (simp add: ReadRecord_step_def Let_def plain_reader_def)
qed

end
