(* ===== verification/Log_Props.thy ===== *)
theory Log_Props
  imports Log_Tail
begin

text \<open>The properties of the log: checksum, writer, reader, and the two together.\<close>

unbundle bit_operations_syntax

section \<open>Reading what was written\<close>

text \<open>Reading \<open>n\<close> records one after the other.\<close>

fun ReadRecords :: "(CompressType \<Rightarrow> bytes \<Rightarrow> bytes option) \<Rightarrow> nat \<Rightarrow> reader \<Rightarrow> (reader \<times> bytes list) option" where
  "ReadRecords unc 0 r = Some (r, [])"
| "ReadRecords unc (Suc n) r = do {
     (r1, s, d) \<leftarrow> ReadRecord unc r;
     if s \<noteq> OK then None else do { (r2, ds) \<leftarrow> ReadRecords unc n r1; Some (r2, d # ds) } }"

inductive recs :: "bytes list \<Rightarrow> (RecordType \<times> bytes) list \<Rightarrow> bool" where
  recs_Nil: "recs [] []"
| recs_Cons: "is_record d fs \<Longrightarrow> recs ds prs \<Longrightarrow> recs (d # ds) (fs @ prs)"

lemma recs_append: "recs a p \<Longrightarrow> recs b q \<Longrightarrow> recs (a @ b) (p @ q)"
  by (induction rule: recs.induct) (auto intro: recs.intros)

lemma all_frags_recs: "recs ds (all_frags z c ds)"
  by (induction ds arbitrary: c) (auto simp: Let_def intro!: recs.intros frags_record)

lemma all_frags_fits: "fits z c (all_frags z c ds)"
  by (induction ds arbitrary: c) (auto simp: Let_def fits_append frags_fits)

text \<open>From block \<open>B\<close> on lie stray fragments, then the last records of \<open>ds\<close>, then \<open>rest\<close>.\<close>

definition resumes :: "bytes \<Rightarrow> nat \<Rightarrow> bytes list \<Rightarrow> (RecordType \<times> bytes) list \<Rightarrow> bool" where
  "resumes F B ds rest \<longleftrightarrow> (\<exists>st prs ds'. starts F B (st @ prs @ rest) \<and> strays st \<and> recs ds' prs \<and> suffix ds' ds)"

lemma strays_Nil [simp]: "strays []"
  by (simp add: strays_def)

lemma tracks_resumes:
  assumes "tracks r r1 F d (prs @ rest)" "recs ds prs" "suffix (d # ds) all" "resumes F (last_end_of_buffer_offset r) all rest"
  shows "resumes F (last_end_of_buffer_offset r1) all rest"
  using assms(1) unfolding tracks_def
proof (elim disjE exE conjE)
  assume "last_end_of_buffer_offset r1 = last_end_of_buffer_offset r"
  then show ?thesis using assms(4) by simp
next
  fix fs assume s: "starts F (last_end_of_buffer_offset r1) (fs @ prs @ rest)" "strays fs"
  then show ?thesis unfolding resumes_def by (intro exI conjI) (assumption+, rule assms(2), rule suffix_ConsD[OF assms(3)])
next
  fix fs assume s: "starts F (last_end_of_buffer_offset r1) (fs @ prs @ rest)" "is_record d fs"
  then have "recs (d # ds) (fs @ prs)" "starts F (last_end_of_buffer_offset r1) ([] @ (fs @ prs) @ rest)"
    using assms(2) by (auto intro: recs_Cons)
  then show ?thesis unfolding resumes_def by (intro exI conjI) (assumption, rule strays_Nil, assumption, rule assms(3))
qed

lemma read_all:
  assumes "recs ds prs" "strays st" "reads r F c (st @ prs @ rest)" "suffix ds all"
    "resumes F (last_end_of_buffer_offset r) all rest"
  shows "\<exists>r1 c1 st1. ReadRecords unc (length ds) r = Some (r1, ds) \<and> strays st1 \<and> reads r1 F c1 (st1 @ rest) \<and>
    resumes F (last_end_of_buffer_offset r1) all rest"
  using assms
proof (induction arbitrary: r c st rule: recs.induct)
  case recs_Nil
  then show ?case by auto
next
  case (recs_Cons d fs ds prs)
  obtain r1 c1 where 1: "ReadRecord unc r = Some (r1, OK, d)" "reads r1 F c1 (prs @ rest)" "tracks r r1 F d (prs @ rest)"
    using ReadRecord_next[OF recs_Cons(4,1), of r F c "prs @ rest" unc] recs_Cons(5) by auto
  have s: "suffix ds all" using recs_Cons(6) by (rule suffix_ConsD)
  have t: "resumes F (last_end_of_buffer_offset r1) all rest"
    using tracks_resumes[OF 1(3) recs_Cons(2,6,7)] .
  show ?case using recs_Cons(3)[OF strays_Nil _ s t, of c1] 1 by auto blast
qed

text \<open>A fresh reader of a file that is one layout from the start.\<close>

lemma new_reads:
  assumes "F = enc False 0 prs" "fits False 0 prs" "kBlockSize \<le> length buf"
  shows "reads (new_Reader (NewSeqFile F) rep cs 0 False buf buf2) F 0 prs"
  using assms by (simp add: reads_def plain_reader_def new_Reader_def NewSeqFile_def bsz_def hsz_def)

lemma new_starts:
  assumes "F = enc False 0 prs" "fits False 0 prs"
  shows "starts F 0 prs"
  using assms by (simp add: starts_def)

lemma read_new:
  assumes F: "F = enc False 0 (all_frags False 0 ds @ rest)" "fits False 0 (all_frags False 0 ds @ rest)"
    and buf: "kBlockSize \<le> length buf"
  shows "\<exists>r1 c1 st1. ReadRecords unc (length ds) (new_Reader (NewSeqFile F) rep cs 0 False buf buf2) = Some (r1, ds) \<and>
    strays st1 \<and> reads r1 F c1 (st1 @ rest) \<and> resumes F (last_end_of_buffer_offset r1) ds rest"
proof -
  let ?r = "new_Reader (NewSeqFile F) rep cs 0 False buf buf2"
  have "starts F 0 ([] @ all_frags False 0 ds @ rest)" using new_starts[OF F] by simp
  then have "resumes F 0 ds rest" unfolding resumes_def using strays_Nil all_frags_recs suffix_order.refl by blast
  then have "resumes F (last_end_of_buffer_offset ?r) ds rest" by (simp add: new_Reader_def)
  then show ?thesis
    using read_all[OF all_frags_recs strays_Nil _ suffix_order.refl, of ?r F 0 False 0 ds rest] new_reads[OF F buf] by simp
qed

text \<open>C1: An uncompressed log that is written and ended is read back.  Whatever the records, with enough room on the
  device all writes succeed without failing an assertion, and a reader of the file, with or without
  checksums, returns the same records in the same order and then the end of the log.
\<close>

theorem log_roundtrip:
  assumes "GetCompressType ct = kNoCompress" and "(\<Sum>d\<leftarrow>ds. 2 * length d + 26) + 26 \<le> n" and "kBlockSize \<le> length buf"
  shows "\<exists>w1 w2 r1 r2. AddRecords cmp (new_Writer_at ct (NewWritableFile lib [] n) 0 b1 b2) ds = Some (w1, OK) \<and>
    EndLog cmp w1 = Some (w2, OK) \<and>
    ReadRecords unc (length ds) (new_Reader (NewSeqFile (content (dest w2))) rep cs 0 False buf b3) = Some (r1, ds) \<and>
    ReadRecord unc r1 = Some (r2, Eof, [])"
proof -
  let ?w0 = "new_Writer_at ct (NewWritableFile lib [] n) 0 b1 b2" let ?E = "enc False 0 (all_frags False 0 ds)"
  have w0: "at_end ?w0" "content (dest ?w0) = []" "room (dest ?w0) = n" "unwritten (dest ?w0) = []"
    using at_end_new[OF assms(1), of 0] by (simp_all add: NewWritableFile_def new_Writer_at_def Let_def)
  have n: "length ?E + 26 \<le> n" using length_enc_all[of 0 ds] assms(2) by linarith
  obtain w1 s1 where "AddRecords cmp ?w0 ds = Some (w1, s1)" "wrote (dest ?w0) ?E (dest w1) s1" "s1 = OK \<Longrightarrow> at_end w1"
    using AddRecords_wrote[of ?w0 0 cmp ds] w0 by auto
  then have 1: "AddRecords cmp ?w0 ds = Some (w1, OK)" "content (dest w1) = ?E" "room (dest w1) \<ge> 26" "at_end w1"
    using wrote_fits[of "dest ?w0" ?E "dest w1" s1] w0 n by auto
  let ?E2 = "enc False (length ?E) [(kEofType, [])]"
  obtain w2 s2 where "EndLog cmp w1 = Some (w2, s2)" "wrote (dest w1) ?E2 (dest w2) s2"
    using EndLog_wrote[OF 1(4), of "length ?E" cmp] 1(2) by auto
  moreover have "length ?E2 \<le> 26" using length_enc_frags[of "length ?E" True "[]"]
    by (auto simp: sizes_False pad_def)
  ultimately have 2: "EndLog cmp w1 = Some (w2, OK)" "content (dest w2) = ?E @ ?E2"
    using wrote_fits[of "dest w1" ?E2 "dest w2" s2] 1 by (auto simp: at_end_def)
  have F: "content (dest w2) = enc False 0 (all_frags False 0 ds @ [(kEofType, [])])" using 2 by (simp add: enc_append)
  have fit: "fits False 0 (all_frags False 0 ds @ [(kEofType, [])])"
    using pad_mod[of "length ?E" False] by (simp add: fits_append all_frags_fits)
  obtain r1 c1 st1 where r: "ReadRecords unc (length ds) (new_Reader (NewSeqFile (content (dest w2))) rep cs 0 False buf b3) = Some (r1, ds)"
      "strays st1" "reads r1 (content (dest w2)) c1 (st1 @ [(kEofType, [])])"
    using read_new[OF F fit assms(3)] by blast
  obtain r2 where "ReadRecord unc r1 = Some (r2, Eof, [])" using ReadRecord_eof[OF r(2,3)] by blast
  then show ?thesis using 1 2 r by blast
qed

text \<open>A log with the records 1 2 3 and the empty one.\<close>

theorem log_roundtrip_witness:
  "\<exists>w1 w2 r1 r2. AddRecords (\<lambda>_ _. None) (new_Writer_at ''no'' (NewWritableFile (\<lambda>b d. b + d) [] 1000) 0 [] []) [[1, 2, 3], []] = Some (w1, OK) \<and>
    EndLog (\<lambda>_ _. None) w1 = Some (w2, OK) \<and>
    ReadRecords (\<lambda>_ _. None) (length [[1, 2, 3], [] :: bytes])
      (new_Reader (NewSeqFile (content (dest w2))) None True 0 False (replicate kBlockSize 0) []) = Some (r1, [[1, 2, 3], []]) \<and>
    ReadRecord (\<lambda>_ _. None) r1 = Some (r2, Eof, [])"
  by (rule log_roundtrip) (simp_all add: GetCompressType_def)

text \<open>Going back to where reading resumes, in a file that has grown.\<close>

lemma GoBack_reads:
  assumes pl: "plain_reader r F" and re: "resumes F (last_end_of_buffer_offset r) ds []" and F': "F' = F @ enc False (length F) later"
    and fit: "fits False (length F) later" and small: "length F < 2 ^ 63"
  shows "\<exists>k st prs. k \<le> length ds \<and> strays st \<and> recs (drop k ds) prs \<and>
    reads ((GoBackToLastBlock r)\<lparr>rfile := (rfile (GoBackToLastBlock r))\<lparr>bytes_of := F'\<rparr>\<rparr>) F' (last_end_of_buffer_offset r) (st @ prs @ later) \<and>
    starts F' (last_end_of_buffer_offset r) (st @ prs @ later)"
proof -
  let ?B = "last_end_of_buffer_offset r"
  obtain st prs ds' where b: "?B mod bsz False = 0" "?B \<le> length F" "drop ?B F = enc False ?B (st @ prs)" "fits False ?B (st @ prs)"
    and s: "strays st" "recs ds' prs" "suffix ds' ds"
    using re unfolding resumes_def starts_def by auto
  have len: "?B + length (enc False ?B (st @ prs)) = length F" using arg_cong[OF b(3), of length] b(2) by simp
  then have "drop ?B F' = enc False ?B ((st @ prs) @ later)" "fits False ?B ((st @ prs) @ later)"
    unfolding F' enc_append[of False ?B "st @ prs"] fits_append[of False ?B "st @ prs"] using b fit by simp_all
  then have st: "starts F' ?B (st @ prs @ later)" using b(1,2) by (simp add: starts_def F')
  have "GoBackToLastBlock r = r\<lparr>end_of_buffer_offset := ?B, buffer := [], rfile := (rfile r)\<lparr>pos := ?B, feof := False\<rparr>\<rparr>"
    using b(1,2) pl small by (simp add: GoBackToLastBlock_def Seek_def fseek_def long_of_small plain_reader_def Let_def)
  then have "reads ((GoBackToLastBlock r)\<lparr>rfile := (rfile (GoBackToLastBlock r))\<lparr>bytes_of := F'\<rparr>\<rparr>) F' ?B (st @ prs @ later)"
    using st pl unfolding starts_def reads_def block_end by (simp add: plain_reader_def)
  moreover obtain k where "k \<le> length ds" "ds' = drop k ds"
    using s(3) by (metis suffix_def append_eq_conv_conj length_append le_add1)
  ultimately show ?thesis using s st by blast
qed

text \<open>C2: Following an uncompressed log that is being written loses nothing, when the device has room and the seek
  back has an offset below 2^63.  When the reader has read all records it waits
  and goes back to the start of a block; after more records were written it returns some of the last
  records again, the same as before, and then all the new ones in order.
\<close>

theorem log_tail:
  assumes "GetCompressType ct = kNoCompress" and "(\<Sum>d\<leftarrow>ds @ es. 2 * length d + 26) \<le> n" and "kBlockSize \<le> length buf"
    and "(\<Sum>d\<leftarrow>ds. 2 * length d + 26) < 2 ^ 63"
  shows "\<exists>w1 w2 r1 r2 r3 k. AddRecords cmp (new_Writer_at ct (NewWritableFile lib [] n) 0 b1 b2) ds = Some (w1, OK) \<and>
    ReadRecords unc (length ds) (new_Reader (NewSeqFile (content (dest w1))) rep cs 0 False buf b3) = Some (r1, ds) \<and>
    ReadRecord unc r1 = Some (r2, WaitRecord, []) \<and> AddRecords cmp w1 es = Some (w2, OK) \<and> k \<le> length ds \<and>
    ReadRecords unc (length ds - k + length es) (r2\<lparr>rfile := (rfile r2)\<lparr>bytes_of := content (dest w2)\<rparr>\<rparr>) = Some (r3, drop k ds @ es)"
proof -
  let ?w0 = "new_Writer_at ct (NewWritableFile lib [] n) 0 b1 b2" let ?E = "enc False 0 (all_frags False 0 ds)"
  let ?E2 = "enc False (length ?E) (all_frags False (length ?E) es)"
  have w0: "at_end ?w0" "content (dest ?w0) = []" "room (dest ?w0) = n" "unwritten (dest ?w0) = []"
    using at_end_new[OF assms(1), of 0] by (simp_all add: NewWritableFile_def new_Writer_at_def Let_def)
  have n: "length ?E + length ?E2 \<le> n" using length_enc_all[of 0 ds] length_enc_all[of "length ?E" es] assms(2) by simp
  obtain w1 s1 where "AddRecords cmp ?w0 ds = Some (w1, s1)" "wrote (dest ?w0) ?E (dest w1) s1" "s1 = OK \<Longrightarrow> at_end w1"
    using AddRecords_wrote[of ?w0 0 cmp ds] w0 by auto
  then have 1: "AddRecords cmp ?w0 ds = Some (w1, OK)" "content (dest w1) = ?E" "length ?E2 \<le> room (dest w1)" "at_end w1"
    using wrote_fits[of "dest ?w0" ?E "dest w1" s1] w0 n by auto
  obtain w2 s2 where "AddRecords cmp w1 es = Some (w2, s2)" "wrote (dest w1) ?E2 (dest w2) s2"
    using AddRecords_wrote[OF 1(4), of "length ?E" cmp es] 1(2) by auto
  then have 2: "AddRecords cmp w1 es = Some (w2, OK)" "content (dest w2) = ?E @ ?E2"
    using wrote_fits[of "dest w1" ?E2 "dest w2" s2] 1 by (auto simp: at_end_def)
  obtain r1 c1 st1 where r: "ReadRecords unc (length ds) (new_Reader (NewSeqFile ?E) rep cs 0 False buf b3) = Some (r1, ds)"
      "strays st1" "reads r1 ?E c1 st1" "resumes ?E (last_end_of_buffer_offset r1) ds []"
    using read_new[of ?E ds "[]" buf] all_frags_fits assms(3) unfolding append_Nil2 by blast
  obtain r2 where r2: "ReadRecord unc r1 = Some (GoBackToLastBlock r2, WaitRecord, [])" "plain_reader r2 ?E"
      "last_end_of_buffer_offset r2 = last_end_of_buffer_offset r1"
    using ReadRecord_wait[OF r(2,3)] by blast
  let ?r2 = "(GoBackToLastBlock r2)\<lparr>rfile := (rfile (GoBackToLastBlock r2))\<lparr>bytes_of := content (dest w2)\<rparr>\<rparr>"
  obtain k st prs where k: "k \<le> length ds" "strays st" "recs (drop k ds) prs"
      "reads ?r2 (content (dest w2)) (last_end_of_buffer_offset r1) (st @ prs @ all_frags False (length ?E) es)"
      "starts (content (dest w2)) (last_end_of_buffer_offset r1) (st @ prs @ all_frags False (length ?E) es)"
    using GoBack_reads[OF r2(2) _ 2(2) all_frags_fits, of ds] r(4) length_enc_all[of 0 ds] assms(4) unfolding r2(3) by auto
  have rc: "recs (drop k ds @ es) (prs @ all_frags False (length ?E) es)" by (rule recs_append[OF k(3) all_frags_recs])
  have "last_end_of_buffer_offset ?r2 = last_end_of_buffer_offset r1" using r2(3) by (simp add: GoBackToLastBlock_def Let_def)
  then have "resumes (content (dest w2)) (last_end_of_buffer_offset ?r2) (drop k ds @ es) []"
    using k(2,5) rc unfolding resumes_def by auto
  then obtain r3 where "ReadRecords unc (length (drop k ds @ es)) ?r2 = Some (r3, drop k ds @ es)"
    using read_all[OF rc k(2), of ?r2 _ _ "[]" "drop k ds @ es" unc] k(4) by auto
  then have "ReadRecords unc (length ds - k + length es) ?r2 = Some (r3, drop k ds @ es)" by simp
  then show ?thesis
    by (intro exI[of _ w1] exI[of _ w2] exI[of _ r1] exI[of _ "GoBackToLastBlock r2"] exI[of _ r3] exI[of _ k] conjI
      1(1) r(1)[folded 1(2)] r2(1) 2(1) k(1))
qed

text \<open>One record is read, then an empty and another one are written.\<close>

theorem log_tail_witness:
  "\<exists>w1 w2 r1 r2 r3 k. AddRecords (\<lambda>_ _. None) (new_Writer_at ''no'' (NewWritableFile (\<lambda>b d. b + d) [] 1000) 0 [] []) [[7, 8]] = Some (w1, OK) \<and>
    ReadRecords (\<lambda>_ _. None) (length [[7, 8] :: bytes])
      (new_Reader (NewSeqFile (content (dest w1))) None True 0 False (replicate kBlockSize 0) []) = Some (r1, [[7, 8]]) \<and>
    ReadRecord (\<lambda>_ _. None) r1 = Some (r2, WaitRecord, []) \<and> AddRecords (\<lambda>_ _. None) w1 [[], [9]] = Some (w2, OK) \<and> k \<le> length [[7, 8] :: bytes] \<and>
    ReadRecords (\<lambda>_ _. None) (length [[7, 8] :: bytes] - k + length [[], [9] :: bytes])
      (r2\<lparr>rfile := (rfile r2)\<lparr>bytes_of := content (dest w2)\<rparr>\<rparr>) = Some (r3, drop k [[7, 8]] @ [[], [9]])"
  by (rule log_tail) (simp_all add: GetCompressType_def)

end
