(* ===== verification/Log_Safety.thy ===== *)
theory Log_Safety
  imports Log_Props
begin

text \<open>
  What the log does when something goes wrong: arbitrary bytes in the file, a damaged byte, a full
  device; and which part of a log is read next.
\<close>

unbundle bit_operations_syntax

section \<open>The checksum\<close>

lemma crc_bit_0:
  assumes "crc_bit l = 0"
  shows "l = 0"
proof -
  have "\<not> bit (drop_bit 1 l) 31" using bit_imp_le_length[of l 32] by (auto simp: bit_drop_bit_eq)
  moreover have "bit (0x82f63b78 :: 32 word) 31" by simp
  ultimately have "bit (drop_bit 1 l XOR 0x82f63b78) 31" by (simp add: bit_xor_iff)
  then have "drop_bit 1 l XOR 0x82f63b78 \<noteq> 0" by (rule contrapos_pn) simp
  then have l: "\<not> bit l 0" "drop_bit 1 l = 0" using assms by (auto simp: crc_bit_def split: if_splits)
  show "l = 0"
  proof (rule bit_word_eqI)
    fix n
    show "bit l n = bit 0 n"
    proof (cases n)
      case 0
      then show ?thesis using l by simp
    next
      case (Suc m)
      have "bit (drop_bit 1 l) m = bit l (Suc m)" by (simp add: bit_drop_bit_eq)
      then show ?thesis using l(2) Suc by simp
    qed
  qed
qed

lemma xor_cancel: "a XOR c = b XOR c \<longleftrightarrow> a = b" "c XOR a = c XOR b \<longleftrightarrow> a = b" for a b c :: "32 word"
  by (metis xor.assoc xor.commute xor.right_neutral xor_self_eq)+

lemma crc_byte_inj: "crc_byte x = crc_byte y \<longleftrightarrow> x = y"
proof
  assume "crc_byte x = crc_byte y"
  then have "crc_byte (x XOR y) = 0" by (simp add: crc_byte_xor)
  then have "x XOR y = 0" unfolding crc_byte_def by (blast dest: crc_bit_0)
  then show "x = y" using xor_cancel(1)[of x y y] by simp
qed simp

lemma crc_fold_inj:
  "fold (\<lambda>b l. crc_byte (l XOR ucast b)) ys l = fold (\<lambda>b l. crc_byte (l XOR ucast b)) ys l' \<longleftrightarrow> l = l'"
proof (induction ys arbitrary: l l')
  case (Cons y ys)
  then show ?case by (simp add: crc_byte_inj xor_cancel)
qed simp

lemma Value_one_byte:
  assumes "Value a (xs @ u # ys) = Value b (xs @ v # ys)"
  shows "u = v"
proof -
  let ?l = "fold (\<lambda>b l. crc_byte (l XOR ucast b)) xs 0xffffffff"
  have "crc_byte (?l XOR ucast u) = crc_byte (?l XOR ucast v)"
    using assms by (simp add: Value_def Extend_ref crc_fold_inj xor_cancel)
  then have "ucast u = (ucast v :: 32 word)" unfolding crc_byte_inj xor_cancel .
  note e = this
  show "u = v"
  proof (rule bit_word_eqI)
    fix n assume "n < LENGTH(8)"
    then show "bit u n = bit v n" using arg_cong[OF e, of "\<lambda>w. bit w n"] by (simp add: bit_simps)
  qed
qed

text \<open>C5: The table-driven checksum, which works on bytes up to an aligned address, then on sixteen and four
  bytes at a time, is the bitwise CRC-32C of the bytes, wherever the buffer lies.
\<close>

theorem Extend_crc32c:
  "Extend pval crc buf = fold (\<lambda>b l. crc_byte (l XOR ucast b)) buf (crc XOR 0xffffffff) XOR 0xffffffff"
  by (rule Extend_ref)

section \<open>Damaged records\<close>

text \<open>C4: A damaged byte is noticed by a reader of uncompressed logs that checks checksums, which is not the
  default (the flag \<open>binlog_enable_crc\<close> is false).  When one byte of the payload of a stored fragment has
  another value, it returns no record for it and drops the rest of the block.
\<close>

theorem damaged_byte_detected:
  assumes "checksum r" and "\<not> compressed r" and "rheader_size r = kHeaderSize"
    and "buffer r = take (kHeaderSize + length xs) (phys False t (xs @ u # ys)) @ v # ys @ rest"
    and "u \<noteq> v" and "length (xs @ u # ys) \<le> kBlockSize"
  shows "\<exists>r1. ParsePhysicalRecord r res = Some (r1, kBadRecord, res) \<and> buffer r1 = []"
proof -
  let ?p = "xs @ v # ys" let ?t = "of_nat (type_code t) :: 8 word"
  let ?crc = "Mask (Value 0 (?t # xs @ u # ys))"
  have b: "buffer r = EncodeFixed32 ?crc @ length_bytes False (length ?p) @ ?t # ?p @ rest"
    unfolding assms(4) phys_def by (simp add: kHeaderSize_def length_bytes_def numeral_3_eq_3)
  have pb: "length ?p \<le> 4096" using assms(6) by (simp add: kBlockSize_def)
  have u: "unat (of_nat n :: 32 word) = n" if "n \<le> 5000" for n using that by (simp add: unat_of_nat)
  have l: "header_length r = of_nat (length ?p)"
    by (rule header_length_bytes[of r "EncodeFixed32 ?crc" _ "?t # ?p @ rest"])
      (use b assms(2) pb in \<open>simp_all add: bsz_def kBlockSize_def\<close>)
  have s1: "unat (1 + of_nat (length ?p) :: 32 word) = 1 + length ?p" using u[of "1 + length ?p"] pb by simp
  have s2: "unat (of_nat kHeaderSize + of_nat (length ?p) :: 32 word) = kHeaderSize + length ?p"
    using u[of "kHeaderSize + length ?p"] pb by (simp add: kHeaderSize_def)
  have crc: "DecodeFixed32 (buffer r) = Some ?crc" unfolding b by simp
  have body: "peek 6 (1 + length ?p) (buffer r) = Some (?t # ?p)" unfolding b by (simp add: peek_def length_bytes_def)
  have size: "kHeaderSize + length ?p \<le> length (buffer r)" unfolding b by (simp add: length_bytes_def kHeaderSize_def)
  have "Value 0 (?t # ?p) \<noteq> Value 0 (?t # xs @ u # ys)" using Value_one_byte[of 0 "?t # xs" v ys 0 u] assms(5) by auto
  then show ?thesis
    using size assms(1-3) unfolding ParsePhysicalRecord_def Let_def l assms(3) s1 s2
    by (simp add: crc body[simplified] ReportCorruption_def ReportDrop_def split: option.split)
qed

theorem damaged_byte_detected_witness:
  "\<exists>r1. ParsePhysicalRecord ((new_Reader (NewSeqFile []) None True 0 False [] [])
      \<lparr>buffer := take (kHeaderSize + length [1]) (phys False kFullType ([1] @ 2 # [])) @ 3 # [] @ []\<rparr>) [] = Some (r1, kBadRecord, []) \<and>
    buffer r1 = []"
  by (rule damaged_byte_detected[where xs = "[1]" and u = 2 and v = 3 and ys = "[]" and rest = "[]" and t = kFullType]) (simp_all add: new_Reader_def kBlockSize_def)

section \<open>Arbitrary files\<close>

text \<open>The bytes the reader still has before it: in its buffer and in the file.\<close>

definition bytes_left :: "reader \<Rightarrow> nat" where
  "bytes_left r = length (buffer r) + (length (bytes_of (rfile r)) - pos (rfile r))"

definition sane :: "reader \<Rightarrow> bool" where
  "sane r \<longleftrightarrow> \<not> compressed r \<and> rblock_size r = kBlockSize \<and> rheader_size r = kHeaderSize \<and>
     length (backing_store r) = kBlockSize"

lemma ReportDrop_sane [simp]:
  "buffer (ReportDrop r n s) = buffer r" "rfile (ReportDrop r n s) = rfile r" "compressed (ReportDrop r n s) = compressed r"
  "rblock_size (ReportDrop r n s) = rblock_size r" "rheader_size (ReportDrop r n s) = rheader_size r"
  "backing_store (ReportDrop r n s) = backing_store r"
  by (auto simp: ReportDrop_def split: option.split)

lemma Read_left:
  assumes "Read n f = (f1, b, s)"
  shows "length b \<le> n" "length b + (length (bytes_of f1) - pos f1) \<le> length (bytes_of f) - pos f"
  using assms by (auto simp: Read_def fread_def Let_def split: if_splits)

lemma ReadBlock_sane:
  assumes "sane r"
  shows "\<exists>r1 x. ReadBlock unc r = Some (r1, x) \<and> sane r1 \<and> bytes_left r1 \<le> bytes_left r \<and>
    (x = Inl kWaitRecord \<or> (\<exists>off. x = Inr off) \<and> kHeaderSize \<le> length (buffer r1))"
proof -
  obtain f1 b s where rd: "Read kBlockSize (rfile r) = (f1, b, s)" by (metis prod_cases3)
  note l = Read_left[OF rd]
  obtain st where st: "blit 0 b (backing_store r) = Some st" "length st = kBlockSize"
    using assms blit_total[of 0 b "backing_store r"] blit_length l(1) by (fastforce simp: sane_def)
  show ?thesis
    using assms rd st l(2) by (auto simp: ReadBlock_def sane_def Let_def bytes_left_def)
qed

lemma header_length_small: "\<not> compressed r \<Longrightarrow> unat (header_length r) < 2 ^ 16"
proof -
  assume "\<not> compressed r"
  then have "header_length r = take_bit 16 (header_length r)"
    by (intro bit_word_eqI) (auto simp: header_length_def Let_def bit_simps dest: bit_imp_le_length)
  then have "unat (header_length r) = take_bit 16 (unat (header_length r))" by (metis unsigned_take_bit_eq)
  then show ?thesis by (metis take_bit_nat_less_exp)
qed

lemma Parse_sane:
  assumes "sane r" "kHeaderSize \<le> length (buffer r)"
  shows "\<exists>r1 t f. ParsePhysicalRecord r res = Some (r1, t, f) \<and> sane r1 \<and>
    (t = kWaitRecord \<or> t = kBadRecord \<or> t = kEof \<or> bytes_left r1 < bytes_left r)"
proof -
  let ?l = "header_length r"
  have c: "\<not> compressed r" "rheader_size r = kHeaderSize" using assms(1) by (auto simp: sane_def)
  note l = header_length_small[OF c(1)]
  have s1: "unat (1 + ?l) = 1 + unat ?l" using l by (simp add: unat_word_ariths)
  have s2: "unat (of_nat kHeaderSize + ?l) = kHeaderSize + unat ?l" using l by (simp add: unat_word_ariths kHeaderSize_def)
  obtain v where v: "DecodeFixed32 (buffer r) = Some v"
    using assms(2) Decode32_None[of "buffer r"] by (cases "DecodeFixed32 (buffer r)") (auto simp: kHeaderSize_def)
  show ?thesis
  proof (cases "kHeaderSize + unat ?l \<le> length (buffer r)")
    case False
    then show ?thesis using c assms(1) by (simp add: ParsePhysicalRecord_def Let_def s2)
  next
    case True
    have 1: "peek 6 (1 + unat ?l) (buffer r) = Some (take (1 + unat ?l) (drop 6 (buffer r)))"
      "peek kHeaderSize (unat ?l) (buffer r) = Some (take (unat ?l) (drop kHeaderSize (buffer r)))"
      using True by (simp_all add: peek_def kHeaderSize_def)
    have "bytes_left (r\<lparr>buffer := drop (kHeaderSize + unat ?l) (buffer r)\<rparr>) < bytes_left r"
      using True by (simp add: bytes_left_def kHeaderSize_def)
    then show ?thesis
      using c assms(1) True v 1[simplified]
      by (auto simp: ParsePhysicalRecord_def Let_def s1 s2 sane_def ReportCorruption_def)
  qed
qed

lemma ReadPhysical_sane:
  assumes "sane r"
  shows "\<exists>r1 t f off. ReadPhysicalRecord unc r res = Some (r1, t, f, off) \<and> sane r1 \<and>
    (t = kWaitRecord \<or> t = kBadRecord \<or> t = kEof \<or> bytes_left r1 < bytes_left r)"
proof (cases "length (buffer r) < rheader_size r")
  case True
  obtain r1 x where 1: "ReadBlock unc r = Some (r1, x)" "sane r1" "bytes_left r1 \<le> bytes_left r"
      "x = Inl kWaitRecord \<or> (\<exists>off. x = Inr off) \<and> kHeaderSize \<le> length (buffer r1)"
    using ReadBlock_sane[OF assms, of unc] by blast
  from 1(4) show ?thesis
  proof (elim disjE conjE exE)
    assume "x = Inl kWaitRecord"
    then show ?thesis using True 1 by (auto simp: ReadPhysicalRecord_def)
  next
    fix off assume x: "x = Inr off" "kHeaderSize \<le> length (buffer r1)"
    then show ?thesis using True 1 Parse_sane[OF 1(2) x(2), of res] by (fastforce simp: ReadPhysicalRecord_def)
  qed
next
  case False
  then show ?thesis using assms Parse_sane[OF assms, of res] by (auto simp: ReadPhysicalRecord_def sane_def)
qed

lemma ReadRecord_step_sane:
  assumes "ReadRecord_step r t f off in_frag pr scr = (r1, Inr x)" "sane r"
  shows "sane r1 \<and> bytes_left r1 = bytes_left r \<and> t \<noteq> kWaitRecord \<and> t \<noteq> kBadRecord \<and> t \<noteq> kEof"
  using assms by (auto simp: ReadRecord_step_def Let_def sane_def bytes_left_def split: if_splits)

lemma ReadRecord_step_result:
  "ReadRecord_step r t f off in_frag pr scr = (r1, Inl (s, d)) \<Longrightarrow> s \<in> {OK, WaitRecord, Eof, InvalidRecord}"
  by (auto simp: ReadRecord_step_def Let_def split: if_splits)

lemma ReadRecord_loop_returns:
  assumes "sane r"
  shows "\<exists>r1 s d. ReadRecord_loop unc r res in_frag pr scr = Some (r1, s, d) \<and> s \<in> {OK, WaitRecord, Eof, InvalidRecord}"
  using assms
proof (induction "bytes_left r" arbitrary: r res in_frag pr scr rule: less_induct)
  case less
  obtain r1 t f off where 1: "ReadPhysicalRecord unc r res = Some (r1, t, f, off)" "sane r1"
      "t = kWaitRecord \<or> t = kBadRecord \<or> t = kEof \<or> bytes_left r1 < bytes_left r"
    using ReadPhysical_sane[OF less(2), of unc res] by blast
  obtain r2 y where 2: "ReadRecord_step r1 t f off in_frag pr scr = (r2, y)" by fastforce
  show ?case
  proof (cases y)
    case (Inl a)
    then show ?thesis using 1(1) 2 ReadRecord_step_result[of r1 t f off in_frag pr scr r2]
      by (cases a) (auto simp: ReadRecord_loop.simps[of unc r])
  next
    case (Inr b)
    obtain i p c where b: "b = (i, p, c)" by (metis prod_cases3)
    then have "sane r2" "bytes_left r2 < bytes_left r" using ReadRecord_step_sane[of r1 t f off in_frag pr scr r2] 1 2 Inr by auto
    then show ?thesis using less(1)[of r2 f i p c] 1(1) 2 Inr b by (simp add: ReadRecord_loop.simps[of unc r])
  qed
qed

text \<open>C3: Reading an uncompressed log ends on every file.  Whatever its bytes, wherever the stream stands and at
  whatever 64-bit offset the reader starts, \<open>ReadRecord\<close> returns after finitely many blocks and reads no byte outside
  its buffers; its result is a record, the wait for more, the end of the log, an invalid record, or an error, the
  last exactly when the first block lies behind the start of the file and the stream cannot be moved there.
\<close>

theorem ReadRecord_returns:
  assumes "kBlockSize \<le> length buf"
  shows "\<exists>r1 s d. ReadRecord unc (new_Reader f rep cs offset False buf b2) = Some (r1, s, d) \<and>
    s \<in> {OK, WaitRecord, Eof, InvalidRecord, IOError} \<and>
    (s = IOError \<longleftrightarrow> 0 < initial_block kBlockSize (unat offset) \<and> snd (Skip (initial_block kBlockSize (unat offset)) f) \<noteq> OK)"
proof -
  let ?r = "new_Reader f rep cs offset False buf b2" and ?b = "initial_block kBlockSize (unat offset)"
  have r: "sane ?r" "rblock_size ?r = kBlockSize" "initial_offset ?r = unat offset" "rfile ?r = f" "last_record_offset ?r = 0"
    using assms by (simp_all add: new_Reader_def sane_def)
  obtain r1 ok where 1: "(if last_record_offset ?r < initial_offset ?r then SkipToInitialBlock ?r else (?r, True)) = (r1, ok)"
    by fastforce
  have z: "?b = 0" if "unat offset = 0" using that by (simp add: initial_block_def)
  have ok: "ok \<longleftrightarrow> \<not> (0 < ?b \<and> snd (Skip ?b f) \<noteq> OK)"
    using 1 r z by (auto simp: SkipToInitialBlock_def Let_def split: if_splits prod.splits)
  show ?thesis
  proof (cases ok)
    case True
    then have "sane r1" using 1 r(1) by (auto simp: SkipToInitialBlock_def Let_def sane_def split: if_splits prod.splits)
    then show ?thesis using ReadRecord_loop_returns[of r1 unc "[]" False 0 "[]"] 1 True ok by (auto simp: ReadRecord_def)
  next
    case False
    then have "ReadRecord unc ?r = Some (r1, IOError, [])" using 1 by (simp add: ReadRecord_def)
    then show ?thesis using ok False by auto
  qed
qed

text \<open>Three arbitrary bytes, read from an offset in the second block; and a stream that cannot be moved.\<close>

theorem ReadRecord_returns_witness:
  "(\<exists>r1 s d. ReadRecord (\<lambda>_ _. None) (new_Reader (NewSeqFile [0xff, 0, 1]) None True 5000 False (replicate kBlockSize 0) []) = Some (r1, s, d) \<and>
    s \<noteq> IOError) \<and>
   (\<exists>r1 d. ReadRecord (\<lambda>_ _. None) (new_Reader ((NewSeqFile [0xff, 0, 1])\<lparr>seekable := False\<rparr>) None True 5000 False (replicate kBlockSize 0) []) =
      Some (r1, IOError, d))"
proof -
  have b: "initial_block kBlockSize (unat (5000 :: 64 word)) = 4096" by (simp add: initial_block_def kBlockSize_def)
  have buf: "kBlockSize \<le> length (replicate kBlockSize (0 :: 8 word))" by simp
  have "snd (Skip 4096 (NewSeqFile [0xff, 0, 1])) = OK" "snd (Skip 4096 ((NewSeqFile [0xff, 0, 1])\<lparr>seekable := False\<rparr>)) \<noteq> OK"
    by (simp_all add: Skip_def fseek_def NewSeqFile_def long_of_small)
  then show ?thesis
    using ReadRecord_returns[OF buf, of "\<lambda>_ _. None" "NewSeqFile [0xff, 0, 1]" None True 5000 "[]"]
      ReadRecord_returns[OF buf, of "\<lambda>_ _. None" "(NewSeqFile [0xff, 0, 1])\<lparr>seekable := False\<rparr>" None True 5000 "[]"]
    unfolding b by auto
qed

section \<open>A full device\<close>

text \<open>C6: A writer on an existing uncompressed log appends the fragments of the record, each within one
  block, and reports an error exactly when the device cannot take all of them; what it could take is then a
  prefix of them.  This holds however the C library buffers, since every fragment is flushed and the result of the
  flush is what is reported; after the write the library holds nothing back.
\<close>

theorem AddRecord_full_device:
  assumes "GetCompressType ct = kNoCompress"
  shows "\<exists>w s E prs. AddRecord cmp (new_Writer_at ct (NewWritableFile lib old n) (length old) b1 b2) d = Some (w, s) \<and>
    is_record d prs \<and> fits False (length old) prs \<and> E = enc False (length old) prs \<and>
    length E \<le> 2 * length d + 26 \<and> s = (if length E \<le> n then OK else IOError) \<and>
    content (dest w) = old @ take n E \<and> room (dest w) = n - length E \<and> unwritten (dest w) = []"
proof -
  let ?f = "NewWritableFile lib old n" and ?c = "length old" let ?w = "new_Writer_at ct ?f ?c b1 b2"
  have f: "content ?f = old" "unwritten ?f = []" "room ?f = n" by (simp_all add: NewWritableFile_def)
  have w: "at_end ?w" "dest ?w = ?f" using at_end_new[OF assms _ f(2)] f(1) by (simp_all add: new_Writer_at_def Let_def)
  obtain w1 s where 1: "AddRecord cmp ?w d = Some (w1, s)" "wrote ?f (enc False ?c (frags False ?c True d)) (dest w1) s"
    using AddRecord_wrote[OF w(1), of ?c cmp d] w(2) f(1) by auto
  have "length (enc False ?c (frags False ?c True d)) \<le> 2 * length d + 26"
    using length_enc_frags[of ?c True d] by (auto split: if_splits)
  then show ?thesis
    using 1 f by (intro exI[of _ w1] exI[of _ s] exI[of _ "enc False ?c (frags False ?c True d)"] exI[of _ "frags False ?c True d"])
      (auto simp: wrote_def handed_def flushed_def spare_def frags_record frags_fits)
qed

text \<open>The library holds everything back, so the flush finds the device full.\<close>

theorem AddRecord_full_device_witness:
  "\<exists>w s E prs. AddRecord (\<lambda>_ _. None) (new_Writer_at ''no'' (NewWritableFile (\<lambda>b d. b + d) [1, 2] 5) (length [1 :: 8 word, 2]) [] []) [9]
      = Some (w, s) \<and>
    is_record [9] prs \<and> fits False (length [1 :: 8 word, 2]) prs \<and>
    E = enc False (length [1 :: 8 word, 2]) prs \<and> length E \<le> 2 * length [9 :: 8 word] + 26 \<and>
    s = (if length E \<le> 5 then OK else IOError) \<and>
    content (dest w) = [1, 2] @ take 5 E \<and> room (dest w) = 5 - length E \<and> unwritten (dest w) = []"
  by (rule AddRecord_full_device) (simp add: GetCompressType_def)

end
