(* ===== verification/Log_Parts.thy ===== *)
theory Log_Parts
  imports Log_Reader
begin






end
