(* ===== verification/Codec.thy ===== *)
theory Codec
  imports Buffers
begin

text \<open>
  The row format: \<open>src/codec/codec.h\<close> and \<open>src/codec/codec.cc\<close>.  A row has a header of two version bytes and
  its size, a bitmap of the columns that are null, the columns of fixed width, the offsets of the strings
  and the strings.

  Rows are byte buffers; reading or writing outside of one is \<open>None\<close>.  Integers are words, a float or
  double is the word of its bit pattern, and sizes and offsets are natural numbers with the 32-bit
  wrap-around written out where the code adds to them.
\<close>

unbundle bit_operations_syntax

section \<open>Little-endian numbers\<close>

text \<open>What the code reads and writes through a pointer to an integer of \<open>k\<close> bytes.\<close>

definition le :: "nat \<Rightarrow> nat \<Rightarrow> bytes" where
  "le k n = map (\<lambda>i. of_nat (n div 256 ^ i)) [0..<k]"

fun unle :: "bytes \<Rightarrow> nat" where
  "unle [] = 0"
| "unle (b # bs) = unat b + 256 * unle bs"

definition load :: "nat \<Rightarrow> nat \<Rightarrow> bytes \<Rightarrow> nat option" where
  "load off k buf = map_option unle (peek off k buf)"

definition u32 :: "nat \<Rightarrow> nat" where
  "u32 n = n mod 2 ^ 32"

section \<open>Types and schemas\<close>

datatype DataType = kBool | kSmallInt | kInt | kBigInt | kFloat | kDouble | kDate | kTimestamp | kVarchar | kString

text \<open>The numbers of the types and \<open>TYPE_SIZE_ARRAY\<close>.\<close>

primrec dt_code :: "DataType \<Rightarrow> nat" where
  "dt_code kBool = 1" | "dt_code kSmallInt = 2" | "dt_code kInt = 3" | "dt_code kBigInt = 4" | "dt_code kFloat = 5"
| "dt_code kDouble = 6" | "dt_code kDate = 7" | "dt_code kTimestamp = 8" | "dt_code kVarchar = 13" | "dt_code kString = 14"

definition TYPE_SIZE_ARRAY :: "nat list" where
  "TYPE_SIZE_ARRAY = [0, 1, 2, 4, 8, 4, 8, 4, 8]"

definition type_size :: "DataType \<Rightarrow> nat" where
  "type_size t = TYPE_SIZE_ARRAY ! dt_code t"

definition is_string :: "DataType \<Rightarrow> bool" where
  "is_string t \<longleftrightarrow> t = kVarchar \<or> t = kString"

record column =
  col_name :: string
  data_type :: DataType
  not_null :: bool

type_synonym schema = "column list"

definition VERSION_LENGTH :: nat where "VERSION_LENGTH = 2"
definition SIZE_LENGTH :: nat where "SIZE_LENGTH = 4"
definition HEADER_LENGTH :: nat where "HEADER_LENGTH = VERSION_LENGTH + SIZE_LENGTH"
definition UINT24_MAX :: nat where "UINT24_MAX = 2 ^ 24 - 1"

definition BitMapSize :: "nat \<Rightarrow> nat" where
  "BitMapSize n = n div 8 + (if n mod 8 \<noteq> 0 then 1 else 0)"

definition GetAddrLength :: "nat \<Rightarrow> nat" where
  "GetAddrLength n = (if n \<le> 255 then 1 else if n \<le> 65535 then 2 else if n \<le> UINT24_MAX then 3 else 4)"

section \<open>Building a row\<close>

record row_builder =
  rb_schema :: schema
  buf :: "bytes option"
  cnt :: nat
  rb_size :: nat
  str_field_cnt :: nat
  str_addr_length :: nat
  str_field_start_offset :: nat
  str_offset :: nat
  schema_version :: "8 word"
  offset_vec :: "nat list"

text \<open>The loop of the constructors over the columns: the offsets, the next offset and the number of strings.\<close>

fun column_offsets :: "nat \<Rightarrow> nat \<Rightarrow> schema \<Rightarrow> nat list \<times> nat \<times> nat" where
  "column_offsets start strs [] = ([], start, strs)"
| "column_offsets start strs (c # cs) = (
     if is_string (data_type c)
     then (case column_offsets start (strs + 1) cs of (v, e, n) \<Rightarrow> (strs # v, e, n))
     else (case column_offsets (start + type_size (data_type c)) strs cs of (v, e, n) \<Rightarrow> (start # v, e, n)))"

definition new_RowBuilder :: "schema \<Rightarrow> row_builder" where
  "new_RowBuilder sch = (case column_offsets (HEADER_LENGTH + BitMapSize (length sch)) 0 sch of (v, e, n) \<Rightarrow>
     \<lparr>rb_schema = sch, buf = None, cnt = 0, rb_size = 0, str_field_cnt = n, str_addr_length = 0,
      str_field_start_offset = e, str_offset = 0, schema_version = 1, offset_vec = v\<rparr>)"

definition SetSchemaVersion :: "row_builder \<Rightarrow> 8 word \<Rightarrow> row_builder" where
  "SetSchemaVersion rb version = rb\<lparr>schema_version := version\<rparr>"

definition CalTotalLength :: "row_builder \<Rightarrow> nat \<Rightarrow> nat" where
  "CalTotalLength rb string_length = (
     if length (rb_schema rb) = 0 then 0
     else let total_length = u32 (str_field_start_offset rb + string_length); n = str_field_cnt rb in
       if u32 (total_length + n) \<le> 255 then u32 (total_length + n)
       else if u32 (total_length + n * 2) \<le> 65535 then u32 (total_length + n * 2)
       else if u32 (total_length + n * 3) \<le> UINT24_MAX then u32 (total_length + n * 3)
       else u32 (total_length + n * 4))"

text \<open>\<open>store off xs rb\<close> writes through the pointer \<open>buf_ + off\<close>.\<close>

definition store :: "nat \<Rightarrow> bytes \<Rightarrow> row_builder \<Rightarrow> row_builder option" where
  "store off xs rb = do { b \<leftarrow> buf rb; b1 \<leftarrow> blit off xs b; Some (rb\<lparr>buf := Some b1\<rparr>) }"

definition SetBuffer :: "row_builder \<Rightarrow> bytes option \<Rightarrow> nat \<Rightarrow> bool \<Rightarrow> (bool \<times> row_builder) option" where
  "SetBuffer rb b sz need_clear = (
     if b = None \<or> sz = 0 \<or> sz < u32 (str_field_start_offset rb + str_field_cnt rb) then Some (False, rb)
     else do {
       let rb1 = rb\<lparr>buf := b, rb_size := sz\<rparr>;
       rb2 \<leftarrow> store 0 [1] rb1;
       rb3 \<leftarrow> store 1 [schema_version rb2] rb2;
       rb4 \<leftarrow> store VERSION_LENGTH (le 4 sz) rb3;
       rb5 \<leftarrow> (if need_clear then store HEADER_LENGTH (replicate (BitMapSize (length (rb_schema rb4))) 0xff) rb4 else Some rb4);
       let a = GetAddrLength sz;
       Some (True, rb5\<lparr>cnt := 0, str_addr_length := a, str_offset := u32 (str_field_start_offset rb5 + a * str_field_cnt rb5)\<rparr>) })"

definition RowBuilder_Check :: "row_builder \<Rightarrow> nat \<Rightarrow> DataType \<Rightarrow> bool" where
  "RowBuilder_Check rb index t = (index < length (rb_schema rb) \<and> data_type (rb_schema rb ! index) = t)"

text \<open>The bit of a column in the bitmap: \<open>SetField\<close> clears it.\<close>

definition SetField :: "row_builder \<Rightarrow> nat \<Rightarrow> row_builder option" where
  "SetField rb index = do {
     b \<leftarrow> buf rb;
     v \<leftarrow> peek (HEADER_LENGTH + index div 8) 1 b;
     store (HEADER_LENGTH + index div 8) [hd v AND NOT (push_bit (index mod 8) 1)] rb }"

definition SetStrOffset :: "row_builder \<Rightarrow> nat \<Rightarrow> row_builder option" where
  "SetStrOffset rb str_pos = (
     if str_pos \<ge> str_field_cnt rb then Some rb
     else let ptr = str_field_start_offset rb + str_addr_length rb * str_pos; off = str_offset rb in
       if str_addr_length rb = 1 then store ptr (le 1 off) rb
       else if str_addr_length rb = 2 then store ptr (le 2 off) rb
       else if str_addr_length rb = 3 then store ptr (rev (le 3 off)) rb
       else store ptr (le 4 off) rb)"

text \<open>The setters of the fixed-width columns share this: check the type, clear the null bit, write the bytes.\<close>

definition set_fixed :: "row_builder \<Rightarrow> nat \<Rightarrow> DataType \<Rightarrow> bytes \<Rightarrow> (bool \<times> row_builder) option" where
  "set_fixed rb index t xs = (
     if \<not> RowBuilder_Check rb index t then Some (False, rb)
     else do { rb1 \<leftarrow> SetField rb index; rb2 \<leftarrow> store (offset_vec rb1 ! index) xs rb1; Some (True, rb2) })"

definition append_with :: "(row_builder \<Rightarrow> nat \<Rightarrow> (bool \<times> row_builder) option) \<Rightarrow> row_builder \<Rightarrow> (bool \<times> row_builder) option" where
  "append_with setter rb = do { (ok, rb1) \<leftarrow> setter rb (cnt rb); Some (if ok then (True, rb1\<lparr>cnt := cnt rb1 + 1\<rparr>) else (False, rb1)) }"

definition SetBool :: "row_builder \<Rightarrow> nat \<Rightarrow> bool \<Rightarrow> (bool \<times> row_builder) option" where
  "SetBool rb index val = set_fixed rb index kBool [if val then 1 else 0]"

definition AppendBool :: "row_builder \<Rightarrow> bool \<Rightarrow> (bool \<times> row_builder) option" where
  "AppendBool rb val = append_with (\<lambda>rb i. SetBool rb i val) rb"

definition SetInt16 :: "row_builder \<Rightarrow> nat \<Rightarrow> 16 word \<Rightarrow> (bool \<times> row_builder) option" where
  "SetInt16 rb index val = set_fixed rb index kSmallInt (le 2 (unat val))"

definition AppendInt16 :: "row_builder \<Rightarrow> 16 word \<Rightarrow> (bool \<times> row_builder) option" where
  "AppendInt16 rb val = append_with (\<lambda>rb i. SetInt16 rb i val) rb"

definition SetInt32 :: "row_builder \<Rightarrow> nat \<Rightarrow> 32 word \<Rightarrow> (bool \<times> row_builder) option" where
  "SetInt32 rb index val = set_fixed rb index kInt (le 4 (unat val))"

definition AppendInt32 :: "row_builder \<Rightarrow> 32 word \<Rightarrow> (bool \<times> row_builder) option" where
  "AppendInt32 rb val = append_with (\<lambda>rb i. SetInt32 rb i val) rb"

definition SetInt64 :: "row_builder \<Rightarrow> nat \<Rightarrow> 64 word \<Rightarrow> (bool \<times> row_builder) option" where
  "SetInt64 rb index val = set_fixed rb index kBigInt (le 8 (unat val))"

definition AppendInt64 :: "row_builder \<Rightarrow> 64 word \<Rightarrow> (bool \<times> row_builder) option" where
  "AppendInt64 rb val = append_with (\<lambda>rb i. SetInt64 rb i val) rb"

definition SetTimestamp :: "row_builder \<Rightarrow> nat \<Rightarrow> 64 word \<Rightarrow> (bool \<times> row_builder) option" where
  "SetTimestamp rb index val = set_fixed rb index kTimestamp (le 8 (unat val))"

definition AppendTimestamp :: "row_builder \<Rightarrow> 64 word \<Rightarrow> (bool \<times> row_builder) option" where
  "AppendTimestamp rb val = append_with (\<lambda>rb i. SetTimestamp rb i val) rb"

definition SetFloat :: "row_builder \<Rightarrow> nat \<Rightarrow> 32 word \<Rightarrow> (bool \<times> row_builder) option" where
  "SetFloat rb index val = set_fixed rb index kFloat (le 4 (unat val))"

definition AppendFloat :: "row_builder \<Rightarrow> 32 word \<Rightarrow> (bool \<times> row_builder) option" where
  "AppendFloat rb val = append_with (\<lambda>rb i. SetFloat rb i val) rb"

definition SetDouble :: "row_builder \<Rightarrow> nat \<Rightarrow> 64 word \<Rightarrow> (bool \<times> row_builder) option" where
  "SetDouble rb index val = set_fixed rb index kDouble (le 8 (unat val))"

definition AppendDouble :: "row_builder \<Rightarrow> 64 word \<Rightarrow> (bool \<times> row_builder) option" where
  "AppendDouble rb val = append_with (\<lambda>rb i. SetDouble rb i val) rb"

text \<open>A date is given encoded, or as year, month and day.\<close>

definition SetDate :: "row_builder \<Rightarrow> nat \<Rightarrow> 32 word \<Rightarrow> (bool \<times> row_builder) option" where
  "SetDate rb index date = set_fixed rb index kDate (le 4 (unat date))"

definition AppendDate :: "row_builder \<Rightarrow> 32 word \<Rightarrow> (bool \<times> row_builder) option" where
  "AppendDate rb date = append_with (\<lambda>rb i. SetDate rb i date) rb"

definition encode_date :: "32 word \<Rightarrow> 32 word \<Rightarrow> 32 word \<Rightarrow> 32 word" where
  "encode_date year month day = push_bit 16 (year - 1900) OR push_bit 8 (month - 1) OR day"

definition SetDate_ymd :: "row_builder \<Rightarrow> nat \<Rightarrow> 32 word \<Rightarrow> 32 word \<Rightarrow> 32 word \<Rightarrow> (bool \<times> row_builder) option" where
  "SetDate_ymd rb index year month day = (
     if year < 1900 \<or> year > 9999 then Some (False, rb)
     else if month < 1 \<or> month > 12 then Some (False, rb)
     else if day < 1 \<or> day > 31 then Some (False, rb)
     else if \<not> RowBuilder_Check rb index kDate then Some (False, rb)
     else do {
       rb1 \<leftarrow> store (offset_vec rb ! index) (le 4 (unat (encode_date year month day))) rb;
       rb2 \<leftarrow> SetField rb1 index;
       Some (True, rb2) })"

definition AppendDate_ymd :: "row_builder \<Rightarrow> 32 word \<Rightarrow> 32 word \<Rightarrow> 32 word \<Rightarrow> (bool \<times> row_builder) option" where
  "AppendDate_ymd rb year month day = append_with (\<lambda>rb i. SetDate_ymd rb i year month day) rb"

text \<open>\<open>schema_.Get (index)\<close> is not checked here, so an index past the end is undefined.\<close>

definition SetNULL :: "row_builder \<Rightarrow> nat \<Rightarrow> (bool \<times> row_builder) option" where
  "SetNULL rb index = do {
     assert_that (index < length (rb_schema rb));
     let c = rb_schema rb ! index;
     if not_null c then Some (False, rb)
     else do {
       b \<leftarrow> buf rb;
       v \<leftarrow> peek (HEADER_LENGTH + index div 8) 1 b;
       rb1 \<leftarrow> store (HEADER_LENGTH + index div 8) [hd v OR push_bit (index mod 8) 1] rb;
       rb2 \<leftarrow> (if is_string (data_type c) then SetStrOffset rb1 (offset_vec rb1 ! index + 1) else Some rb1);
       Some (True, rb2) } }"

definition AppendNULL :: "row_builder \<Rightarrow> (bool \<times> row_builder) option" where
  "AppendNULL rb = append_with SetNULL rb"

definition SetString :: "row_builder \<Rightarrow> nat \<Rightarrow> bytes option \<Rightarrow> (bool \<times> row_builder) option" where
  "SetString rb index val = (case val of
     None \<Rightarrow> Some (False, rb)
   | Some xs \<Rightarrow>
       if \<not> RowBuilder_Check rb index kVarchar \<and> \<not> RowBuilder_Check rb index kString then Some (False, rb)
       else if u32 (str_offset rb + length xs) > rb_size rb then Some (False, rb)
       else do {
         let str_pos = offset_vec rb ! index;
         rb1 \<leftarrow> (if str_pos = 0 then SetStrOffset rb str_pos else Some rb);
         rb2 \<leftarrow> (if length xs \<noteq> 0 then store (str_offset rb1) xs rb1 else Some rb1);
         let rb3 = rb2\<lparr>str_offset := u32 (str_offset rb2 + length xs)\<rparr>;
         rb4 \<leftarrow> SetStrOffset rb3 (str_pos + 1);
         rb5 \<leftarrow> SetField rb4 index;
         Some (True, rb5) })"

definition AppendString :: "row_builder \<Rightarrow> bytes option \<Rightarrow> (bool \<times> row_builder) option" where
  "AppendString rb val = append_with (\<lambda>rb i. SetString rb i val) rb"

definition IsComplete :: "row_builder \<Rightarrow> bool" where
  "IsComplete rb \<longleftrightarrow> cnt rb = length (rb_schema rb)"

section \<open>Values from text\<close>

text \<open>
  \<open>boost::lexical_cast\<close> is a parameter of \<open>AppendValue\<close>: for each target type the value of a text, or \<open>None\<close>
  when it throws.
\<close>

record lexical =
  lex_int16 :: "bytes \<Rightarrow> 16 word option"
  lex_int32 :: "bytes \<Rightarrow> 32 word option"
  lex_int64 :: "bytes \<Rightarrow> 64 word option"
  lex_uint32 :: "bytes \<Rightarrow> 32 word option"
  lex_float :: "bytes \<Rightarrow> 32 word option"
  lex_double :: "bytes \<Rightarrow> 64 word option"

text \<open>\<open>SplitString\<close> for a delimiter of one byte: the non-empty pieces.\<close>

definition SplitString :: "byte \<Rightarrow> bytes \<Rightarrow> bytes list" where
  "SplitString delim full = filter (\<lambda>p. p \<noteq> []) (foldr (\<lambda>c ps. if c = delim then [] # ps else (c # hd ps) # tl ps) full [[]])"

definition tolower :: "byte \<Rightarrow> byte" where
  "tolower c = (if 65 \<le> c \<and> c \<le> 90 then c + 32 else c)"

definition ascii :: "string \<Rightarrow> bytes" where
  "ascii s = map of_char s"

definition AppendValue :: "lexical \<Rightarrow> row_builder \<Rightarrow> bytes \<Rightarrow> (bool \<times> row_builder) option" where
  "AppendValue lx rb val = do {
     assert_that (cnt rb < length (rb_schema rb));
     case data_type (rb_schema rb ! cnt rb) of
       kString \<Rightarrow> AppendString rb (Some val)
     | kVarchar \<Rightarrow> AppendString rb (Some val)
     | kBool \<Rightarrow> (let b_val = map tolower val in
         if b_val = ascii ''true'' then AppendBool rb True
         else if b_val = ascii ''false'' then AppendBool rb False else Some (False, rb))
     | kSmallInt \<Rightarrow> (case lex_int16 lx val of None \<Rightarrow> Some (False, rb) | Some v \<Rightarrow> AppendInt16 rb v)
     | kInt \<Rightarrow> (case lex_int32 lx val of None \<Rightarrow> Some (False, rb) | Some v \<Rightarrow> AppendInt32 rb v)
     | kBigInt \<Rightarrow> (case lex_int64 lx val of None \<Rightarrow> Some (False, rb) | Some v \<Rightarrow> AppendInt64 rb v)
     | kTimestamp \<Rightarrow> (case lex_int64 lx val of None \<Rightarrow> Some (False, rb) | Some v \<Rightarrow> AppendTimestamp rb v)
     | kFloat \<Rightarrow> (case lex_float lx val of None \<Rightarrow> Some (False, rb) | Some v \<Rightarrow> AppendFloat rb v)
     | kDouble \<Rightarrow> (case lex_double lx val of None \<Rightarrow> Some (False, rb) | Some v \<Rightarrow> AppendDouble rb v)
     | kDate \<Rightarrow> (let parts = SplitString 45 val in
         if length parts \<noteq> 3 then Some (False, rb)
         else case (lex_uint32 lx (parts ! 0), lex_uint32 lx (parts ! 1), lex_uint32 lx (parts ! 2)) of
           (Some y, Some m, Some d) \<Rightarrow> AppendDate_ymd rb y m d
         | _ \<Rightarrow> Some (False, rb)) }"

section \<open>Reading a row\<close>

record row_view =
  v_str_addr_length :: nat
  is_valid :: bool
  string_field_cnt :: nat
  v_str_start :: nat
  v_size :: nat
  row :: "bytes option"
  v_schema :: schema
  v_offset_vec :: "nat list"

definition RowView_Init :: "schema \<Rightarrow> bytes option \<Rightarrow> nat \<Rightarrow> row_view" where
  "RowView_Init sch r sz = (case column_offsets (HEADER_LENGTH + BitMapSize (length sch)) 0 sch of (v, e, n) \<Rightarrow>
     \<lparr>v_str_addr_length = 0, is_valid = True, string_field_cnt = n, v_str_start = e, v_size = sz, row = r,
      v_schema = sch, v_offset_vec = v\<rparr>)"

definition new_RowView :: "schema \<Rightarrow> row_view" where
  "new_RowView sch = RowView_Init sch None 0"

definition RowView_Reset :: "row_view \<Rightarrow> bytes option \<Rightarrow> nat \<Rightarrow> (bool \<times> row_view) option" where
  "RowView_Reset rv r sz = (case r of
     None \<Rightarrow> Some (False, rv\<lparr>is_valid := False\<rparr>)
   | Some b \<Rightarrow>
       if length (v_schema rv) = 0 \<or> sz \<le> HEADER_LENGTH then Some (False, rv\<lparr>is_valid := False\<rparr>)
       else do {
         stored \<leftarrow> load VERSION_LENGTH 4 b;
         if stored \<noteq> sz then Some (False, rv\<lparr>is_valid := False\<rparr>)
         else Some (True, rv\<lparr>row := r, v_size := sz, v_str_addr_length := GetAddrLength sz\<rparr>) })"

definition RowView_Reset_row :: "row_view \<Rightarrow> bytes option \<Rightarrow> (bool \<times> row_view) option" where
  "RowView_Reset_row rv r = (case r of
     None \<Rightarrow> Some (False, rv\<lparr>is_valid := False\<rparr>)
   | Some b \<Rightarrow>
       if length (v_schema rv) = 0 then Some (False, rv\<lparr>is_valid := False\<rparr>)
       else do {
         stored \<leftarrow> load VERSION_LENGTH 4 b;
         let rv1 = rv\<lparr>row := r, v_size := stored\<rparr>;
         if stored \<le> HEADER_LENGTH then Some (False, rv1\<lparr>is_valid := False\<rparr>)
         else Some (True, rv1\<lparr>v_str_addr_length := GetAddrLength stored\<rparr>) })"

definition new_RowView_row :: "schema \<Rightarrow> bytes option \<Rightarrow> nat \<Rightarrow> row_view option" where
  "new_RowView_row sch r sz = (
     if length sch = 0
     then Some \<lparr>v_str_addr_length = 0, is_valid = False, string_field_cnt = 0, v_str_start = 0, v_size = sz,
       row = r, v_schema = sch, v_offset_vec = []\<rparr>
     else do { (_, rv) \<leftarrow> RowView_Reset (RowView_Init sch r sz) r sz; Some rv })"

definition GetSchemaVersion :: "bytes \<Rightarrow> nat option" where
  "GetSchemaVersion b = load 1 1 b"

definition RowView_GetSize :: "bytes \<Rightarrow> nat option" where
  "RowView_GetSize b = load VERSION_LENGTH 4 b"

definition RowView_IsNULL :: "bytes \<Rightarrow> nat \<Rightarrow> bool option" where
  "RowView_IsNULL b idx = do {
     v \<leftarrow> peek (HEADER_LENGTH + idx div 8) 1 b;
     Some (hd v AND push_bit (idx mod 8) 1 \<noteq> 0) }"

definition CheckValid :: "row_view \<Rightarrow> nat \<Rightarrow> DataType \<Rightarrow> bool" where
  "CheckValid rv idx t = (row rv \<noteq> None \<and> is_valid rv \<and> idx < length (v_schema rv) \<and> data_type (v_schema rv ! idx) = t)"

text \<open>
  A getter returns its code and, when that is 0, the value.  The getters of the fixed-width columns check
  the type and the null bit and read \<open>k\<close> bytes.
\<close>

type_synonym 'a got = "int \<times> 'a option"

definition get_fixed :: "row_view \<Rightarrow> nat \<Rightarrow> DataType \<Rightarrow> nat \<Rightarrow> nat got option" where
  "get_fixed rv idx t k = (
     if \<not> CheckValid rv idx t then Some (-1, None)
     else do {
       b \<leftarrow> row rv;
       null \<leftarrow> RowView_IsNULL b idx;
       if null then Some (1, None)
       else do {
         assert_that (idx < length (v_offset_vec rv));
         n \<leftarrow> load (v_offset_vec rv ! idx) k b;
         Some (0, Some n) } })"

definition with_got :: "('a \<Rightarrow> 'b) \<Rightarrow> 'a got option \<Rightarrow> 'b got option" where
  "with_got f g = map_option (\<lambda>(c, v). (c, map_option f v)) g"

definition GetBool :: "row_view \<Rightarrow> nat \<Rightarrow> bool got option" where
  "GetBool rv idx = with_got (\<lambda>n. n = 1) (get_fixed rv idx kBool 1)"

definition GetInt16 :: "row_view \<Rightarrow> nat \<Rightarrow> 16 word got option" where
  "GetInt16 rv idx = with_got of_nat (get_fixed rv idx kSmallInt 2)"

definition GetInt32 :: "row_view \<Rightarrow> nat \<Rightarrow> 32 word got option" where
  "GetInt32 rv idx = with_got of_nat (get_fixed rv idx kInt 4)"

definition GetInt64 :: "row_view \<Rightarrow> nat \<Rightarrow> 64 word got option" where
  "GetInt64 rv idx = with_got of_nat (get_fixed rv idx kBigInt 8)"

definition GetTimestamp :: "row_view \<Rightarrow> nat \<Rightarrow> 64 word got option" where
  "GetTimestamp rv idx = with_got of_nat (get_fixed rv idx kTimestamp 8)"

definition GetFloat :: "row_view \<Rightarrow> nat \<Rightarrow> 32 word got option" where
  "GetFloat rv idx = with_got of_nat (get_fixed rv idx kFloat 4)"

definition GetDouble :: "row_view \<Rightarrow> nat \<Rightarrow> 64 word got option" where
  "GetDouble rv idx = with_got of_nat (get_fixed rv idx kDouble 8)"

definition GetDate :: "row_view \<Rightarrow> nat \<Rightarrow> 32 word got option" where
  "GetDate rv idx = with_got of_nat (get_fixed rv idx kDate 4)"

text \<open>The encoded date is signed, so its year is shifted arithmetically.\<close>

definition decode_date :: "32 word \<Rightarrow> 32 word \<times> 32 word \<times> 32 word" where
  "decode_date date = (let d1 = signed_drop_bit 8 date in
     (1900 + signed_drop_bit 8 d1, 1 + (d1 AND 0xff), date AND 0xff))"

definition GetDate_ymd :: "row_view \<Rightarrow> nat \<Rightarrow> (32 word \<times> 32 word \<times> 32 word) got option" where
  "GetDate_ymd rv idx = with_got (decode_date \<circ> of_nat) (get_fixed rv idx kDate 4)"

text \<open>
  Offset and length of a string.  Slot \<open>i\<close> of the offsets has \<open>addr_space\<close> bytes; the end of a string is the
  start of the next, or of the row for the last one.
\<close>

definition load_addr :: "bytes \<Rightarrow> nat \<Rightarrow> nat \<Rightarrow> nat option" where
  "load_addr b addr_space ptr = (if addr_space = 3 then map_option (unle \<circ> rev) (peek ptr 3 b) else load ptr addr_space b)"

definition GetStrField :: "bytes \<Rightarrow> nat \<Rightarrow> nat \<Rightarrow> nat \<Rightarrow> nat \<Rightarrow> (nat \<times> nat) got option" where
  "GetStrField b field_offset next_str_field_offset str_start_offset addr_space = (
     if addr_space < 1 \<or> addr_space > 4 then Some (-2, None)
     else do {
       off \<leftarrow> load_addr b addr_space (str_start_offset + field_offset * addr_space);
       e \<leftarrow> (if next_str_field_offset > 0 then load_addr b addr_space (str_start_offset + next_str_field_offset * addr_space)
             else load VERSION_LENGTH 4 b);
       Some (0, Some (off, unat (of_nat e - of_nat off :: 32 word))) })"

definition next_field :: "row_view \<Rightarrow> nat \<Rightarrow> nat" where
  "next_field rv field_offset = (if field_offset < string_field_cnt rv - 1 then field_offset + 1 else 0)"

definition GetString :: "row_view \<Rightarrow> nat \<Rightarrow> (nat \<times> nat) got option" where
  "GetString rv idx = (
     if \<not> CheckValid rv idx kVarchar \<and> \<not> CheckValid rv idx kString then Some (-1, None)
     else do {
       b \<leftarrow> row rv;
       null \<leftarrow> RowView_IsNULL b idx;
       if null then Some (1, None)
       else do {
         assert_that (idx < length (v_offset_vec rv));
         let field_offset = v_offset_vec rv ! idx;
         GetStrField b field_offset (next_field rv field_offset) (v_str_start rv) (v_str_addr_length rv) } })"

text \<open>The bytes of a string that a getter located.\<close>

definition string_at :: "bytes \<Rightarrow> (nat \<times> nat) got \<Rightarrow> bytes option" where
  "string_at b g = (case g of (_, Some (off, n)) \<Rightarrow> peek off n b | _ \<Rightarrow> None)"

section \<open>Reading another row with the schema of a view\<close>

definition GetValue_fixed :: "row_view \<Rightarrow> bytes option \<Rightarrow> nat \<Rightarrow> DataType \<Rightarrow> nat got option" where
  "GetValue_fixed rv r idx t = (case r of
     None \<Rightarrow> Some (-1, None)
   | Some b \<Rightarrow>
       if length (v_schema rv) = 0 \<or> idx \<ge> length (v_schema rv) \<or> data_type (v_schema rv ! idx) \<noteq> t then Some (-1, None)
       else do {
         sz \<leftarrow> RowView_GetSize b;
         if sz \<le> HEADER_LENGTH then Some (-1, None)
         else do {
           null \<leftarrow> RowView_IsNULL b idx;
           if null then Some (1, None)
           else do {
             assert_that (idx < length (v_offset_vec rv));
             if is_string t then Some (-1, None)
             else do { n \<leftarrow> load (v_offset_vec rv ! idx) (type_size t) b; Some (0, Some n) } } } })"

text \<open>
  \<open>GetInteger\<close> widens with the sign.  Only the first case looks at the code of \<open>GetValue\<close>: the others return 0
  with the value 0 when it fails.
\<close>

definition GetInteger :: "row_view \<Rightarrow> bytes option \<Rightarrow> nat \<Rightarrow> DataType \<Rightarrow> 64 word got option" where
  "GetInteger rv r idx t = (
     if t = kSmallInt then with_got (\<lambda>n. scast (of_nat n :: 16 word)) (GetValue_fixed rv r idx t)
     else if t = kInt then map_option (\<lambda>(_, v). (0, Some (case v of Some n \<Rightarrow> scast (of_nat n :: 32 word) | None \<Rightarrow> 0)))
       (GetValue_fixed rv r idx t)
     else if t = kTimestamp \<or> t = kBigInt then map_option (\<lambda>(_, v). (0, Some (case v of Some n \<Rightarrow> of_nat n | None \<Rightarrow> 0)))
       (GetValue_fixed rv r idx t)
     else Some (-1, None))"

definition GetValue_string :: "row_view \<Rightarrow> bytes option \<Rightarrow> nat \<Rightarrow> (nat \<times> nat) got option" where
  "GetValue_string rv r idx = (case r of
     None \<Rightarrow> Some (-1, None)
   | Some b \<Rightarrow>
       if length (v_schema rv) = 0 \<or> idx \<ge> length (v_schema rv) \<or> \<not> is_string (data_type (v_schema rv ! idx)) then Some (-1, None)
       else do {
         sz \<leftarrow> RowView_GetSize b;
         if sz \<le> HEADER_LENGTH then Some (-1, None)
         else do {
           null \<leftarrow> RowView_IsNULL b idx;
           if null then Some (1, None)
           else do {
             assert_that (idx < length (v_offset_vec rv));
             let field_offset = v_offset_vec rv ! idx;
             GetStrField b field_offset (next_field rv field_offset) (v_str_start rv) (GetAddrLength sz) } } })"

end
