(* ===== verification/Codec_Layout.thy ===== *)
theory Codec_Layout
  imports Codec
begin

text \<open>
  Where the columns of a row lie: the offsets the constructors compute, and that the regions of a row do
  not overlap.
\<close>

unbundle bit_operations_syntax

section \<open>Little-endian numbers\<close>

lemma length_le [simp]: "length (le k n) = k"
  by (simp add: le_def)

lemma le_Suc: "le (Suc k) n = of_nat n # le k (n div 256)"
  by (simp add: le_def upt_conv_Cons map_Suc_upt[symmetric] div_mult2_eq del: upt_Suc map_Suc_upt)

lemma unle_le: "unle (le k n) = n mod 256 ^ k"
proof (induction k arbitrary: n)
  case 0
  then show ?case by (simp add: le_def)
next
  case (Suc k)
  have "n mod 256 ^ Suc k = n mod 256 + 256 * (n div 256 mod 256 ^ k)" by (simp add: mod_mult2_eq)
  then show ?case using Suc by (simp add: le_Suc unat_of_nat)
qed

lemma unle_le_eq: "n < 256 ^ k \<Longrightarrow> unle (le k n) = n"
  by (simp add: unle_le)

lemma unat_less_pow: "2 ^ LENGTH('a) = (m :: nat) \<Longrightarrow> unat (w :: 'a::len word) < m"
  using unsigned_less[where ?'a = nat, of w] by simp

lemma word_unle_le [simp]:
  "of_nat (unle (le 2 (unat (a :: 16 word)))) = a" "of_nat (unle (le 4 (unat (b :: 32 word)))) = b"
  "of_nat (unle (le 8 (unat (c :: 64 word)))) = c"
  by (simp_all add: unle_le_eq unat_less_pow)

lemma unle_bound: "unle bs < 256 ^ length bs"
proof (induction bs)
  case (Cons b bs)
  have "unat b < 256" using unsigned_less[where ?'a = nat, of b] by simp
  then show ?case using Cons by simp
qed simp

section \<open>Offsets\<close>

definition fixed_at :: "schema \<Rightarrow> nat \<Rightarrow> nat" where
  "fixed_at sch i = HEADER_LENGTH + BitMapSize (length sch) +
     (\<Sum>c\<leftarrow>take i sch. if is_string (data_type c) then 0 else type_size (data_type c))"

definition string_no :: "schema \<Rightarrow> nat \<Rightarrow> nat" where
  "string_no sch i = length (filter (\<lambda>c. is_string (data_type c)) (take i sch))"

lemma column_offsets_eq:
  "column_offsets s k cs = (
     map (\<lambda>i. if is_string (data_type (cs ! i)) then k + string_no cs i
       else s + (\<Sum>c\<leftarrow>take i cs. if is_string (data_type c) then 0 else type_size (data_type c))) [0..<length cs],
     s + (\<Sum>c\<leftarrow>cs. if is_string (data_type c) then 0 else type_size (data_type c)),
     k + string_no cs (length cs))"
proof (induction s k cs rule: column_offsets.induct)
  case (1 s k)
  then show ?case by (simp add: string_no_def)
next
  case (2 s k c cs)
  have "[0..<length (c # cs)] = 0 # map Suc [0..<length cs]" by (simp add: upt_conv_Cons map_Suc_upt del: upt_Suc)
  then show ?case using 2 by (auto simp: string_no_def add.assoc simp del: upt_Suc)
qed

definition offset_of :: "schema \<Rightarrow> nat \<Rightarrow> nat" where
  "offset_of sch i = (if is_string (data_type (sch ! i)) then string_no sch i else fixed_at sch i)"

lemma offsets_of_schema:
  "column_offsets (HEADER_LENGTH + BitMapSize (length sch)) 0 sch =
     (map (offset_of sch) [0..<length sch], fixed_at sch (length sch), string_no sch (length sch))"
  unfolding column_offsets_eq by (auto simp: offset_of_def fixed_at_def)

lemma fixed_at_Suc:
  assumes "i < length sch"
  shows "fixed_at sch (Suc i) = fixed_at sch i +
    (if is_string (data_type (sch ! i)) then 0 else type_size (data_type (sch ! i)))"
  using assms by (simp add: fixed_at_def take_Suc_conv_app_nth)

lemma string_no_Suc:
  assumes "i < length sch"
  shows "string_no sch (Suc i) = string_no sch i + (if is_string (data_type (sch ! i)) then 1 else 0)"
  using assms by (simp add: string_no_def take_Suc_conv_app_nth)

lemma mono_step:
  fixes f :: "nat \<Rightarrow> nat"
  assumes "\<And>i. i < n \<Longrightarrow> f i \<le> f (Suc i)" "i \<le> j" "j \<le> n"
  shows "f i \<le> f j"
  using assms(2,3)
proof (induction j rule: dec_induct)
  case (step m)
  then show ?case using assms(1)[of m] by simp
qed simp

lemma fixed_at_mono: "i \<le> j \<Longrightarrow> j \<le> length sch \<Longrightarrow> fixed_at sch i \<le> fixed_at sch j"
  by (rule mono_step[of "length sch"]) (simp_all add: fixed_at_Suc)

lemma string_no_mono: "i \<le> j \<Longrightarrow> j \<le> length sch \<Longrightarrow> string_no sch i \<le> string_no sch j"
  by (rule mono_step[of "length sch"]) (simp_all add: string_no_Suc)

lemma fixed_at_0: "fixed_at sch 0 = HEADER_LENGTH + BitMapSize (length sch)"
  by (simp add: fixed_at_def)

lemma bitmap_byte: "i < length sch \<Longrightarrow> HEADER_LENGTH + i div 8 < fixed_at sch 0"
proof -
  assume i: "i < length sch"
  then have "i div 8 \<le> length sch div 8" by (simp add: div_le_mono)
  moreover have "i div 8 \<noteq> length sch div 8" if "length sch mod 8 = 0" using i that by (auto simp: dvd_def mod_eq_0_iff_dvd)
  ultimately show ?thesis by (auto simp: fixed_at_0 BitMapSize_def)
qed

text \<open>Two different fixed-width columns do not overlap.\<close>

lemma fixed_apart:
  assumes "i < length sch" "j < length sch" "i \<noteq> j" "\<not> is_string (data_type (sch ! i))" "\<not> is_string (data_type (sch ! j))"
  shows "fixed_at sch i + type_size (data_type (sch ! i)) \<le> fixed_at sch j \<or>
    fixed_at sch j + type_size (data_type (sch ! j)) \<le> fixed_at sch i"
proof -
  have "fixed_at sch (Suc i) \<le> fixed_at sch j \<or> fixed_at sch (Suc j) \<le> fixed_at sch i"
    using assms(1-3) fixed_at_mono[of "Suc i" j sch] fixed_at_mono[of "Suc j" i sch] by linarith
  then show ?thesis using assms fixed_at_Suc[of i sch] fixed_at_Suc[of j sch] by simp
qed

lemma string_no_inj:
  assumes "i < length sch" "j < length sch" "is_string (data_type (sch ! i))" "is_string (data_type (sch ! j))"
    "string_no sch i = string_no sch j"
  shows "i = j"
proof (rule ccontr)
  assume "i \<noteq> j"
  then have "string_no sch (Suc i) \<le> string_no sch j \<or> string_no sch (Suc j) \<le> string_no sch i"
    using assms(1,2) string_no_mono[of "Suc i" j sch] string_no_mono[of "Suc j" i sch] by linarith
  then show False using assms string_no_Suc[of i sch] string_no_Suc[of j sch] by simp
qed

end
