(* ===== verification/Codec_Built.thy ===== *)
theory Codec_Built
  imports Codec_Layout
begin

text \<open>
  Building a row: after the first \<open>k\<close> cells were appended the buffer holds them at their places.  Each
  kind of content of a row has its own invariant, and a lemma for the writes that leave it alone.
\<close>

unbundle bit_operations_syntax

section \<open>Cells\<close>

datatype cell = Null | VBool bool | VInt16 "16 word" | VInt32 "32 word" | VInt64 "64 word" | VTimestamp "64 word"
  | VFloat "32 word" | VDouble "64 word" | VDate "32 word" | VStr bytes

fun cell_fits :: "column \<Rightarrow> cell \<Rightarrow> bool" where
  "cell_fits c Null \<longleftrightarrow> \<not> not_null c"
| "cell_fits c (VBool _) \<longleftrightarrow> data_type c = kBool"
| "cell_fits c (VInt16 _) \<longleftrightarrow> data_type c = kSmallInt"
| "cell_fits c (VInt32 _) \<longleftrightarrow> data_type c = kInt"
| "cell_fits c (VInt64 _) \<longleftrightarrow> data_type c = kBigInt"
| "cell_fits c (VTimestamp _) \<longleftrightarrow> data_type c = kTimestamp"
| "cell_fits c (VFloat _) \<longleftrightarrow> data_type c = kFloat"
| "cell_fits c (VDouble _) \<longleftrightarrow> data_type c = kDouble"
| "cell_fits c (VDate _) \<longleftrightarrow> data_type c = kDate"
| "cell_fits c (VStr _) \<longleftrightarrow> is_string (data_type c)"

fun append_cell :: "row_builder \<Rightarrow> cell \<Rightarrow> (bool \<times> row_builder) option" where
  "append_cell rb Null = AppendNULL rb"
| "append_cell rb (VBool v) = AppendBool rb v"
| "append_cell rb (VInt16 v) = AppendInt16 rb v"
| "append_cell rb (VInt32 v) = AppendInt32 rb v"
| "append_cell rb (VInt64 v) = AppendInt64 rb v"
| "append_cell rb (VTimestamp v) = AppendTimestamp rb v"
| "append_cell rb (VFloat v) = AppendFloat rb v"
| "append_cell rb (VDouble v) = AppendDouble rb v"
| "append_cell rb (VDate v) = AppendDate rb v"
| "append_cell rb (VStr xs) = AppendString rb (Some xs)"

fun cell_bytes :: "cell \<Rightarrow> bytes" where
  "cell_bytes Null = []"
| "cell_bytes (VBool v) = [if v then 1 else 0]"
| "cell_bytes (VInt16 v) = le 2 (unat v)"
| "cell_bytes (VInt32 v) = le 4 (unat v)"
| "cell_bytes (VInt64 v) = le 8 (unat v)"
| "cell_bytes (VTimestamp v) = le 8 (unat v)"
| "cell_bytes (VFloat v) = le 4 (unat v)"
| "cell_bytes (VDouble v) = le 8 (unat v)"
| "cell_bytes (VDate v) = le 4 (unat v)"
| "cell_bytes (VStr _) = []"

fun cell_text :: "cell \<Rightarrow> bytes" where
  "cell_text (VStr xs) = xs"
| "cell_text _ = []"

definition text_upto :: "cell list \<Rightarrow> nat \<Rightarrow> nat" where
  "text_upto vals i = (\<Sum>v\<leftarrow>take i vals. length (cell_text v))"

lemma text_upto_Suc: "i < length vals \<Longrightarrow> text_upto vals (Suc i) = text_upto vals i + length (cell_text (vals ! i))"
  by (simp add: text_upto_def take_Suc_conv_app_nth)

lemma text_upto_mono: "i \<le> j \<Longrightarrow> j \<le> length vals \<Longrightarrow> text_upto vals i \<le> text_upto vals j"
  by (rule mono_step[of "length vals"]) (simp_all add: text_upto_Suc)

lemma type_sizes: "type_size kBool = 1" "type_size kSmallInt = 2" "type_size kInt = 4" "type_size kBigInt = 8"
  "type_size kFloat = 4" "type_size kDouble = 8" "type_size kDate = 4" "type_size kTimestamp = 8"
  by (simp_all add: type_size_def TYPE_SIZE_ARRAY_def)

lemma append_fixed:
  assumes "cell_fits c v" "\<not> is_string (data_type c)" "v \<noteq> Null"
  shows "append_cell rb v = append_with (\<lambda>rb i. set_fixed rb i (data_type c) (cell_bytes v)) rb"
    "length (cell_bytes v) = type_size (data_type c)"
  using assms
  by (cases v; simp add: AppendBool_def SetBool_def AppendInt16_def SetInt16_def AppendInt32_def SetInt32_def
      AppendInt64_def SetInt64_def AppendTimestamp_def SetTimestamp_def AppendFloat_def SetFloat_def
      AppendDouble_def SetDouble_def AppendDate_def SetDate_def type_sizes)+

lemma no_text: "cell_fits c v \<Longrightarrow> \<not> is_string (data_type c) \<Longrightarrow> cell_text v = []"
  by (cases v) (auto simp: is_string_def)

text \<open>Between two columns with the same number of strings before them there is no text.\<close>

lemma text_between:
  assumes "list_all2 cell_fits sch vals" "i \<le> j" "j \<le> length sch" "string_no sch i = string_no sch j"
  shows "text_upto vals i = text_upto vals j"
  using assms(2-4)
proof (induction j rule: dec_induct)
  case (step m)
  have "string_no sch i \<le> string_no sch m" using step string_no_mono[of i m sch] by simp
  then have m: "string_no sch i = string_no sch m" "\<not> is_string (data_type (sch ! m))"
    using step string_no_Suc[of m sch] by (auto split: if_splits)
  have len: "length vals = length sch" using assms(1) by (simp add: list_all2_lengthD)
  have "cell_fits (sch ! m) (vals ! m)" using assms(1) step by (simp add: list_all2_conv_all_nth)
  then have "cell_text (vals ! m) = []" using m(2) by (rule no_text)
  then show ?case using step m len by (simp add: text_upto_Suc)
qed simp

section \<open>The parts of a row\<close>

text \<open>\<open>addr\<close> is the width of an offset, \<open>base\<close> where the strings start.\<close>

definition addr_bytes :: "nat \<Rightarrow> nat \<Rightarrow> bytes" where
  "addr_bytes a off = (if a = 3 then rev (le 3 off) else le a off)"

definition text_base :: "schema \<Rightarrow> nat \<Rightarrow> nat" where
  "text_base sch a = fixed_at sch (length sch) + a * string_no sch (length sch)"

definition bits_ok :: "schema \<Rightarrow> cell list \<Rightarrow> nat \<Rightarrow> bytes \<Rightarrow> bool" where
  "bits_ok sch vals k b \<longleftrightarrow> (\<forall>i<length sch. bit (b ! (HEADER_LENGTH + i div 8)) (i mod 8) \<longleftrightarrow> k \<le> i \<or> vals ! i = Null)"

definition fixed_ok :: "schema \<Rightarrow> cell list \<Rightarrow> nat \<Rightarrow> bytes \<Rightarrow> bool" where
  "fixed_ok sch vals k b \<longleftrightarrow> (\<forall>i<k. \<not> is_string (data_type (sch ! i)) \<and> vals ! i \<noteq> Null \<longrightarrow>
     peek (fixed_at sch i) (type_size (data_type (sch ! i))) b = Some (cell_bytes (vals ! i)))"

definition texts_ok :: "schema \<Rightarrow> cell list \<Rightarrow> nat \<Rightarrow> nat \<Rightarrow> bytes \<Rightarrow> bool" where
  "texts_ok sch vals a k b \<longleftrightarrow> (\<forall>i<k. peek (text_base sch a + text_upto vals i) (length (cell_text (vals ! i))) b =
     Some (cell_text (vals ! i)))"

definition slot_ok :: "schema \<Rightarrow> cell list \<Rightarrow> nat \<Rightarrow> bytes \<Rightarrow> nat \<Rightarrow> bool" where
  "slot_ok sch vals a b i \<longleftrightarrow> peek (fixed_at sch (length sch) + a * string_no sch i) a b =
     Some (addr_bytes a (text_base sch a + text_upto vals i))"

definition slots_ok :: "schema \<Rightarrow> cell list \<Rightarrow> nat \<Rightarrow> nat \<Rightarrow> bytes \<Rightarrow> bool" where
  "slots_ok sch vals a k b \<longleftrightarrow> (\<forall>i<length sch. is_string (data_type (sch ! i)) \<and> string_no sch i \<le> string_no sch k \<and>
     (0 < string_no sch i \<or> i < k \<and> vals ! i \<noteq> Null) \<longrightarrow> slot_ok sch vals a b i)"

lemma bits_other:
  assumes "blit off xs b = Some b'" "fixed_at sch 0 \<le> off"
  shows "bits_ok sch vals k b' = bits_ok sch vals k b"
proof -
  have "b' ! (HEADER_LENGTH + i div 8) = b ! (HEADER_LENGTH + i div 8)" if "i < length sch" for i
    using bitmap_byte[OF that] assms(2) by (simp add: blit_nth[OF assms(1)])
  then show ?thesis by (auto simp: bits_ok_def)
qed

lemma fixed_other:
  assumes "blit off xs b = Some b'" "off + length xs \<le> fixed_at sch 0 \<or> fixed_at sch (length sch) \<le> off" "k \<le> length sch"
  shows "fixed_ok sch vals k b' = fixed_ok sch vals k b"
proof -
  have "peek (fixed_at sch i) (type_size (data_type (sch ! i))) b' = peek (fixed_at sch i) (type_size (data_type (sch ! i))) b"
    if "i < k" "\<not> is_string (data_type (sch ! i))" for i
    using that assms(2,3) fixed_at_mono[of 0 i sch] fixed_at_mono[of "Suc i" "length sch" sch] fixed_at_Suc[of i sch]
    by (intro peek_blit_other[OF assms(1)]) auto
  then show ?thesis by (auto simp: fixed_ok_def)
qed

lemma texts_other:
  assumes "blit off xs b = Some b'" "off + length xs \<le> text_base sch a \<or> text_base sch a + text_upto vals k \<le> off"
    "k \<le> length vals"
  shows "texts_ok sch vals a k b' = texts_ok sch vals a k b"
proof -
  have "peek (text_base sch a + text_upto vals i) (length (cell_text (vals ! i))) b' =
      peek (text_base sch a + text_upto vals i) (length (cell_text (vals ! i))) b" if "i < k" for i
    using that assms(2,3) text_upto_mono[of "Suc i" k vals] text_upto_Suc[of i vals]
    by (intro peek_blit_other[OF assms(1)]) auto
  then show ?thesis by (auto simp: texts_ok_def)
qed

lemma slot_other:
  assumes "blit off xs b = Some b'" "i < length sch" "is_string (data_type (sch ! i))"
    and "off + length xs \<le> fixed_at sch (length sch) \<or> text_base sch a \<le> off \<or>
      (\<exists>q. off = fixed_at sch (length sch) + a * q \<and> length xs = a \<and> q \<noteq> string_no sch i)"
  shows "slot_ok sch vals a b' i = slot_ok sch vals a b i"
proof -
  have "string_no sch i + 1 \<le> string_no sch (length sch)"
    using assms(2,3) string_no_Suc[of i sch] string_no_mono[of "Suc i" "length sch" sch] by simp
  then have "a * (string_no sch i + 1) \<le> a * string_no sch (length sch)" by (rule mult_le_mono2)
  moreover have "a * (string_no sch i + 1) \<le> a * q \<or> a * (q + 1) \<le> a * string_no sch i" if "q \<noteq> string_no sch i" for q
    using that by (metis Suc_eq_plus1 Suc_leI linorder_neqE_nat mult_le_mono2)
  ultimately have "fixed_at sch (length sch) + a * string_no sch i + a \<le> off \<or> off + length xs \<le> fixed_at sch (length sch) + a * string_no sch i"
    using assms(4) by (fastforce simp: text_base_def)
  then show ?thesis unfolding slot_ok_def by (subst peek_blit_other[OF assms(1)]) auto
qed

section \<open>One cell more\<close>

lemma bits_set:
  assumes b: "blit (HEADER_LENGTH + k div 8) [v] b = Some b'" and k: "k < length sch" and ok: "bits_ok sch vals k b"
    and v: "\<And>j. j < 8 \<Longrightarrow> bit v j \<longleftrightarrow> (if j = k mod 8 then vals ! k = Null else bit (b ! (HEADER_LENGTH + k div 8)) j)"
  shows "bits_ok sch vals (Suc k) b'"
  unfolding bits_ok_def
proof (intro allI impI)
  fix i assume i: "i < length sch"
  have old: "bit (b ! (HEADER_LENGTH + i div 8)) (i mod 8) \<longleftrightarrow> k \<le> i \<or> vals ! i = Null" using ok i by (simp add: bits_ok_def)
  show "bit (b' ! (HEADER_LENGTH + i div 8)) (i mod 8) \<longleftrightarrow> Suc k \<le> i \<or> vals ! i = Null"
  proof (cases "i div 8 = k div 8")
    case True
    then have "i mod 8 = k mod 8 \<longleftrightarrow> i = k" by (metis div_mult_mod_eq)
    moreover have "i mod 8 < 8" by simp
    ultimately show ?thesis using True old v[of "i mod 8"] by (auto simp: blit_nth[OF b])
  next
    case False
    then have "i \<noteq> k" by auto
    then show ?thesis using False old by (auto simp: blit_nth[OF b])
  qed
qed

lemma bit_byte_clear: "j < 8 \<Longrightarrow> bit (x AND NOT (push_bit m 1) :: 8 word) j \<longleftrightarrow> j \<noteq> m \<and> bit x j"
  by (auto simp: bit_simps)

lemma bit_byte_set: "j < 8 \<Longrightarrow> bit (x OR push_bit m 1 :: 8 word) j \<longleftrightarrow> j = m \<or> bit x j"
  by (auto simp: bit_simps)

text \<open>The first \<open>i\<close> bits, the first \<open>f\<close> fixed-width columns, the first \<open>t\<close> texts and the slots up to \<open>s\<close> are done.\<close>

definition parts :: "schema \<Rightarrow> cell list \<Rightarrow> nat \<Rightarrow> nat \<Rightarrow> nat \<Rightarrow> nat \<Rightarrow> nat \<Rightarrow> bytes \<Rightarrow> bool" where
  "parts sch vals N i f t s b \<longleftrightarrow> length b = N \<and> peek VERSION_LENGTH 4 b = Some (le 4 N) \<and> bits_ok sch vals i b \<and>
     fixed_ok sch vals f b \<and> texts_ok sch vals (GetAddrLength N) t b \<and> slots_ok sch vals (GetAddrLength N) s b"

text \<open>The size of a row is exactly what its parts take.\<close>

definition exact :: "schema \<Rightarrow> cell list \<Rightarrow> nat \<Rightarrow> bool" where
  "exact sch vals N \<longleftrightarrow> list_all2 cell_fits sch vals \<and> N < 2 ^ 32 \<and>
     N = text_base sch (GetAddrLength N) + text_upto vals (length vals)"

lemma exactD:
  assumes "exact sch vals N"
  shows "length vals = length sch" "\<And>i. i < length sch \<Longrightarrow> cell_fits (sch ! i) (vals ! i)"
    "fixed_at sch (length sch) \<le> text_base sch (GetAddrLength N)"
    "\<And>i. i \<le> length sch \<Longrightarrow> text_base sch (GetAddrLength N) + text_upto vals i \<le> N"
    "\<And>i. i \<le> length sch \<Longrightarrow> fixed_at sch i \<le> text_base sch (GetAddrLength N)"
proof -
  show len: "length vals = length sch" using assms list_all2_lengthD[of cell_fits sch vals] by (simp add: exact_def)
  show "\<And>i. i < length sch \<Longrightarrow> cell_fits (sch ! i) (vals ! i)" using assms by (simp add: exact_def list_all2_conv_all_nth)
  show f: "fixed_at sch (length sch) \<le> text_base sch (GetAddrLength N)" by (simp add: text_base_def)
  show "text_base sch (GetAddrLength N) + text_upto vals i \<le> N" if "i \<le> length sch" for i
    using assms text_upto_mono[of i "length vals" vals] that unfolding exact_def len by linarith
  show "\<And>i. i \<le> length sch \<Longrightarrow> fixed_at sch i \<le> text_base sch (GetAddrLength N)"
    using f fixed_at_mono[of _ "length sch" sch] order_trans by blast
qed

lemma header_other:
  assumes "blit off xs b = Some b'" "HEADER_LENGTH \<le> off"
  shows "peek VERSION_LENGTH 4 b' = peek VERSION_LENGTH 4 b"
  using assms(2) by (intro peek_blit_other[OF assms(1)]) (simp add: HEADER_LENGTH_def VERSION_LENGTH_def SIZE_LENGTH_def)

lemma slots_other:
  assumes "blit off xs b = Some b'" "off + length xs \<le> fixed_at sch (length sch) \<or> text_base sch a \<le> off"
  shows "slots_ok sch vals a k b' = slots_ok sch vals a k b"
  using slot_other[OF assms(1), of _ sch a vals] assms(2) by (auto simp: slots_ok_def)

lemma texts_Suc_nil:
  assumes "texts_ok sch vals a k b" "cell_text (vals ! k) = []" "text_base sch a + text_upto vals k \<le> length b"
  shows "texts_ok sch vals a (Suc k) b"
  using assms by (auto simp: texts_ok_def less_Suc_eq peek_def)

lemma slots_Suc_fixed:
  assumes "slots_ok sch vals a k b" "k < length sch" "\<not> is_string (data_type (sch ! k))"
  shows "slots_ok sch vals a (Suc k) b"
  using assms by (auto simp: slots_ok_def string_no_Suc less_Suc_eq)

lemma slots_Suc_string:
  assumes old: "slots_ok sch vals a k b" and k: "k < length sch" "is_string (data_type (sch ! k))"
    and keep: "\<And>i. i < length sch \<Longrightarrow> is_string (data_type (sch ! i)) \<Longrightarrow> string_no sch i \<le> string_no sch k \<Longrightarrow>
      slot_ok sch vals a b i \<Longrightarrow> slot_ok sch vals a b' i"
    and first: "vals ! k \<noteq> Null \<Longrightarrow> string_no sch k = 0 \<Longrightarrow> slot_ok sch vals a b' k"
    and nxt: "\<And>i. i < length sch \<Longrightarrow> is_string (data_type (sch ! i)) \<Longrightarrow> string_no sch i = string_no sch k + 1 \<Longrightarrow>
      slot_ok sch vals a b' i"
  shows "slots_ok sch vals a (Suc k) b'"
  unfolding slots_ok_def
proof (intro allI impI, elim conjE)
  fix i assume i: "i < length sch" "is_string (data_type (sch ! i))" "string_no sch i \<le> string_no sch (Suc k)"
    and c: "0 < string_no sch i \<or> i < Suc k \<and> vals ! i \<noteq> Null"
  have sk: "string_no sch (Suc k) = string_no sch k + 1" using k by (simp add: string_no_Suc)
  consider "string_no sch i = string_no sch k + 1" | "i = k" "string_no sch k = 0" | "string_no sch i \<le> string_no sch k" "i \<noteq> k \<or> 0 < string_no sch k"
    using i(3) sk by fastforce
  then show "slot_ok sch vals a b' i"
  proof cases
    case 1
    then show ?thesis using nxt i by blast
  next
    case 2
    then show ?thesis using first c by simp
  next
    case 3
    have "0 < string_no sch i \<or> i < k \<and> vals ! i \<noteq> Null" using 3 c less_Suc_eq by auto
    then have "slot_ok sch vals a b i" using old i 3 by (simp add: slots_ok_def)
    then show ?thesis using keep i 3 by blast
  qed
qed

text \<open>The bit of a column.\<close>

lemma parts_bits:
  assumes h: "parts sch vals N k f t s b" and e: "exact sch vals N" and k: "k < length sch" "f \<le> length sch" "t \<le> length sch"
    and b: "blit (HEADER_LENGTH + k div 8) [v] b = Some b'"
    and v: "\<And>j. j < 8 \<Longrightarrow> bit v j \<longleftrightarrow> (if j = k mod 8 then vals ! k = Null else bit (b ! (HEADER_LENGTH + k div 8)) j)"
  shows "parts sch vals N (Suc k) f t s b'"
  unfolding parts_def
proof (intro conjI)
  have lo: "HEADER_LENGTH + k div 8 + length [v] \<le> fixed_at sch 0" using bitmap_byte[OF k(1)] by simp
  also have "fixed_at sch 0 \<le> fixed_at sch (length sch)" by (rule fixed_at_mono) simp_all
  finally have hi: "HEADER_LENGTH + k div 8 + length [v] \<le> fixed_at sch (length sch)" .
  then have tb: "HEADER_LENGTH + k div 8 + length [v] \<le> text_base sch (GetAddrLength N)" using exactD(3)[OF e] by simp
  have tv: "t \<le> length vals" using k exactD(1)[OF e] by simp
  show "length b' = N" using h blit_length[OF b] by (simp add: parts_def)
  show "peek VERSION_LENGTH 4 b' = Some (le 4 N)" using h header_other[OF b] by (simp add: parts_def)
  show "bits_ok sch vals (Suc k) b'" using bits_set[OF b k(1) _ v] h by (simp add: parts_def)
  show "fixed_ok sch vals f b'" using fixed_other[OF b disjI1[OF lo] k(2), of vals] h by (simp add: parts_def)
  show "texts_ok sch vals (GetAddrLength N) t b'" using texts_other[OF b disjI1[OF tb] tv] h by (simp add: parts_def)
  show "slots_ok sch vals (GetAddrLength N) s b'" using slots_other[OF b disjI1[OF hi], of vals] h by (simp add: parts_def)
qed

lemma store_eq: "buf rb = Some b \<Longrightarrow> blit off xs b = Some b' \<Longrightarrow> store off xs rb = Some (rb\<lparr>buf := Some b'\<rparr>)"
  by (simp add: store_def)

lemma bitmap_blit:
  assumes "k < length sch" "exact sch vals N" "length b = N"
  obtains b' where "blit (HEADER_LENGTH + k div 8) [v] b = Some b'"
    "peek (HEADER_LENGTH + k div 8) 1 b = Some [b ! (HEADER_LENGTH + k div 8)]"
proof -
  have "HEADER_LENGTH + k div 8 < N"
    using bitmap_byte[OF assms(1)] exactD(5)[OF assms(2), of 0] exactD(4)[OF assms(2), of 0] by linarith
  then have "blit (HEADER_LENGTH + k div 8) [v] b \<noteq> None"
    "peek (HEADER_LENGTH + k div 8) 1 b = Some [b ! (HEADER_LENGTH + k div 8)]"
    using assms(3) by (simp_all add: blit_def peek_def take_Suc_conv_app_nth hd_drop_conv_nth Cons_nth_drop_Suc[symmetric])
  then show ?thesis using that by blast
qed

lemma SetField_ok:
  assumes rb: "buf rb = Some b" and h: "parts sch vals N k f t s b" and e: "exact sch vals N"
    and k: "k < length sch" "f \<le> length sch" "t \<le> length sch" "vals ! k \<noteq> Null"
  obtains b' where "SetField rb k = Some (rb\<lparr>buf := Some b'\<rparr>)" "parts sch vals N (Suc k) f t s b'"
proof -
  let ?v = "b ! (HEADER_LENGTH + k div 8) AND NOT (push_bit (k mod 8) 1)"
  have len: "length b = N" using h by (simp add: parts_def)
  obtain b' where b: "blit (HEADER_LENGTH + k div 8) [?v] b = Some b'"
    "peek (HEADER_LENGTH + k div 8) 1 b = Some [b ! (HEADER_LENGTH + k div 8)]"
    using bitmap_blit[OF k(1) e len] .
  have v: "bit ?v j \<longleftrightarrow> (if j = k mod 8 then vals ! k = Null else bit (b ! (HEADER_LENGTH + k div 8)) j)" if "j < 8" for j
    using that k(4) by (simp only: bit_byte_clear) simp
  have "SetField rb k = Some (rb\<lparr>buf := Some b'\<rparr>)" using rb b by (simp add: SetField_def store_eq)
  then show ?thesis using that parts_bits[OF h e k(1-3) b(1) v] by blast
qed

text \<open>A cell of fixed width.\<close>

lemma parts_fixed:
  assumes h: "parts sch vals N i k t s b" and e: "exact sch vals N" and k: "k < length sch" "t \<le> length sch"
    and c: "\<not> is_string (data_type (sch ! k))" "length xs = type_size (data_type (sch ! k))" "vals ! k \<noteq> Null \<Longrightarrow> xs = cell_bytes (vals ! k)"
    and b: "blit (fixed_at sch k) xs b = Some b'"
  shows "parts sch vals N i (Suc k) t s b'"
  unfolding parts_def
proof (intro conjI)
  have end_k: "fixed_at sch k + length xs = fixed_at sch (Suc k)" using c k(1) by (simp add: fixed_at_Suc)
  have lo: "fixed_at sch 0 \<le> fixed_at sch k" using k(1) by (intro fixed_at_mono) simp_all
  have hi: "fixed_at sch k + length xs \<le> fixed_at sch (length sch)" unfolding end_k using k(1) by (intro fixed_at_mono) simp_all
  have tb: "fixed_at sch k + length xs \<le> text_base sch (GetAddrLength N)" using hi exactD(3)[OF e] by simp
  have tv: "t \<le> length vals" using k exactD(1)[OF e] by simp
  show "length b' = N" using h blit_length[OF b] by (simp add: parts_def)
  show "peek VERSION_LENGTH 4 b' = Some (le 4 N)" using h header_other[OF b] lo by (simp add: parts_def fixed_at_0)
  show "bits_ok sch vals i b'" using h bits_other[OF b lo] by (simp add: parts_def)
  show "texts_ok sch vals (GetAddrLength N) t b'" using texts_other[OF b disjI1[OF tb] tv] h by (simp add: parts_def)
  show "slots_ok sch vals (GetAddrLength N) s b'" using slots_other[OF b disjI1[OF hi], of vals] h by (simp add: parts_def)
  have "peek (fixed_at sch j) (type_size (data_type (sch ! j))) b' = peek (fixed_at sch j) (type_size (data_type (sch ! j))) b"
    if "j < k" "\<not> is_string (data_type (sch ! j))" for j
    using that c k fixed_apart[of j sch k] by (intro peek_blit_other[OF b]) auto
  moreover have "vals ! k \<noteq> Null \<longrightarrow> peek (fixed_at sch k) (type_size (data_type (sch ! k))) b' = Some (cell_bytes (vals ! k))"
    using peek_blit_same[OF b] c by simp
  ultimately show "fixed_ok sch vals (Suc k) b'" using h by (auto simp: parts_def fixed_ok_def less_Suc_eq)
qed

text \<open>A step over a column that is not of the kind.\<close>

lemma parts_skip:
  assumes "parts sch vals N i k t s b"
  shows "is_string (data_type (sch ! k)) \<or> vals ! k = Null \<Longrightarrow> parts sch vals N i (Suc k) t s b"
  using assms by (auto simp: parts_def fixed_ok_def less_Suc_eq)

lemma parts_no_text:
  assumes "parts sch vals N i f k s b" "exact sch vals N" "k < length sch" "cell_text (vals ! k) = []"
  shows "parts sch vals N i f (Suc k) s b"
  using assms exactD(4)[OF assms(2), of k] by (simp add: parts_def texts_Suc_nil)

lemma parts_no_slot:
  assumes "parts sch vals N i f t k b" "k < length sch" "\<not> is_string (data_type (sch ! k))"
  shows "parts sch vals N i f t (Suc k) b"
  using assms by (simp add: parts_def slots_Suc_fixed)

text \<open>A text and a slot.\<close>

lemma parts_text:
  assumes h: "parts sch vals N i f k s b" and e: "exact sch vals N" and k: "k < length sch" "f \<le> length sch"
    and b: "blit (text_base sch (GetAddrLength N) + text_upto vals k) (cell_text (vals ! k)) b = Some b'"
  shows "parts sch vals N i f (Suc k) s b'"
  unfolding parts_def
proof (intro conjI)
  let ?off = "text_base sch (GetAddrLength N) + text_upto vals k"
  have hi: "fixed_at sch (length sch) \<le> ?off" using exactD(3)[OF e] by simp
  moreover have "fixed_at sch 0 \<le> fixed_at sch (length sch)" by (rule fixed_at_mono) simp_all
  ultimately have lo: "fixed_at sch 0 \<le> ?off" by simp
  show "length b' = N" using h blit_length[OF b] by (simp add: parts_def)
  show "peek VERSION_LENGTH 4 b' = Some (le 4 N)" using h header_other[OF b] lo by (simp add: parts_def fixed_at_0)
  show "bits_ok sch vals i b'" using h bits_other[OF b lo] by (simp add: parts_def)
  show "fixed_ok sch vals f b'" using fixed_other[OF b disjI2[OF hi] k(2), of vals] h by (simp add: parts_def)
  show "slots_ok sch vals (GetAddrLength N) s b'" using slots_other[OF b, of sch "GetAddrLength N" vals s] h by (simp add: parts_def)
  have "texts_ok sch vals (GetAddrLength N) k b'"
    using texts_other[OF b, of sch "GetAddrLength N" vals k] h k exactD(1)[OF e] by (simp add: parts_def)
  then show "texts_ok sch vals (GetAddrLength N) (Suc k) b'"
    using peek_blit_same[OF b] by (auto simp: texts_ok_def less_Suc_eq)
qed

lemma slot_region:
  assumes "q < string_no sch (length sch)"
  shows "fixed_at sch (length sch) + a * q + a \<le> text_base sch a"
proof -
  have "a * (q + 1) \<le> a * string_no sch (length sch)" using assms by (intro mult_le_mono2) simp
  then show ?thesis by (simp add: text_base_def)
qed

lemma parts_slot:
  assumes h: "parts sch vals N i f t s b" and e: "exact sch vals N" and k: "f \<le> length sch" "t \<le> length sch"
    and q: "q < string_no sch (length sch)" "length xs = GetAddrLength N"
    and b: "blit (fixed_at sch (length sch) + GetAddrLength N * q) xs b = Some b'"
    and s': "slots_ok sch vals (GetAddrLength N) s' b'"
  shows "parts sch vals N i f t s' b'"
  unfolding parts_def
proof (intro conjI)
  let ?off = "fixed_at sch (length sch) + GetAddrLength N * q"
  have hi: "fixed_at sch (length sch) \<le> ?off" by simp
  moreover have "fixed_at sch 0 \<le> fixed_at sch (length sch)" by (rule fixed_at_mono) simp_all
  ultimately have lo: "fixed_at sch 0 \<le> ?off" by simp
  have tb: "?off + length xs \<le> text_base sch (GetAddrLength N)" using slot_region[OF q(1), of "GetAddrLength N"] q(2) by simp
  have tv: "t \<le> length vals" using k exactD(1)[OF e] by simp
  show "length b' = N" using h blit_length[OF b] by (simp add: parts_def)
  show "peek VERSION_LENGTH 4 b' = Some (le 4 N)" using h header_other[OF b] lo by (simp add: parts_def fixed_at_0)
  show "bits_ok sch vals i b'" using h bits_other[OF b lo] by (simp add: parts_def)
  show "fixed_ok sch vals f b'" using fixed_other[OF b disjI2[OF hi] k(1), of vals] h by (simp add: parts_def)
  show "texts_ok sch vals (GetAddrLength N) t b'" using texts_other[OF b disjI1[OF tb] tv] h by (simp add: parts_def)
  show "slots_ok sch vals (GetAddrLength N) s' b'" by (rule s')
qed

lemma addr_length_cases: "GetAddrLength n = 1 \<or> GetAddrLength n = 2 \<or> GetAddrLength n = 3 \<or> GetAddrLength n = 4"
  by (auto simp: GetAddrLength_def)

lemma length_addr_bytes [simp]: "length (addr_bytes a off) = a"
  by (simp add: addr_bytes_def)

lemma SetStrOffset_eq:
  assumes "str_addr_length rb = GetAddrLength n"
  shows "SetStrOffset rb p = (if str_field_cnt rb \<le> p then Some rb
    else store (str_field_start_offset rb + GetAddrLength n * p) (addr_bytes (GetAddrLength n) (str_offset rb)) rb)"
  using assms addr_length_cases[of n] by (auto simp: SetStrOffset_def addr_bytes_def Let_def)

lemma next_string:
  assumes "exact sch vals N" "k < length sch" "i < length sch" "is_string (data_type (sch ! k))"
    "string_no sch i = string_no sch k + 1"
  shows "text_upto vals i = text_upto vals (Suc k)"
proof -
  have "k < i" using assms(2,5) string_no_mono[of i k sch] by (cases "i \<le> k") auto
  then show ?thesis using text_between[of sch vals "Suc k" i] assms by (simp add: exact_def string_no_Suc)
qed

text \<open>The slot after a string: written when there is another string.\<close>

lemma next_slot:
  assumes h: "parts sch vals N i f t k b" and e: "exact sch vals N" and k: "k < length sch" "f \<le> length sch" "t \<le> length sch"
    and st: "is_string (data_type (sch ! k))" and first: "vals ! k \<noteq> Null \<Longrightarrow> string_no sch k = 0 \<Longrightarrow> slot_ok sch vals (GetAddrLength N) b k"
    and rb: "buf rb = Some b" "str_addr_length rb = GetAddrLength N" "str_field_cnt rb = string_no sch (length sch)"
      "str_field_start_offset rb = fixed_at sch (length sch)" "str_offset rb = text_base sch (GetAddrLength N) + text_upto vals (Suc k)"
  obtains b' where "SetStrOffset rb (string_no sch k + 1) = Some (rb\<lparr>buf := Some b'\<rparr>)" "parts sch vals N i f t (Suc k) b'"
proof (cases "string_no sch (length sch) \<le> string_no sch k + 1")
  case True
  have "slots_ok sch vals (GetAddrLength N) (Suc k) b"
  proof (rule slots_Suc_string[OF _ k(1) st])
    show "slots_ok sch vals (GetAddrLength N) k b" using h by (simp add: parts_def)
    fix i assume i: "i < length sch" "is_string (data_type (sch ! i))" "string_no sch i = string_no sch k + 1"
    have "string_no sch (Suc i) \<le> string_no sch (length sch)" using i(1) by (intro string_no_mono) simp_all
    then show "slot_ok sch vals (GetAddrLength N) b i" using True i by (simp add: string_no_Suc)
  qed (use first in auto)
  then have "parts sch vals N i f t (Suc k) b" using h by (simp add: parts_def)
  moreover have "SetStrOffset rb (string_no sch k + 1) = Some (rb\<lparr>buf := Some b\<rparr>)"
    using True rb by (simp add: SetStrOffset_eq[OF rb(2)])
  ultimately show ?thesis using that by blast
next
  case False
  let ?a = "GetAddrLength N" let ?q = "string_no sch k + 1"
  have "fixed_at sch (length sch) + ?a * ?q + ?a \<le> N"
    using slot_region[of ?q sch ?a] exactD(4)[OF e, of 0] False by simp
  then obtain b' where b: "blit (fixed_at sch (length sch) + ?a * ?q) (addr_bytes ?a (str_offset rb)) b = Some b'"
    using blit_total[of "fixed_at sch (length sch) + ?a * ?q" "addr_bytes ?a (str_offset rb)" b] h by (auto simp: parts_def)
  have keep: "slot_ok sch vals ?a b' i = slot_ok sch vals ?a b i"
    if "i < length sch" "is_string (data_type (sch ! i))" "string_no sch i \<le> string_no sch k" for i
    using that by (intro slot_other[OF b] disjI2 exI[of _ ?q] conjI) simp_all
  have "slots_ok sch vals ?a (Suc k) b'"
  proof (rule slots_Suc_string[OF _ k(1) st])
    show "slots_ok sch vals ?a k b" using h by (simp add: parts_def)
    fix i assume i: "i < length sch" "is_string (data_type (sch ! i))" "string_no sch i = ?q"
    show "slot_ok sch vals ?a b' i"
      using peek_blit_same[OF b] i(3) next_string[OF e k(1) i(1) st i(3)] rb(5) by (simp add: slot_ok_def)
  qed (use first keep k st in auto)
  then have "parts sch vals N i f t (Suc k) b'" using parts_slot[OF h e k(2,3) _ _ b] False by simp
  moreover have "SetStrOffset rb ?q = Some (rb\<lparr>buf := Some b'\<rparr>)"
    using False rb b by (simp add: SetStrOffset_eq[OF rb(2)] store_eq)
  ultimately show ?thesis using that by blast
qed

section \<open>Appending\<close>

text \<open>The state of a builder that has appended \<open>k\<close> cells.\<close>

definition building :: "schema \<Rightarrow> cell list \<Rightarrow> nat \<Rightarrow> nat \<Rightarrow> row_builder \<Rightarrow> bytes \<Rightarrow> bool" where
  "building sch vals N k rb b \<longleftrightarrow> rb_schema rb = sch \<and> buf rb = Some b \<and> cnt rb = k \<and> rb_size rb = N \<and>
     str_field_cnt rb = string_no sch (length sch) \<and> str_addr_length rb = GetAddrLength N \<and>
     str_field_start_offset rb = fixed_at sch (length sch) \<and>
     str_offset rb = text_base sch (GetAddrLength N) + text_upto vals k \<and>
     offset_vec rb = map (offset_of sch) [0..<length sch] \<and> parts sch vals N k k k k b"

lemma offset_vec_nth: "building sch vals N k rb b \<Longrightarrow> k < length sch \<Longrightarrow> offset_vec rb ! k = offset_of sch k"
  by (simp add: building_def)

lemma append_fixed_ok:
  assumes bd: "building sch vals N k rb b" and e: "exact sch vals N" and k: "k < length sch"
    and c: "\<not> is_string (data_type (sch ! k))" "vals ! k \<noteq> Null"
  shows "\<exists>rb' b'. append_cell rb (vals ! k) = Some (True, rb') \<and> building sch vals N (Suc k) rb' b'"
proof -
  let ?c = "sch ! k"
  note ap = append_fixed[OF exactD(2)[OF e k] c]
  have rb: "buf rb = Some b" "cnt rb = k" "rb_schema rb = sch" and h: "parts sch vals N k k k k b" using bd by (auto simp: building_def)
  obtain b1 where 1: "SetField rb k = Some (rb\<lparr>buf := Some b1\<rparr>)" "parts sch vals N (Suc k) k k k b1"
    using SetField_ok[OF rb(1) h e k _ _ c(2)] k by auto
  have "fixed_at sch k + length (cell_bytes (vals ! k)) \<le> length b1"
    using ap(2) c(1) k fixed_at_Suc[OF k] exactD(5)[OF e, of "Suc k"] exactD(4)[OF e, of 0] 1(2) by (simp add: parts_def)
  then obtain b2 where 2: "blit (fixed_at sch k) (cell_bytes (vals ! k)) b1 = Some b2" using blit_total by blast
  have "parts sch vals N (Suc k) (Suc k) k k b2" using parts_fixed[OF 1(2) e k _ c(1) ap(2) _ 2] k by simp
  then have p: "parts sch vals N (Suc k) (Suc k) (Suc k) (Suc k) b2"
    using parts_no_text[OF _ e k no_text[OF exactD(2)[OF e k] c(1)]] parts_no_slot[OF _ k c(1)] by blast
  have "offset_vec rb ! k = fixed_at sch k" using offset_vec_nth[OF bd k] c(1) by (simp add: offset_of_def)
  then have "append_cell rb (vals ! k) = Some (True, rb\<lparr>buf := Some b2, cnt := Suc k\<rparr>)"
    unfolding ap(1) using 1(1) 2 rb k by (simp add: append_with_def set_fixed_def RowBuilder_Check_def store_def)
  moreover have "text_upto vals (Suc k) = text_upto vals k"
    using k exactD(1)[OF e] no_text[OF exactD(2)[OF e k] c(1)] by (simp add: text_upto_Suc)
  then have "building sch vals N (Suc k) (rb\<lparr>buf := Some b2, cnt := Suc k\<rparr>) b2" using bd p by (simp add: building_def)
  ultimately show ?thesis by blast
qed

lemma append_null_ok:
  assumes bd: "building sch vals N k rb b" and e: "exact sch vals N" and k: "k < length sch" and c: "vals ! k = Null"
  shows "\<exists>rb' b'. append_cell rb (vals ! k) = Some (True, rb') \<and> building sch vals N (Suc k) rb' b'"
proof -
  let ?v = "b ! (HEADER_LENGTH + k div 8) OR push_bit (k mod 8) 1"
  have rb: "buf rb = Some b" "cnt rb = k" "rb_schema rb = sch" and h: "parts sch vals N k k k k b" using bd by (auto simp: building_def)
  have len: "length b = N" using h by (simp add: parts_def)
  obtain b1 where 1: "blit (HEADER_LENGTH + k div 8) [?v] b = Some b1"
    "peek (HEADER_LENGTH + k div 8) 1 b = Some [b ! (HEADER_LENGTH + k div 8)]"
    using bitmap_blit[OF k e len] .
  have v: "bit ?v j \<longleftrightarrow> (if j = k mod 8 then vals ! k = Null else bit (b ! (HEADER_LENGTH + k div 8)) j)" if "j < 8" for j
    using that c by (simp only: bit_byte_set) simp
  have "parts sch vals N (Suc k) k k k b1" using parts_bits[OF h e k _ _ 1(1) v] k by simp
  then have p: "parts sch vals N (Suc k) (Suc k) (Suc k) k b1"
    using parts_skip[of sch vals N "Suc k" k k k b1] parts_no_text[of sch vals N _ _ k k b1] e k c by simp
  have nn: "\<not> not_null (sch ! k)" using exactD(2)[OF e k] c by simp
  have tx: "text_upto vals (Suc k) = text_upto vals k" using k exactD(1)[OF e] c by (simp add: text_upto_Suc)
  let ?rb1 = "rb\<lparr>buf := Some b1\<rparr>"
  obtain b2 where 2: "(if is_string (data_type (sch ! k)) then SetStrOffset ?rb1 (offset_vec rb ! k + 1) else Some ?rb1) = Some (rb\<lparr>buf := Some b2\<rparr>)"
      "parts sch vals N (Suc k) (Suc k) (Suc k) (Suc k) b2"
  proof (cases "is_string (data_type (sch ! k))")
    case True
    then have o: "offset_vec rb ! k = string_no sch k" using offset_vec_nth[OF bd k] by (simp add: offset_of_def)
    obtain b2 where "SetStrOffset ?rb1 (string_no sch k + 1) = Some (?rb1\<lparr>buf := Some b2\<rparr>)" "parts sch vals N (Suc k) (Suc k) (Suc k) (Suc k) b2"
      by (rule next_slot[OF p e k _ _ True, of ?rb1]) (use k c bd tx in \<open>auto simp: building_def\<close>)
    then show ?thesis using that True o by simp
  next
    case False
    then show ?thesis using that[of b1] parts_no_slot[OF p k False] by simp
  qed
  have "append_cell rb (vals ! k) = Some (True, rb\<lparr>buf := Some b2, cnt := Suc k\<rparr>)"
    using c nn rb k 1 2(1)
    by (cases "is_string (data_type (sch ! k))") (auto simp: AppendNULL_def append_with_def SetNULL_def store_def)
  moreover have "building sch vals N (Suc k) (rb\<lparr>buf := Some b2, cnt := Suc k\<rparr>) b2" using bd 2(2) tx by (simp add: building_def)
  ultimately show ?thesis by blast
qed

text \<open>A string: the slot of the first one, the text, the slot of the next one, the bit.\<close>

lemma first_slot:
  assumes bd: "building sch vals N k rb b" and e: "exact sch vals N" and k: "k < length sch" "is_string (data_type (sch ! k))"
  obtains b1 where "(if string_no sch k = 0 then SetStrOffset rb 0 else Some rb) = Some (rb\<lparr>buf := Some b1\<rparr>)"
    "parts sch vals N k k k k b1" "string_no sch k = 0 \<longrightarrow> slot_ok sch vals (GetAddrLength N) b1 k"
proof (cases "string_no sch k = 0")
  case True
  let ?a = "GetAddrLength N"
  have rb: "buf rb = Some b" "str_addr_length rb = ?a" "str_field_cnt rb = string_no sch (length sch)"
    "str_field_start_offset rb = fixed_at sch (length sch)" "str_offset rb = text_base sch ?a + text_upto vals k"
    and h: "parts sch vals N k k k k b" using bd by (auto simp: building_def)
  have ns: "0 < string_no sch (length sch)"
    using k string_no_Suc[of k sch] string_no_mono[of "Suc k" "length sch" sch] by simp
  then have "fixed_at sch (length sch) + ?a * 0 + ?a \<le> N" using slot_region[of 0 sch ?a] exactD(4)[OF e, of 0] by simp
  then obtain b1 where b: "blit (fixed_at sch (length sch) + ?a * 0) (addr_bytes ?a (str_offset rb)) b = Some b1"
    using blit_total[of "fixed_at sch (length sch) + ?a * 0" "addr_bytes ?a (str_offset rb)" b] h by (auto simp: parts_def)
  have sl: "slot_ok sch vals ?a b1 k" using peek_blit_same[OF b] True rb(5) by (simp add: slot_ok_def)
  have "slots_ok sch vals ?a k b1"
    unfolding slots_ok_def using True string_no_inj[OF k(1) _ k(2)] by auto
  then have "parts sch vals N k k k k b1" using parts_slot[OF h e _ _ ns _ b] k by simp
  moreover have "SetStrOffset rb 0 = Some (rb\<lparr>buf := Some b1\<rparr>)" using ns rb b by (simp add: SetStrOffset_eq[OF rb(2)] store_eq)
  ultimately show ?thesis using that[of b1] True sl by simp
next
  case False
  then show ?thesis using that[of b] bd by (simp add: building_def)
qed

lemma append_string_ok:
  assumes bd: "building sch vals N k rb b" and e: "exact sch vals N" and k: "k < length sch"
    and c: "is_string (data_type (sch ! k))" "vals ! k = VStr xs"
  shows "\<exists>rb' b'. append_cell rb (vals ! k) = Some (True, rb') \<and> building sch vals N (Suc k) rb' b'"
proof -
  let ?a = "GetAddrLength N" let ?off = "text_base sch ?a + text_upto vals k"
  have rb: "buf rb = Some b" "cnt rb = k" "rb_schema rb = sch" "str_offset rb = ?off" "rb_size rb = N"
    using bd by (auto simp: building_def)
  have tx: "text_upto vals (Suc k) = text_upto vals k + length xs" using k exactD(1)[OF e] c by (simp add: text_upto_Suc)
  have fit: "?off + length xs \<le> N" "N < 2 ^ 32" using exactD(4)[OF e, of "Suc k"] k tx e by (auto simp: exact_def)
  have o: "offset_vec rb ! k = string_no sch k" using offset_vec_nth[OF bd k] c by (simp add: offset_of_def)
  obtain b1 where 1: "(if string_no sch k = 0 then SetStrOffset rb 0 else Some rb) = Some (rb\<lparr>buf := Some b1\<rparr>)"
    "parts sch vals N k k k k b1" "string_no sch k = 0 \<longrightarrow> slot_ok sch vals ?a b1 k"
    by (rule first_slot[OF bd e k c(1)])
  have len1: "length b1 = N" using 1(2) by (simp add: parts_def)
  then obtain b2 where 2: "blit ?off xs b1 = Some b2" using blit_total[of ?off xs b1] fit by auto
  have p2: "parts sch vals N k k (Suc k) k b2" using parts_text[OF 1(2) e k, of b2] 2 c k by simp
  have nil: "xs = [] \<Longrightarrow> b2 = b1" using 2 by (simp add: blit_def split: if_splits)
  have "slot_ok sch vals ?a b2 k = slot_ok sch vals ?a b1 k" by (rule slot_other[OF 2 k c(1)]) simp
  then have first: "string_no sch k = 0 \<Longrightarrow> slot_ok sch vals ?a b2 k" using 1(3) by simp
  let ?rb3 = "rb\<lparr>buf := Some b2, str_offset := text_base sch ?a + text_upto vals (Suc k)\<rparr>"
  obtain b3 where 3: "SetStrOffset ?rb3 (string_no sch k + 1) = Some (?rb3\<lparr>buf := Some b3\<rparr>)" "parts sch vals N k k (Suc k) (Suc k) b3"
    by (rule next_slot[OF p2 e k _ _ c(1), of ?rb3]) (use k first bd in \<open>auto simp: building_def\<close>)
  obtain b4 where 4: "SetField (?rb3\<lparr>buf := Some b3\<rparr>) k = Some (?rb3\<lparr>buf := Some b4\<rparr>)" "parts sch vals N (Suc k) k (Suc k) (Suc k) b4"
    using SetField_ok[OF _ 3(2) e k, of "?rb3\<lparr>buf := Some b3\<rparr>"] k c by auto
  have "parts sch vals N (Suc k) (Suc k) (Suc k) (Suc k) b4" using parts_skip[OF 4(2)] c by simp
  then have "building sch vals N (Suc k) (?rb3\<lparr>buf := Some b4, cnt := Suc k\<rparr>) b4" using bd by (simp add: building_def)
  moreover have "append_cell rb (vals ! k) = Some (True, ?rb3\<lparr>buf := Some b4, cnt := Suc k\<rparr>)"
  proof -
    have ck: "RowBuilder_Check rb k kVarchar \<or> RowBuilder_Check rb k kString"
      using c(1) k rb by (auto simp: RowBuilder_Check_def is_string_def)
    then have ck': "(\<not> RowBuilder_Check rb k kVarchar \<and> \<not> RowBuilder_Check rb k kString) = False" by blast
    have u: "u32 (?off + length xs) = ?off + length xs" using fit by (simp add: u32_def)
    define rb1 rb2 rb3 where "rb1 = rb\<lparr>buf := Some b1\<rparr>" and "rb2 = rb\<lparr>buf := Some b2\<rparr>" and "rb3 = ?rb3"
    have s1: "(if string_no sch k = 0 then SetStrOffset rb (string_no sch k) else Some rb) = Some rb1"
      using 1(1) by (auto simp: rb1_def split: if_splits)
    have s2: "(if xs \<noteq> [] then store (str_offset rb1) xs rb1 else Some rb1) = Some rb2"
      using 2 nil rb(4) by (simp add: store_def rb1_def rb2_def)
    have s3: "rb2\<lparr>str_offset := u32 (str_offset rb2 + length xs)\<rparr> = rb3" using u rb(4) tx by (simp add: rb2_def rb3_def add.assoc)
    have s4: "SetStrOffset rb3 (string_no sch k + 1) \<bind> (\<lambda>rb4. SetField rb4 k) = Some (?rb3\<lparr>buf := Some b4\<rparr>)"
      using 3(1) 4(1) by (simp add: rb3_def)
    then obtain rb4 where "SetStrOffset rb3 (string_no sch k + 1) = Some rb4" "SetField rb4 k = Some (?rb3\<lparr>buf := Some b4\<rparr>)"
      by (auto simp: bind_eq_Some_conv)
    moreover have "(rb_size rb < u32 (str_offset rb + length xs)) = False" using u fit rb by simp
    ultimately have "SetString rb k (Some xs) = Some (True, ?rb3\<lparr>buf := Some b4\<rparr>)"
      by (simp only: SetString_def option.case ck' if_False Let_def o s1 bind.bind_lunit length_0_conv s2 s3)
    then show ?thesis using c(2) rb by (simp add: AppendString_def append_with_def)
  qed
  ultimately show ?thesis by blast
qed

lemma append_cell_ok:
  assumes bd: "building sch vals N k rb b" and e: "exact sch vals N" and k: "k < length sch"
  shows "\<exists>rb' b'. append_cell rb (vals ! k) = Some (True, rb') \<and> building sch vals N (Suc k) rb' b'"
proof (cases "vals ! k")
  case Null
  then show ?thesis using append_null_ok[OF bd e k] by simp
next
  case (VStr xs)
  then have "is_string (data_type (sch ! k))" using exactD(2)[OF e k] by simp
  then show ?thesis using append_string_ok[OF bd e k _ VStr] by simp
qed (rule append_fixed_ok[OF bd e k]; use exactD(2)[OF e k] in \<open>simp add: is_string_def\<close>)+

end
