(* ===== verification/Codec_Project.thy ===== *)
theory Codec_Project
  imports Codec "HOL-Library.AList"
begin

text \<open>
  The clients of a row view in \<open>src/codec/codec.cc\<close>: the text of a value, \<open>RowView::GetStrValue\<close>, and the
  projection of rows of several schema versions on a list of columns, \<open>RowProject\<close>.
\<close>

section \<open>Text\<close>

text \<open>\<open>std::to_string\<close> of an integer.\<close>

function dec :: "nat \<Rightarrow> bytes" where
  "dec n = (if n < 10 then [of_nat (48 + n)] else dec (n div 10) @ [of_nat (48 + n mod 10)])"
  by pat_completeness auto
termination
  by (relation "measure id") auto

declare dec.simps [simp del]

definition dec_int :: "int \<Rightarrow> bytes" where
  "dec_int i = (if i < 0 then 45 # dec (nat (- i)) else dec (nat i))"

text \<open>\<open>std::to_string\<close> of a float and a double is a parameter.\<close>

record float_text =
  text_float :: "32 word \<Rightarrow> bytes"
  text_double :: "64 word \<Rightarrow> bytes"

text \<open>The variable that a getter leaves unchanged when it fails.\<close>

definition got_or :: "'a \<Rightarrow> 'a got option \<Rightarrow> 'a option" where
  "got_or d g = map_option (\<lambda>(_, v). case v of Some x \<Rightarrow> x | None \<Rightarrow> d) g"

definition date_text :: "32 word \<Rightarrow> bytes" where
  "date_text date = (case decode_date date of (y, m, d) \<Rightarrow> dec (unat y) @ [45] @ dec (unat m) @ [45] @ dec (unat d))"

definition GetStrValue :: "float_text \<Rightarrow> row_view \<Rightarrow> bytes option \<Rightarrow> nat \<Rightarrow> bytes got option" where
  "GetStrValue ft rv r idx = (case r of
     None \<Rightarrow> Some (-1, None)
   | Some b \<Rightarrow>
       if length (v_schema rv) = 0 \<or> idx \<ge> length (v_schema rv) then Some (-1, None)
       else do {
         sz \<leftarrow> RowView_GetSize b;
         if sz \<le> HEADER_LENGTH then Some (-1, None)
         else do {
           null \<leftarrow> RowView_IsNULL b idx;
           if null then Some (1, Some (ascii ''null''))
           else do {
             let t = data_type (v_schema rv ! idx);
             s \<leftarrow> (case t of
               kBool \<Rightarrow> do {
                 v \<leftarrow> got_or False (with_got (\<lambda>n. n = 1) (GetValue_fixed rv r idx t));
                 Some (ascii (if v then ''true'' else ''false'')) }
             | kSmallInt \<Rightarrow> do { v \<leftarrow> got_or 0 (GetInteger rv r idx t); Some (dec_int (sint v)) }
             | kInt \<Rightarrow> do { v \<leftarrow> got_or 0 (GetInteger rv r idx t); Some (dec_int (sint v)) }
             | kTimestamp \<Rightarrow> do { v \<leftarrow> got_or 0 (GetInteger rv r idx t); Some (dec_int (sint v)) }
             | kBigInt \<Rightarrow> do { v \<leftarrow> got_or 0 (GetInteger rv r idx t); Some (dec_int (sint v)) }
             | kFloat \<Rightarrow> do { v \<leftarrow> got_or 0 (with_got of_nat (GetValue_fixed rv r idx t)); Some (text_float ft v) }
             | kDouble \<Rightarrow> do { v \<leftarrow> got_or 0 (with_got of_nat (GetValue_fixed rv r idx t)); Some (text_double ft v) }
             | kDate \<Rightarrow> do { v \<leftarrow> got_or 0 (with_got of_nat (GetValue_fixed rv r idx t)); Some (date_text v) }
             | _ \<Rightarrow> do { g \<leftarrow> GetValue_string rv r idx; if fst g = 0 then string_at b g else Some [] });
             Some (0, Some s) } } })"

section \<open>Projection\<close>

text \<open>
  The maps from schema versions are association lists in the order of the versions.  The current view is
  shared with the map of views, so it is named by its version.
\<close>

record row_project =
  plist :: "nat list"
  output_schema :: schema
  rp_builder :: "row_builder option"
  cur_schema :: "schema option"
  cur_rv :: "int option"
  max_idx :: nat
  vers_views :: "(int \<times> row_view) list"
  vers_schema :: "(int \<times> schema) list"
  cur_ver :: nat

definition new_RowProject :: "(int \<times> schema) list \<Rightarrow> nat list \<Rightarrow> row_project" where
  "new_RowProject vs pl = \<lparr>plist = pl, output_schema = [], rp_builder = None, cur_schema = None, cur_rv = None,
     max_idx = 0, vers_views = [], vers_schema = vs, cur_ver = 1\<rparr>"

definition RowProject_Init :: "row_project \<Rightarrow> (bool \<times> row_project) option" where
  "RowProject_Init rp = (
     if plist rp = [] then Some (False, rp)
     else let m = fold (\<lambda>idx m. if idx \<ge> m then idx else m) (plist rp) (max_idx rp);
              views = map (\<lambda>(v, s). (v, new_RowView s)) (filter (\<lambda>(v, s). \<not> m \<ge> length s) (vers_schema rp));
              rp1 = rp\<lparr>max_idx := m, vers_views := views\<rparr>
          in case views of
               [] \<Rightarrow> Some (False, rp1)
             | (v, _) # _ \<Rightarrow> do {
                 s \<leftarrow> map_of (vers_schema rp) v;
                 let out = map (\<lambda>idx. s ! idx) (plist rp);
                 Some (True, rp1\<lparr>cur_schema := Some s, cur_rv := Some v, output_schema := out,
                   rp_builder := Some (new_RowBuilder out)\<rparr>) })"

text \<open>The bytes of the strings that will be copied; \<open>None\<close> inside when a getter fails.\<close>

fun project_text :: "row_view \<Rightarrow> schema \<Rightarrow> bytes \<Rightarrow> nat \<Rightarrow> nat list \<Rightarrow> nat option option" where
  "project_text rv s b str_size [] = Some (Some str_size)"
| "project_text rv s b str_size (idx # is) = (
     if is_string (data_type (s ! idx)) then do {
       null \<leftarrow> RowView_IsNULL b idx;
       if null then project_text rv s b str_size is
       else do {
         g \<leftarrow> GetString rv idx;
         case g of
           (_, Some (_, n)) \<Rightarrow> if fst g \<noteq> 0 then Some None else project_text rv s b (u32 (str_size + n)) is
         | _ \<Rightarrow> Some None } }
     else project_text rv s b str_size is)"

text \<open>A value that was read is appended; whether the append succeeded is not looked at.\<close>

definition append_got :: "row_builder \<Rightarrow> (row_builder \<Rightarrow> 'a \<Rightarrow> (bool \<times> row_builder) option) \<Rightarrow> 'a got option
    \<Rightarrow> (bool \<times> row_builder) option" where
  "append_got rb f g = do {
     (c, v) \<leftarrow> g;
     if c = 0 then do { x \<leftarrow> v; (_, rb1) \<leftarrow> f rb x; Some (True, rb1) } else Some (False, rb) }"

definition project_column :: "row_view \<Rightarrow> schema \<Rightarrow> bytes \<Rightarrow> row_builder \<Rightarrow> nat \<Rightarrow> (bool \<times> row_builder) option" where
  "project_column rv s b rb idx = do {
     null \<leftarrow> RowView_IsNULL b idx;
     if null then do { (_, rb1) \<leftarrow> AppendNULL rb; Some (True, rb1) }
     else case data_type (s ! idx) of
       kBool \<Rightarrow> append_got rb AppendBool (GetBool rv idx)
     | kSmallInt \<Rightarrow> append_got rb AppendInt16 (GetInt16 rv idx)
     | kInt \<Rightarrow> append_got rb AppendInt32 (GetInt32 rv idx)
     | kDate \<Rightarrow> append_got rb AppendDate (GetDate rv idx)
     | kBigInt \<Rightarrow> append_got rb AppendInt64 (GetInt64 rv idx)
     | kTimestamp \<Rightarrow> append_got rb AppendTimestamp (GetTimestamp rv idx)
     | kFloat \<Rightarrow> append_got rb AppendFloat (GetFloat rv idx)
     | kDouble \<Rightarrow> append_got rb AppendDouble (GetDouble rv idx)
     | _ \<Rightarrow> append_got rb (\<lambda>rb (off, n). do { xs \<leftarrow> peek off n b; AppendString rb (Some xs) }) (GetString rv idx) }"

fun project_columns :: "row_view \<Rightarrow> schema \<Rightarrow> bytes \<Rightarrow> row_builder \<Rightarrow> nat list \<Rightarrow> (bool \<times> row_builder) option" where
  "project_columns rv s b rb [] = Some (True, rb)"
| "project_columns rv s b rb (idx # is) = do {
     (ok, rb1) \<leftarrow> project_column rv s b rb idx;
     if ok then project_columns rv s b rb1 is else Some (False, rb1) }"

text \<open>
  \<open>fresh n\<close> is what \<open>new char[n]\<close> contains.  The result is the projected row, or \<open>None\<close> inside when the
  function returns false.
\<close>

definition Project :: "(nat \<Rightarrow> bytes) \<Rightarrow> row_project \<Rightarrow> bytes option \<Rightarrow> nat \<Rightarrow> (bytes option \<times> row_project) option" where
  "Project fresh rp row_ptr sz = (case row_ptr of
     None \<Rightarrow> Some (None, rp)
   | Some b \<Rightarrow> do {
       version \<leftarrow> GetSchemaVersion b;
       if version \<noteq> cur_ver rp \<and> map_of (vers_views rp) (int version) = None then Some (None, rp)
       else do {
         rp1 \<leftarrow> (if version \<noteq> cur_ver rp then do {
             s \<leftarrow> map_of (vers_schema rp) (int version);
             Some (rp\<lparr>cur_rv := Some (int version), cur_ver := version, cur_schema := Some s\<rparr>) }
           else Some rp);
         key \<leftarrow> cur_rv rp1;
         rv0 \<leftarrow> map_of (vers_views rp1) key;
         s \<leftarrow> cur_schema rp1;
         (ok, rv) \<leftarrow> RowView_Reset rv0 row_ptr sz;
         let rp2 = rp1\<lparr>vers_views := AList.update key rv (vers_views rp1)\<rparr>;
         if \<not> ok then Some (None, rp2)
         else do {
           str_size \<leftarrow> project_text rv s b 0 (plist rp);
           case str_size of
             None \<Rightarrow> Some (None, rp2)
           | Some str_size \<Rightarrow> do {
               rb0 \<leftarrow> rp_builder rp;
               let total_size = CalTotalLength rb0 str_size;
               (_, rb1) \<leftarrow> SetBuffer rb0 (Some (fresh total_size)) total_size True;
               (ok, rb2) \<leftarrow> project_columns rv s b rb1 (plist rp);
               let rp3 = rp2\<lparr>rp_builder := Some rb2\<rparr>;
               if ok then do { out \<leftarrow> buf rb2; Some (Some out, rp3) } else Some (None, rp3) } } } })"

end
