(* ===== verification/Codec_Props.thy ===== *)
theory Codec_Props
  imports Codec_Built Codec_Project
begin

text \<open>The properties of the row format: what is appended is read back.\<close>

unbundle bit_operations_syntax

section \<open>The size of a row\<close>

text \<open>A builder of rows of a schema: what its constructor computes and nothing changes.\<close>

definition builds :: "schema \<Rightarrow> row_builder \<Rightarrow> bool" where
  "builds sch rb \<longleftrightarrow> rb_schema rb = sch \<and> str_field_cnt rb = string_no sch (length sch) \<and>
     str_field_start_offset rb = fixed_at sch (length sch) \<and> offset_vec rb = map (offset_of sch) [0..<length sch]"

lemma new_RowBuilder_builds: "builds sch (new_RowBuilder sch)"
  by (simp add: builds_def new_RowBuilder_def offsets_of_schema)

lemma building_builds: "building sch vals N k rb b \<Longrightarrow> builds sch rb"
  by (simp add: builds_def building_def)

lemma CalTotalLength_exact:
  assumes "sch \<noteq> []" "list_all2 cell_fits sch vals"
    "fixed_at sch (length sch) + 4 * string_no sch (length sch) + text_upto vals (length vals) < 2 ^ 32" "builds sch rb"
  shows "exact sch vals (CalTotalLength rb (text_upto vals (length vals)))"
proof -
  let ?t = "fixed_at sch (length sch) + text_upto vals (length vals)" let ?n = "string_no sch (length sch)"
  have u: "u32 ?t = ?t" "u32 (?t + ?n) = ?t + ?n" "u32 (?t + ?n * 2) = ?t + ?n * 2" "u32 (?t + ?n * 3) = ?t + ?n * 3"
    "u32 (?t + ?n * 4) = ?t + ?n * 4"
    using assms(3) by (auto simp: u32_def)
  have "CalTotalLength rb (text_upto vals (length vals)) =
    (if ?t + ?n \<le> 255 then ?t + ?n else if ?t + ?n * 2 \<le> 65535 then ?t + ?n * 2
     else if ?t + ?n * 3 \<le> UINT24_MAX then ?t + ?n * 3 else ?t + ?n * 4)"
    using assms(1,4) unfolding CalTotalLength_def Let_def builds_def by (simp add: u)
  then show ?thesis
    using assms(2,3) unfolding exact_def text_base_def by (auto simp: GetAddrLength_def UINT24_MAX_def)
qed

lemma bit_ff: "n < 8 \<Longrightarrow> bit (0xff :: 8 word) n"
proof -
  have "(0xff :: 8 word) = mask 8" by (simp add: mask_eq_exp_minus_1)
  then show "n < 8 \<Longrightarrow> bit (0xff :: 8 word) n" by (simp only: bit_mask_iff) simp
qed

lemma header_min: "sch \<noteq> [] \<Longrightarrow> HEADER_LENGTH < fixed_at sch 0"
  using bitmap_byte[of 0 sch] by simp

section \<open>Starting a row\<close>

lemma SetBuffer_building:
  assumes "exact sch vals N" "sch \<noteq> []" "length junk = N" "builds sch rb0"
  shows "\<exists>rb b. SetBuffer rb0 (Some junk) N True = Some (True, rb) \<and> building sch vals N 0 rb b"
proof -
  let ?a = "GetAddrLength N" let ?m = "BitMapSize (length sch)"
  have f0: "HEADER_LENGTH < fixed_at sch 0" "fixed_at sch 0 \<le> fixed_at sch (length sch)" "text_base sch ?a \<le> N" "N < 2 ^ 32"
    using header_min[OF assms(2)] fixed_at_mono[of 0 "length sch" sch] exactD(4)[OF assms(1), of 0] assms(1) by (auto simp: exact_def)
  have a1: "1 \<le> ?a" using addr_length_cases[of N] by auto
  then have tb: "fixed_at sch (length sch) + string_no sch (length sch) \<le> text_base sch ?a" by (simp add: text_base_def)
  have h6: "HEADER_LENGTH = 6" "VERSION_LENGTH = 2" by (simp_all add: HEADER_LENGTH_def VERSION_LENGTH_def SIZE_LENGTH_def)
  have N6: "6 + ?m \<le> N" "0 < N" using f0 tb by (auto simp: fixed_at_0 h6)
  obtain b1 where b1: "blit 0 [1] junk = Some b1" using blit_total[of 0 "[1]" junk] N6 assms(3) by auto
  obtain b2 where b2: "blit 1 [schema_version rb0] b1 = Some b2" using blit_total[of 1 "[schema_version rb0]" b1] N6 assms(3) blit_length[OF b1] by auto
  obtain b3 where b3: "blit 2 (le 4 N) b2 = Some b3"
    using blit_total[of 2 "le 4 N" b2] N6 assms(3) blit_length[OF b1] blit_length[OF b2] by auto
  obtain b4 where b4: "blit 6 (replicate ?m 0xff) b3 = Some b4"
    using blit_total[of 6 "replicate ?m 0xff" b3] N6 assms(3) blit_length[OF b1] blit_length[OF b2] blit_length[OF b3] by auto
  have len: "length b4 = N" using blit_length[OF b1] blit_length[OF b2] blit_length[OF b3] blit_length[OF b4] assms(3) by simp
  have hdr: "peek 2 4 b4 = Some (le 4 N)"
    using peek_blit_other[OF b4, of 2 4] peek_blit_same[OF b3] by simp
  have "bit (b4 ! (6 + i div 8)) (i mod 8)" if "i < length sch" for i
    using bitmap_byte[OF that] bit_ff[of "i mod 8"] by (auto simp: blit_nth[OF b4] fixed_at_0 h6)
  then have "parts sch vals N 0 0 0 0 b4"
    using len hdr by (auto simp: parts_def bits_ok_def fixed_ok_def texts_ok_def slots_ok_def string_no_def h6)
  moreover have "u32 (fixed_at sch (length sch) + string_no sch (length sch)) \<le> N"
    "u32 (fixed_at sch (length sch) + ?a * string_no sch (length sch)) = text_base sch ?a"
    using order_trans[OF mod_less_eq_dividend[of "fixed_at sch (length sch) + string_no sch (length sch)"] order_trans[OF tb f0(3)]]
      f0(3,4) unfolding u32_def text_base_def by simp_all
  ultimately show ?thesis
    using N6 b1 b2 b3 b4 assms(4) unfolding SetBuffer_def builds_def
    by (auto simp: store_def building_def h6 Let_def text_upto_def)
qed

fun append_cells :: "row_builder \<Rightarrow> cell list \<Rightarrow> (bool \<times> row_builder) option" where
  "append_cells rb [] = Some (True, rb)"
| "append_cells rb (v # vs) = do { (ok, rb1) \<leftarrow> append_cell rb v; if ok then append_cells rb1 vs else Some (False, rb1) }"

lemma append_cells_ok:
  assumes "building sch vals N k rb b" "exact sch vals N" "k \<le> length sch"
  shows "\<exists>rb' b'. append_cells rb (drop k vals) = Some (True, rb') \<and> building sch vals N (length sch) rb' b'"
  using assms(1,3)
proof (induction "length sch - k" arbitrary: k rb b)
  case 0
  then show ?case using exactD(1)[OF assms(2)] by auto
next
  case (Suc n)
  then have k: "k < length sch" by simp
  obtain rb1 b1 where 1: "append_cell rb (vals ! k) = Some (True, rb1)" "building sch vals N (Suc k) rb1 b1"
    using append_cell_ok[OF Suc(3) assms(2) k] by blast
  have "drop k vals = vals ! k # drop (Suc k) vals" using k exactD(1)[OF assms(2)] by (simp add: Cons_nth_drop_Suc)
  then show ?case using Suc(1)[OF _ 1(2)] Suc(2) k 1(1) by simp
qed

section \<open>Reading a row\<close>

definition as_cell :: "('a \<Rightarrow> cell) \<Rightarrow> 'a got option \<Rightarrow> cell option" where
  "as_cell f g = do { (c, v) \<leftarrow> g; if c = 1 then Some Null else map_option f v }"

definition get_cell :: "row_view \<Rightarrow> nat \<Rightarrow> cell option" where
  "get_cell rv i = (case data_type (v_schema rv ! i) of
     kBool \<Rightarrow> as_cell VBool (GetBool rv i)
   | kSmallInt \<Rightarrow> as_cell VInt16 (GetInt16 rv i)
   | kInt \<Rightarrow> as_cell VInt32 (GetInt32 rv i)
   | kBigInt \<Rightarrow> as_cell VInt64 (GetInt64 rv i)
   | kTimestamp \<Rightarrow> as_cell VTimestamp (GetTimestamp rv i)
   | kFloat \<Rightarrow> as_cell VFloat (GetFloat rv i)
   | kDouble \<Rightarrow> as_cell VDouble (GetDouble rv i)
   | kDate \<Rightarrow> as_cell VDate (GetDate rv i)
   | _ \<Rightarrow> do { g \<leftarrow> GetString rv i; b \<leftarrow> row rv; if fst g = 1 then Some Null else map_option VStr (string_at b g) })"

text \<open>A view on a finished row.\<close>

definition viewing :: "schema \<Rightarrow> nat \<Rightarrow> bytes \<Rightarrow> row_view \<Rightarrow> bool" where
  "viewing sch N b rv \<longleftrightarrow> v_schema rv = sch \<and> row rv = Some b \<and> is_valid rv \<and> v_str_addr_length rv = GetAddrLength N \<and>
     string_field_cnt rv = string_no sch (length sch) \<and> v_str_start rv = fixed_at sch (length sch) \<and>
     v_offset_vec rv = map (offset_of sch) [0..<length sch]"

lemma load_le: "peek off k b = Some (le k n) \<Longrightarrow> n < 256 ^ k \<Longrightarrow> load off k b = Some n"
  by (simp add: load_def unle_le_eq)

lemma view_ok:
  assumes "exact sch vals N" "sch \<noteq> []" "parts sch vals N k k k k b"
  shows "\<exists>rv. new_RowView_row sch (Some b) N = Some rv \<and> viewing sch N b rv"
proof -
  have "load VERSION_LENGTH 4 b = Some N" using assms(1,3) by (intro load_le) (auto simp: parts_def exact_def)
  moreover have "HEADER_LENGTH < N"
    using header_min[OF assms(2)] exactD(5)[OF assms(1), of 0] exactD(4)[OF assms(1), of 0] by linarith
  ultimately show ?thesis
    using assms(2) by (simp add: new_RowView_row_def RowView_Reset_def RowView_Init_def offsets_of_schema viewing_def)
qed

lemma IsNULL_ok:
  assumes "parts sch vals N (length sch) f t s b" "exact sch vals N" "i < length sch"
  shows "RowView_IsNULL b i = Some (vals ! i = Null)"
proof -
  have len: "length b = N" using assms(1) by (simp add: parts_def)
  obtain b' where "peek (HEADER_LENGTH + i div 8) 1 b = Some [b ! (HEADER_LENGTH + i div 8)]"
    using bitmap_blit[OF assms(3,2) len, of 0] by blast
  moreover have "bit (b ! (HEADER_LENGTH + i div 8)) (i mod 8) \<longleftrightarrow> vals ! i = Null"
    using assms(1,3) by (auto simp: parts_def bits_ok_def)
  moreover have "(x AND push_bit (i mod 8) 1 \<noteq> 0) \<longleftrightarrow> bit x (i mod 8)" for x :: "8 word"
    by (simp only: bit_iff_and_push_bit_not_eq_0)
  ultimately show ?thesis by (simp add: RowView_IsNULL_def)
qed

lemma get_fixed_ok:
  assumes "viewing sch N b rv" "parts sch vals N (length sch) (length sch) t s b" "exact sch vals N" "i < length sch"
    "\<not> is_string (data_type (sch ! i))"
  shows "get_fixed rv i (data_type (sch ! i)) (type_size (data_type (sch ! i))) =
    Some (if vals ! i = Null then (1, None) else (0, Some (unle (cell_bytes (vals ! i)))))"
proof -
  have "peek (fixed_at sch i) (type_size (data_type (sch ! i))) b = Some (cell_bytes (vals ! i))" if "vals ! i \<noteq> Null"
    using assms(2,4,5) that by (simp add: parts_def fixed_ok_def)
  then show ?thesis
    using assms IsNULL_ok[OF assms(2-4)] by (simp add: get_fixed_def CheckValid_def viewing_def offset_of_def load_def)
qed

lemma get_cell_fixed:
  assumes "viewing sch N b rv" "parts sch vals N (length sch) (length sch) t s b" "exact sch vals N" "i < length sch"
    "\<not> is_string (data_type (sch ! i))"
  shows "get_cell rv i = Some (vals ! i)"
proof -
  have v: "v_schema rv = sch" using assms(1) by (simp add: viewing_def)
  show ?thesis
    using get_fixed_ok[OF assms] exactD(2)[OF assms(3,4)] assms(5)
    by (cases "data_type (sch ! i)"; cases "vals ! i")
      (simp_all add: get_cell_def v is_string_def as_cell_def GetBool_def GetInt16_def GetInt32_def GetInt64_def GetTimestamp_def
        GetFloat_def GetDouble_def GetDate_def with_got_def type_sizes unle_le_eq unat_less_pow)
qed

lemma string_exists: "p < string_no sch n \<Longrightarrow> n \<le> length sch \<Longrightarrow> \<exists>i<n. is_string (data_type (sch ! i)) \<and> string_no sch i = p"
proof (induction n)
  case (Suc n)
  then show ?case by (cases "p < string_no sch n") (auto simp: string_no_Suc less_Suc_eq split: if_splits)
qed (simp add: string_no_def)

lemma addr_room: "n \<le> N \<Longrightarrow> N < 2 ^ 32 \<Longrightarrow> n < 256 ^ GetAddrLength N"
  by (auto simp: GetAddrLength_def UINT24_MAX_def)

lemma load_addr_ok: "peek off a b = Some (addr_bytes a n) \<Longrightarrow> n < 256 ^ a \<Longrightarrow> load_addr b a off = Some n"
  by (auto simp: load_addr_def addr_bytes_def load_def unle_le_eq split: if_splits)

lemma slot_load:
  assumes "slot_ok sch vals (GetAddrLength N) b i" "exact sch vals N" "i < length sch"
  shows "load_addr b (GetAddrLength N) (fixed_at sch (length sch) + string_no sch i * GetAddrLength N) =
    Some (text_base sch (GetAddrLength N) + text_upto vals i)"
  using assms exactD(4)[OF assms(2), of i]
  by (intro load_addr_ok addr_room) (simp_all add: slot_ok_def exact_def mult.commute)

lemma get_cell_string:
  assumes v: "viewing sch N b rv" and h: "parts sch vals N (length sch) (length sch) (length sch) (length sch) b"
    and e: "exact sch vals N" and i: "i < length sch" "is_string (data_type (sch ! i))"
  shows "get_cell rv i = Some (vals ! i)"
proof -
  let ?a = "GetAddrLength N" let ?s = "string_no sch (length sch)" let ?p = "string_no sch i"
  have sv: "v_schema rv = sch" using v by (simp add: viewing_def)
  have ck: "CheckValid rv i kVarchar \<or> CheckValid rv i kString" using v i by (auto simp: CheckValid_def viewing_def is_string_def)
  have ps: "?p < ?s" using string_no_mono[of "Suc i" "length sch" sch] i by (simp add: string_no_Suc)
  let ?q = "next_field rv ?p"
  have e_off: "(if 0 < ?q then load_addr b ?a (fixed_at sch (length sch) + ?q * ?a) else load VERSION_LENGTH 4 b) =
    Some (text_base sch ?a + text_upto vals (Suc i))"
  proof (cases "?p + 1 < ?s")
    case True
    then obtain j where j: "j < length sch" "is_string (data_type (sch ! j))" "string_no sch j = ?p + 1"
      using string_exists[of "?p + 1" sch "length sch"] by auto
    have "slot_ok sch vals ?a b j" using h j True by (simp add: parts_def slots_ok_def)
    moreover have "?q = ?p + 1" using v True by (auto simp: next_field_def viewing_def)
    ultimately show ?thesis using slot_load[OF _ e j(1)] j(3) next_string[OF e i(1) j(1) i(2) j(3)] by simp
  next
    case False
    have "text_upto vals (Suc i) = text_upto vals (length sch)"
      using text_between[of sch vals "Suc i" "length sch"] e i ps False by (simp add: exact_def string_no_Suc)
    moreover have "load VERSION_LENGTH 4 b = Some N" using h e by (intro load_le) (auto simp: parts_def exact_def)
    moreover have "?q = 0" using v False by (auto simp: next_field_def viewing_def)
    ultimately show ?thesis using e exactD(1)[OF e] by (simp add: exact_def)
  qed
  have "N < 2 ^ 32" using e by (simp add: exact_def)
  then have n: "unat (of_nat (text_base sch ?a + text_upto vals (Suc i)) - of_nat (text_base sch ?a + text_upto vals i) :: 32 word) =
    length (cell_text (vals ! i))"
    using exactD(1)[OF e] exactD(4)[OF e, of "Suc i"] i
    by (simp add: text_upto_Suc unat_of_nat)
  show ?thesis
  proof (cases "vals ! i = Null")
    case True
    then show ?thesis
      using ck v i IsNULL_ok[OF h e i(1)] unfolding get_cell_def sv by (auto simp: GetString_def viewing_def is_string_def)
  next
    case False
    then obtain xs where xs: "vals ! i = VStr xs" using exactD(2)[OF e i(1)] i(2) by (cases "vals ! i") (auto simp: is_string_def)
    have "slot_ok sch vals ?a b i" using h i ps False by (simp add: parts_def slots_ok_def)
    note off = slot_load[OF this e i(1)]
    have "GetString rv i = Some (0, Some (text_base sch ?a + text_upto vals i, length xs))"
      using ck v i IsNULL_ok[OF h e i(1)] False off e_off n addr_length_cases[of N] xs
      by (auto simp: GetString_def viewing_def offset_of_def GetStrField_def)
    moreover have "peek (text_base sch ?a + text_upto vals i) (length xs) b = Some xs"
      using h i xs by (auto simp: parts_def texts_ok_def)
    ultimately show ?thesis using i(2) v xs unfolding get_cell_def sv by (auto simp: string_at_def viewing_def is_string_def)
  qed
qed

section \<open>Round trip\<close>

text \<open>A row read through a view of its schema shows these cells.\<close>

definition row_holds :: "schema \<Rightarrow> bytes \<Rightarrow> cell list \<Rightarrow> bool" where
  "row_holds sch b vals = (case new_RowView_row sch (Some b) (length b) of
     None \<Rightarrow> False
   | Some rv \<Rightarrow> is_valid rv \<and> map (get_cell rv) [0..<length sch] = map Some vals)"

lemma row_holds_parts:
  assumes "exact sch vals N" "sch \<noteq> []" "parts sch vals N (length sch) (length sch) (length sch) (length sch) b"
  shows "row_holds sch b vals"
proof -
  have "length b = N" using assms(3) by (simp add: parts_def)
  then obtain rv where rv: "new_RowView_row sch (Some b) (length b) = Some rv" "viewing sch N b rv"
    using view_ok[OF assms] by blast
  have "get_cell rv i = Some (vals ! i)" if "i < length sch" for i
    using get_cell_fixed[OF rv(2) assms(3,1) that] get_cell_string[OF rv(2) assms(3,1) that] by blast
  then have "map (get_cell rv) [0..<length sch] = map Some vals"
    using exactD(1)[OF assms(1)] by (intro nth_equalityI) simp_all
  moreover have "is_valid rv" using rv(2) by (simp add: viewing_def)
  ultimately show ?thesis by (simp add: row_holds_def rv(1))
qed

text \<open>Sizes that 32 bits can hold, whatever width the offsets get.\<close>

definition row_bound :: "schema \<Rightarrow> cell list \<Rightarrow> bool" where
  "row_bound sch vals \<longleftrightarrow>
     fixed_at sch (length sch) + 4 * string_no sch (length sch) + text_upto vals (length vals) < 2 ^ 32"

lemma build_row:
  assumes "sch \<noteq> []" "list_all2 cell_fits sch vals" "row_bound sch vals" "builds sch rb"
    "length junk = CalTotalLength rb (text_upto vals (length vals))"
  shows "\<exists>rb1 rb2 b. SetBuffer rb (Some junk) (length junk) True = Some (True, rb1) \<and> append_cells rb1 vals = Some (True, rb2) \<and>
    IsComplete rb2 \<and> buf rb2 = Some b \<and> length b = length junk \<and> builds sch rb2 \<and> row_holds sch b vals"
proof -
  have e: "exact sch vals (length junk)"
    using CalTotalLength_exact[OF assms(1,2) _ assms(4)] assms(3,5) by (simp add: row_bound_def)
  obtain rb1 b1 where 1: "SetBuffer rb (Some junk) (length junk) True = Some (True, rb1)" "building sch vals (length junk) 0 rb1 b1"
    using SetBuffer_building[OF e assms(1) refl assms(4)] by blast
  obtain rb2 b where 2: "append_cells rb1 vals = Some (True, rb2)" "building sch vals (length junk) (length sch) rb2 b"
    using append_cells_ok[OF 1(2) e] by auto
  have p: "parts sch vals (length junk) (length sch) (length sch) (length sch) (length sch) b" using 2(2) by (simp add: building_def)
  show ?thesis
    using 1(1) 2 building_builds[OF 2(2)] row_holds_parts[OF e assms(1) p] p
    by (auto simp: building_def IsComplete_def parts_def)
qed

text \<open>C8: the row codec round trip.  A row of any schema and any values of its columns' types, null where a column
  allows it, whose size has 32 bits: a buffer of the size that \<open>CalTotalLength\<close> computes, whatever it contained, is
  accepted; every append succeeds and stays inside it; the row is then complete, and a view on it returns every
  value that was appended.\<close>

theorem row_roundtrip:
  assumes "sch \<noteq> []" "list_all2 cell_fits sch vals" "row_bound sch vals"
    "length junk = CalTotalLength (new_RowBuilder sch) (text_upto vals (length vals))"
  shows "\<exists>rb1 rb2 b. SetBuffer (new_RowBuilder sch) (Some junk) (length junk) True = Some (True, rb1) \<and>
    append_cells rb1 vals = Some (True, rb2) \<and> IsComplete rb2 \<and> buf rb2 = Some b \<and> length b = length junk \<and>
    row_holds sch b vals"
  using build_row[OF assms(1-3) new_RowBuilder_builds assms(4)] by blast

definition sample_schema :: schema where
  "sample_schema = [\<lparr>col_name = ''id'', data_type = kBigInt, not_null = True\<rparr>, \<lparr>col_name = ''card'', data_type = kString, not_null = False\<rparr>,
     \<lparr>col_name = ''ok'', data_type = kBool, not_null = False\<rparr>, \<lparr>col_name = ''mcc'', data_type = kVarchar, not_null = False\<rparr>]"

lemma sample_size:
  "fixed_at sample_schema 4 = 16" "string_no sample_schema 4 = 2" "length sample_schema = 4"
  by (simp_all add: sample_schema_def fixed_at_def string_no_def is_string_def HEADER_LENGTH_def VERSION_LENGTH_def SIZE_LENGTH_def
      BitMapSize_def type_sizes)

theorem row_roundtrip_witness:
  "\<exists>rb1 rb2 b. SetBuffer (new_RowBuilder sample_schema) (Some (replicate 22 0xaa)) 22 True = Some (True, rb1) \<and>
    append_cells rb1 [VInt64 7, VStr [1, 2, 3], Null, VStr [9]] = Some (True, rb2) \<and> IsComplete rb2 \<and> buf rb2 = Some b \<and>
    length b = 22 \<and> row_holds sample_schema b [VInt64 7, VStr [1, 2, 3], Null, VStr [9]]"
proof -
  let ?vals = "[VInt64 7, VStr [1, 2, 3], Null, VStr [9]]"
  have t: "text_upto ?vals (length ?vals) = 4" by (simp add: text_upto_def)
  have 1: "sample_schema \<noteq> []" "list_all2 cell_fits sample_schema ?vals" by (simp_all add: sample_schema_def is_string_def)
  have 2: "row_bound sample_schema ?vals" using t by (simp add: row_bound_def sample_size)
  have 3: "length (replicate 22 (0xaa :: byte)) = CalTotalLength (new_RowBuilder sample_schema) (text_upto ?vals (length ?vals))"
    unfolding t using new_RowBuilder_builds[of sample_schema]
    by (simp add: builds_def CalTotalLength_def sample_size u32_def)
  show ?thesis using row_roundtrip[OF 1 2 3] by simp
qed

end
