(* ===== verification/Codec_Projected.thy ===== *)
theory Codec_Projected
  imports Codec_Props
begin

text \<open>
  Projecting rows: what \<open>RowProject\<close> copies of a row is what a view of the output schema shows of the result.
\<close>

section \<open>One column\<close>

text \<open>A view whose row shows a cell: the null bit, and the copy of the column.\<close>

lemma get_fixed_cases:
  assumes "get_fixed rv i t k = Some (c, v)" "row rv = Some b" "CheckValid rv i t"
  shows "RowView_IsNULL b i = Some True \<and> c = 1 \<and> v = None \<or> RowView_IsNULL b i = Some False \<and> c = 0 \<and> (\<exists>n. v = Some n)"
  using assms by (auto simp: get_fixed_def Option.bind_eq_Some_conv split: if_splits)

lemma GetStrField_cases:
  "GetStrField b p q s a = Some (c, v) \<Longrightarrow> c = 0 \<and> (\<exists>off n. v = Some (off, n)) \<or> c = -2 \<and> v = None"
  by (auto simp: GetStrField_def Option.bind_eq_Some_conv split: if_splits)

lemma GetString_cases:
  assumes "GetString rv i = Some (c, v)" "row rv = Some b" "CheckValid rv i kVarchar \<or> CheckValid rv i kString"
  shows "RowView_IsNULL b i = Some True \<and> c = 1 \<and> v = None \<or>
    RowView_IsNULL b i = Some False \<and> (c = 0 \<and> (\<exists>off n. v = Some (off, n)) \<or> c = -2 \<and> v = None)"
  using assms by (auto simp: GetString_def Option.bind_eq_Some_conv Let_def dest!: GetStrField_cases split: if_splits)

lemmas getters = GetBool_def GetInt16_def GetInt32_def GetInt64_def GetTimestamp_def GetFloat_def GetDouble_def GetDate_def

definition copied :: "(bool \<times> row_builder) option \<Rightarrow> (bool \<times> row_builder) option" where
  "copied r = map_option (\<lambda>(_, rb1). (True, rb1)) r"

lemma append_got_eq: "append_got rb app (Some (0, Some x)) = copied (app rb x)"
  by (cases "app rb x") (auto simp: append_got_def copied_def)

lemma copy_fixed:
  assumes "as_cell con (with_got f (get_fixed rv i t k)) = Some v" "row rv = Some b" "CheckValid rv i t" "\<And>x. con x \<noteq> Null"
  shows "RowView_IsNULL b i = Some (v = Null)"
    "v \<noteq> Null \<Longrightarrow> \<exists>x. v = con x \<and> append_got rb app (with_got f (get_fixed rv i t k)) = copied (app rb x)"
proof -
  obtain c n where g: "get_fixed rv i t k = Some (c, n)"
    using assms(1) by (cases "get_fixed rv i t k") (auto simp: as_cell_def with_got_def)
  note cs = get_fixed_cases[OF g assms(2,3)]
  show "RowView_IsNULL b i = Some (v = Null)" using cs assms(1,4) g by (auto simp: as_cell_def with_got_def)
  show "\<exists>x. v = con x \<and> append_got rb app (with_got f (get_fixed rv i t k)) = copied (app rb x)" if "v \<noteq> Null"
    using cs assms(1) g that by (auto simp: as_cell_def with_got_def append_got_eq)
qed

lemma copy_string:
  assumes "do { g \<leftarrow> GetString rv i; if fst g = 1 then Some Null else map_option VStr (string_at b g) } = Some v"
    "row rv = Some b" "CheckValid rv i kVarchar \<or> CheckValid rv i kString"
  shows "RowView_IsNULL b i = Some (v = Null)"
    "v \<noteq> Null \<Longrightarrow> \<exists>xs off. v = VStr xs \<and> GetString rv i = Some (0, Some (off, length xs)) \<and> peek off (length xs) b = Some xs"
proof -
  obtain c n where g: "GetString rv i = Some (c, n)" using assms(1) by (cases "GetString rv i") auto
  note cs = GetString_cases[OF g assms(2,3)]
  show "RowView_IsNULL b i = Some (v = Null)" using cs assms(1) g by (auto simp: string_at_def)
  show "\<exists>xs off. v = VStr xs \<and> GetString rv i = Some (0, Some (off, length xs)) \<and> peek off (length xs) b = Some xs" if "v \<noteq> Null"
    using cs assms(1) g that by (auto simp: string_at_def peek_length)
qed

lemma project_column_eq:
  assumes "get_cell rv i = Some v" "row rv = Some b" "is_valid rv" "i < length (v_schema rv)"
  shows "RowView_IsNULL b i = Some (v = Null)"
    "project_column rv (v_schema rv) b rb i = copied (append_cell rb v)"
    "is_string (data_type (v_schema rv ! i)) \<Longrightarrow> v \<noteq> Null \<Longrightarrow> \<exists>off. GetString rv i = Some (0, Some (off, length (cell_text v)))"
proof -
  have ck: "CheckValid rv i (data_type (v_schema rv ! i))" using assms by (simp add: CheckValid_def)
  show n: "RowView_IsNULL b i = Some (v = Null)"
    using assms(1,2) ck
    by (cases "data_type (v_schema rv ! i)") (auto simp: get_cell_def getters dest: copy_fixed(1) copy_string(1))
  show "is_string (data_type (v_schema rv ! i)) \<Longrightarrow> v \<noteq> Null \<Longrightarrow> \<exists>off. GetString rv i = Some (0, Some (off, length (cell_text v)))"
    using assms(1,2) ck by (auto simp: get_cell_def is_string_def dest!: copy_string(2))
  show "project_column rv (v_schema rv) b rb i = copied (append_cell rb v)"
  proof (cases "v = Null")
    case True
    then show ?thesis using n by (cases "AppendNULL rb") (auto simp: project_column_def copied_def)
  next
    case False
    then show ?thesis
      using assms(1,2) ck n
      by (cases "data_type (v_schema rv ! i)")
        (auto simp: get_cell_def project_column_def getters append_got_eq dest!: copy_fixed(2)[where rb = rb] copy_string(2))
  qed
qed

section \<open>All columns\<close>

definition sees :: "row_view \<Rightarrow> schema \<Rightarrow> bytes \<Rightarrow> cell list \<Rightarrow> bool" where
  "sees rv s b vals \<longleftrightarrow> v_schema rv = s \<and> row rv = Some b \<and> is_valid rv \<and> map (get_cell rv) [0..<length s] = map Some vals"

lemma sees_cell:
  assumes "sees rv s b vals" "i < length s"
  shows "get_cell rv i = Some (vals ! i)" "row rv = Some b" "is_valid rv" "i < length (v_schema rv)" "length vals = length s"
proof -
  show l: "length vals = length s" using assms(1) map_eq_imp_length_eq[of "get_cell rv" "[0..<length s]" Some vals] by (simp add: sees_def)
  have "map (get_cell rv) [0..<length s] ! i = map Some vals ! i" using assms(1) by (simp add: sees_def)
  then show "get_cell rv i = Some (vals ! i)" using assms(2) l by simp
qed (use assms in \<open>auto simp: sees_def\<close>)

definition picked :: "nat list \<Rightarrow> 'a list \<Rightarrow> 'a list" where
  "picked pl xs = map (\<lambda>i. xs ! i) pl"

lemma project_text_eq:
  assumes "sees rv s b vals" "list_all2 cell_fits s vals" "\<forall>i\<in>set pl. i < length s"
    "acc + (\<Sum>v\<leftarrow>picked pl vals. length (cell_text v)) < 2 ^ 32"
  shows "project_text rv s b acc pl = Some (Some (acc + (\<Sum>v\<leftarrow>picked pl vals. length (cell_text v))))"
  using assms(3,4)
proof (induction pl arbitrary: acc)
  case (Cons i pl)
  have i: "i < length s" "cell_fits (s ! i) (vals ! i)" using Cons.prems assms(2) by (auto simp: list_all2_conv_all_nth)
  have sch: "v_schema rv = s" using assms(1) by (simp add: sees_def)
  note cell = sees_cell(1-4)[OF assms(1) i(1)]
  note IH = Cons.IH[of "acc + length (cell_text (vals ! i))"]
  show ?case
  proof (cases "is_string (data_type (s ! i)) \<and> vals ! i \<noteq> Null")
    case True
    then obtain off where "GetString rv i = Some (0, Some (off, length (cell_text (vals ! i))))"
      using project_column_eq(3)[OF cell] sch by auto
    moreover have "u32 (acc + length (cell_text (vals ! i))) = acc + length (cell_text (vals ! i))"
      using Cons.prems by (simp add: u32_def picked_def)
    ultimately show ?thesis
      using True IH Cons.prems project_column_eq(1)[OF cell] by (simp add: picked_def add.assoc)
  next
    case False
    then have "cell_text (vals ! i) = []" using no_text[OF i(2)] by (cases "vals ! i = Null") auto
    then show ?thesis using False IH Cons.prems project_column_eq(1)[OF cell] by (auto simp: picked_def)
  qed
qed (simp add: picked_def)

lemma project_columns_eq:
  assumes "sees rv s b vals" "\<forall>i\<in>set pl. i < length s" "append_cells rb (picked pl vals) = Some (True, rb')"
  shows "project_columns rv s b rb pl = Some (True, rb')"
  using assms(2,3)
proof (induction pl arbitrary: rb)
  case (Cons i pl)
  obtain rb1 where 1: "append_cell rb (vals ! i) = Some (True, rb1)" "append_cells rb1 (picked pl vals) = Some (True, rb')"
    using Cons.prems(2) by (auto simp: picked_def Option.bind_eq_Some_conv split: if_splits)
  have "v_schema rv = s" using assms(1) by (simp add: sees_def)
  then show ?case
    using Cons.IH[OF _ 1(2)] Cons.prems(1) project_column_eq(2)[OF sees_cell(1-4)[OF assms(1), of i], of rb] 1(1)
    by (simp add: copied_def)
qed (simp add: picked_def)

section \<open>The views of the versions\<close>

definition usable :: "schema \<Rightarrow> row_view \<Rightarrow> bool" where
  "usable s rv \<longleftrightarrow> v_schema rv = s \<and> is_valid rv \<and> string_field_cnt rv = string_no s (length s) \<and>
     v_str_start rv = fixed_at s (length s) \<and> v_offset_vec rv = map (offset_of s) [0..<length s]"

lemma new_RowView_usable: "usable s (new_RowView s)"
  by (simp add: usable_def new_RowView_def RowView_Init_def offsets_of_schema)

lemma Reset_sees:
  assumes "usable s rv0" "row_holds s b vals" "s \<noteq> []"
  shows "\<exists>rv. RowView_Reset rv0 (Some b) (length b) = Some (True, rv) \<and> usable s rv \<and> sees rv s b vals"
proof -
  obtain rv where rv: "new_RowView_row s (Some b) (length b) = Some rv" "is_valid rv"
    "map (get_cell rv) [0..<length s] = map Some vals" using assms(2) by (auto simp: row_holds_def split: option.splits)
  have "RowView_Reset rv0 (Some b) (length b) = Some (True, rv)"
    using rv(1,2) assms(1,3)
    by (cases rv0) (auto simp: new_RowView_row_def RowView_Reset_def RowView_Init_def offsets_of_schema usable_def
        Option.bind_eq_Some_conv split: if_splits)
  moreover have "usable s rv \<and> v_schema rv = s \<and> row rv = Some b"
    using rv(1,2) assms(3)
    by (auto simp: new_RowView_row_def RowView_Reset_def RowView_Init_def offsets_of_schema usable_def
        Option.bind_eq_Some_conv split: if_splits)
  ultimately show ?thesis using rv by (auto simp: sees_def)
qed

section \<open>Projections\<close>

definition projecting :: "(int \<times> schema) list \<Rightarrow> nat list \<Rightarrow> schema \<Rightarrow> row_project \<Rightarrow> bool" where
  "projecting vs pl out rp \<longleftrightarrow> plist rp = pl \<and> vers_schema rp = vs \<and> (\<exists>rb. rp_builder rp = Some rb \<and> builds out rb) \<and>
     (\<forall>v s. map_of vs v = Some s \<and> (\<forall>i\<in>set pl. i < length s) \<longrightarrow> (\<exists>rv. map_of (vers_views rp) v = Some rv \<and> usable s rv)) \<and>
     cur_rv rp = Some (int (cur_ver rp)) \<and> cur_schema rp = map_of vs (int (cur_ver rp))"

lemma fold_max: "fold (\<lambda>idx m. if idx \<ge> m then idx else m) pl (a :: nat) < n \<longleftrightarrow> a < n \<and> (\<forall>i\<in>set pl. i < n)"
proof (induction pl arbitrary: a)
  case (Cons x pl)
  have "(if x \<ge> a then x else a) < n \<longleftrightarrow> a < n \<and> x < n" by (cases "a \<le> x") auto
  then show ?case using Cons.IH[of "if x \<ge> a then x else a"] by (simp only: fold_simps o_apply list.set) (simp only: ball_simps conj_assoc)
qed simp

lemma Init_projecting:
  assumes "vs = (1, s1) # rest" "distinct (map fst vs)" "pl \<noteq> []" "\<forall>i\<in>set pl. i < length s1"
  shows "\<exists>rp. RowProject_Init (new_RowProject vs pl) = Some (True, rp) \<and> projecting vs pl (picked pl s1) rp"
proof -
  define m where "m = fold (\<lambda>idx m. if idx \<ge> m then idx else m) pl (0 :: nat)"
  have m: "m < n \<longleftrightarrow> (\<forall>i\<in>set pl. i < n)" for n using fold_max[of pl 0 n] assms(3) unfolding m_def by (cases pl) auto
  define views where "views = map (\<lambda>(v, s). (v, new_RowView s)) (filter (\<lambda>(v, s). \<not> m \<ge> length s) vs)"
  have hd: "views = (1, new_RowView s1) # map (\<lambda>(v, s). (v, new_RowView s)) (filter (\<lambda>(v, s). \<not> m \<ge> length s) rest)"
    using m[of "length s1"] assms(1,4) by (simp add: views_def not_le)
  have "\<exists>rv. map_of views v = Some rv \<and> usable s rv" if "map_of vs v = Some s" "\<forall>i\<in>set pl. i < length s" for v s
  proof -
    have "(v, s) \<in> set (filter (\<lambda>(v, s). \<not> m \<ge> length s) vs)" using map_of_SomeD[OF that(1)] that(2) m[of "length s"] by (simp add: not_le)
    then have "map_of (filter (\<lambda>(v, s). \<not> m \<ge> length s) vs) v = Some s" by (intro map_of_is_SomeI distinct_map_filter assms(2))
    then show ?thesis by (simp add: views_def map_of_map new_RowView_usable)
  qed
  moreover have "RowProject_Init (new_RowProject vs pl) = Some (True, (new_RowProject vs pl)\<lparr>max_idx := m, vers_views := views,
      cur_schema := Some s1, cur_rv := Some 1, output_schema := picked pl s1, rp_builder := Some (new_RowBuilder (picked pl s1))\<rparr>)"
    using assms(1,3) hd m_def views_def by (simp add: RowProject_Init_def new_RowProject_def Let_def picked_def)
  ultimately show ?thesis using assms(1) new_RowBuilder_builds by (auto simp: projecting_def new_RowProject_def)
qed

text \<open>A row of one of the versions, whose columns are as in the first one.\<close>

definition projectable :: "(int \<times> schema) list \<Rightarrow> nat list \<Rightarrow> schema \<Rightarrow> bytes \<Rightarrow> cell list \<Rightarrow> bool" where
  "projectable vs pl out b vals = (case GetSchemaVersion b of
     None \<Rightarrow> False
   | Some v \<Rightarrow> (case map_of vs (int v) of
       None \<Rightarrow> False
     | Some s \<Rightarrow> list_all (\<lambda>i. i < length s) pl \<and> picked pl s = out \<and> list_all2 cell_fits s vals \<and> row_holds s b vals \<and>
         row_bound out (picked pl vals)))"

lemma Project_step:
  assumes P: "projecting vs pl out rp" "pl \<noteq> []" and R: "projectable vs pl out b vals" and F: "\<And>n. length (fresh n) = n"
  shows "\<exists>o' rp'. Project fresh rp (Some b) (length b) = Some (Some o', rp') \<and> projecting vs pl out rp' \<and>
    row_holds out o' (picked pl vals)"
proof -
  obtain v s where v: "GetSchemaVersion b = Some v" "map_of vs (int v) = Some s" "\<forall>i\<in>set pl. i < length s" "picked pl s = out"
    "list_all2 cell_fits s vals" "row_holds s b vals" "row_bound out (picked pl vals)"
    using R by (auto simp: projectable_def list_all_iff split: option.splits)
  obtain rv0 where rv0: "map_of (vers_views rp) (int v) = Some rv0" "usable s rv0" using P(1) v(2,3) unfolding projecting_def by blast
  have s: "s \<noteq> []" "out \<noteq> []" using v(3,4) P(2) by (cases pl; auto simp: picked_def)+
  obtain rv where rv: "RowView_Reset rv0 (Some b) (length b) = Some (True, rv)" "usable s rv" "sees rv s b vals"
    using Reset_sees[OF rv0(2) v(6) s(1)] by blast
  have fits: "list_all2 cell_fits out (picked pl vals)"
    using v(3,4,5) by (auto simp: picked_def list_all2_conv_all_nth)
  have tx: "text_upto (picked pl vals) (length (picked pl vals)) = (\<Sum>v\<leftarrow>picked pl vals. length (cell_text v))"
    by (simp add: text_upto_def)
  obtain rb where rb: "rp_builder rp = Some rb" "builds out rb" using P(1) by (auto simp: projecting_def)
  let ?n = "CalTotalLength rb (text_upto (picked pl vals) (length (picked pl vals)))"
  obtain rb1 rb2 o' where b2: "SetBuffer rb (Some (fresh ?n)) (length (fresh ?n)) True = Some (True, rb1)"
    "append_cells rb1 (picked pl vals) = Some (True, rb2)" "buf rb2 = Some o'" "builds out rb2" "row_holds out o' (picked pl vals)"
    using build_row[OF s(2) fits v(7) rb(2) F] by blast
  have pt: "project_text rv s b 0 pl = Some (Some (text_upto (picked pl vals) (length (picked pl vals))))"
    using project_text_eq[OF rv(3) v(5,3), of 0] v(7) unfolding tx by (simp add: row_bound_def tx)
  note pc = project_columns_eq[OF rv(3) v(3) b2(2)]
  let ?rp' = "rp\<lparr>cur_rv := Some (int v), cur_ver := v, cur_schema := Some s, vers_views := AList.update (int v) rv (vers_views rp),
    rp_builder := Some rb2\<rparr>"
  have "Project fresh rp (Some b) (length b) = Some (Some o', ?rp')"
    using P(1) v(1,2) rv0 rv rb b2 pt pc F by (cases "v = cur_ver rp") (auto simp: Project_def projecting_def Let_def)
  moreover have "projecting vs pl out ?rp'"
    using P(1) v(2) rv(2) b2(4) by (auto simp: projecting_def update_conv')
  ultimately show ?thesis using b2(5) by blast
qed

fun project_all :: "(nat \<Rightarrow> bytes) \<Rightarrow> row_project \<Rightarrow> bytes list \<Rightarrow> bytes option list option" where
  "project_all fresh rp [] = Some []"
| "project_all fresh rp (b # bs) = do {
     (r, rp1) \<leftarrow> Project fresh rp (Some b) (length b);
     rs \<leftarrow> project_all fresh rp1 bs;
     Some (r # rs) }"

lemma project_all_ok:
  assumes "projecting vs pl out rp" "pl \<noteq> []" "list_all (\<lambda>(b, vals). projectable vs pl out b vals) rows" "\<And>n. length (fresh n) = n"
  shows "\<exists>outs. project_all fresh rp (map fst rows) = Some (map Some outs) \<and>
    list_all2 (\<lambda>(b, vals) r. row_holds out r (picked pl vals)) rows outs"
  using assms(1,3)
proof (induction rows arbitrary: rp)
  case (Cons x rows)
  obtain b vals where x: "x = (b, vals)" by fastforce
  have "projectable vs pl out b vals" using Cons.prems x by simp
  then obtain r rp1 where 1: "Project fresh rp (Some b) (length b) = Some (Some r, rp1)" "projecting vs pl out rp1"
    "row_holds out r (picked pl vals)" using Project_step[where fresh = fresh, OF Cons.prems(1) assms(2) _ assms(4)] by blast
  obtain outs where 2: "project_all fresh rp1 (map fst rows) = Some (map Some outs)"
    "list_all2 (\<lambda>(b, vals) r. row_holds out r (picked pl vals)) rows outs" using Cons.IH[OF 1(2)] Cons.prems(2) by auto
  show ?case using 1 2 x by (intro exI[of _ "r # outs"]) simp
qed simp

text \<open>C9: projecting a stream of rows.  The schemas have versions and the first one, version 1, has all the columns of
  the list, which is not empty.  Rows of the versions arrive in any order; in the version of each row the listed columns exist and are
  declared as in the first one, and the output row has a 32-bit size.  Then \<open>Init\<close> succeeds, every \<open>Project\<close> succeeds, whatever the memory it allocates
  contained, and each output is a row of the output schema with the listed cells of its input, nulls and
  repeated columns included.\<close>

theorem project_rows:
  assumes "vs = (1, s1) # rest" "distinct (map fst vs)" "pl \<noteq> []" "\<forall>i\<in>set pl. i < length s1" "\<And>n. length (fresh n) = n"
    "list_all (\<lambda>(b, vals). projectable vs pl (picked pl s1) b vals) rows"
  shows "\<exists>rp outs. RowProject_Init (new_RowProject vs pl) = Some (True, rp) \<and>
    project_all fresh rp (map fst rows) = Some (map Some outs) \<and>
    list_all2 (\<lambda>(b, vals) r. row_holds (picked pl s1) r (picked pl vals)) rows outs"
  using Init_projecting[OF assms(1-4)] project_all_ok[OF _ assms(3,6,5)] by blast

definition schema_v1 :: schema where
  "schema_v1 = [\<lparr>col_name = ''id'', data_type = kInt, not_null = True\<rparr>, \<lparr>col_name = ''card'', data_type = kString, not_null = False\<rparr>]"

definition schema_v2 :: schema where
  "schema_v2 = schema_v1 @ [\<lparr>col_name = ''ok'', data_type = kBool, not_null = False\<rparr>]"

definition row_v1 :: bytes where
  "row_v1 = [1, 1, 14, 0, 0, 0, 252, 7, 0, 0, 0, 12, 65, 66]"

definition row_v2 :: bytes where
  "row_v2 = [1, 2, 14, 0, 0, 0, 252, 9, 0, 0, 0, 0, 13, 67]"

lemmas row_sizes = HEADER_LENGTH_def VERSION_LENGTH_def SIZE_LENGTH_def BitMapSize_def type_sizes is_string_def GetAddrLength_def UINT24_MAX_def

lemmas reading = new_RowView_row_def RowView_Reset_def RowView_Init_def load_def peek_def get_cell_def as_cell_def getters with_got_def
  get_fixed_def GetString_def GetStrField_def load_addr_def next_field_def string_at_def CheckValid_def RowView_IsNULL_def

lemma sample_rows:
  "row_holds schema_v1 row_v1 [VInt32 7, VStr [65, 66]]" "row_holds schema_v2 row_v2 [VInt32 9, VStr [67], Null]"
  "GetSchemaVersion row_v1 = Some 1" "GetSchemaVersion row_v2 = Some 2"
  "list_all2 cell_fits schema_v1 [VInt32 7, VStr [65, 66]]" "list_all2 cell_fits schema_v2 [VInt32 9, VStr [67], Null]"
  "row_bound (picked [1, 0] schema_v1) (picked [1, 0] [VInt32 7, VStr [65, 66]])"
  "row_bound (picked [1, 0] schema_v1) (picked [1, 0] [VInt32 9, VStr [67], Null])"
  "length schema_v1 = 2" "length schema_v2 = 3" "picked [1, 0] schema_v2 = picked [1, 0] schema_v1"
  by (simp_all add: row_holds_def schema_v2_def schema_v1_def row_v2_def row_v1_def reading row_sizes GetSchemaVersion_def row_bound_def
      picked_def fixed_at_def string_no_def text_upto_def)

theorem project_rows_witness:
  "\<exists>rp outs. RowProject_Init (new_RowProject [(1, schema_v1), (2, schema_v2)] [1, 0]) = Some (True, rp) \<and>
    project_all (\<lambda>n. replicate n 0) rp [row_v2, row_v1] = Some (map Some outs) \<and>
    list_all2 (\<lambda>(b, vals) r. row_holds (picked [1, 0] schema_v1) r (picked [1, 0] vals))
      [(row_v2, [VInt32 9, VStr [67], Null]), (row_v1, [VInt32 7, VStr [65, 66]])] outs"
proof -
  have 1: "\<forall>i\<in>set [1, 0]. i < length schema_v1" by (simp add: schema_v1_def)
  have 2: "list_all (\<lambda>(b, vals). projectable [(1, schema_v1), (2, schema_v2)] [1, 0] (picked [1, 0] schema_v1) b vals)
      [(row_v2, [VInt32 9, VStr [67], Null]), (row_v1, [VInt32 7, VStr [65, 66]])]"
    using sample_rows by (simp add: projectable_def)
  show ?thesis using project_rows[OF refl _ _ 1 _ 2, of "\<lambda>n. replicate n 0"] by simp
qed

section \<open>A view that failed once\<close>

text \<open>
  \<open>Reset\<close> clears \<open>is_valid_\<close> when it refuses a row and nothing sets it again, so the view refuses the columns of
  every later row although \<open>Reset\<close> accepts it.
\<close>

lemma Reset_failed_once:
  assumes "RowView_Reset rv bad n = Some (False, rv1)" "RowView_Reset rv1 good m = Some (True, rv2)"
  shows "GetString rv2 i = Some (-1, None)" "get_fixed rv2 i t k = Some (-1, None)"
proof -
  have "\<not> is_valid rv1" using assms(1) by (auto simp: RowView_Reset_def Option.bind_eq_Some_conv split: option.splits if_splits)
  then have "\<not> is_valid rv2" using assms(2) by (auto simp: RowView_Reset_def Option.bind_eq_Some_conv split: option.splits if_splits)
  then show "GetString rv2 i = Some (-1, None)" "get_fixed rv2 i t k = Some (-1, None)"
    by (simp_all add: GetString_def get_fixed_def CheckValid_def)
qed

text \<open>
  A projection starts with the view of the first version that has the columns, but takes it for the view of
  version 1: a row of version 1 is read with the schema of another version.
\<close>

lemma Init_wrong_version:
  "\<exists>rp. RowProject_Init (new_RowProject [(1, schema_v1), (2, schema_v2)] [2]) = Some (True, rp) \<and>
     cur_ver rp = 1 \<and> cur_rv rp = Some 2 \<and> map_of (vers_views rp) 1 = None"
  by (simp add: RowProject_Init_def new_RowProject_def sample_rows Let_def)

section \<open>Dates\<close>

lemma small_bits: "unat (w :: 32 word) < 2 ^ k \<Longrightarrow> bit w n \<Longrightarrow> n < k"
proof (rule ccontr)
  assume w: "unat w < 2 ^ k" "bit w n" "\<not> n < k"
  then have "take_bit k (unat w) = unat w" by (simp add: take_bit_nat_eq_self)
  moreover have "bit (unat w) n" using w(2) by (simp add: bit_unsigned_iff)
  ultimately show False using w(3) by (metis bit_take_bit_iff)
qed

text \<open>C10: a date that \<open>SetDate\<close> accepts is encoded in 32 bits from which \<open>GetDate\<close> and \<open>GetStrValue\<close> get back the
  year, the month and the day, and the encoding is never negative.\<close>

theorem date_roundtrip:
  assumes "1900 \<le> y" "y \<le> 9999" "1 \<le> m" "m \<le> 12" "1 \<le> d" "d \<le> 31"
  shows "decode_date (encode_date y m d) = (y, m, d) \<and> 0 \<le> sint (encode_date y m d)"
proof -
  define a where "a = y - 1900"
  define e where "e = m - 1"
  have a: "unat a < 2 ^ 13" "y = 1900 + a" using assms(1,2) unfolding a_def by unat_arith+
  have e: "unat e < 2 ^ 4" "m = 1 + e" using assms(3,4) unfolding e_def by unat_arith+
  have d: "unat d < 2 ^ 5" using assms(6) by unat_arith
  note bits = small_bits[OF a(1)] small_bits[OF e(1)] small_bits[OF d]
  define w where "w = push_bit 16 a OR push_bit 8 e OR d"
  have w: "bit w n \<longleftrightarrow> n < 32 \<and> (16 \<le> n \<and> bit a (n - 16) \<or> 8 \<le> n \<and> bit e (n - 8) \<or> bit d n)" for n
    unfolding w_def using bit_imp_le_length[of d n] by (auto simp: bit_simps)
  have "signed_drop_bit 8 (signed_drop_bit 8 w) = a"
    by (rule bit_word_eqI) (auto simp: bit_signed_drop_bit_iff w dest: bits)
  moreover have "take_bit 8 (signed_drop_bit 8 w) = e"
    by (rule bit_word_eqI) (auto simp: bit_signed_drop_bit_iff bit_take_bit_iff w dest: bits)
  moreover have "take_bit 8 w = d"
    by (rule bit_word_eqI) (auto simp: bit_take_bit_iff w dest: bits)
  moreover have "(0xff :: 32 word) = mask 8" by (simp add: mask_eq_exp_minus_1)
  moreover have "encode_date y m d = w" by (simp add: encode_date_def w_def a_def e_def)
  moreover have "\<not> bit w 31" by (auto simp: w dest: bits)
  ultimately show ?thesis
    using a(2) e(2) bit_last_iff[of w] by (simp add: decode_date_def Let_def take_bit_eq_mask)
qed

theorem date_roundtrip_witness: "decode_date (encode_date 2021 6 30) = (2021, 6, 30)"
  using date_roundtrip[of 2021 6 30] by simp

end
