(* ===== verification/MemComparable.thy ===== *)
theory MemComparable
  imports Comparator Codec
begin

text \<open>
  Keys that compare as bytes: \<open>src/codec/memcomparable_format.h\<close>, and the packing and conversion of field values in
  \<open>src/codec/field_codec.h\<close>.  A value is given by its bytes in memory, least significant first; a pack function
  returns its code and the bytes it writes.  Reading past the end of a source is \<open>None\<close>.
\<close>

unbundle bit_operations_syntax

section \<open>Integers\<close>

definition CopyInteger :: "bytes \<Rightarrow> nat \<Rightarrow> bool \<Rightarrow> bytes option" where
  "CopyInteger from len is_unsigned = do {
     bs \<leftarrow> peek 0 len from;
     let sign_byte = bs ! (len - 1);
     Some ((if is_unsigned then sign_byte else sign_byte XOR 128) # rev (take (len - 1) bs)) }"

definition PackInteger :: "bytes option \<Rightarrow> nat \<Rightarrow> bool \<Rightarrow> (int \<times> bytes) option" where
  "PackInteger from len unsigned_flag = (case from of
     None \<Rightarrow> Some (-1, [])
   | Some f \<Rightarrow> if len < 1 then Some (-1, []) else do { to \<leftarrow> CopyInteger f len unsigned_flag; Some (0, to) })"

definition UnpackInteger :: "bytes option \<Rightarrow> nat \<Rightarrow> bool \<Rightarrow> (int \<times> bytes) option" where
  "UnpackInteger from len unsigned_flag = (case from of
     None \<Rightarrow> Some (-1, [])
   | Some f \<Rightarrow>
       if len < 2 then Some (-1, [])
       else do {
         bs \<leftarrow> peek 0 len f;
         let sign_byte = bs ! 0;
         Some (0, rev (drop 1 bs) @ [if unsigned_flag then sign_byte else sign_byte XOR 128]) })"

section \<open>Floating point\<close>

definition FLT_EXP_DIG :: nat where "FLT_EXP_DIG = 32 - 24"
definition DBL_EXP_DIG :: nat where "DBL_EXP_DIG = 64 - 53"

text \<open>\<open>nr == 0.0\<close>: all bits but the sign are zero.\<close>

definition is_zero :: "bytes \<Rightarrow> bool" where
  "is_zero bs = (list_all (\<lambda>b. b = 0) (butlast bs) \<and> last bs AND 127 = 0)"

definition cat16 :: "byte \<Rightarrow> byte \<Rightarrow> 16 word" where
  "cat16 a b = push_bit 8 (ucast a) OR ucast b"

definition hi8 :: "16 word \<Rightarrow> byte" where "hi8 w = ucast (drop_bit 8 w)"
definition lo8 :: "16 word \<Rightarrow> byte" where "lo8 w = ucast w"

text \<open>The common body of \<open>PackFloat\<close> and \<open>PackDouble\<close>: the size of the type and the digits of its exponent.\<close>

definition pack_floating :: "nat \<Rightarrow> nat \<Rightarrow> bytes option \<Rightarrow> (int \<times> bytes) option" where
  "pack_floating len exp_dig from = (case from of
     None \<Rightarrow> Some (-1, [])
   | Some f \<Rightarrow> do {
       nr \<leftarrow> peek 0 len f;
       if is_zero nr then Some (0, 128 # replicate (len - 1) 0)
       else do {
         let tmp = rev nr;
         if tmp ! 0 AND 128 \<noteq> 0 then Some (0, map (\<lambda>b. b XOR 255) tmp)
         else do {
           let exp_part = (cat16 (tmp ! 0) (tmp ! 1) OR 32768) + push_bit (16 - 1 - exp_dig) 1;
           Some (0, hi8 exp_part # lo8 exp_part # drop 2 tmp) } } })"

definition PackFloat :: "bytes option \<Rightarrow> (int \<times> bytes) option" where
  "PackFloat from = pack_floating 4 FLT_EXP_DIG from"

definition PackDouble :: "bytes option \<Rightarrow> (int \<times> bytes) option" where
  "PackDouble from = pack_floating 8 DBL_EXP_DIG from"

definition UnpackFloatingPoint :: "bytes option \<Rightarrow> nat \<Rightarrow> nat \<Rightarrow> bytes \<Rightarrow> bytes \<Rightarrow> (int \<times> bytes) option" where
  "UnpackFloatingPoint src sz exp_digit zero_pattern zero_val = (case src of
     None \<Rightarrow> Some (-1, [])
   | Some f \<Rightarrow> do {
       tmp \<leftarrow> peek 0 sz f;
       if tmp = zero_pattern then Some (0, zero_val)
       else if tmp ! 0 AND 128 \<noteq> 0 then do {
         let exp_part = (cat16 (tmp ! 0) (tmp ! 1) AND 32767) - push_bit (16 - 1 - exp_digit) 1;
         Some (0, rev (hi8 exp_part # lo8 exp_part # drop 2 tmp)) }
       else Some (0, rev (map (\<lambda>b. b XOR 255) tmp)) })"

definition UnpackFloat :: "bytes option \<Rightarrow> (int \<times> bytes) option" where
  "UnpackFloat src = UnpackFloatingPoint src 4 FLT_EXP_DIG [128, 0, 0, 0] [0, 0, 0, 0]"

definition UnpackDouble :: "bytes option \<Rightarrow> (int \<times> bytes) option" where
  "UnpackDouble src = UnpackFloatingPoint src 8 DBL_EXP_DIG [128, 0, 0, 0, 0, 0, 0, 0] [0, 0, 0, 0, 0, 0, 0, 0]"

section \<open>Strings\<close>

definition RDB_ESCAPE_LENGTH :: nat where "RDB_ESCAPE_LENGTH = 9"

definition GetDstStrSize :: "32 word \<Rightarrow> 32 word" where
  "GetDstStrSize sz = (
     if sz = 0 then of_nat RDB_ESCAPE_LENGTH
     else (signed_drop_bit 3 sz + (if sz AND 7 \<noteq> 0 then 1 else 0)) * of_nat RDB_ESCAPE_LENGTH)"

function pack_chunks :: "bytes \<Rightarrow> bytes" where
  "pack_chunks src = (
     let copy_len = min (RDB_ESCAPE_LENGTH - 1) (length src); rest = drop copy_len src in
     if length src - copy_len = 0
     then take copy_len src @ replicate (RDB_ESCAPE_LENGTH - 1 - copy_len) 0 @ [of_nat copy_len]
     else take copy_len src @ [of_nat RDB_ESCAPE_LENGTH] @ pack_chunks rest)"
  by pat_completeness auto
termination
  by (relation "measure length") (auto simp: RDB_ESCAPE_LENGTH_def)

declare pack_chunks.simps [simp del]

definition PackString :: "bytes option \<Rightarrow> int \<times> bytes" where
  "PackString src = (case src of None \<Rightarrow> (-1, []) | Some s \<Rightarrow> (0, pack_chunks s))"

text \<open>The bytes of a chunk that are used and whether it is the last one; \<open>None\<close> for an invalid flag.\<close>

definition CalcUnpackVariableFormat :: "byte \<Rightarrow> (nat \<times> bool) option" where
  "CalcUnpackVariableFormat flag = (
     if unat flag > RDB_ESCAPE_LENGTH then None
     else if unat flag < RDB_ESCAPE_LENGTH then Some (unat flag, True)
     else Some (RDB_ESCAPE_LENGTH - 1, False))"

text \<open>The code, the bytes written to \<open>dst\<close> and the size.  A source that ends within a chunk is undefined.\<close>

function UnpackString_loop :: "bytes \<Rightarrow> bytes \<Rightarrow> (int \<times> bytes \<times> 32 word) option" where
  "UnpackString_loop usrc dst = (case peek 0 RDB_ESCAPE_LENGTH usrc of
     None \<Rightarrow> None
   | Some ptr \<Rightarrow> (case CalcUnpackVariableFormat (ptr ! (RDB_ESCAPE_LENGTH - 1)) of
       None \<Rightarrow> Some (-2, dst, 0)
     | Some (used_bytes, finished) \<Rightarrow>
         let dst' = dst @ take used_bytes ptr in
         if finished then Some (0, dst', of_nat (length dst')) else UnpackString_loop (drop RDB_ESCAPE_LENGTH usrc) dst'))"
  by pat_completeness auto
termination
  by (relation "measure (\<lambda>(u, _). length u)") (auto simp: RDB_ESCAPE_LENGTH_def peek_def split: if_splits)

declare UnpackString_loop.simps [simp del]

definition UnpackString :: "bytes option \<Rightarrow> (int \<times> bytes \<times> 32 word) option" where
  "UnpackString src = (case src of None \<Rightarrow> Some (-1, [], 0) | Some s \<Rightarrow> UnpackString_loop s [])"

section \<open>Field values\<close>

text \<open>The memory image of a converted text; \<open>None\<close> when the function returns false.\<close>

definition Convert :: "lexical \<Rightarrow> bytes \<Rightarrow> DataType \<Rightarrow> bytes option" where
  "Convert lx str t = (case t of
     kBool \<Rightarrow> (let tmp = map tolower str in
       if tmp = ascii ''true'' then Some [1] else if tmp = ascii ''false'' then Some [0] else None)
   | kSmallInt \<Rightarrow> map_option (\<lambda>v. le 2 (unat v)) (lex_int16 lx str)
   | kInt \<Rightarrow> map_option (\<lambda>v. le 4 (unat v)) (lex_int32 lx str)
   | kBigInt \<Rightarrow> map_option (\<lambda>v. le 8 (unat v)) (lex_int64 lx str)
   | kTimestamp \<Rightarrow> map_option (\<lambda>v. le 8 (unat v)) (lex_int64 lx str)
   | kFloat \<Rightarrow> map_option (\<lambda>v. le 4 (unat v)) (lex_float lx str)
   | kDouble \<Rightarrow> map_option (\<lambda>v. le 8 (unat v)) (lex_double lx str)
   | kDate \<Rightarrow> (let parts = SplitString 45 str in
       if length parts \<noteq> 3 then None
       else case (lex_uint32 lx (parts ! 0), lex_uint32 lx (parts ! 1), lex_uint32 lx (parts ! 2)) of
         (Some year, Some month, Some day) \<Rightarrow>
           if year < 1900 \<or> year > 9999 \<or> month < 1 \<or> month > 12 \<or> day < 1 \<or> day > 31 then None
           else Some (le 4 (unat (encode_date year month day)))
       | _ \<Rightarrow> None)
   | _ \<Rightarrow> Some str)"

text \<open>
  \<open>PackValue\<close> appends to the key.  A failed pack leaves the key grown by bytes that \<open>resize\<close> zeroed.
\<close>

definition append_packed :: "bytes \<Rightarrow> nat \<Rightarrow> (int \<times> bytes) option \<Rightarrow> (bool \<times> bytes) option" where
  "append_packed key sz r = do { (ret, to) \<leftarrow> r; if ret < 0 then Some (False, key @ replicate sz 0) else Some (True, key @ to) }"

definition PackValue :: "bytes option \<Rightarrow> DataType \<Rightarrow> bytes \<Rightarrow> (bool \<times> bytes) option" where
  "PackValue from t key = (case t of
     kBool \<Rightarrow> append_packed key 1 (PackInteger from 1 False)
   | kSmallInt \<Rightarrow> append_packed key 2 (PackInteger from 2 False)
   | kInt \<Rightarrow> append_packed key 4 (PackInteger from 4 False)
   | kDate \<Rightarrow> append_packed key 4 (PackInteger from 4 False)
   | kBigInt \<Rightarrow> append_packed key 8 (PackInteger from 8 False)
   | kTimestamp \<Rightarrow> append_packed key 8 (PackInteger from 8 False)
   | kFloat \<Rightarrow> append_packed key 4 (PackFloat from)
   | kDouble \<Rightarrow> append_packed key 8 (PackDouble from)
   | _ \<Rightarrow> Some (False, key))"

end
