(* ===== verification/Byte_Bits.thy ===== *)
theory Byte_Bits
  imports Prelude
begin

text \<open>The bits of a byte as arithmetic on its value.\<close>

unbundle bit_operations_syntax

lemma top_byte: "bit (b :: byte) 7 \<longleftrightarrow> 128 \<le> unat b"
proof -
  have "bit b 7 \<longleftrightarrow> bit (unat b) 7" by (simp add: bit_unsigned_iff)
  then have "bit b 7 \<longleftrightarrow> odd (unat b div 128)" by (simp add: bit_nat_def)
  moreover have "unat b div 128 = (if 128 \<le> unat b then 1 else 0)" using unsigned_less[where ?'a = nat, of b] by auto
  ultimately show ?thesis by simp
qed

lemma xor128: "unat ((b :: byte) XOR 128) = (if 128 \<le> unat b then unat b - 128 else unat b + 128)"
proof -
  have "b XOR 128 = flip_bit 7 b" by (simp add: flip_bit_eq_xor)
  then have "b XOR 128 = (if 128 \<le> unat b then b - 128 else b + 128)"
    using top_byte[of b] by (simp add: flip_bit_eq_if set_bit_eq unset_bit_eq)
  then show ?thesis by (auto simp: unat_word_ariths word_le_nat_alt unat_sub)
qed

lemma xor255: "unat ((b :: byte) XOR 255) = 255 - unat b"
proof -
  have m: "-1 = (255 :: byte)" by simp
  then have "b XOR 255 = -1 - b" by (simp only: m[symmetric] bit.xor_one_right not_eq_complement) simp
  then have "b XOR 255 = 255 - b" by (simp only: m)
  moreover have "b \<le> 255" using m word_n1_ge[of b] by (simp only: m)
  ultimately show ?thesis using unat_sub[of b 255] by simp
qed

lemma and128: "(b :: byte) AND 128 \<noteq> 0 \<longleftrightarrow> 128 \<le> unat b"
proof -
  have "b AND 128 \<noteq> 0 \<longleftrightarrow> bit b 7" by (simp add: bit_iff_and_push_bit_not_eq_0)
  then show ?thesis by (simp add: top_byte)
qed

lemma and127: "unat ((b :: byte) AND 127) = unat b mod 128"
proof -
  have "b AND 127 = take_bit 7 b" by (simp add: take_bit_eq_mask mask_eq_exp_minus_1)
  then show ?thesis by (simp add: unsigned_take_bit_eq) (simp add: take_bit_eq_mod)
qed

lemma or128: "unat (b :: byte) < 128 \<Longrightarrow> unat (b OR 128) = unat b + 128"
proof -
  assume b: "unat b < 128"
  then have "\<not> bit b 7" by (simp add: top_byte)
  then have "set_bit 7 b = b + 128" by (simp add: set_bit_eq)
  moreover have "set_bit 7 b = b OR 128" by (simp add: set_bit_eq_or)
  ultimately show ?thesis using b by (simp add: unat_word_ariths)
qed

end
