(* ===== verification/MemComparable_Props.thy ===== *)
theory MemComparable_Props
  imports MemComparable Codec_Layout Byte_Bits
begin

text \<open>Packed values compare as bytes like the values themselves, and unpacking returns them.\<close>

unbundle bit_operations_syntax

section \<open>Comparing slices\<close>

lemma Slice_compare_refl [simp]: "Slice_compare a a = 0"
  by (simp add: Slice_compare_eq)

lemma Slice_compare_anti: "Slice_compare b a = - Slice_compare a b"
  by (induction a b rule: list_induct2') (auto simp: Slice_compare_rec)

lemma Slice_compare_append:
  "length a = length b \<Longrightarrow> Slice_compare (a @ u) (b @ v) = (if a = b then Slice_compare u v else Slice_compare a b)"
  by (induction a b rule: list_induct2) (auto simp: Slice_compare_rec)

lemma Slice_compare_longer:
  "length a \<le> length b \<Longrightarrow> c \<noteq> [] \<Longrightarrow> Slice_compare a (b @ c) = (if a = b then -1 else Slice_compare a b)"
proof (induction a b rule: list_induct2')
  case 1
  then show ?case by (cases c) (auto simp: Slice_compare_rec)
qed (auto simp: Slice_compare_rec)

section \<open>Strings\<close>

lemma zeros_cmp:
  "length b \<le> n \<Longrightarrow> f < g \<Longrightarrow> Slice_compare (replicate n 0 @ f # u) (b @ replicate (n - length b) 0 @ g # v) = -1"
proof (induction b arbitrary: n)
  case Nil
  then show ?case by (simp add: Slice_compare_append Slice_compare_rec)
next
  case (Cons y ys)
  then obtain m where "n = Suc m" by (cases n) auto
  then show ?case using Cons word_gt_0[of y] by (auto simp: Slice_compare_rec)
qed

lemma pad_cmp:
  assumes "length a \<le> n" "length b \<le> n" "length a < length b \<longrightarrow> f < g" "length b < length a \<longrightarrow> g < f"
  shows "Slice_compare (a @ replicate (n - length a) 0 @ f # u) (b @ replicate (n - length b) 0 @ g # v) =
    (if a = b then Slice_compare (f # u) (g # v) else Slice_compare a b)"
  using assms
proof (induction a b arbitrary: n rule: list_induct2')
  case 1
  then show ?case by (simp add: Slice_compare_append)
next
  case (2 x xs)
  then show ?case
    using zeros_cmp[of "x # xs" n g f v u]
      Slice_compare_anti[of "replicate n 0 @ g # v" "(x # xs) @ replicate (n - length (x # xs)) 0 @ f # u"]
    by (simp add: Slice_compare_rec)
next
  case (3 y ys)
  then show ?case using zeros_cmp[of "y # ys" n f g u v] by (simp add: Slice_compare_rec)
next
  case (4 x xs y ys)
  then obtain m where "n = Suc m" by (cases n) auto
  then show ?case using 4 by (auto simp: Slice_compare_rec)
qed

text \<open>The two shapes of a packed string.\<close>

lemma pack_short: "length s \<le> 8 \<Longrightarrow> pack_chunks s = s @ replicate (8 - length s) 0 @ [of_nat (length s)]"
  by (subst pack_chunks.simps) (simp add: RDB_ESCAPE_LENGTH_def min_def Let_def)

lemma pack_long: "8 < length s \<Longrightarrow> pack_chunks s = take 8 s @ 9 # pack_chunks (drop 8 s)"
  by (subst pack_chunks.simps) (simp add: RDB_ESCAPE_LENGTH_def min_def Let_def)

lemma flag_less: "m < n \<Longrightarrow> n \<le> 9 \<Longrightarrow> (of_nat m :: byte) < of_nat n"
  by (simp add: word_less_nat_alt unat_of_nat)

lemma pack_short_long:
  assumes "length a \<le> 8" "8 < length b"
  shows "Slice_compare (pack_chunks a @ u) (pack_chunks b @ v) = Slice_compare a b"
proof -
  have "Slice_compare (pack_chunks a @ u) (pack_chunks b @ v) =
    (if a = take 8 b then -1 else Slice_compare a (take 8 b))"
    using pad_cmp[of a 8 "take 8 b" "of_nat (length a)" 9 u "pack_chunks (drop 8 b) @ v"] assms flag_less[of "length a" 9]
    by (simp add: pack_short pack_long Slice_compare_rec)
  also have "\<dots> = Slice_compare a (take 8 b @ drop 8 b)"
    using assms by (intro Slice_compare_longer[symmetric]) simp_all
  finally show ?thesis by simp
qed

lemma pack_chunks_cmp:
  "Slice_compare (pack_chunks a @ u) (pack_chunks b @ v) = (if a = b then Slice_compare u v else Slice_compare a b)"
proof (induction "length a" arbitrary: a b rule: less_induct)
  case less
  consider "length a \<le> 8" "length b \<le> 8" | "length a \<le> 8" "8 < length b" | "8 < length a" "length b \<le> 8" | "8 < length a" "8 < length b"
    by linarith
  then show ?case
  proof cases
    case 1
    then show ?thesis
      using pad_cmp[of a 8 b "of_nat (length a)" "of_nat (length b)" u v] flag_less[of "length a" "length b"]
        flag_less[of "length b" "length a"]
      by (simp add: pack_short Slice_compare_rec)
  next
    case 2
    then show ?thesis using pack_short_long[OF 2] by auto
  next
    case 3
    then show ?thesis
      using pack_short_long[OF 3(2,1), of v u] Slice_compare_anti[of "pack_chunks b @ v" "pack_chunks a @ u"] Slice_compare_anti[of b a]
      by auto
  next
    case 4
    have "Slice_compare (pack_chunks a @ u) (pack_chunks b @ v) =
      (if take 8 a = take 8 b then Slice_compare (pack_chunks (drop 8 a) @ u) (pack_chunks (drop 8 b) @ v)
       else Slice_compare (take 8 a) (take 8 b))"
      using 4 by (simp add: pack_long Slice_compare_append Slice_compare_rec)
    moreover have "Slice_compare a b = (if take 8 a = take 8 b then Slice_compare (drop 8 a) (drop 8 b) else Slice_compare (take 8 a) (take 8 b))"
      using 4 Slice_compare_append[of "take 8 a" "take 8 b" "drop 8 a" "drop 8 b"] by simp
    moreover have "a = b \<longleftrightarrow> take 8 a = take 8 b \<and> drop 8 a = drop 8 b" by (metis append_take_drop_id)
    moreover have "length (drop 8 a) < length a" using 4 by simp
    note less[OF this, of "drop 8 b"]
    ultimately show ?thesis by (cases "drop 8 a = drop 8 b") auto
  qed
qed


text \<open>Round trip and size.\<close>

lemma Unpack_step:
  assumes "length c = 8"
  shows "UnpackString_loop (c @ f # rest) dst = (case CalcUnpackVariableFormat f of
     None \<Rightarrow> Some (-2, dst, 0)
   | Some (n, fin) \<Rightarrow> if fin then Some (0, dst @ take n c, of_nat (length (dst @ take n c)))
       else UnpackString_loop rest (dst @ take n c))"
proof -
  have p: "peek 0 9 (c @ f # rest) = Some (c @ [f])" using assms by (simp add: peek_def)
  have n: "n \<le> 8" if "CalcUnpackVariableFormat f = Some (n, fin)" for n fin
    using that by (auto simp: CalcUnpackVariableFormat_def RDB_ESCAPE_LENGTH_def split: if_splits)
  show ?thesis
    using assms n
    by (subst UnpackString_loop.simps) (auto simp: RDB_ESCAPE_LENGTH_def p nth_append Let_def split: option.splits)
qed

lemma Unpack_chunks: "UnpackString_loop (pack_chunks s @ rest) dst = Some (0, dst @ s, of_nat (length (dst @ s)))"
proof (induction "length s" arbitrary: s dst rule: less_induct)
  case less
  show ?case
  proof (cases "length s \<le> 8")
    case True
    then have "CalcUnpackVariableFormat (of_nat (length s)) = Some (length s, True)"
      by (simp add: CalcUnpackVariableFormat_def RDB_ESCAPE_LENGTH_def unat_of_nat)
    then show ?thesis
      using True Unpack_step[of "s @ replicate (8 - length s) 0" "of_nat (length s)" rest dst] by (simp add: pack_short)
  next
    case False
    then have l: "length (drop 8 s) < length s" by simp
    have "CalcUnpackVariableFormat 9 = Some (8, False)" by (simp add: CalcUnpackVariableFormat_def RDB_ESCAPE_LENGTH_def)
    then show ?thesis
      using False less[OF l, of "dst @ take 8 s"] Unpack_step[of "take 8 s" 9 "pack_chunks (drop 8 s) @ rest" dst]
      by (simp add: pack_long)
  qed
qed

lemma length_pack: "length (pack_chunks s) = 9 * max 1 ((length s + 7) div 8)"
proof (induction "length s" arbitrary: s rule: less_induct)
  case less
  show ?case
  proof (cases "length s \<le> 8")
    case True
    then have "max 1 ((length s + 7) div 8) = 1" by auto
    then show ?thesis using True by (simp add: pack_short)
  next
    case False
    then have l: "length (drop 8 s) < length s" by simp
    have "(length s + 7) div 8 = Suc ((length s - 8 + 7) div 8)" "1 \<le> (length s - 8 + 7) div 8" using False by auto
    then show ?thesis using False less[OF l] by (simp add: pack_long)
  qed
qed

lemma signed_drop_bit_pos: "\<not> bit (w :: 32 word) 31 \<Longrightarrow> signed_drop_bit k w = drop_bit k w"
  by (rule bit_word_eqI) (auto simp: bit_signed_drop_bit_iff bit_drop_bit_eq dest: bit_imp_le_length)

lemma GetDstStrSize_eq:
  assumes "n < 2 ^ 27"
  shows "unat (GetDstStrSize (of_nat n)) = 9 * max 1 ((n + 7) div 8)"
proof (cases "n = 0")
  case True
  then show ?thesis by (simp add: GetDstStrSize_def RDB_ESCAPE_LENGTH_def)
next
  case False
  define w :: "32 word" where "w = of_nat n"
  have un: "unat w = n" using assms by (simp add: w_def unat_of_nat)
  have "w \<noteq> 0" using un False by auto
  have "\<not> bit (unat w) 31" using un assms by (simp add: bit_nat_def)
  then have d: "signed_drop_bit 3 w = drop_bit 3 w" by (intro signed_drop_bit_pos) (simp add: bit_unsigned_iff)
  have ud: "unat (drop_bit 3 w) = n div 8" using un by (simp only: unat_drop_bit_eq) (simp add: drop_bit_eq_div)
  have "w AND 7 = take_bit 3 w" by (simp add: take_bit_eq_mask mask_eq_exp_minus_1)
  then have "unat (w AND 7) = n mod 8" using un by (simp add: unsigned_take_bit_eq) (simp add: take_bit_eq_mod)
  then have m: "w AND 7 \<noteq> 0 \<longleftrightarrow> n mod 8 \<noteq> 0" by (metis unat_eq_zero)
  define c :: "32 word" where "c = drop_bit 3 w + (if w AND 7 \<noteq> 0 then 1 else 0)"
  have up: "n div 8 + (if n mod 8 \<noteq> 0 then 1 else 0) = (n + 7) div 8" by (cases "n mod 8 = 0") (simp, presburger, simp, presburger)
  have uc: "unat c = (n + 7) div 8"
    using ud assms unfolding c_def m up[symmetric] by (auto simp: unat_word_ariths unat_of_nat)
  have "unat (c * 9) = 9 * ((n + 7) div 8)" using uc assms by (simp add: unat_word_ariths)
  moreover have "max 1 ((n + 7) div 8) = (n + 7) div 8" using False by auto
  ultimately show ?thesis using \<open>w \<noteq> 0\<close> d unfolding w_def[symmetric] GetDstStrSize_def RDB_ESCAPE_LENGTH_def c_def by simp
qed

text \<open>C15: packed strings compare as bytes like the strings, whatever follows them in the key, so a key of several
  packed columns is ordered by the first column that differs.\<close>

theorem PackString_order:
  "Slice_compare (snd (PackString (Some a)) @ u) (snd (PackString (Some b)) @ v) =
     (if a = b then Slice_compare u v else Slice_compare a b)"
  by (simp add: PackString_def pack_chunks_cmp)

text \<open>C16: unpacking a packed string returns it with its length and reads nothing of what follows, and the packed
  string has exactly the size that \<open>GetDstStrSize\<close> tells the caller to allocate.\<close>

theorem PackString_roundtrip:
  assumes "length a < 2 ^ 27"
  shows "UnpackString (Some (snd (PackString (Some a)) @ u)) = Some (0, a, of_nat (length a)) \<and>
    length (snd (PackString (Some a))) = unat (GetDstStrSize (of_nat (length a)))"
  using assms by (simp add: PackString_def UnpackString_def Unpack_chunks length_pack GetDstStrSize_eq)

theorem PackString_roundtrip_witness:
  "UnpackString (Some (snd (PackString (Some [1, 0, 2, 0, 3, 0, 4, 0, 5, 0])) @ [7])) = Some (0, [1, 0, 2, 0, 3, 0, 4, 0, 5, 0], 10)"
  using PackString_roundtrip[of "[1, 0, 2, 0, 3, 0, 4, 0, 5, 0]" "[7]"] by simp

section \<open>Numbers\<close>

definition be :: "bytes \<Rightarrow> nat" where
  "be bs = unle (rev bs)"

lemma unle_append: "unle (a @ b) = unle a + 256 ^ length a * unle b"
  by (induction a) (simp_all add: algebra_simps)

lemma be_Cons: "be (b # bs) = unat b * 256 ^ length bs + be bs"
  by (simp add: be_def unle_append)

lemma be_Nil [simp]: "be [] = 0"
  by (simp add: be_def)

lemma be_bound: "be bs < 256 ^ length bs"
  using unle_bound[of "rev bs"] by (simp add: be_def)

lemma be_cmp:
  "length a = length b \<Longrightarrow> Slice_compare a b = (if be a < be b then -1 else if be a > be b then 1 else 0)"
proof (induction a b rule: list_induct2)
  case (Cons x xs y ys)
  have "be (x # xs) < be (y # ys)" if "x < y" and l: "length xs = length ys" for x y xs ys
  proof -
    have "unat x + 1 \<le> unat y" using that by (simp add: word_less_nat_alt)
    then have "(unat x + 1) * 256 ^ length ys \<le> unat y * 256 ^ length ys" by (rule mult_le_mono1)
    then show ?thesis using be_bound[of xs] l by (simp add: be_Cons algebra_simps)
  qed
  from this[of x y xs ys] this[of y x ys xs] show ?case
    using Cons by (cases x y rule: linorder_cases) (auto simp: Slice_compare_rec be_Cons)
qed simp

text \<open>Equal lengths: what follows decides between equal values.\<close>

lemma be_cmp_append:
  assumes "length a = length b"
  shows "Slice_compare (a @ u) (b @ v) = (if be a < be b then -1 else if be a > be b then 1 else Slice_compare u v)"
  using assms be_cmp[OF assms] Slice_compare_eq[of a b] by (auto simp: Slice_compare_append split: if_splits)

text \<open>The value of an integer in two's complement, and the rank of a floating-point number: sign and magnitude.\<close>

definition signed_value :: "bytes \<Rightarrow> int" where
  "signed_value bs = (if bit (last bs) 7 then int (unle bs) - 256 ^ length bs else int (unle bs))"

definition float_rank :: "bytes \<Rightarrow> int" where
  "float_rank bs = (if bit (last bs) 7 then 128 * 256 ^ (length bs - 1) - int (unle bs) else int (unle bs))"

text \<open>Neither infinite nor not a number: the exponent is not all ones.\<close>

definition finite_float :: "nat \<Rightarrow> bytes \<Rightarrow> bool" where
  "finite_float exp_dig bs \<longleftrightarrow> 2 \<le> length bs \<and>
     unat (cat16 (last bs AND 127) (bs ! (length bs - 2))) < 32768 - 2 ^ (15 - exp_dig)"

section \<open>Halves of 16 bits\<close>

lemma unat_cat16: "unat (cat16 a b) = unat a * 256 + unat b"
proof -
  have "push_bit 8 (ucast a :: 16 word) AND ucast b = 0" by (rule bit_word_eqI) (auto simp: bit_simps dest: bit_imp_le_length)
  then have "cat16 a b = push_bit 8 (ucast a) + ucast b" by (simp add: cat16_def disjunctive_add_eq_or)
  moreover have "unat a < 256" "unat b < 256" using unsigned_less[where ?'a = nat, of a] unsigned_less[where ?'a = nat, of b] by simp_all
  ultimately show ?thesis by (simp add: unat_word_ariths push_bit_eq_mult unsigned_ucast_eq take_bit_eq_mod)
qed

lemma unat_hi_lo: "unat (hi8 w) * 256 + unat (lo8 w) = unat w"
proof -
  have "unat w < 65536" using unsigned_less[where ?'a = nat, of w] by simp
  moreover have "unat (drop_bit 8 w) = unat w div 256" by (simp only: unat_drop_bit_eq) (simp add: drop_bit_eq_div)
  ultimately have "unat (hi8 w) = unat w div 256" "unat (lo8 w) = unat w mod 256"
    unfolding hi8_def lo8_def unsigned_ucast_eq by (simp_all only: take_bit_eq_mod) simp_all
  then show ?thesis by simp
qed

lemma or32768: "unat (w :: 16 word) < 32768 \<Longrightarrow> unat (w OR 32768) = unat w + 32768"
proof -
  assume w: "unat w < 32768"
  have "\<not> bit (unat w) 15" using w by (simp add: bit_nat_def)
  then have "set_bit 15 w = w + 32768" by (simp add: set_bit_eq bit_unsigned_iff)
  moreover have "set_bit 15 w = w OR 32768" by (simp add: set_bit_eq_or)
  ultimately show ?thesis using w by (simp add: unat_word_ariths)
qed

lemma and32767: "unat ((w :: 16 word) AND 32767) = unat w mod 32768"
proof -
  have "w AND 32767 = take_bit 15 w" by (simp add: take_bit_eq_mask mask_eq_exp_minus_1)
  then show ?thesis by (simp add: unsigned_take_bit_eq) (simp add: take_bit_eq_mod)
qed

section \<open>The keys of numbers\<close>

lemma unle_last: "f \<noteq> [] \<Longrightarrow> unle f = unle (butlast f) + 256 ^ (length f - 1) * unat (last f)"
  using unle_append[of "butlast f" "[last f]"] by simp

lemma pow256: "1 \<le> n \<Longrightarrow> 256 ^ n = 256 * (256 :: 'a :: comm_semiring_1) ^ (n - 1)"
  by (cases n) simp_all

lemma CopyInteger_eq:
  assumes "f \<noteq> []" "length f = n"
  shows "CopyInteger f n False = Some ((last f XOR 128) # rev (butlast f))"
  using assms by (simp add: CopyInteger_def peek_def butlast_conv_take last_conv_nth)

lemma integer_key:
  assumes "f \<noteq> []"
  shows "int (be ((last f XOR 128) # rev (butlast f))) = signed_value f + 128 * 256 ^ (length f - 1)"
proof -
  let ?n = "length f - 1"
  have "int (be ((last f XOR 128) # rev (butlast f))) = int (unat (last f XOR 128)) * 256 ^ ?n + int (unle (butlast f))"
    by (simp add: be_Cons) (simp add: be_def)
  moreover have "int (unle f) = int (unle (butlast f)) + 256 ^ ?n * int (unat (last f))" using unle_last[OF assms] by simp
  moreover have "(256 :: int) ^ length f = 256 * 256 ^ ?n" using assms by (intro pow256) (simp add: Suc_le_eq)
  ultimately show ?thesis
    using xor128[of "last f"] by (auto simp: signed_value_def top_byte of_nat_diff algebra_simps)
qed

lemma be_flip: "be (map (\<lambda>b. b XOR 255) bs) + be bs + 1 = 256 ^ length bs"
proof (induction bs)
  case (Cons b bs)
  have "unat b \<le> 255" using unsigned_less[where ?'a = nat, of b] by simp
  then have "(255 - unat b) * 256 ^ length bs + unat b * 256 ^ length bs = 255 * 256 ^ length bs"
    by (simp flip: add_mult_distrib)
  then show ?case using Cons by (simp add: be_Cons xor255)
qed simp

lemma is_zero_rank: "f \<noteq> [] \<Longrightarrow> is_zero f \<longleftrightarrow> float_rank f = 0"
proof -
  assume f: "f \<noteq> []"
  have z: "list_all (\<lambda>b. b = 0) bs \<longleftrightarrow> unle bs = 0" for bs by (induction bs) (auto simp: unat_eq_zero)
  have "unat (last f) < 256" using unsigned_less[where ?'a = nat, of "last f"] by simp
  moreover have "last f AND 127 = 0 \<longleftrightarrow> unat (last f) mod 128 = 0" using and127[of "last f"] by (metis unat_eq_zero)
  ultimately have l: "last f AND 127 = 0 \<longleftrightarrow> unat (last f) = 0 \<or> unat (last f) = 128" by auto
  have u: "unle f = unle (butlast f) + 256 ^ (length f - 1) * unat (last f)" by (rule unle_last[OF f])
  have "float_rank f = 0 \<longleftrightarrow> unle (butlast f) = 0 \<and> (unat (last f) = 0 \<or> unat (last f) = 128)"
  proof (cases "128 \<le> unat (last f)")
    case True
    then obtain k where k: "unat (last f) = 128 + k" using le_Suc_ex by blast
    have "float_rank f = - int (unle (butlast f) + 256 ^ (length f - 1) * k)"
      using True u k by (simp add: float_rank_def top_byte algebra_simps)
    then have "float_rank f = 0 \<longleftrightarrow> unle (butlast f) + 256 ^ (length f - 1) * k = 0" by linarith
    then show ?thesis using k by auto
  next
    case False
    then have "float_rank f = 0 \<longleftrightarrow> unle f = 0" by (simp add: float_rank_def top_byte)
    then show ?thesis using u False by auto
  qed
  then show ?thesis using f l z[of "butlast f"] by (simp add: is_zero_def)
qed

text \<open>The key of a floating-point number is a strictly increasing function of its rank.\<close>

definition float_code :: "nat \<Rightarrow> nat \<Rightarrow> int \<Rightarrow> int" where
  "float_code n exp_dig r = 128 * 256 ^ (n - 1) +
     (if r = 0 then 0 else if 0 < r then r + 2 ^ (15 - exp_dig) * 256 ^ (n - 2) else r - 1)"

lemma float_code_mono: "float_code n e r < float_code n e s \<longleftrightarrow> r < s"
proof -
  define K where "K = (2 :: int) ^ (15 - e) * 256 ^ (n - 2)"
  have "0 < K" by (simp add: K_def)
  then show ?thesis unfolding float_code_def K_def[symmetric] by (auto split: if_splits)
qed

lemma two_byte_head: "be (a # b # rest) = unat (cat16 a b) * 256 ^ length rest + be rest"
  by (simp add: be_Cons unat_cat16 algebra_simps)

lemma be_hi_lo: "be (hi8 w # lo8 w # rest) = unat w * 256 ^ length rest + be rest"
  using arg_cong[OF unat_hi_lo[of w], of "\<lambda>x. x * 256 ^ length rest"] by (simp add: be_Cons algebra_simps)

lemma exp_up:
  assumes "unat (w :: 16 word) < 32768 - 2 ^ (15 - e)"
  shows "unat ((w OR 32768) + push_bit (16 - 1 - e) 1) = unat w + 32768 + 2 ^ (15 - e)"
proof -
  have e: "(2 :: nat) ^ (15 - e) \<le> 2 ^ 15" by (rule power_increasing) simp_all
  have w: "unat w < 32768" using assms by simp
  have "unat (push_bit (15 - e) 1 :: 16 word) = 2 ^ (15 - e)"
    using e unat_of_nat[where ?'a = 16, of "2 ^ (15 - e)"] by simp
  then show ?thesis using or32768[OF w] assms e by (simp add: unat_word_ariths)
qed

text \<open>The forms of a packed number that is not zero.\<close>

lemma float_split:
  assumes "finite_float e f" "\<not> 128 \<le> unat (last f)"
  obtains t1 rest where "rev f = last f # t1 # rest" "length rest = length f - 2" "unat (cat16 (last f) t1) < 32768 - 2 ^ (15 - e)"
proof -
  have n2: "2 \<le> length f" using assms(1) by (simp add: finite_float_def)
  obtain a t1 rest where r: "rev f = a # t1 # rest" using n2 by (cases "rev f"; cases "tl (rev f)") auto
  have a: "a = last f" using r by (metis hd_rev list.sel(1))
  have t1: "f ! (length f - 2) = t1" using arg_cong[OF r, of "\<lambda>l. l ! 1"] n2 by (simp add: rev_nth numeral_2_eq_2)
  have "unat (cat16 (last f) t1) < 32768 - 2 ^ (15 - e)"
    using assms(1) t1 assms(2) and127[of "last f"] by (simp add: finite_float_def unat_cat16)
  then show ?thesis using that r a arg_cong[OF r, of length] by simp
qed

lemma pack_negative:
  assumes "length f = n" "f \<noteq> []" "\<not> is_zero f" "128 \<le> unat (last f)"
  shows "pack_floating n e (Some f) = Some (0, map (\<lambda>b. b XOR 255) (rev f))"
proof -
  have "rev f ! 0 = last f" using assms(2) by (simp add: hd_rev flip: hd_conv_nth)
  then show ?thesis using assms and128[of "last f"] by (simp add: pack_floating_def peek_def)
qed

lemma pack_positive:
  assumes "length f = n" "rev f = last f # t1 # rest" "\<not> is_zero f" "\<not> 128 \<le> unat (last f)"
  shows "pack_floating n e (Some f) = Some (0, let E = (cat16 (last f) t1 OR 32768) + push_bit (16 - 1 - e) 1 in hi8 E # lo8 E # rest)"
  using assms(1,3,4) and128[of "last f"] by (simp add: pack_floating_def Let_def peek_def assms(2))

lemma float_key:
  assumes "finite_float e f" "length f = n"
  shows "\<exists>p. pack_floating n e (Some f) = Some (0, p) \<and> length p = n \<and> int (be p) = float_code n e (float_rank f)"
proof -
  have n2: "2 \<le> n" "f \<noteq> []" using assms(1,2) by (auto simp: finite_float_def)
  consider "is_zero f" | "\<not> is_zero f" "128 \<le> unat (last f)" | "\<not> is_zero f" "\<not> 128 \<le> unat (last f)" by blast
  then show ?thesis
  proof cases
    case 1
    have "be (replicate k 0) = 0" for k by (induction k) (simp_all add: be_Cons)
    then have "int (be (128 # replicate (n - 1) 0)) = 128 * 256 ^ (n - 1)" by (simp add: be_Cons)
    then show ?thesis
      using 1 assms(2) n2 is_zero_rank[OF n2(2)] by (simp add: pack_floating_def float_code_def peek_def)
  next
    case 2
    have "int (be (map (\<lambda>b. b XOR 255) (rev f))) = 256 ^ n - 1 - int (unle f)"
      using arg_cong[OF be_flip[of "rev f"], of int] assms(2) by (simp add: be_def)
    moreover have "256 ^ (n - 1) * 128 \<le> unle f"
      using mult_le_mono2[OF 2(2), of "256 ^ (n - 1)"] unfolding unle_last[OF n2(2)] assms(2) by linarith
    then have "int (256 ^ (n - 1) * 128) \<le> int (unle f)" by (simp only: of_nat_le_iff)
    then have "float_rank f \<le> 0" using 2(2) assms(2) by (simp add: float_rank_def top_byte)
    moreover have "(256 :: int) ^ n = 256 * 256 ^ (n - 1)" using n2 by (intro pow256) simp
    ultimately have "int (be (map (\<lambda>b. b XOR 255) (rev f))) = float_code n e (float_rank f)"
      using 2 assms(2) is_zero_rank[OF n2(2)] by (simp add: float_code_def float_rank_def top_byte)
    then show ?thesis using pack_negative[OF assms(2) n2(2) 2] assms(2) by simp
  next
    case 3
    obtain t1 rest where r: "rev f = last f # t1 # rest" "length rest = length f - 2" "unat (cat16 (last f) t1) < 32768 - 2 ^ (15 - e)"
      using float_split[OF assms(1) 3(2)] by blast
    let ?E = "(cat16 (last f) t1 OR 32768) + push_bit (16 - 1 - e) 1"
    have "int (be (hi8 ?E # lo8 ?E # rest)) = int (unle f) + 32768 * 256 ^ (n - 2) + 2 ^ (15 - e) * 256 ^ (n - 2)"
      using two_byte_head[of "last f" t1 rest] exp_up[OF r(3)] r(1,2) assms(2) be_hi_lo[of ?E rest]
      by (simp add: be_def algebra_simps)
    moreover have "(128 :: int) * 256 ^ (n - 1) = 32768 * 256 ^ (n - 2)" using n2 pow256[of "n - 1", where ?'a = int] by (simp add: numeral_2_eq_2)
    moreover have "0 < float_rank f" "float_rank f = int (unle f)"
      using 3 is_zero_rank[OF n2(2)] by (auto simp: float_rank_def top_byte)
    ultimately have "int (be (hi8 ?E # lo8 ?E # rest)) = float_code n e (float_rank f)" by (simp add: float_code_def)
    then show ?thesis using pack_positive[OF assms(2) r(1) 3, of e] r(2) assms(2) n2 by (simp add: Let_def Suc_diff_le)
  qed
qed

section \<open>Packed values\<close>

definition packable :: "DataType \<Rightarrow> bytes \<Rightarrow> bool" where
  "packable t f \<longleftrightarrow> \<not> is_string t \<and> length f = type_size t \<and> (t = kFloat \<longrightarrow> finite_float FLT_EXP_DIG f) \<and>
     (t = kDouble \<longrightarrow> finite_float DBL_EXP_DIG f)"

definition value_rank :: "DataType \<Rightarrow> bytes \<Rightarrow> int" where
  "value_rank t f = (if t = kFloat \<or> t = kDouble then float_rank f else signed_value f)"

definition value_code :: "DataType \<Rightarrow> int \<Rightarrow> int" where
  "value_code t r = (if t = kFloat then float_code 4 FLT_EXP_DIG r else if t = kDouble then float_code 8 DBL_EXP_DIG r
     else r + 128 * 256 ^ (type_size t - 1))"

lemma value_code_mono: "value_code t r < value_code t s \<longleftrightarrow> r < s"
  by (simp add: value_code_def float_code_mono)

lemma value_sizes: "type_size kBool = 1" "type_size kSmallInt = 2" "type_size kInt = 4" "type_size kBigInt = 8"
  "type_size kFloat = 4" "type_size kDouble = 8" "type_size kDate = 4" "type_size kTimestamp = 8"
  by (simp_all add: type_size_def TYPE_SIZE_ARRAY_def)

lemma integer_pack:
  assumes "length f = n" "1 \<le> n"
  shows "\<exists>p. PackInteger (Some f) n False = Some (0, p) \<and> length p = n \<and> int (be p) = signed_value f + 128 * 256 ^ (n - 1)"
proof -
  have "f \<noteq> []" using assms by auto
  then show ?thesis
    using assms CopyInteger_eq[of f n] integer_key[of f]
    by (intro exI[of _ "(last f XOR 128) # rev (butlast f)"]) (auto simp: PackInteger_def)
qed

lemma value_key:
  assumes "packable t f"
  shows "\<exists>p. PackValue (Some f) t key = Some (True, key @ p) \<and> length p = type_size t \<and> int (be p) = value_code t (value_rank t f)"
  using assms float_key[of FLT_EXP_DIG f 4] float_key[of DBL_EXP_DIG f 8] integer_pack[of f "type_size t"]
  by (cases t) (auto simp: packable_def value_sizes is_string_def PackValue_def append_packed_def PackFloat_def PackDouble_def value_code_def value_rank_def)

text \<open>C17: \<open>PackValue\<close> makes keys that compare as bytes like the values: integers and dates by their signed value,
  floating-point numbers by sign and magnitude, where the two zeros are equal.  Between equal values what follows
  in the key decides.  Infinities and not-a-numbers are excluded, as the comment in the source says.\<close>

theorem PackValue_order:
  assumes "packable t f" "packable t g"
  shows "\<exists>p q. PackValue (Some f) t ka = Some (True, ka @ p) \<and> PackValue (Some g) t kb = Some (True, kb @ q) \<and>
    length p = type_size t \<and> length q = type_size t \<and>
    Slice_compare (p @ u) (q @ v) = (if value_rank t f < value_rank t g then -1 else if value_rank t g < value_rank t f then 1
      else Slice_compare u v)"
proof -
  obtain p where p: "PackValue (Some f) t ka = Some (True, ka @ p)" "length p = type_size t" "int (be p) = value_code t (value_rank t f)"
    using value_key[OF assms(1)] by blast
  obtain q where q: "PackValue (Some g) t kb = Some (True, kb @ q)" "length q = type_size t" "int (be q) = value_code t (value_rank t g)"
    using value_key[OF assms(2)] by blast
  have "be p < be q \<longleftrightarrow> value_rank t f < value_rank t g" "be q < be p \<longleftrightarrow> value_rank t g < value_rank t f"
    using value_code_mono p(3) q(3) by (metis of_nat_less_iff)+
  then show ?thesis using p q be_cmp_append[of p q u v] by auto
qed

text \<open>-2.5 and 1.0 in single precision.\<close>

theorem PackValue_order_witness:
  "\<exists>p q. PackValue (Some [0, 0, 32, 192]) kFloat [] = Some (True, p) \<and> PackValue (Some [0, 0, 128, 63]) kFloat [] = Some (True, q) \<and>
    Slice_compare p q = -1"
proof -
  have 1: "packable kFloat [0, 0, 32, 192]" "packable kFloat [0, 0, 128, 63]"
    by (simp_all add: packable_def is_string_def value_sizes finite_float_def unat_cat16 FLT_EXP_DIG_def)
  have "value_rank kFloat [0, 0, 32, 192] < value_rank kFloat [0, 0, 128, 63]"
    by (simp add: value_rank_def float_rank_def top_byte)
  then show ?thesis using PackValue_order[OF 1, of "[]" "[]" "[]" "[]"] by auto
qed

section \<open>Unpacking numbers\<close>

lemma cat16_hi_lo: "cat16 (hi8 w) (lo8 w) = w"
  using unat_hi_lo[of w] by (simp add: unat_cat16 word_unat_eq_iff)

lemma hi_lo_cat16: "hi8 (cat16 a b) = a" "lo8 (cat16 a b) = b"
proof -
  have e: "unat (hi8 (cat16 a b)) * 256 + unat (lo8 (cat16 a b)) = unat a * 256 + unat b" by (simp add: unat_hi_lo unat_cat16)
  have b: "unat (x :: byte) < 256" for x using unsigned_less[where ?'a = nat, of x] by simp
  have d: "(n * 256 + unat (x :: byte)) div 256 = n" "(n * 256 + unat x) mod 256 = unat x" for n x using b[of x] by simp_all
  show "hi8 (cat16 a b) = a" "lo8 (cat16 a b) = b"
    using arg_cong[OF e, of "\<lambda>n. n div 256"] arg_cong[OF e, of "\<lambda>n. n mod 256"] unfolding d by (simp_all only: word_unat_eq_iff)
qed

lemma exp_down:
  assumes "unat (w :: 16 word) < 32768 - 2 ^ (15 - e)"
  shows "(((w OR 32768) + push_bit (16 - 1 - e) 1) AND 32767) - push_bit (16 - 1 - e) 1 = w"
proof -
  define E where "E = (w OR 32768) + push_bit (16 - 1 - e) 1"
  have m: "(a + 32768 + b) mod 32768 = a + b" if "a < 32768 - b" for a b :: nat
  proof -
    have "a + 32768 + b = (a + b) + 32768" by simp
    then have "(a + 32768 + b) mod 32768 = (a + b) mod 32768" by (simp only: mod_add_self2)
    then show ?thesis using that by simp
  qed
  have "unat (E AND 32767) = unat w + 2 ^ (15 - e)"
    using exp_up[OF assms] m[OF assms] unfolding E_def and32767 by (simp only:)
  then have "of_nat (unat (E AND 32767)) = (of_nat (unat w + 2 ^ (15 - e)) :: 16 word)" by (simp only:)
  then show ?thesis by (simp add: E_def)
qed

lemma unpack_float:
  assumes "finite_float e f" "length f = n" "pack_floating n e (Some f) = Some (0, p)" "z = 128 # replicate (n - 1) 0"
  shows "UnpackFloatingPoint (Some p) n e z (replicate n 0) = Some (0, if is_zero f then replicate n 0 else f)"
proof -
  have n2: "2 \<le> n" "f \<noteq> []" using assms(1,2) by (auto simp: finite_float_def)
  have key: "length p = n" "int (be p) = float_code n e (float_rank f)" using float_key[OF assms(1,2)] assms(3) by auto
  have "be (replicate k 0) = 0" for k by (induction k) (simp_all add: be_Cons)
  then have "int (be z) = float_code n e 0" using assms(4) by (simp add: be_Cons float_code_def)
  then have pz: "p \<noteq> z" if "\<not> is_zero f" using key(2) float_code_mono[of n e] is_zero_rank[OF n2(2)] that by (metis linorder_neqE not_less_iff_gr_or_eq)
  have pk: "peek 0 n p = Some p" using key(1) by (simp add: peek_def)
  consider "is_zero f" | "\<not> is_zero f" "128 \<le> unat (last f)" | "\<not> is_zero f" "\<not> 128 \<le> unat (last f)" by blast
  then show ?thesis
  proof cases
    case 1
    then have "p = z" using assms(2-4) by (simp add: pack_floating_def peek_def)
    then show ?thesis using 1 pk by (simp add: UnpackFloatingPoint_def)
  next
    case 2
    have p: "p = map (\<lambda>b. b XOR 255) (rev f)" using pack_negative[OF assms(2) n2(2) 2, of e] assms(3) by simp
    have "p ! 0 = last f XOR 255" using n2(2) p by (simp add: rev_nth last_conv_nth)
    then have "unat (p ! 0) = 255 - unat (last f)" by (simp only: xor255)
    then have "\<not> 128 \<le> unat (p ! 0)" using 2(2) by linarith
    then have "p ! 0 AND 128 = 0" using and128[of "p ! 0"] by blast
    then show ?thesis using 2 pk pz p by (simp add: UnpackFloatingPoint_def rev_map comp_def xor.assoc)
  next
    case 3
    obtain t1 rest where r: "rev f = last f # t1 # rest" "length rest = length f - 2" "unat (cat16 (last f) t1) < 32768 - 2 ^ (15 - e)"
      using float_split[OF assms(1) 3(2)] by blast
    define E where "E = (cat16 (last f) t1 OR 32768) + push_bit (16 - 1 - e) 1"
    have p: "p = hi8 E # lo8 E # rest" using pack_positive[OF assms(2) r(1) 3, of e] assms(3) by (simp add: E_def Let_def)
    have "128 \<le> unat (hi8 E)" using exp_up[OF r(3)] unat_hi_lo[of E] unsigned_less[where ?'a = nat, of "lo8 E"] by (simp add: E_def)
    then have "hi8 E AND 128 \<noteq> 0" by (simp add: and128)
    moreover have "(E AND 32767) - push_bit (16 - 1 - e) 1 = cat16 (last f) t1" using exp_down[OF r(3)] by (simp add: E_def)
    moreover have "rev (last f # t1 # rest) = f" by (metis r(1) rev_rev_ident)
    ultimately show ?thesis
      using 3 pk pz p by (simp add: UnpackFloatingPoint_def Let_def cat16_hi_lo hi_lo_cat16)
  qed
qed

lemma unpack_integer:
  assumes "length f = n" "2 \<le> n" "PackInteger (Some f) n False = Some (0, p)"
  shows "UnpackInteger (Some p) n False = Some (0, f)"
proof -
  have f: "f \<noteq> []" using assms(1,2) by auto
  then have p: "p = (last f XOR 128) # rev (butlast f)" using assms CopyInteger_eq[of f n] by (simp add: PackInteger_def)
  then have "peek 0 n p = Some p" using assms(1,2) by (simp add: peek_def)
  then show ?thesis using p f assms(2) by (simp add: UnpackInteger_def xor.assoc)
qed

text \<open>C18: the unpack functions return the memory image that was packed, for every type but \<open>kBool\<close>; a negative zero
  comes back as the positive one.\<close>

theorem unpack_numbers:
  assumes "packable t f" "t \<noteq> kBool" "PackValue (Some f) t key = Some (True, key @ p)"
  shows "(if t = kFloat then UnpackFloat (Some p) else if t = kDouble then UnpackDouble (Some p)
      else UnpackInteger (Some p) (type_size t) False) =
    Some (0, if (t = kFloat \<or> t = kDouble) \<and> is_zero f then replicate (type_size t) 0 else f)"
  using assms float_key[of FLT_EXP_DIG f 4] float_key[of DBL_EXP_DIG f 8] integer_pack[of f "type_size t"] 
    unpack_float[of FLT_EXP_DIG f 4 p] unpack_float[of DBL_EXP_DIG f 8 p] unpack_integer[of f "type_size t" p]
  by (cases t) (auto simp: packable_def value_sizes is_string_def PackValue_def append_packed_def PackFloat_def PackDouble_def
      UnpackFloat_def UnpackDouble_def eval_nat_numeral)

theorem unpack_numbers_witness:
  "UnpackInteger (Some [127, 255, 255, 254]) 4 False = Some (0, [254, 255, 255, 255])"
proof -
  have "packable kInt [254, 255, 255, 255]" by (simp add: packable_def is_string_def value_sizes)
  moreover have "PackValue (Some [254, 255, 255, 255]) kInt [] = Some (True, [] @ [127, 255, 255, 254])"
    by (simp add: PackValue_def append_packed_def PackInteger_def CopyInteger_def peek_def)
  ultimately show ?thesis using unpack_numbers[of kInt "[254, 255, 255, 255]" "[]" "[127, 255, 255, 254]"] by (simp add: value_sizes)
qed

end
