(* ===== verification/Schema_Codec.thy ===== *)
theory Schema_Codec
  imports MemComparable
begin

text \<open>
  The encoding of a table's columns in \<open>src/codec/schema_codec.h\<close>: \<open>SchemaCodec::Encode\<close> and \<open>Decode\<close>, and the
  conversions between the names of types, the column types of the old row format and the data types.
\<close>

section \<open>Column types\<close>

text \<open>A column type is read from a byte, so it may have a value that the enumeration does not name.\<close>

datatype ColType = ctString | ctFloat | ctInt32 | ctInt64 | ctDouble | ctNull | ctUInt32 | ctUInt64 | ctTimestamp | ctDate
  | ctInt16 | ctUInt16 | ctBool | ctEmptyString | ctUnknown | ctOther byte

fun ct_code :: "ColType \<Rightarrow> byte" where
  "ct_code ctString = 0"
| "ct_code ctFloat = 1"
| "ct_code ctInt32 = 2"
| "ct_code ctInt64 = 3"
| "ct_code ctDouble = 4"
| "ct_code ctNull = 5"
| "ct_code ctUInt32 = 6"
| "ct_code ctUInt64 = 7"
| "ct_code ctTimestamp = 8"
| "ct_code ctDate = 9"
| "ct_code ctInt16 = 10"
| "ct_code ctUInt16 = 11"
| "ct_code ctBool = 12"
| "ct_code ctEmptyString = 100"
| "ct_code ctUnknown = 200"
| "ct_code (ctOther b) = b"

definition ct_named :: "ColType list" where
  "ct_named = [ctString, ctFloat, ctInt32, ctInt64, ctDouble, ctNull, ctUInt32, ctUInt64, ctTimestamp, ctDate, ctInt16,
     ctUInt16, ctBool, ctEmptyString, ctUnknown]"

definition ct_of :: "byte \<Rightarrow> ColType" where
  "ct_of b = (case find (\<lambda>t. ct_code t = b) ct_named of Some t \<Rightarrow> t | None \<Rightarrow> ctOther b)"

record col_desc =
  cd_type :: ColType
  cd_name :: bytes
  cd_add_ts_idx :: bool
  cd_is_ts_col :: bool

definition MAX_ROW_BYTE_SIZE :: nat where "MAX_ROW_BYTE_SIZE = 1024 * 1024"
definition HEADER_BYTE_SIZE :: nat where "HEADER_BYTE_SIZE = 3"
definition NONETOKEN :: bytes where "NONETOKEN = ascii ''!N@U#L$L%''"
definition EMPTY_STRING :: bytes where "EMPTY_STRING = ascii ''!@#$%''"

section \<open>Encoding\<close>

text \<open>Sizes are 32 bits wide.\<close>

definition SchemaCodec_GetSize :: "col_desc list \<Rightarrow> nat" where
  "SchemaCodec_GetSize columns = fold (\<lambda>c n. u32 (n + HEADER_BYTE_SIZE + length (cd_name c))) columns 0"

fun encode_cols :: "nat \<Rightarrow> bytes \<Rightarrow> col_desc list \<Rightarrow> (bool \<times> bytes) option" where
  "encode_cols p buffer [] = Some (True, buffer)"
| "encode_cols p buffer (c # cs) = do {
     b1 \<leftarrow> blit p [ct_code (cd_type c)] buffer;
     b2 \<leftarrow> blit (p + 1) [if cd_add_ts_idx c then 1 else 0] b1;
     if length (cd_name c) \<ge> 128 then Some (False, b2)
     else do {
       b3 \<leftarrow> blit (p + 2) [of_nat (length (cd_name c))] b2;
       b4 \<leftarrow> blit (p + 3) (cd_name c) b3;
       encode_cols (p + 3 + length (cd_name c)) b4 cs } }"

text \<open>\<open>resize\<close> keeps what the string has and pads it with zeros.\<close>

definition resize :: "nat \<Rightarrow> bytes \<Rightarrow> bytes" where
  "resize n s = take n s @ replicate (n - length s) 0"

definition SchemaCodec_Encode :: "col_desc list \<Rightarrow> bytes \<Rightarrow> (bool \<times> bytes) option" where
  "SchemaCodec_Encode columns buffer = (let byte_size = SchemaCodec_GetSize columns in
     if byte_size > MAX_ROW_BYTE_SIZE then Some (False, buffer)
     else encode_cols 0 (resize byte_size buffer) columns)"

function decode_cols :: "bytes \<Rightarrow> nat \<Rightarrow> col_desc list \<Rightarrow> col_desc list option" where
  "decode_cols sch read_size columns = (
     if \<not> read_size < length sch then Some columns
     else if length sch - read_size < HEADER_BYTE_SIZE then Some columns
     else case peek read_size 3 sch of
       Some [type, add_ts_idx, name_size] \<Rightarrow>
         let total_size = HEADER_BYTE_SIZE + unat name_size in
         if length sch - read_size < total_size then Some columns
         else (case peek (read_size + 3) (unat name_size) sch of
           Some name \<Rightarrow> decode_cols sch (read_size + total_size) (columns @ [\<lparr>cd_type = ct_of type, cd_name = name,
             cd_add_ts_idx = (add_ts_idx \<noteq> 0), cd_is_ts_col = False\<rparr>])
         | None \<Rightarrow> None)
     | _ \<Rightarrow> None)"
  by pat_completeness auto
termination
  by (relation "measure (\<lambda>(s, r, _). length s - r)") (auto simp: HEADER_BYTE_SIZE_def)

declare decode_cols.simps [simp del]

definition SchemaCodec_Decode :: "bytes \<Rightarrow> col_desc list \<Rightarrow> col_desc list option" where
  "SchemaCodec_Decode sch columns = decode_cols sch 0 columns"

section \<open>Types by name\<close>

definition ConvertType :: "string \<Rightarrow> ColType" where
  "ConvertType raw_type = (
     if raw_type = ''int32'' then ctInt32
     else if raw_type = ''int64'' then ctInt64
     else if raw_type = ''uint32'' then ctUInt32
     else if raw_type = ''uint64'' then ctUInt64
     else if raw_type = ''float'' then ctFloat
     else if raw_type = ''double'' then ctDouble
     else if raw_type = ''string'' then ctString
     else if raw_type = ''timestamp'' then ctTimestamp
     else if raw_type = ''int16'' then ctInt16
     else if raw_type = ''uint16'' then ctUInt16
     else if raw_type = ''bool'' then ctBool
     else if raw_type = ''date'' then ctDate
     else ctUnknown)"

definition DATA_TYPE_MAP :: "(string \<times> DataType) list" where
  "DATA_TYPE_MAP = [(''bool'', kBool), (''smallint'', kSmallInt), (''uint16'', kSmallInt), (''int16'', kSmallInt),
     (''int'', kInt), (''int32'', kInt), (''uint32'', kInt), (''bigint'', kBigInt), (''int64'', kBigInt), (''uint64'', kBigInt),
     (''float'', kFloat), (''double'', kDouble), (''varchar'', kVarchar), (''string'', kString), (''date'', kDate),
     (''timestamp'', kTimestamp)]"

definition ConvertStrType :: "string \<Rightarrow> DataType" where
  "ConvertStrType type = (case map_of DATA_TYPE_MAP type of Some t \<Rightarrow> t | None \<Rightarrow> kString)"

text \<open>The name that \<open>AddTypeToColumnDesc\<close> gives a data type.\<close>

primrec type_name :: "DataType \<Rightarrow> string" where
  "type_name kBool = ''bool''"
| "type_name kSmallInt = ''int16''"
| "type_name kInt = ''int32''"
| "type_name kBigInt = ''int64''"
| "type_name kDate = ''date''"
| "type_name kTimestamp = ''timestamp''"
| "type_name kFloat = ''float''"
| "type_name kDouble = ''double''"
| "type_name kVarchar = ''string''"
| "type_name kString = ''string''"

text \<open>
  A column of the table's meta data: its type by name, and by number when it has one.
\<close>

record column_meta =
  cm_name :: bytes
  cm_type :: string
  cm_data_type :: "DataType option"
  cm_add_ts_idx :: bool
  cm_is_ts_col :: bool

definition AddTypeToColumnDesc :: "column_meta list \<Rightarrow> column_meta list" where
  "AddTypeToColumnDesc cols = map (\<lambda>c. case cm_data_type c of Some t \<Rightarrow> c\<lparr>cm_type := type_name t\<rparr>
     | None \<Rightarrow> c\<lparr>cm_type := type_name kBool\<rparr>) cols"

fun convert_columns :: "bool \<Rightarrow> column_meta list \<Rightarrow> col_desc list \<Rightarrow> (bool \<times> col_desc list)" where
  "convert_columns added [] columns = (True, columns)"
| "convert_columns added (c # cs) columns = (let type = ConvertType (cm_type c) in
     if type = ctUnknown then (False, columns)
     else convert_columns added cs (columns @ [\<lparr>cd_type = type, cd_name = cm_name c,
       cd_add_ts_idx = (if added then False else cm_add_ts_idx c), cd_is_ts_col = (if added then False else cm_is_ts_col c)\<rparr>]))"

definition ConvertColumnDesc :: "column_meta list \<Rightarrow> column_meta list \<Rightarrow> int \<times> col_desc list" where
  "ConvertColumnDesc column_desc_field added_column_field = (case convert_columns False column_desc_field [] of
     (False, columns) \<Rightarrow> (-1, columns)
   | (True, columns) \<Rightarrow> (case convert_columns True added_column_field columns of
       (False, columns) \<Rightarrow> (-1, columns)
     | (True, columns) \<Rightarrow> (0, columns)))"

fun convert_types :: "column_meta list \<Rightarrow> column_meta list \<Rightarrow> (bool \<times> column_meta list)" where
  "convert_types [] columns = (True, columns)"
| "convert_types (c # cs) columns = (case cm_data_type c of
     Some _ \<Rightarrow> convert_types cs (columns @ [c])
   | None \<Rightarrow> (case map_of DATA_TYPE_MAP (cm_type c) of
       None \<Rightarrow> (False, columns @ [c])
     | Some t \<Rightarrow> convert_types cs (columns @ [c\<lparr>cm_data_type := Some t\<rparr>])))"

definition ConvertColumnDesc_schema :: "column_meta list \<Rightarrow> column_meta list \<Rightarrow> int \<times> column_meta list" where
  "ConvertColumnDesc_schema column_desc_field added_column_field = (case convert_types column_desc_field [] of
     (False, columns) \<Rightarrow> (-1, columns)
   | (True, columns) \<Rightarrow> (case convert_types added_column_field columns of
       (False, columns) \<Rightarrow> (-1, columns)
     | (True, columns) \<Rightarrow> (0, columns)))"

text \<open>
  The columns of a table: by name of type in the old meta data, or by column description in the new one.  Columns that
  were added later are appended.
\<close>

record table_columns =
  column_desc :: "column_meta list"
  column_desc_v1 :: "column_meta list"
  added_column_desc :: "column_meta list"

definition old_column :: "column_meta \<Rightarrow> column_meta" where
  "old_column c = c\<lparr>cm_is_ts_col := False\<rparr>"

definition ConvertColumnDesc_table :: "table_columns \<Rightarrow> int \<Rightarrow> (int \<times> col_desc list) option" where
  "ConvertColumnDesc_table table_info modify_index = (
     if column_desc_v1 table_info \<noteq> []
     then Some (ConvertColumnDesc (column_desc_v1 table_info) (if modify_index > 0 then added_column_desc table_info else []))
     else case convert_columns False (map old_column (column_desc table_info)) [] of
       (False, columns) \<Rightarrow> Some (-1, columns)
     | (True, columns) \<Rightarrow>
         (case convert_columns True (take (nat modify_index) (added_column_desc table_info)) columns of
            (False, columns) \<Rightarrow> Some (-1, columns)
          | (True, columns) \<Rightarrow> do {
              assert_that (nat modify_index \<le> length (added_column_desc table_info));
              Some (0, columns) }))"

definition GetSchemaData :: "(string \<times> bytes) list \<Rightarrow> schema \<Rightarrow> schema \<Rightarrow> schema" where
  "GetSchemaData columns_map sch new_schema = new_schema @ filter (\<lambda>col. map_of columns_map (col_name col) \<noteq> None) sch"

definition HasTSCol :: "col_desc list \<Rightarrow> bool" where
  "HasTSCol columns = list_ex cd_is_ts_col columns"

section \<open>Conditions on columns\<close>

text \<open>
  A condition has the name of a column and the memory image of a value, which a condition on null lacks.  The map of
  conditions is a list in the order of the names.  A failed conversion leaves the zeros that \<open>Convert\<close> made room with.
\<close>

definition unconverted :: "DataType \<Rightarrow> bytes" where
  "unconverted t = (if t = kDate \<or> is_string t then [] else replicate (type_size t) 0)"

fun GetCdColumns :: "lexical \<Rightarrow> schema \<Rightarrow> (string \<times> bytes) list \<Rightarrow> (string \<times> bytes option) list \<Rightarrow>
    int \<times> (string \<times> bytes option) list" where
  "GetCdColumns lx sch [] cd_columns = (0, cd_columns)"
| "GetCdColumns lx sch ((name, text) # cds) cd_columns = (
     case map_of (map (\<lambda>c. (col_name c, data_type c)) sch) name of
       None \<Rightarrow> (-1, cd_columns)
     | Some type \<Rightarrow>
         if text = NONETOKEN \<or> text = ascii ''null'' then GetCdColumns lx sch cds (cd_columns @ [(name, None)])
         else case Convert lx text type of
           None \<Rightarrow> (-1, cd_columns @ [(name, Some (unconverted type))])
         | Some val \<Rightarrow> GetCdColumns lx sch cds (cd_columns @ [(name, Some val)]))"

end
