(* ===== verification/Schema_Codec_Props.thy ===== *)
theory Schema_Codec_Props
  imports Schema_Codec
begin

text \<open>A column list that was encoded is decoded to itself, and the names of types are consistent.\<close>

section \<open>Round trip\<close>

definition col_bytes :: "col_desc \<Rightarrow> bytes" where
  "col_bytes c = ct_code (cd_type c) # (if cd_add_ts_idx c then 1 else 0) # of_nat (length (cd_name c)) # cd_name c"

lemma length_col_bytes: "length (col_bytes c) = 3 + length (cd_name c)"
  by (simp add: col_bytes_def)

definition encodable :: "col_desc \<Rightarrow> bool" where
  "encodable c \<longleftrightarrow> cd_type c \<in> set ct_named \<and> length (cd_name c) < 128 \<and> \<not> cd_is_ts_col c"

lemma blit_append: "length xs \<le> length b \<Longrightarrow> blit (length a) xs (a @ b) = Some (a @ xs @ drop (length xs) b)"
  by (simp add: blit_def)

lemma encode_cols_eq:
  assumes "list_all (\<lambda>c. length (cd_name c) < 128) cs" "length b = length (concat (map col_bytes cs))"
  shows "encode_cols (length a) (a @ b) cs = Some (True, a @ concat (map col_bytes cs))"
  using assms
proof (induction cs arbitrary: a b)
  case (Cons c cs)
  let ?n = "length (cd_name c)"
  obtain x y z w where b: "b = x # y # z # w" "?n \<le> length w"
    using Cons.prems(2) by (cases b; cases "tl b"; cases "tl (tl b)") (auto simp: length_col_bytes)
  have "blit (length a) [t] (a @ x # y # z # w) = Some (a @ t # y # z # w)" for t using blit_append[of "[t]" "x # y # z # w" a] by simp
  moreover have "blit (Suc (length a)) [u] (a @ t # y # z # w) = Some (a @ t # u # z # w)" for t u
    using blit_append[of "[u]" "y # z # w" "a @ [t]"] by simp
  moreover have "blit (Suc (Suc (length a))) [v] (a @ t # u # z # w) = Some (a @ t # u # v # w)" for t u v
    using blit_append[of "[v]" "z # w" "a @ [t, u]"] by simp
  moreover have "blit (length a + 3) (cd_name c) (a @ t # u # v # w) = Some (a @ t # u # v # cd_name c @ drop ?n w)" for t u v
    using blit_append[of "cd_name c" w "a @ [t, u, v]"] b(2) by (simp add: numeral_3_eq_3)
  moreover have "encode_cols (length a + 3 + ?n) (a @ col_bytes c @ drop ?n w) cs = Some (True, a @ col_bytes c @ concat (map col_bytes cs))"
    using Cons.IH[of "drop ?n w" "a @ col_bytes c"] Cons.prems b by (simp add: length_col_bytes add.assoc)
  ultimately show ?case using Cons.prems(1) b(1) by (simp add: col_bytes_def[of c] numeral_2_eq_2)
qed simp

lemma ct_of_code: "t \<in> set ct_named \<Longrightarrow> ct_of (ct_code t) = t"
  unfolding ct_of_def ct_named_def by (auto split: if_splits)

lemma decode_step:
  assumes "encodable c"
  shows "decode_cols (a @ col_bytes c @ r) (length a) cols = decode_cols (a @ col_bytes c @ r) (length (a @ col_bytes c)) (cols @ [c])"
proof -
  have n: "unat (of_nat (length (cd_name c)) :: byte) = length (cd_name c)" using assms by (simp add: encodable_def unat_of_nat)
  have p3: "peek (length a) 3 (a @ col_bytes c @ r) =
    Some [ct_code (cd_type c), if cd_add_ts_idx c then 1 else 0, of_nat (length (cd_name c))]"
    by (simp add: peek_def col_bytes_def)
  have pn: "peek (length a + 3) (length (cd_name c)) (a @ col_bytes c @ r) = Some (cd_name c)"
    by (simp add: peek_def col_bytes_def)
  have "cd_type c \<in> set ct_named" "\<not> cd_is_ts_col c" using assms by (simp_all add: encodable_def)
  then have "\<lparr>cd_type = ct_of (ct_code (cd_type c)), cd_name = cd_name c, cd_add_ts_idx = cd_add_ts_idx c, cd_is_ts_col = False\<rparr> = c"
    using ct_of_code[of "cd_type c"] by simp
  then show ?thesis
    by (cases "cd_add_ts_idx c"; subst decode_cols.simps; simp add: p3 pn n HEADER_BYTE_SIZE_def length_col_bytes Let_def add.assoc)
qed

lemma decode_cols_eq:
  "list_all encodable cs \<Longrightarrow> decode_cols (a @ concat (map col_bytes cs)) (length a) cols = Some (cols @ cs)"
proof (induction cs arbitrary: a cols)
  case Nil
  then show ?case by (subst decode_cols.simps) simp
next
  case (Cons c cs)
  then show ?case
    using decode_step[of c a "concat (map col_bytes cs)" cols] Cons.IH[of "a @ col_bytes c" "cols @ [c]"] by simp
qed

lemma GetSize_eq:
  "n + length (concat (map col_bytes cs)) < 2 ^ 32 \<Longrightarrow>
   fold (\<lambda>c n. u32 (n + HEADER_BYTE_SIZE + length (cd_name c))) cs n = n + length (concat (map col_bytes cs))"
  by (induction cs arbitrary: n) (simp_all add: u32_def HEADER_BYTE_SIZE_def length_col_bytes add.assoc)

text \<open>C24: the list of columns of a table survives encoding and decoding: the types, the names and which columns index
  time, for names of less than 128 bytes and an encoding of at most one megabyte.  Whether a column is a time column
  is not encoded.\<close>

theorem schema_roundtrip:
  assumes "list_all encodable cs" "length (concat (map col_bytes cs)) \<le> MAX_ROW_BYTE_SIZE"
  shows "\<exists>b. SchemaCodec_Encode cs old = Some (True, b) \<and> SchemaCodec_Decode b [] = Some cs"
proof -
  have "SchemaCodec_GetSize cs = length (concat (map col_bytes cs))"
    using GetSize_eq[of 0 cs] assms(2) by (simp add: SchemaCodec_GetSize_def MAX_ROW_BYTE_SIZE_def)
  moreover have "length (resize n old) = n" for n by (simp add: resize_def)
  moreover have "list_all (\<lambda>c. length (cd_name c) < 128) cs" using assms(1) by (auto simp: list_all_iff encodable_def)
  ultimately have "SchemaCodec_Encode cs old = Some (True, concat (map col_bytes cs))"
    using encode_cols_eq[of cs "resize (length (concat (map col_bytes cs))) old" "[]"] assms(2)
    by (simp add: SchemaCodec_Encode_def Let_def)
  moreover have "SchemaCodec_Decode (concat (map col_bytes cs)) [] = Some cs"
    using decode_cols_eq[OF assms(1), of "[]" "[]"] by (simp add: SchemaCodec_Decode_def)
  ultimately show ?thesis by blast
qed

definition sample_cols :: "col_desc list" where
  "sample_cols = [\<lparr>cd_type = ctString, cd_name = [99, 97], cd_add_ts_idx = True, cd_is_ts_col = False\<rparr>,
     \<lparr>cd_type = ctDouble, cd_name = [97], cd_add_ts_idx = False, cd_is_ts_col = False\<rparr>]"

theorem schema_roundtrip_witness: "\<exists>b. SchemaCodec_Encode sample_cols [1, 2] = Some (True, b) \<and> SchemaCodec_Decode b [] = Some sample_cols"
  by (rule schema_roundtrip) (simp_all add: sample_cols_def encodable_def ct_named_def col_bytes_def MAX_ROW_BYTE_SIZE_def)

section \<open>Names of types\<close>

text \<open>The name that a data type is given is one that the old format knows, so converting a named schema does not
  fail, and converting the name back gives the same type, except that \<open>kVarchar\<close> becomes \<open>kString\<close>.\<close>

lemma type_names:
  "ConvertType (type_name t) \<noteq> ctUnknown \<and> ConvertStrType (type_name t) = (if t = kVarchar then kString else t)"
  by (cases t) (simp_all add: ConvertType_def ConvertStrType_def DATA_TYPE_MAP_def)

end
