(* ===== verification/Flat_Array.thy ===== *)
theory Flat_Array
  imports Schema_Codec
begin

text \<open>
  The old row format: \<open>FlatArrayCodec\<close> and \<open>FlatArrayIterator\<close> of \<open>src/codec/flat_array.h\<close>.  A row is the number of
  its columns and then, for each column, its type, the length of its data and the data.
\<close>

unbundle bit_operations_syntax

definition MAX_STRING_LENGTH :: nat where "MAX_STRING_LENGTH = 32767"

section \<open>Writing\<close>

record flat_codec =
  fa_col_cnt :: nat
  fa_cur_cnt :: nat
  datas :: "(ColType \<times> bytes) list"
  modify_times :: int

definition new_FlatArrayCodec :: "nat \<Rightarrow> int \<Rightarrow> flat_codec" where
  "new_FlatArrayCodec n modify = \<lparr>fa_col_cnt = n, fa_cur_cnt = 0, datas = replicate n (ctString, []), modify_times = modify\<rparr>"

text \<open>\<open>Encode\<close> leaves the buffer of the column alone when there are no data.\<close>

definition FlatArray_Encode :: "flat_codec \<Rightarrow> ColType \<Rightarrow> bytes \<Rightarrow> flat_codec option" where
  "FlatArray_Encode fa type data = do {
     assert_that (fa_cur_cnt fa < length (datas fa));
     Some (fa\<lparr>datas := (datas fa)[fa_cur_cnt fa := (type, if data = [] then snd (datas fa ! fa_cur_cnt fa) else data)]\<rparr>) }"

text \<open>The common body of the append functions of the types with a fixed size.\<close>

definition fa_append :: "ColType \<Rightarrow> bytes \<Rightarrow> flat_codec \<Rightarrow> (bool \<times> flat_codec) option" where
  "fa_append type data fa = (
     if fa_cur_cnt fa \<ge> fa_col_cnt fa then Some (False, fa)
     else do { fa1 \<leftarrow> FlatArray_Encode fa type data; Some (True, fa1\<lparr>fa_cur_cnt := fa_cur_cnt fa1 + 1\<rparr>) })"

definition FlatArray_Append_bool :: "bool \<Rightarrow> flat_codec \<Rightarrow> (bool \<times> flat_codec) option" where
  "FlatArray_Append_bool v fa = fa_append ctBool [if v then 1 else 0] fa"

definition FlatArray_Append_uint16 :: "16 word \<Rightarrow> flat_codec \<Rightarrow> (bool \<times> flat_codec) option" where
  "FlatArray_Append_uint16 v fa = fa_append ctUInt16 (le 2 (unat v)) fa"

definition FlatArray_Append_int16 :: "16 word \<Rightarrow> flat_codec \<Rightarrow> (bool \<times> flat_codec) option" where
  "FlatArray_Append_int16 v fa = fa_append ctInt16 (le 2 (unat v)) fa"

definition FlatArray_Append_float :: "32 word \<Rightarrow> flat_codec \<Rightarrow> (bool \<times> flat_codec) option" where
  "FlatArray_Append_float v fa = fa_append ctFloat (le 4 (unat v)) fa"

definition FlatArray_Append_int32 :: "32 word \<Rightarrow> flat_codec \<Rightarrow> (bool \<times> flat_codec) option" where
  "FlatArray_Append_int32 v fa = fa_append ctInt32 (le 4 (unat v)) fa"

definition FlatArray_Append_int64 :: "64 word \<Rightarrow> flat_codec \<Rightarrow> (bool \<times> flat_codec) option" where
  "FlatArray_Append_int64 v fa = fa_append ctInt64 (le 8 (unat v)) fa"

definition FlatArray_Append_uint32 :: "32 word \<Rightarrow> flat_codec \<Rightarrow> (bool \<times> flat_codec) option" where
  "FlatArray_Append_uint32 v fa = fa_append ctUInt32 (le 4 (unat v)) fa"

definition FlatArray_Append_uint64 :: "64 word \<Rightarrow> flat_codec \<Rightarrow> (bool \<times> flat_codec) option" where
  "FlatArray_Append_uint64 v fa = fa_append ctUInt64 (le 8 (unat v)) fa"

definition FlatArray_AppendTimestamp :: "64 word \<Rightarrow> flat_codec \<Rightarrow> (bool \<times> flat_codec) option" where
  "FlatArray_AppendTimestamp v fa = fa_append ctTimestamp (le 8 (unat v)) fa"

definition FlatArray_AppendDate :: "64 word \<Rightarrow> flat_codec \<Rightarrow> (bool \<times> flat_codec) option" where
  "FlatArray_AppendDate v fa = fa_append ctDate (le 8 (unat v)) fa"

definition FlatArray_Append_double :: "64 word \<Rightarrow> flat_codec \<Rightarrow> (bool \<times> flat_codec) option" where
  "FlatArray_Append_double v fa = fa_append ctDouble (le 8 (unat v)) fa"

definition FlatArray_Append_string :: "bytes \<Rightarrow> flat_codec \<Rightarrow> (bool \<times> flat_codec) option" where
  "FlatArray_Append_string data fa = (
     if fa_cur_cnt fa \<ge> fa_col_cnt fa then Some (False, fa)
     else if length data > MAX_STRING_LENGTH then Some (False, fa)
     else fa_append (if data = [] then ctEmptyString else ctString) data fa)"

definition FlatArray_AppendNull :: "flat_codec \<Rightarrow> (bool \<times> flat_codec) option" where
  "FlatArray_AppendNull fa = fa_append ctNull [] fa"

definition FlatArray_GetSize :: "flat_codec \<Rightarrow> nat" where
  "FlatArray_GetSize fa = fold (\<lambda>(_, b) n. n + length b + 2 + (if length b \<ge> 128 then 1 else 0)) (datas fa)
     (if length (datas fa) \<ge> 128 then 2 else 1)"

text \<open>The bytes of one column; its length is cut to 16 bits.\<close>

definition flat_column :: "ColType \<times> bytes \<Rightarrow> bytes" where
  "flat_column c = (let n = length (snd c) mod 2 ^ 16 in
     ct_code (fst c) # (if n < 128 then [of_nat n] else [of_nat (n div 256) OR 0x80, of_nat (n mod 256)]) @ snd c)"

definition flat_header :: "flat_codec \<Rightarrow> bytes" where
  "flat_header fa = (
     if int (fa_col_cnt fa) - modify_times fa \<ge> 128
     then le 2 (if modify_times fa > 0 then nat ((modify_times fa OR 0x8000) mod 2 ^ 16) else fa_col_cnt fa)
     else le 1 (if modify_times fa > 0 then nat ((modify_times fa OR 0x80) mod 2 ^ 8) else fa_col_cnt fa mod 2 ^ 8))"

text \<open>\<open>old\<close> is what the output string contained.\<close>

definition FlatArray_Build :: "flat_codec \<Rightarrow> bytes \<Rightarrow> bytes option" where
  "FlatArray_Build fa old = blit 0 (flat_header fa @ concat (map flat_column (datas fa))) (resize (FlatArray_GetSize fa) old)"

section \<open>Reading\<close>

text \<open>\<open>fi_buf\<close> is the whole buffer and \<open>fi_ptr\<close> the position of the moving pointer \<open>buffer_\<close>.\<close>

record flat_iter =
  fi_buf :: bytes
  fi_ptr :: nat
  fi_col_cnt :: nat
  fi_type :: ColType
  fsize :: nat
  fi_offset :: nat

definition byte_at :: "flat_iter \<Rightarrow> nat \<Rightarrow> byte option" where
  "byte_at it i = (if fi_ptr it + i < length (fi_buf it) then Some (fi_buf it ! (fi_ptr it + i)) else None)"

definition FlatArray_Next :: "flat_iter \<Rightarrow> flat_iter option" where
  "FlatArray_Next it = (
     if fi_offset it + 2 > length (fi_buf it) then Some (it\<lparr>fi_offset := fi_offset it + 2\<rparr>)
     else do {
       type \<leftarrow> byte_at it 0;
       b0 \<leftarrow> byte_at it 1;
       if b0 AND 0x80 = 0
       then Some (it\<lparr>fi_type := ct_of type, fsize := unat b0, fi_ptr := fi_ptr it + 2, fi_offset := fi_offset it + 2\<rparr>)
       else do {
         b1 \<leftarrow> byte_at it 2;
         Some (it\<lparr>fi_type := ct_of type, fsize := unat (b0 AND 0x7F) * 256 + unat b1, fi_ptr := fi_ptr it + 3,
           fi_offset := fi_offset it + 3\<rparr>) } })"

definition new_FlatArrayIterator :: "bytes \<Rightarrow> nat \<Rightarrow> flat_iter option" where
  "new_FlatArrayIterator buffer column_size = do {
     let it = \<lparr>fi_buf = buffer, fi_ptr = 0, fi_col_cnt = 0, fi_type = ctUnknown, fsize = 0, fi_offset = 0\<rparr>;
     b0 \<leftarrow> byte_at it 0;
     if column_size < 128
     then FlatArray_Next (it\<lparr>fi_col_cnt := (if b0 AND 0x80 \<noteq> 0 then (unat (b0 AND 0x7F) + column_size) mod 2 ^ 16 else unat b0),
       fi_ptr := 1, fi_offset := 1\<rparr>)
     else do {
       n \<leftarrow> load 0 2 buffer;
       let w = (of_nat n :: 16 word);
       FlatArray_Next (it\<lparr>fi_col_cnt := (if w AND 0x0080 \<noteq> 0 then (unat (w AND 0x007F) + column_size) mod 2 ^ 16 else n),
         fi_ptr := 2, fi_offset := 2\<rparr>) } }"

definition FlatArray_Size :: "flat_iter \<Rightarrow> nat" where
  "FlatArray_Size it = fi_col_cnt it"

definition FlatArray_IsNULL :: "flat_iter \<Rightarrow> bool" where
  "FlatArray_IsNULL it = (fi_type it = ctNull \<or> fsize it = 0 \<and> fi_type it \<noteq> ctEmptyString)"

definition FlatArray_Valid :: "flat_iter \<Rightarrow> bool" where
  "FlatArray_Valid it = (\<not> (length (fi_buf it) < 2 \<or> fi_offset it > length (fi_buf it)))"

text \<open>
  The common body of the getters of the types with a fixed size: whether it succeeds, the value if it was read, and
  the iterator moved past it.
\<close>

definition fi_get :: "ColType \<Rightarrow> nat \<Rightarrow> flat_iter \<Rightarrow> (bool \<times> bytes option \<times> flat_iter) option" where
  "fi_get type n it = (
     if fi_type it \<noteq> type then Some (False, None, it)
     else if fsize it = 0 then Some (True, None, it)
     else if fi_offset it + n > length (fi_buf it) then Some (False, None, it)
     else do {
       v \<leftarrow> peek (fi_ptr it) n (fi_buf it);
       Some (True, Some v, it\<lparr>fi_ptr := fi_ptr it + n, fi_offset := fi_offset it + n\<rparr>) })"

definition FlatArray_GetFloat :: "flat_iter \<Rightarrow> (bool \<times> bytes option \<times> flat_iter) option" where
  "FlatArray_GetFloat = fi_get ctFloat 4"
definition FlatArray_GetUInt32 :: "flat_iter \<Rightarrow> (bool \<times> bytes option \<times> flat_iter) option" where
  "FlatArray_GetUInt32 = fi_get ctUInt32 4"
definition FlatArray_GetInt32 :: "flat_iter \<Rightarrow> (bool \<times> bytes option \<times> flat_iter) option" where
  "FlatArray_GetInt32 = fi_get ctInt32 4"
definition FlatArray_GetUInt64 :: "flat_iter \<Rightarrow> (bool \<times> bytes option \<times> flat_iter) option" where
  "FlatArray_GetUInt64 = fi_get ctUInt64 8"
definition FlatArray_GetBool :: "flat_iter \<Rightarrow> (bool \<times> bytes option \<times> flat_iter) option" where
  "FlatArray_GetBool = fi_get ctBool 1"
definition FlatArray_GetInt64 :: "flat_iter \<Rightarrow> (bool \<times> bytes option \<times> flat_iter) option" where
  "FlatArray_GetInt64 = fi_get ctInt64 8"
definition FlatArray_GetUInt16 :: "flat_iter \<Rightarrow> (bool \<times> bytes option \<times> flat_iter) option" where
  "FlatArray_GetUInt16 = fi_get ctUInt16 2"
definition FlatArray_GetInt16 :: "flat_iter \<Rightarrow> (bool \<times> bytes option \<times> flat_iter) option" where
  "FlatArray_GetInt16 = fi_get ctInt16 2"
definition FlatArray_GetDate :: "flat_iter \<Rightarrow> (bool \<times> bytes option \<times> flat_iter) option" where
  "FlatArray_GetDate = fi_get ctDate 8"
definition FlatArray_GetTimestamp :: "flat_iter \<Rightarrow> (bool \<times> bytes option \<times> flat_iter) option" where
  "FlatArray_GetTimestamp = fi_get ctTimestamp 8"
definition FlatArray_GetDouble :: "flat_iter \<Rightarrow> (bool \<times> bytes option \<times> flat_iter) option" where
  "FlatArray_GetDouble = fi_get ctDouble 8"

definition FlatArray_GetString :: "flat_iter \<Rightarrow> (bool \<times> bytes option \<times> flat_iter) option" where
  "FlatArray_GetString it = (
     if fi_type it \<noteq> ctString \<and> fi_type it \<noteq> ctEmptyString then Some (False, None, it)
     else if fsize it = 0 then Some (True, Some EMPTY_STRING, it)
     else if fi_offset it + fsize it > length (fi_buf it) then Some (False, None, it)
     else do {
       v \<leftarrow> peek (fi_ptr it) (fsize it) (fi_buf it);
       Some (True, Some v, it\<lparr>fi_ptr := fi_ptr it + fsize it, fi_offset := fi_offset it + fsize it\<rparr>) })"

end
