(* ===== verification/Flat_Array_Props.thy ===== *)
theory Flat_Array_Props
  imports Flat_Array Codec_Layout Byte_Bits
begin

text \<open>What was appended to a flat array is read back by its iterator.\<close>

unbundle bit_operations_syntax

section \<open>Cells\<close>

datatype flat_cell = FNull | FString bytes | FBool bool | FUInt16 "16 word" | FInt16 "16 word" | FFloat "32 word" | FInt32 "32 word"
  | FUInt32 "32 word" | FInt64 "64 word" | FUInt64 "64 word" | FTimestamp "64 word" | FDate "64 word" | FDouble "64 word"

primrec append_flat :: "flat_cell \<Rightarrow> flat_codec \<Rightarrow> (bool \<times> flat_codec) option" where
  "append_flat FNull = FlatArray_AppendNull"
| "append_flat (FString s) = FlatArray_Append_string s"
| "append_flat (FBool v) = FlatArray_Append_bool v"
| "append_flat (FUInt16 v) = FlatArray_Append_uint16 v"
| "append_flat (FInt16 v) = FlatArray_Append_int16 v"
| "append_flat (FFloat v) = FlatArray_Append_float v"
| "append_flat (FInt32 v) = FlatArray_Append_int32 v"
| "append_flat (FUInt32 v) = FlatArray_Append_uint32 v"
| "append_flat (FInt64 v) = FlatArray_Append_int64 v"
| "append_flat (FUInt64 v) = FlatArray_Append_uint64 v"
| "append_flat (FTimestamp v) = FlatArray_AppendTimestamp v"
| "append_flat (FDate v) = FlatArray_AppendDate v"
| "append_flat (FDouble v) = FlatArray_Append_double v"

fun append_flats :: "flat_cell list \<Rightarrow> flat_codec \<Rightarrow> (bool \<times> flat_codec) option" where
  "append_flats [] fa = Some (True, fa)"
| "append_flats (c # cs) fa = do { (ok, fa1) \<leftarrow> append_flat c fa; if ok then append_flats cs fa1 else Some (False, fa1) }"

fun flat_col :: "flat_cell \<Rightarrow> ColType \<times> bytes" where
  "flat_col FNull = (ctNull, [])"
| "flat_col (FString s) = (if s = [] then ctEmptyString else ctString, s)"
| "flat_col (FBool v) = (ctBool, [if v then 1 else 0])"
| "flat_col (FUInt16 v) = (ctUInt16, le 2 (unat v))"
| "flat_col (FInt16 v) = (ctInt16, le 2 (unat v))"
| "flat_col (FFloat v) = (ctFloat, le 4 (unat v))"
| "flat_col (FInt32 v) = (ctInt32, le 4 (unat v))"
| "flat_col (FUInt32 v) = (ctUInt32, le 4 (unat v))"
| "flat_col (FInt64 v) = (ctInt64, le 8 (unat v))"
| "flat_col (FUInt64 v) = (ctUInt64, le 8 (unat v))"
| "flat_col (FTimestamp v) = (ctTimestamp, le 8 (unat v))"
| "flat_col (FDate v) = (ctDate, le 8 (unat v))"
| "flat_col (FDouble v) = (ctDouble, le 8 (unat v))"

definition flat_got :: "(bytes \<Rightarrow> flat_cell) \<Rightarrow> (bool \<times> bytes option \<times> flat_iter) option \<Rightarrow> (flat_cell \<times> flat_iter) option" where
  "flat_got f g = do { (ok, v, it) \<leftarrow> g; x \<leftarrow> v; if ok then Some (f x, it) else None }"

definition read_flat :: "flat_iter \<Rightarrow> (flat_cell \<times> flat_iter) option" where
  "read_flat it = (if FlatArray_IsNULL it then Some (FNull, it)
     else case fi_type it of
       ctString \<Rightarrow> flat_got FString (FlatArray_GetString it)
     | ctEmptyString \<Rightarrow> flat_got FString (FlatArray_GetString it)
     | ctBool \<Rightarrow> flat_got (\<lambda>x. FBool (x = [1])) (FlatArray_GetBool it)
     | ctUInt16 \<Rightarrow> flat_got (\<lambda>x. FUInt16 (of_nat (unle x))) (FlatArray_GetUInt16 it)
     | ctInt16 \<Rightarrow> flat_got (\<lambda>x. FInt16 (of_nat (unle x))) (FlatArray_GetInt16 it)
     | ctFloat \<Rightarrow> flat_got (\<lambda>x. FFloat (of_nat (unle x))) (FlatArray_GetFloat it)
     | ctInt32 \<Rightarrow> flat_got (\<lambda>x. FInt32 (of_nat (unle x))) (FlatArray_GetInt32 it)
     | ctUInt32 \<Rightarrow> flat_got (\<lambda>x. FUInt32 (of_nat (unle x))) (FlatArray_GetUInt32 it)
     | ctInt64 \<Rightarrow> flat_got (\<lambda>x. FInt64 (of_nat (unle x))) (FlatArray_GetInt64 it)
     | ctUInt64 \<Rightarrow> flat_got (\<lambda>x. FUInt64 (of_nat (unle x))) (FlatArray_GetUInt64 it)
     | ctTimestamp \<Rightarrow> flat_got (\<lambda>x. FTimestamp (of_nat (unle x))) (FlatArray_GetTimestamp it)
     | ctDate \<Rightarrow> flat_got (\<lambda>x. FDate (of_nat (unle x))) (FlatArray_GetDate it)
     | ctDouble \<Rightarrow> flat_got (\<lambda>x. FDouble (of_nat (unle x))) (FlatArray_GetDouble it)
     | _ \<Rightarrow> None)"

text \<open>Reading cells while the iterator is valid.\<close>

fun read_flats :: "nat \<Rightarrow> flat_iter \<Rightarrow> (flat_cell list \<times> flat_iter) option" where
  "read_flats 0 it = Some ([], it)"
| "read_flats (Suc n) it = (if FlatArray_Valid it then do {
     (c, it1) \<leftarrow> read_flat it; it2 \<leftarrow> FlatArray_Next it1; (cs, it3) \<leftarrow> read_flats n it2; Some (c # cs, it3) } else None)"

section \<open>Appending\<close>

definition flat_fits :: "flat_cell \<Rightarrow> bool" where
  "flat_fits c = (case c of FString s \<Rightarrow> length s \<le> MAX_STRING_LENGTH | _ \<Rightarrow> True)"

lemma append_flat_eq:
  assumes "flat_fits c" "fa_cur_cnt fa < fa_col_cnt fa" "length (datas fa) = fa_col_cnt fa" "datas fa ! fa_cur_cnt fa = (ctString, [])"
  shows "append_flat c fa = Some (True, fa\<lparr>datas := (datas fa)[fa_cur_cnt fa := flat_col c], fa_cur_cnt := fa_cur_cnt fa + 1\<rparr>)"
proof -
  have "append_flat c fa = fa_append (fst (flat_col c)) (snd (flat_col c)) fa"
    using assms(1,2)
    by (cases c) (simp_all add: FlatArray_AppendNull_def FlatArray_Append_string_def FlatArray_Append_bool_def
        FlatArray_Append_uint16_def FlatArray_Append_int16_def FlatArray_Append_float_def FlatArray_Append_int32_def
        FlatArray_Append_int64_def FlatArray_Append_uint32_def FlatArray_Append_uint64_def FlatArray_AppendTimestamp_def
        FlatArray_AppendDate_def FlatArray_Append_double_def flat_fits_def)
  then show ?thesis using assms by (cases "flat_col c") (auto simp: fa_append_def FlatArray_Encode_def)
qed

lemma append_flats_eq:
  assumes "list_all flat_fits cs" "fa_cur_cnt fa + length cs = fa_col_cnt fa" "datas fa = ds @ replicate (length cs) (ctString, [])"
    "length ds = fa_cur_cnt fa"
  shows "\<exists>fa'. append_flats cs fa = Some (True, fa') \<and> datas fa' = ds @ map flat_col cs \<and> fa_col_cnt fa' = fa_col_cnt fa \<and>
    modify_times fa' = modify_times fa"
  using assms
proof (induction cs arbitrary: fa ds)
  case (Cons c cs)
  let ?fa = "fa\<lparr>datas := (datas fa)[fa_cur_cnt fa := flat_col c], fa_cur_cnt := fa_cur_cnt fa + 1\<rparr>"
  have "append_flat c fa = Some (True, ?fa)"
    using Cons.prems by (intro append_flat_eq) (simp_all add: nth_append)
  moreover have "datas ?fa = (ds @ [flat_col c]) @ replicate (length cs) (ctString, [])"
    using Cons.prems by (simp add: list_update_append)
  ultimately show ?case using Cons.IH[of ?fa "ds @ [flat_col c]"] Cons.prems by auto
qed simp

section \<open>The bytes of a column\<close>

definition col_head :: "bytes \<Rightarrow> bytes" where
  "col_head b = (if length b < 128 then [of_nat (length b)] else [of_nat (length b div 256) OR 0x80, of_nat (length b mod 256)])"

lemma flat_column_eq: "length (snd c) \<le> 32767 \<Longrightarrow> flat_column c = ct_code (fst c) # col_head (snd c) @ snd c"
  by (simp add: flat_column_def col_head_def Let_def)

lemma flat_GetSize:
  "fold (\<lambda>(_, b) n. n + length b + 2 + (if length b \<ge> 128 then 1 else 0)) ds k =
     k + length (concat (map (\<lambda>c. ct_code (fst c) # col_head (snd c) @ snd c) ds))"
  by (induction ds arbitrary: k) (auto simp: col_head_def)

lemma head_bits:
  assumes n: "n < 128"
  shows "(of_nat n :: byte) AND 0x80 = 0"
    "((of_nat n :: byte) OR 0x80) AND 0x80 \<noteq> 0 \<and> unat (((of_nat n :: byte) OR 0x80) AND 0x7F) = n"
proof -
  have u: "unat (of_nat n :: byte) = n" using n by (simp add: unat_of_nat)
  show "(of_nat n :: byte) AND 0x80 = 0" using and128[of "of_nat n"] u n by auto
  show "((of_nat n :: byte) OR 0x80) AND 0x80 \<noteq> 0 \<and> unat (((of_nat n :: byte) OR 0x80) AND 0x7F) = n"
    using and128[of "of_nat n OR 128"] and127[of "of_nat n OR 128"] or128[of "of_nat n"] u n by auto
qed

section \<open>Stepping over a column\<close>

abbreviation col_at :: "ColType \<times> bytes \<Rightarrow> bytes" where
  "col_at c \<equiv> ct_code (fst c) # col_head (snd c) @ snd c"

lemma Next_col:
  assumes "fi_buf it = a @ col_at c @ r" "fi_ptr it = length a" "fi_offset it = length a" "fst c \<in> set ct_named" "length (snd c) \<le> 32767"
  shows "FlatArray_Next it = Some (it\<lparr>fi_type := fst c, fsize := length (snd c), fi_ptr := length a + 1 + length (col_head (snd c)),
    fi_offset := length a + 1 + length (col_head (snd c))\<rparr>)"
proof -
  let ?n = "length (snd c)"
  have b0: "byte_at it 0 = Some (ct_code (fst c))" using assms(1,2) by (simp add: byte_at_def nth_append)
  have ct: "ct_of (ct_code (fst c)) = fst c"
    using assms(4) unfolding ct_of_def ct_named_def by (auto split: if_splits)
  have len: "\<not> fi_offset it + 2 > length (fi_buf it)" using assms(1,3) by (auto simp: col_head_def)
  show ?thesis
  proof (cases "?n < 128")
    case True
    then have "byte_at it 1 = Some (of_nat ?n)" using assms(1,2) by (simp add: byte_at_def nth_append col_head_def)
    then show ?thesis
      using True b0 ct len head_bits(1)[OF True] assms(2,3) by (simp add: FlatArray_Next_def col_head_def unat_of_nat)
  next
    case False
    then have "byte_at it 1 = Some (of_nat (?n div 256) OR 0x80)" "byte_at it 2 = Some (of_nat (?n mod 256))"
      using assms(1,2) by (simp_all add: byte_at_def nth_append col_head_def numeral_2_eq_2)
    moreover have d: "?n div 256 < 128" using assms(5) by auto
    moreover have "unat (of_nat (?n mod 256) :: byte) = ?n mod 256" by (simp add: unat_of_nat)
    ultimately show ?thesis
      using False b0 ct len head_bits(2)[OF d] assms(2,3) by (simp add: FlatArray_Next_def col_head_def)
  qed
qed

text \<open>The cell that reading returns: an empty string reads as a token.\<close>

definition flat_shown :: "flat_cell \<Rightarrow> flat_cell" where
  "flat_shown c = (if c = FString [] then FString EMPTY_STRING else c)"

lemma fi_get_data:
  assumes "fi_buf it = a @ b @ r" "fi_ptr it = length a" "fi_offset it = length a" "fsize it = length b" "b \<noteq> []" "fi_type it = t" "length b = n"
  shows "fi_get t n it = Some (True, Some b, it\<lparr>fi_ptr := length (a @ b), fi_offset := length (a @ b)\<rparr>)"
  using assms length_greater_0_conv[of b] unfolding fi_get_def peek_def by simp

lemma read_col:
  assumes "fi_buf it = a @ snd (flat_col c) @ r" "fi_ptr it = length a" "fi_offset it = length a" "fsize it = length (snd (flat_col c))"
    "fi_type it = fst (flat_col c)"
  shows "read_flat it = Some (flat_shown c, it\<lparr>fi_ptr := length (a @ snd (flat_col c)), fi_offset := length (a @ snd (flat_col c))\<rparr>)"
proof -
  have ne: "le 2 n \<noteq> []" "le 4 n \<noteq> []" "le 8 n \<noteq> []" for n
    by (metis length_le list.size(3) zero_neq_numeral)+
  note get = fi_get_data[OF assms(1-4) _ assms(5)]
  show ?thesis
    using assms get ne
    by (cases c) (simp_all add: read_flat_def flat_shown_def FlatArray_IsNULL_def flat_got_def FlatArray_GetString_def
        FlatArray_GetBool_def FlatArray_GetUInt16_def FlatArray_GetInt16_def FlatArray_GetFloat_def FlatArray_GetInt32_def
        FlatArray_GetUInt32_def FlatArray_GetInt64_def FlatArray_GetUInt64_def FlatArray_GetTimestamp_def FlatArray_GetDate_def
        FlatArray_GetDouble_def peek_def)
qed

section \<open>Reading a whole array\<close>

lemma flat_col_ok: "flat_fits c \<Longrightarrow> fst (flat_col c) \<in> set ct_named \<and> length (snd (flat_col c)) \<le> 32767"
  by (cases c) (simp_all add: ct_named_def flat_fits_def MAX_STRING_LENGTH_def)

text \<open>The iterator stands after the head of a column; the remaining columns follow.\<close>

definition at_col :: "flat_iter \<Rightarrow> bytes \<Rightarrow> flat_cell list \<Rightarrow> bool" where
  "at_col it a cs \<longleftrightarrow> (case cs of
     [] \<Rightarrow> \<not> FlatArray_Valid it
   | c # cs' \<Rightarrow> fi_buf it = a @ snd (flat_col c) @ concat (map (\<lambda>c. col_at (flat_col c)) cs') \<and> fi_ptr it = length a \<and>
       fi_offset it = length a \<and> fsize it = length (snd (flat_col c)) \<and> fi_type it = fst (flat_col c) \<and> 2 \<le> length a)"

lemma Next_at_col:
  assumes "fi_buf it = a @ concat (map (\<lambda>c. col_at (flat_col c)) cs)" "fi_ptr it = length a" "fi_offset it = length a"
    "list_all flat_fits cs" "1 \<le> length a"
  shows "\<exists>it' a'. FlatArray_Next it = Some it' \<and> at_col it' a' cs \<and> fi_col_cnt it' = fi_col_cnt it"
proof (cases cs)
  case Nil
  then show ?thesis using assms by (simp add: FlatArray_Next_def at_col_def FlatArray_Valid_def)
next
  case (Cons c cs')
  let ?a = "a @ ct_code (fst (flat_col c)) # col_head (snd (flat_col c))"
  have "fst (flat_col c) \<in> set ct_named" "length (snd (flat_col c)) \<le> 32767" using assms(4) Cons flat_col_ok[of c] by simp_all
  then have "FlatArray_Next it = Some (it\<lparr>fi_type := fst (flat_col c), fsize := length (snd (flat_col c)), fi_ptr := length ?a, fi_offset := length ?a\<rparr>)"
    using Next_col[of it a "flat_col c" "concat (map (\<lambda>c. col_at (flat_col c)) cs')"] assms(1-3) Cons by simp
  then show ?thesis using assms(1,5) Cons by (intro exI[of _ "it\<lparr>fi_type := fst (flat_col c), fsize := length (snd (flat_col c)), fi_ptr := length ?a, fi_offset := length ?a\<rparr>"] exI[of _ ?a])
      (auto simp: at_col_def)
qed

lemma read_flats_ok:
  assumes "at_col it a cs" "list_all flat_fits cs"
  shows "\<exists>it'. read_flats (length cs) it = Some (map flat_shown cs, it') \<and> \<not> FlatArray_Valid it'"
  using assms
proof (induction cs arbitrary: it a)
  case Nil
  then show ?case by (simp add: at_col_def)
next
  case (Cons c cs)
  let ?b = "snd (flat_col c)"
  let ?it = "it\<lparr>fi_ptr := length (a @ ?b), fi_offset := length (a @ ?b)\<rparr>"
  have r: "read_flat it = Some (flat_shown c, ?it)" using Cons.prems(1) by (intro read_col) (simp_all add: at_col_def)
  have v: "FlatArray_Valid it" using Cons.prems(1) by (simp add: at_col_def FlatArray_Valid_def)
  obtain it2 a2 where 2: "FlatArray_Next ?it = Some it2" "at_col it2 a2 cs"
    using Next_at_col[of ?it "a @ ?b" cs] Cons.prems by (auto simp: at_col_def)
  show ?case using Cons.IH[OF 2(2)] Cons.prems(2) r v 2(1) by auto
qed

section \<open>Round trip\<close>

definition flat_layout :: "flat_cell list \<Rightarrow> bytes" where
  "flat_layout cs = le (if length cs < 128 then 1 else 2) (length cs) @ concat (map (\<lambda>c. col_at (flat_col c)) cs)"

lemma le_one: "le (Suc 0) n = [of_nat n]"
  by (simp add: le_def)

lemma build_flat:
  assumes "list_all flat_fits cs" "length cs < 2 ^ 16"
  shows "\<exists>fa. append_flats cs (new_FlatArrayCodec (length cs) 0) = Some (True, fa) \<and> FlatArray_Build fa old = Some (flat_layout cs)"
proof -
  obtain fa where fa: "append_flats cs (new_FlatArrayCodec (length cs) 0) = Some (True, fa)" "datas fa = map flat_col cs"
    "fa_col_cnt fa = length cs" "modify_times fa = 0"
    using append_flats_eq[OF assms(1), of "new_FlatArrayCodec (length cs) 0" "[]"] by (auto simp: new_FlatArrayCodec_def)
  have "map flat_column (map flat_col cs) = map (\<lambda>c. col_at (flat_col c)) cs"
    using assms(1) flat_col_ok by (auto simp: list_all_iff flat_column_eq)
  then have w: "flat_header fa @ concat (map flat_column (datas fa)) = flat_layout cs"
    using fa(2-4) by (simp add: flat_header_def flat_layout_def comp_def cong: map_cong)
  have "FlatArray_GetSize fa = length (flat_layout cs)"
    using fa(2) flat_GetSize[of "map flat_col cs" "if length cs \<ge> 128 then 2 else 1"]
    by (simp add: FlatArray_GetSize_def flat_layout_def comp_def)
  moreover have "length (resize n old) = n" for n by (simp add: resize_def)
  ultimately have "FlatArray_Build fa old = Some (flat_layout cs)" unfolding FlatArray_Build_def w by (simp add: blit_def)
  then show ?thesis using fa(1) by blast
qed

lemma new_flat_iterator:
  assumes "list_all flat_fits cs" "cs \<noteq> []" "length cs < 2 ^ 16"
  shows "\<exists>it a. new_FlatArrayIterator (flat_layout cs) (length cs) = Some it \<and> at_col it a cs"
proof (cases "length cs < 128")
  case True
  let ?it = "\<lparr>fi_buf = flat_layout cs, fi_ptr = 1, fi_col_cnt = length cs, fi_type = ctUnknown, fsize = 0, fi_offset = 1\<rparr>"
  have "new_FlatArrayIterator (flat_layout cs) (length cs) = FlatArray_Next ?it"
    using True head_bits(1)[OF True] unat_of_nat[where ?'a = 8, of "length cs"]
    by (simp add: new_FlatArrayIterator_def byte_at_def flat_layout_def le_one)
  moreover have "\<exists>it' a'. FlatArray_Next ?it = Some it' \<and> at_col it' a' cs \<and> fi_col_cnt it' = fi_col_cnt ?it"
    using True assms(1) by (intro Next_at_col[of ?it "le 1 (length cs)"]) (simp_all add: flat_layout_def)
  ultimately show ?thesis by auto
next
  case False
  have l: "length (le 2 (length cs)) = 2" by simp
  have "load 0 2 (flat_layout cs) = Some (length cs)"
    using False assms(3) by (simp add: load_def peek_def flat_layout_def unle_le_eq)
  moreover have "\<exists>b0. byte_at \<lparr>fi_buf = flat_layout cs, fi_ptr = 0, fi_col_cnt = 0, fi_type = ctUnknown, fsize = 0, fi_offset = 0\<rparr> 0 = Some b0"
    using False by (simp add: byte_at_def flat_layout_def)
  moreover have "\<exists>it' a'. FlatArray_Next \<lparr>fi_buf = flat_layout cs, fi_ptr = 2, fi_col_cnt = n, fi_type = ctUnknown, fsize = 0, fi_offset = 2\<rparr> = Some it' \<and>
      at_col it' a' cs" for n
    using Next_at_col[of "\<lparr>fi_buf = flat_layout cs, fi_ptr = 2, fi_col_cnt = n, fi_type = ctUnknown, fsize = 0, fi_offset = 2\<rparr>" "le 2 (length cs)" cs]
      False assms(1) by (auto simp: flat_layout_def)
  ultimately show ?thesis using False by (elim exE) (simp add: new_FlatArrayIterator_def Let_def)
qed

text \<open>C23: the old row format round trip, without modify times.  Any number of cells up to 65535, with strings of up to 32767 bytes: every append
  succeeds, the array is built inside the size computed for it, whatever the output string contained, and the
  iterator returns the same cells in order and is then invalid.  A null reads as null; an empty string, however,
  reads as the token for empty strings.\<close>

theorem flat_roundtrip:
  assumes "list_all flat_fits cs" "cs \<noteq> []" "length cs < 2 ^ 16"
  shows "\<exists>fa b it it'. append_flats cs (new_FlatArrayCodec (length cs) 0) = Some (True, fa) \<and> FlatArray_Build fa old = Some b \<and>
    new_FlatArrayIterator b (length cs) = Some it \<and> read_flats (length cs) it = Some (map flat_shown cs, it') \<and> \<not> FlatArray_Valid it'"
proof -
  obtain fa where 1: "append_flats cs (new_FlatArrayCodec (length cs) 0) = Some (True, fa)" "FlatArray_Build fa old = Some (flat_layout cs)"
    using build_flat[OF assms(1,3)] by blast
  obtain it a where 2: "new_FlatArrayIterator (flat_layout cs) (length cs) = Some it" "at_col it a cs"
    using new_flat_iterator[OF assms] by blast
  then show ?thesis using 1 read_flats_ok[OF 2(2) assms(1)] by blast
qed

theorem flat_roundtrip_witness:
  "\<exists>fa b it it'. append_flats [FInt32 7, FNull, FString []] (new_FlatArrayCodec 3 0) = Some (True, fa) \<and>
    FlatArray_Build fa [1, 2, 3] = Some b \<and> new_FlatArrayIterator b 3 = Some it \<and>
    read_flats 3 it = Some ([FInt32 7, FNull, FString EMPTY_STRING], it') \<and> \<not> FlatArray_Valid it'"
proof -
  let ?cs = "[FInt32 7, FNull, FString []]"
  have "list_all flat_fits ?cs" "?cs \<noteq> []" "length ?cs < 2 ^ 16" by (simp_all add: flat_fits_def)
  note w = flat_roundtrip[OF this, of "[1, 2, 3]"]
  have "length ?cs = 3" "map flat_shown ?cs = [FInt32 7, FNull, FString EMPTY_STRING]" by (simp_all add: flat_shown_def)
  then show ?thesis using w by (simp only:)
qed

text \<open>
  The count of columns that \<open>Size\<close> returns: with 128 or more columns the reader takes a count whose low byte has
  its top bit set for a number of added columns.
\<close>

lemma flat_Size_wrong: "\<exists>it. new_FlatArrayIterator (flat_layout (replicate 200 FNull)) 200 = Some it \<and> FlatArray_Size it = 272"
proof -
  have l: "load 0 2 (flat_layout (replicate 200 FNull)) = Some 200"
    by (simp add: load_def peek_def flat_layout_def unle_le_eq)
  have "byte_at \<lparr>fi_buf = flat_layout (replicate 200 FNull), fi_ptr = 0, fi_col_cnt = 0, fi_type = ctUnknown, fsize = 0, fi_offset = 0\<rparr> 0 \<noteq> None"
    by (simp add: byte_at_def flat_layout_def)
  moreover have "\<exists>it' a'. FlatArray_Next \<lparr>fi_buf = flat_layout (replicate 200 FNull), fi_ptr = 2, fi_col_cnt = 272, fi_type = ctUnknown, fsize = 0, fi_offset = 2\<rparr> = Some it' \<and>
      at_col it' a' (replicate 200 FNull) \<and> fi_col_cnt it' = 272"
    using Next_at_col[of "\<lparr>fi_buf = flat_layout (replicate 200 FNull), fi_ptr = 2, fi_col_cnt = 272, fi_type = ctUnknown, fsize = 0, fi_offset = 2\<rparr>"
        "le 2 200" "replicate 200 FNull"] by (auto simp: flat_layout_def flat_fits_def list_all_iff)
  ultimately show ?thesis using l by (auto simp: new_FlatArrayIterator_def Let_def FlatArray_Size_def)
qed

end
