(* ===== verification/Row_Codec.thy ===== *)
theory Row_Codec
  imports Codec_Project Flat_Array
begin

text \<open>
  Rows as texts and blocks of rows: \<open>src/codec/row_codec.h\<close>.  \<open>RowCodec\<close> encodes a list or a map of texts as a row and
  decodes a row to texts, in the row format and in the old format; the free functions pack rows, with their times
  and keys, into the blocks that clients receive.
\<close>

unbundle bit_operations_syntax

section \<open>Rows from texts\<close>

definition null_text :: "bytes \<Rightarrow> bool" where
  "null_text v = (v = ascii ''null'' \<or> v = NONETOKEN)"

text \<open>Lengths are accumulated in a signed integer of 32 bits; the result \<open>-1\<close> is an error.\<close>

definition s32 :: "int \<Rightarrow> int" where
  "s32 i = sint (word_of_int i :: 32 word)"

fun str_length :: "schema \<Rightarrow> bytes option list \<Rightarrow> int \<Rightarrow> int" where
  "str_length (c # cs) (v # vs) str_len = (
     if is_string (data_type c) then (case v of
         None \<Rightarrow> -1
       | Some v \<Rightarrow>
           if \<not> not_null c \<and> null_text v then str_length cs vs str_len
           else if null_text v then -1
           else str_length cs vs (s32 (str_len + int (length v))))
     else str_length cs vs str_len)"
| "str_length _ _ str_len = str_len"

definition CalStrLength :: "bytes list \<Rightarrow> schema \<Rightarrow> int" where
  "CalStrLength input_value sch = (if length input_value \<noteq> length sch then -1 else str_length sch (map Some input_value) 0)"

definition CalStrLength_map :: "(string \<times> bytes) list \<Rightarrow> schema \<Rightarrow> int" where
  "CalStrLength_map str_map sch = str_length sch (map (\<lambda>c. map_of str_map (col_name c)) sch) 0"

text \<open>
  The loop of both \<open>EncodeRow\<close> functions over the columns and their texts: a code and the builder.  A column without
  a text is an error.
\<close>

fun encode_values :: "lexical \<Rightarrow> row_builder \<Rightarrow> schema \<Rightarrow> bytes option list \<Rightarrow> (int \<times> row_builder) option" where
  "encode_values lx rb (c # cs) (v # vs) = (case v of
     None \<Rightarrow> Some (-1, rb)
   | Some v \<Rightarrow>
       if \<not> not_null c \<and> null_text v then do { (_, rb1) \<leftarrow> AppendNULL rb; encode_values lx rb1 cs vs }
       else if null_text v then Some (-1, rb)
       else do { (ok, rb1) \<leftarrow> AppendValue lx rb v; if ok then encode_values lx rb1 cs vs else Some (-1, rb1) })"
| "encode_values lx rb _ _ = Some (0, rb)"

text \<open>The code and the row; the builder writes into the row, which is resized first.\<close>

definition encode_row :: "lexical \<Rightarrow> schema \<Rightarrow> bytes option list \<Rightarrow> int \<Rightarrow> nat \<Rightarrow> bytes \<Rightarrow> (int \<times> bytes) option" where
  "encode_row lx sch vals str_len version out = (
     if str_len < 0 then Some (-1, out)
     else do {
       let builder = SetSchemaVersion (new_RowBuilder sch) (of_nat version);
       let sz = CalTotalLength builder (nat str_len);
       (_, rb) \<leftarrow> SetBuffer builder (Some (resize sz out)) sz True;
       (code, rb1) \<leftarrow> encode_values lx rb sch vals;
       res \<leftarrow> buf rb1;
       Some (code, res) })"

definition EncodeRow :: "lexical \<Rightarrow> bytes list \<Rightarrow> schema \<Rightarrow> nat \<Rightarrow> bytes \<Rightarrow> (int \<times> bytes) option" where
  "EncodeRow lx input_value sch version out = (
     if input_value = [] \<or> length input_value \<noteq> length sch then Some (-1, out)
     else encode_row lx sch (map Some input_value) (CalStrLength input_value sch) version out)"

definition EncodeRow_map :: "lexical \<Rightarrow> (string \<times> bytes) list \<Rightarrow> schema \<Rightarrow> nat \<Rightarrow> bytes \<Rightarrow> (int \<times> bytes) option" where
  "EncodeRow_map lx str_map sch version out = (
     if str_map = [] \<or> length str_map \<noteq> length sch then Some (-1, out)
     else encode_row lx sch (map (\<lambda>c. map_of str_map (col_name c)) sch) (CalStrLength_map str_map sch) version out)"

section \<open>Rows of the old format from texts\<close>

text \<open>The parsers of the remaining types; \<open>lex_date\<close> is \<open>strptime\<close> and \<open>mktime\<close> on a date at midnight, in milliseconds.\<close>

record lexical_flat = lexical +
  lex_uint16 :: "bytes \<Rightarrow> 16 word option"
  lex_uint64 :: "bytes \<Rightarrow> 64 word option"
  lex_date :: "bytes \<Rightarrow> 64 word option"

text \<open>An exception of a parser and a failed append both make the function return an error.\<close>

definition flat_parsed :: "('a \<Rightarrow> flat_codec \<Rightarrow> (bool \<times> flat_codec) option) \<Rightarrow> 'a option \<Rightarrow> flat_codec \<Rightarrow> (bool \<times> flat_codec) option" where
  "flat_parsed app v fa = (case v of None \<Rightarrow> Some (False, fa) | Some x \<Rightarrow> app x fa)"

text \<open>The text of a date and its time are copied to a buffer of 20 bytes.\<close>

definition append_text :: "lexical_flat \<Rightarrow> ColType \<Rightarrow> bytes \<Rightarrow> flat_codec \<Rightarrow> (bool \<times> flat_codec) option" where
  "append_text lx t v fa = (case t of
     ctInt32 \<Rightarrow> flat_parsed FlatArray_Append_int32 (lex_int32 lx v) fa
   | ctInt64 \<Rightarrow> flat_parsed FlatArray_Append_int64 (lex_int64 lx v) fa
   | ctUInt32 \<Rightarrow> if take 1 v = [45] then Some (False, fa) else flat_parsed FlatArray_Append_uint32 (lex_uint32 lx v) fa
   | ctUInt64 \<Rightarrow> if take 1 v = [45] then Some (False, fa) else flat_parsed FlatArray_Append_uint64 (lex_uint64 lx v) fa
   | ctFloat \<Rightarrow> flat_parsed FlatArray_Append_float (lex_float lx v) fa
   | ctDouble \<Rightarrow> flat_parsed FlatArray_Append_double (lex_double lx v) fa
   | ctString \<Rightarrow> FlatArray_Append_string v fa
   | ctTimestamp \<Rightarrow> flat_parsed FlatArray_AppendTimestamp (lex_uint64 lx v) fa
   | ctDate \<Rightarrow> do { assert_that (length v + length '' 00:00:00'' < 20); flat_parsed FlatArray_AppendDate (lex_date lx v) fa }
   | ctInt16 \<Rightarrow> flat_parsed FlatArray_Append_int16 (lex_int16 lx v) fa
   | ctUInt16 \<Rightarrow> flat_parsed FlatArray_Append_uint16 (lex_uint16 lx v) fa
   | ctBool \<Rightarrow> (let raw_value = map tolower v in
       if raw_value = ascii ''true'' then FlatArray_Append_bool True fa
       else if raw_value = ascii ''false'' then FlatArray_Append_bool False fa else Some (False, fa))
   | _ \<Rightarrow> FlatArray_AppendNull fa)"

fun append_texts :: "lexical_flat \<Rightarrow> (ColType \<times> bytes) list \<Rightarrow> flat_codec \<Rightarrow> (bool \<times> flat_codec) option" where
  "append_texts lx [] fa = Some (True, fa)"
| "append_texts lx ((t, v) # tvs) fa = do { (ok, fa1) \<leftarrow> append_text lx t v fa; if ok then append_texts lx tvs fa1 else Some (False, fa1) }"

definition EncodeRow_flat :: "lexical_flat \<Rightarrow> bytes list \<Rightarrow> col_desc list \<Rightarrow> int \<Rightarrow> bytes \<Rightarrow> (int \<times> bytes) option" where
  "EncodeRow_flat lx input_value columns modify old = (
     if length input_value \<noteq> length columns then Some (-1, old)
     else do {
       (ok, fa) \<leftarrow> append_texts lx (zip (map cd_type columns) input_value) (new_FlatArrayCodec (length input_value mod 2 ^ 16) modify);
       if ok then do { out \<leftarrow> FlatArray_Build fa old; Some (0, out) } else Some (-1, old) })"

section \<open>Texts from rows\<close>

fun decode_values :: "float_text \<Rightarrow> row_view \<Rightarrow> bool \<Rightarrow> nat list \<Rightarrow> bytes list option" where
  "decode_values ft rv replace_empty_str [] = Some []"
| "decode_values ft rv replace_empty_str (i # is) = do {
     b \<leftarrow> row rv;
     null \<leftarrow> RowView_IsNULL b i;
     col \<leftarrow> (if null then Some NONETOKEN else do {
       (_, v) \<leftarrow> GetStrValue ft rv (Some b) i;
       let col = (case v of Some s \<Rightarrow> s | None \<Rightarrow> []);
       Some (if replace_empty_str \<and> col = [] then EMPTY_STRING else col) });
     cols \<leftarrow> decode_values ft rv replace_empty_str is;
     Some (col # cols) }"

text \<open>All columns before the end are decoded; \<open>start\<close> only moves the end.\<close>

definition DecodeRow_view :: "float_text \<Rightarrow> schema \<Rightarrow> row_view \<Rightarrow> bool \<Rightarrow> int \<Rightarrow> int \<Rightarrow> (bool \<times> bytes list) option" where
  "DecodeRow_view ft sch rv replace_empty_str start len = (
     if len \<le> 0 then Some (False, [])
     else map_option (Pair True) (decode_values ft rv replace_empty_str [0..<min (nat (start + len)) (length sch)]))"

definition DecodeRow :: "float_text \<Rightarrow> schema \<Rightarrow> bytes \<Rightarrow> (bool \<times> bytes list) option" where
  "DecodeRow ft sch value = do {
     rv \<leftarrow> new_RowView_row sch (Some value) (length value);
     DecodeRow_view ft sch rv False 0 (int (length sch)) }"

section \<open>Texts from rows of the old format\<close>

text \<open>\<open>date_str\<close> is \<open>localtime\<close> and \<open>strftime\<close>; a getter that fails leaves the default.\<close>

definition got_default :: "(bool \<times> bytes option \<times> flat_iter) option \<Rightarrow> (nat \<times> flat_iter) option" where
  "got_default g = map_option (\<lambda>(_, v, it). (case v of Some x \<Rightarrow> unle x | None \<Rightarrow> 0, it)) g"

definition flat_text :: "float_text \<Rightarrow> (64 word \<Rightarrow> bytes) \<Rightarrow> flat_iter \<Rightarrow> (bytes \<times> flat_iter) option" where
  "flat_text ft date_str it = (
     if FlatArray_IsNULL it then Some (NONETOKEN, it)
     else case fi_type it of
       ctString \<Rightarrow> map_option (\<lambda>(_, v, it). (case v of Some x \<Rightarrow> x | None \<Rightarrow> [], it)) (FlatArray_GetString it)
     | ctEmptyString \<Rightarrow> map_option (\<lambda>(_, v, it). (case v of Some x \<Rightarrow> x | None \<Rightarrow> [], it)) (FlatArray_GetString it)
     | ctUInt16 \<Rightarrow> map_option (apfst dec) (got_default (FlatArray_GetUInt16 it))
     | ctInt16 \<Rightarrow> map_option (apfst (\<lambda>n. dec_int (sint (of_nat n :: 16 word)))) (got_default (FlatArray_GetInt16 it))
     | ctInt32 \<Rightarrow> map_option (apfst (\<lambda>n. dec_int (sint (of_nat n :: 32 word)))) (got_default (FlatArray_GetInt32 it))
     | ctInt64 \<Rightarrow> map_option (apfst (\<lambda>n. dec_int (sint (of_nat n :: 64 word)))) (got_default (FlatArray_GetInt64 it))
     | ctUInt32 \<Rightarrow> map_option (apfst dec) (got_default (FlatArray_GetUInt32 it))
     | ctUInt64 \<Rightarrow> map_option (apfst dec) (got_default (FlatArray_GetUInt64 it))
     | ctDouble \<Rightarrow> map_option (apfst (\<lambda>n. text_double ft (of_nat n))) (got_default (FlatArray_GetDouble it))
     | ctFloat \<Rightarrow> map_option (apfst (\<lambda>n. text_float ft (of_nat n))) (got_default (FlatArray_GetFloat it))
     | ctTimestamp \<Rightarrow> map_option (apfst dec) (got_default (FlatArray_GetTimestamp it))
     | ctDate \<Rightarrow> map_option (apfst (\<lambda>n. date_str (of_nat n))) (got_default (FlatArray_GetDate it))
     | ctBool \<Rightarrow> map_option (apfst (\<lambda>n. ascii (if n = 1 then ''true'' else ''false''))) (got_default (FlatArray_GetBool it))
     | _ \<Rightarrow> Some ([], it))"

fun flat_texts :: "float_text \<Rightarrow> (64 word \<Rightarrow> bytes) \<Rightarrow> nat \<Rightarrow> flat_iter \<Rightarrow> bytes list option" where
  "flat_texts ft date_str 0 it = Some []"
| "flat_texts ft date_str (Suc get_row_num) it = (
     if \<not> FlatArray_Valid it then map_option (Cons []) (flat_texts ft date_str get_row_num it)
     else do {
       (col, it1) \<leftarrow> flat_text ft date_str it;
       it2 \<leftarrow> FlatArray_Next it1;
       cols \<leftarrow> flat_texts ft date_str get_row_num it2;
       Some (col # cols) })"

definition DecodeRow_flat :: "float_text \<Rightarrow> (64 word \<Rightarrow> bytes) \<Rightarrow> nat \<Rightarrow> nat \<Rightarrow> bytes \<Rightarrow> bytes list option" where
  "DecodeRow_flat ft date_str base_schema_size get_row_num value = do {
     fit \<leftarrow> new_FlatArrayIterator value (base_schema_size mod 2 ^ 16);
     flat_texts ft date_str get_row_num fit }"

end
