(* ===== verification/Row_Blocks.thy ===== *)
theory Row_Blocks
  imports Row_Codec Codec_Layout
begin

text \<open>
  Blocks of rows: the free functions of \<open>src/codec/row_codec.h\<close> that pack rows with their times and keys into the
  answer of a scan or a traverse, and those that take such an answer apart, and the iterator of a client over the
  answer, \<open>src/base/kv_iterator.h\<close>.  Writing or reading outside a buffer is
  \<open>None\<close>, as is a failed assertion.
\<close>

section \<open>Packing\<close>

definition Encode_time :: "64 word \<Rightarrow> bytes \<Rightarrow> bytes \<Rightarrow> nat \<Rightarrow> bytes option" where
  "Encode_time time data buffer offset = do {
     b1 \<leftarrow> blit offset (le 4 (8 + length data)) buffer;
     b2 \<leftarrow> blit (offset + 4) (le 8 (unat time)) b1;
     blit (offset + 12) data b2 }"

definition Encode_data :: "bytes \<Rightarrow> bytes \<Rightarrow> nat \<Rightarrow> bytes option" where
  "Encode_data data buffer offset = do {
     b1 \<leftarrow> blit offset (le 4 (length data)) buffer;
     blit (offset + 4) data b1 }"

definition EncodeFull :: "bytes \<Rightarrow> 64 word \<Rightarrow> bytes \<Rightarrow> bytes \<Rightarrow> nat \<Rightarrow> bytes option" where
  "EncodeFull pk time data buffer offset = do {
     let pk_size = length pk;
     b1 \<leftarrow> blit offset (le 4 (u32 (8 + pk_size + length data))) buffer;
     b2 \<leftarrow> blit (offset + 4) (le 4 pk_size) b1;
     b3 \<leftarrow> blit (offset + 8) (le 8 (unat time)) b2;
     b4 \<leftarrow> blit (offset + 16) pk b3;
     blit (offset + 16 + pk_size) data b4 }"

fun encode_datas :: "bytes list \<Rightarrow> bytes \<Rightarrow> nat \<Rightarrow> bytes option" where
  "encode_datas [] buffer offset = Some buffer"
| "encode_datas (r # rs) buffer offset = do {
     b1 \<leftarrow> Encode_data r buffer offset;
     encode_datas rs b1 (u32 (offset + (4 + length r))) }"

text \<open>The result is the size and the string; \<open>None\<close> for the string is a null pointer.\<close>

definition EncodeRows :: "bytes list \<Rightarrow> nat \<Rightarrow> bytes option \<Rightarrow> (int \<times> bytes option) option" where
  "EncodeRows rows total_block_size body = (case body of
     None \<Rightarrow> Some (-1, None)
   | Some b \<Rightarrow> do {
       let total_size = u32 (length rows * 4 + total_block_size);
       b1 \<leftarrow> encode_datas rows (if length rows > 0 then resize total_size b else b) 0;
       Some (sint (of_nat total_size :: 32 word), Some b1) })"

fun encode_times :: "(64 word \<times> bytes) list \<Rightarrow> bytes \<Rightarrow> nat \<Rightarrow> bytes option" where
  "encode_times [] buffer offset = Some buffer"
| "encode_times ((t, r) # rs) buffer offset = do {
     b1 \<leftarrow> Encode_time t r buffer offset;
     encode_times rs b1 (u32 (offset + (4 + 8 + length r))) }"

definition EncodeRows_pairs :: "(64 word \<times> bytes) list \<Rightarrow> nat \<Rightarrow> bytes option \<Rightarrow> (int \<times> bytes option) option" where
  "EncodeRows_pairs rows total_block_size pairs = (case pairs of
     None \<Rightarrow> Some (-1, None)
   | Some b \<Rightarrow> do {
       let total_size = u32 (length rows * (8 + 4) + total_block_size);
       b1 \<leftarrow> encode_times rows (if length rows > 0 then resize total_size b else b) 0;
       Some (sint (of_nat total_size :: 32 word), Some b1) })"

section \<open>Unpacking\<close>

lemma load_bound: "load p k s = Some n \<Longrightarrow> p + k \<le> length s"
  by (auto simp: load_def peek_def split: if_splits)

lemma peek_bound: "peek p k s = Some x \<Longrightarrow> p + k \<le> length s"
  by (auto simp: peek_def split: if_splits)

text \<open>\<open>p\<close> is the position of the reading pointer, \<open>total_size\<close> what the function believes is left.\<close>

function decode_loop :: "bytes \<Rightarrow> nat \<Rightarrow> nat \<Rightarrow> (64 word \<times> bytes) list option" where
  "decode_loop str p total_size = (
     if \<not> total_size > 0 then Some []
     else case (load p 4 str, load (p + 4) 8 str) of
       (Some sz, Some time) \<Rightarrow>
         if \<not> sz \<ge> 8 then None
         else (case peek (p + 12) (sz - 8) str of
           Some data \<Rightarrow> map_option (Cons (of_nat time, data)) (decode_loop str (p + 12 + (sz - 8)) (u32 (total_size + 2 ^ 32 - u32 (sz + 4))))
         | None \<Rightarrow> None)
     | _ \<Rightarrow> None)"
  by pat_completeness auto
termination
  by (relation "measure (\<lambda>(s, p, _). length s - p)") (auto dest!: peek_bound)

declare decode_loop.simps [simp del]

definition Decode :: "bytes \<Rightarrow> (64 word \<times> bytes) list option" where
  "Decode str = decode_loop str 0 (u32 (length str))"

text \<open>The records of a key are appended to those the map has for it.\<close>

definition add_record :: "bytes \<Rightarrow> 64 word \<times> bytes \<Rightarrow> (bytes \<rightharpoonup> (64 word \<times> bytes) list) \<Rightarrow> (bytes \<rightharpoonup> (64 word \<times> bytes) list)" where
  "add_record pk r m = m(pk \<mapsto> (case m pk of Some rs \<Rightarrow> rs | None \<Rightarrow> []) @ [r])"

function decode_full_loop :: "bytes \<Rightarrow> nat \<Rightarrow> nat \<Rightarrow> (bytes \<rightharpoonup> (64 word \<times> bytes) list) \<Rightarrow> (bytes \<rightharpoonup> (64 word \<times> bytes) list) option" where
  "decode_full_loop str p total_size value_map = (
     if \<not> total_size > 0 then Some value_map
     else case (load p 4 str, load (p + 4) 4 str) of
       (Some sz, Some pk_size) \<Rightarrow>
         if \<not> sz > u32 (pk_size + 8) then None
         else (case (load (p + 8) 8 str, peek (p + 16) pk_size str) of
           (Some time, Some pk) \<Rightarrow> (case peek (p + 16 + pk_size) (u32 (sz + 2 ^ 33 - 8 - pk_size)) str of
             Some data \<Rightarrow> decode_full_loop str (p + 16 + pk_size + u32 (sz + 2 ^ 33 - 8 - pk_size)) (u32 (total_size + 2 ^ 32 - u32 (sz + 8)))
               (add_record pk (of_nat time, data) value_map)
           | None \<Rightarrow> None)
         | _ \<Rightarrow> None)
     | _ \<Rightarrow> None)"
  by pat_completeness auto
termination
  by (relation "measure (\<lambda>(s, p, _). length s - p)") (auto dest!: peek_bound)

declare decode_full_loop.simps [simp del]

definition DecodeFull :: "bytes \<Rightarrow> (bytes \<rightharpoonup> (64 word \<times> bytes) list) option" where
  "DecodeFull str = decode_full_loop str 0 (u32 (length str)) Map.empty"

section \<open>Rows of one schema\<close>

text \<open>
  \<open>DecodeRows\<close>: one view is reset on each row in turn.  The pointer passed to \<open>Reset\<close> sees the rest of the block.
\<close>

fun decode_rows :: "float_text \<Rightarrow> schema \<Rightarrow> bytes \<Rightarrow> row_view \<Rightarrow> nat \<Rightarrow> nat \<Rightarrow> bytes list list \<Rightarrow> (bool \<times> bytes list list) option" where
  "decode_rows ft sch data rv offset 0 rows = Some (True, rows)"
| "decode_rows ft sch data rv offset (Suc n) rows = do {
     value_size \<leftarrow> load offset 4 data;
     (ok, rv1) \<leftarrow> RowView_Reset rv (Some (drop (offset + 4) data)) value_size;
     if \<not> ok then Some (False, rows)
     else do {
       (ok, r) \<leftarrow> DecodeRow_view ft sch rv1 False 0 (int (length sch));
       if \<not> ok then Some (False, rows)
       else decode_rows ft sch data rv1 (u32 (offset + 4 + value_size)) n
         (rows @ [map (\<lambda>v. if v = NONETOKEN then ascii ''null'' else v) r]) } }"

definition DecodeRows :: "float_text \<Rightarrow> bytes \<Rightarrow> nat \<Rightarrow> schema \<Rightarrow> (bool \<times> bytes list list) option" where
  "DecodeRows ft data num sch = decode_rows ft sch data (new_RowView sch) 0 num []"

section \<open>The iterator of a client\<close>

record kv_iter =
  kv_buf :: bytes
  kv_ptr :: nat
  kv_offset :: nat
  kv_time :: "64 word option"
  kv_pk :: bytes
  kv_value :: bytes
  has_pk :: bool

definition kv_tsize :: "kv_iter \<Rightarrow> nat" where
  "kv_tsize it = u32 (length (kv_buf it))"

definition KvIterator_Valid :: "kv_iter \<Rightarrow> bool" where
  "KvIterator_Valid it = (\<not> kv_offset it > kv_tsize it \<and> \<not> kv_tsize it < (if has_pk it then 16 else 12))"

text \<open>A record whose size says less than it has to contain makes a slice of almost 4 gigabytes.\<close>

definition KvIterator_Next :: "kv_iter \<Rightarrow> kv_iter option" where
  "KvIterator_Next it = (
     if has_pk it then
       if u32 (kv_offset it + 8) > kv_tsize it then Some (it\<lparr>kv_offset := u32 (kv_offset it + 8)\<rparr>)
       else do {
         total_size \<leftarrow> load (kv_ptr it) 4 (kv_buf it);
         pk_size \<leftarrow> load (kv_ptr it + 4) 4 (kv_buf it);
         time \<leftarrow> load (kv_ptr it + 8) 8 (kv_buf it);
         pk \<leftarrow> peek (kv_ptr it + 16) pk_size (kv_buf it);
         let n = u32 (total_size + 2 ^ 33 - pk_size - 8);
         v \<leftarrow> peek (kv_ptr it + 16 + pk_size) n (kv_buf it);
         Some (it\<lparr>kv_ptr := kv_ptr it + 16 + pk_size + n, kv_offset := u32 (kv_offset it + (8 + total_size)),
           kv_time := Some (of_nat time), kv_pk := pk, kv_value := v\<rparr>) }
     else if u32 (kv_offset it + 4) > kv_tsize it then Some (it\<lparr>kv_offset := u32 (kv_offset it + 4)\<rparr>)
     else do {
       block_size \<leftarrow> load (kv_ptr it) 4 (kv_buf it);
       time \<leftarrow> load (kv_ptr it + 4) 8 (kv_buf it);
       let n = u32 (block_size + 2 ^ 32 - 8);
       v \<leftarrow> peek (kv_ptr it + 12) n (kv_buf it);
       Some (it\<lparr>kv_ptr := kv_ptr it + 12 + n, kv_offset := u32 (kv_offset it + (4 + block_size)),
         kv_time := Some (of_nat time), kv_value := v\<rparr>) })"

definition new_KvIterator :: "bytes \<Rightarrow> bool \<Rightarrow> kv_iter option" where
  "new_KvIterator pairs pk = KvIterator_Next \<lparr>kv_buf = pairs, kv_ptr = 0, kv_offset = 0, kv_time = None, kv_pk = [], kv_value = [], has_pk = pk\<rparr>"

definition KvIterator_GetKey :: "kv_iter \<Rightarrow> 64 word option" where
  "KvIterator_GetKey it = kv_time it"

definition KvIterator_GetPK :: "kv_iter \<Rightarrow> bytes" where
  "KvIterator_GetPK it = kv_pk it"

definition KvIterator_GetValue :: "kv_iter \<Rightarrow> bytes" where
  "KvIterator_GetValue it = kv_value it"

end
