(* ===== verification/Row_Blocks_Props.thy ===== *)
theory Row_Blocks_Props
  imports Row_Blocks
begin

text \<open>Blocks of rows are unpacked to the rows that were packed.\<close>

section \<open>Blocks with times\<close>

definition pair_bytes :: "64 word \<times> bytes \<Rightarrow> bytes" where
  "pair_bytes r = le 4 (8 + length (snd r)) @ le 8 (unat (fst r)) @ snd r"

lemma length_pair_bytes: "length (pair_bytes r) = 12 + length (snd r)"
  by (simp add: pair_bytes_def)

text \<open>Writing the parts of a record one after the other.\<close>

lemma blit_seq: "length xs \<le> length b \<Longrightarrow> blit (length a) xs (a @ b) = Some (a @ xs @ drop (length xs) b)"
  by (simp add: blit_def)

lemma Encode_time_eq:
  assumes "length (pair_bytes (t, r)) \<le> length b"
  shows "Encode_time t r (a @ b) (length a) = Some (a @ pair_bytes (t, r) @ drop (length (pair_bytes (t, r))) b)"
proof -
  let ?x = "le 4 (8 + length r)" let ?y = "le 8 (unat t)"
  have l: "12 + length r \<le> length b" using assms by (simp add: length_pair_bytes)
  have "blit (length a) ?x (a @ b) = Some (a @ ?x @ drop 4 b)" using blit_seq[of ?x b a] l by simp
  moreover have "blit (length a + 4) ?y (a @ ?x @ drop 4 b) = Some (a @ ?x @ ?y @ drop 12 b)"
    using blit_seq[of ?y "drop 4 b" "a @ ?x"] l by simp
  moreover have "blit (length a + 12) r (a @ ?x @ ?y @ drop 12 b) = Some (a @ ?x @ ?y @ r @ drop (12 + length r) b)"
    using blit_seq[of r "drop 12 b" "a @ ?x @ ?y"] l by (simp add: add.commute)
  ultimately show ?thesis by (simp add: Encode_time_def pair_bytes_def add.commute)
qed

lemma encode_times_eq:
  assumes "length b = length (concat (map pair_bytes rs))" "length a + length b < 2 ^ 32"
  shows "encode_times rs (a @ b) (length a) = Some (a @ concat (map pair_bytes rs))"
  using assms
proof (induction rs arbitrary: a b)
  case (Cons x rs)
  obtain t r where x: "x = (t, r)" by fastforce
  let ?p = "pair_bytes (t, r)"
  have "Encode_time t r (a @ b) (length a) = Some (a @ ?p @ drop (length ?p) b)"
    using Cons.prems(1) x by (intro Encode_time_eq) simp
  moreover have "u32 (length a + (4 + 8 + length r)) = length (a @ ?p)"
    using Cons.prems x by (simp add: u32_def length_pair_bytes)
  moreover have "encode_times rs ((a @ ?p) @ drop (length ?p) b) (length (a @ ?p)) = Some ((a @ ?p) @ concat (map pair_bytes rs))"
    using Cons.prems x by (intro Cons.IH) auto
  ultimately show ?case using x by simp
qed simp

lemma decode_loop_eq:
  assumes "length a + length (concat (map pair_bytes rs)) < 2 ^ 32"
  shows "decode_loop (a @ concat (map pair_bytes rs)) (length a) (length (concat (map pair_bytes rs))) = Some rs"
  using assms
proof (induction rs arbitrary: a)
  case Nil
  then show ?case by (subst decode_loop.simps) simp
next
  case (Cons x rs)
  obtain t r where x: "x = (t, r)" by fastforce
  let ?p = "pair_bytes (t, r)" let ?rest = "concat (map pair_bytes rs)" let ?s = "a @ ?p @ ?rest"
  have len: "12 + length r + length ?rest < 2 ^ 32" using Cons.prems x by (simp add: length_pair_bytes)
  have p: "peek (length a + 4 + 8) (length r) ?s = Some r" by (simp add: peek_def pair_bytes_def)
  have "peek (length a) 4 ?s = Some (le 4 (8 + length r))" "peek (length a + 4) 8 ?s = Some (le 8 (unat t))"
    by (simp_all add: peek_def pair_bytes_def)
  then have l: "load (length a) 4 ?s = Some (8 + length r)" "load (length a + 4) 8 ?s = Some (unat t)"
    using len by (simp_all add: load_def unle_le_eq unat_less_pow)
  have u: "u32 (length (?p @ ?rest) + 2 ^ 32 - u32 (8 + length r + 4)) = length ?rest"
    using len by (simp add: u32_def length_pair_bytes)
  have "decode_loop ((a @ ?p) @ ?rest) (length (a @ ?p)) (length ?rest) = Some rs"
    using Cons.prems x by (intro Cons.IH) simp
  then have IH: "decode_loop ?s (length a + 12 + length r) (length ?rest) = Some rs" by (simp add: length_pair_bytes add.assoc)
  have "length (?p @ ?rest) > 0" by (simp add: length_pair_bytes)
  then show ?case
    using x l p u IH by (subst decode_loop.simps) (simp del: length_append add: add.assoc)
qed

text \<open>C21: a block of at least one row with their times, as a scan returns it: packed into a buffer of the computed size it never
  leaves it, and unpacking gives the same rows with the same times in the same order.\<close>

theorem scan_block_roundtrip:
  assumes "rows \<noteq> []" "length rows * 12 + (\<Sum>r\<leftarrow>rows. length (snd r)) < 2 ^ 32"
  shows "\<exists>n b. EncodeRows_pairs rows (\<Sum>r\<leftarrow>rows. length (snd r)) (Some old) = Some (n, Some b) \<and> Decode b = Some rows"
proof -
  have len: "length (concat (map pair_bytes rows)) = length rows * 12 + (\<Sum>r\<leftarrow>rows. length (snd r))"
    by (induction rows) (simp_all add: length_pair_bytes)
  let ?b = "concat (map pair_bytes rows)"
  have "u32 (length rows * (8 + 4) + (\<Sum>r\<leftarrow>rows. length (snd r))) = length ?b" using assms(2) len by (simp add: u32_def)
  moreover have "encode_times rows (resize (length ?b) old) 0 = Some ?b"
    using encode_times_eq[of "resize (length ?b) old" rows "[]"] assms(2) len by (simp add: resize_def)
  moreover have "Decode ?b = Some rows"
    using decode_loop_eq[of "[]" rows] assms(2) len by (simp add: Decode_def u32_def)
  ultimately show ?thesis using assms(1) by (auto simp: EncodeRows_pairs_def Let_def)
qed

theorem scan_block_roundtrip_witness:
  "\<exists>n b. EncodeRows_pairs [(9, [1, 2]), (5, [])] 2 (Some [7]) = Some (n, Some b) \<and> Decode b = Some [(9, [1, 2]), (5, [])]"
proof -
  let ?rows = "[(9, [1, 2]), (5, [])] :: (64 word \<times> bytes) list"
  have "(\<Sum>r\<leftarrow>?rows. length (snd r)) = 2" by simp
  then show ?thesis using scan_block_roundtrip[of ?rows "[7]"] by (simp only: list.distinct list.size) simp
qed

section \<open>Blocks with keys\<close>

type_synonym keyed = "bytes \<times> 64 word \<times> bytes"

definition full_bytes :: "keyed \<Rightarrow> bytes" where
  "full_bytes r = (case r of (pk, t, d) \<Rightarrow> le 4 (8 + length pk + length d) @ le 4 (length pk) @ le 8 (unat t) @ pk @ d)"

lemma length_full_bytes: "length (full_bytes (pk, t, d)) = 16 + length pk + length d"
  by (simp add: full_bytes_def)

text \<open>Packing all records of a traverse, as the tablet does.\<close>

fun encode_fulls :: "keyed list \<Rightarrow> bytes \<Rightarrow> nat \<Rightarrow> bytes option" where
  "encode_fulls [] buffer offset = Some buffer"
| "encode_fulls ((pk, t, d) # rs) buffer offset = do {
     b1 \<leftarrow> EncodeFull pk t d buffer offset;
     encode_fulls rs b1 (u32 (offset + (4 + 4 + 8 + length pk + length d))) }"

lemma EncodeFull_eq:
  assumes "length (full_bytes (pk, t, d)) \<le> length b" "length b < 2 ^ 32"
  shows "EncodeFull pk t d (a @ b) (length a) = Some (a @ full_bytes (pk, t, d) @ drop (length (full_bytes (pk, t, d))) b)"
proof -
  let ?x = "le 4 (8 + length pk + length d)" let ?y = "le 4 (length pk)" let ?z = "le 8 (unat t)" let ?n = "length pk"
  have l: "16 + ?n + length d \<le> length b" using assms by (simp add: length_full_bytes)
  have u: "u32 (8 + ?n + length d) = 8 + ?n + length d" using l assms(2) by (simp add: u32_def)
  have 1: "blit (length a) ?x (a @ b) = Some (a @ ?x @ drop 4 b)" using blit_seq[of ?x b a] l by simp
  have 2: "blit (length a + 4) ?y (a @ ?x @ drop 4 b) = Some (a @ ?x @ ?y @ drop 8 b)"
    using blit_seq[of ?y "drop 4 b" "a @ ?x"] l by simp
  have 3: "blit (length a + 8) ?z (a @ ?x @ ?y @ drop 8 b) = Some (a @ ?x @ ?y @ ?z @ drop 16 b)"
    using blit_seq[of ?z "drop 8 b" "a @ ?x @ ?y"] l by simp
  have 4: "blit (length a + 16) pk (a @ ?x @ ?y @ ?z @ drop 16 b) = Some (a @ ?x @ ?y @ ?z @ pk @ drop (16 + ?n) b)"
    using blit_seq[of pk "drop 16 b" "a @ ?x @ ?y @ ?z"] l by (simp add: add.commute)
  have 5: "blit (length a + 16 + ?n) d (a @ ?x @ ?y @ ?z @ pk @ drop (16 + ?n) b) =
      Some (a @ ?x @ ?y @ ?z @ pk @ d @ drop (16 + ?n + length d) b)"
    using blit_seq[of d "drop (16 + ?n) b" "a @ ?x @ ?y @ ?z @ pk"] l by (simp add: ac_simps)
  have "a @ full_bytes (pk, t, d) @ drop (length (full_bytes (pk, t, d))) b = a @ ?x @ ?y @ ?z @ pk @ d @ drop (16 + ?n + length d) b"
    unfolding length_full_bytes by (simp add: full_bytes_def)
  then show ?thesis unfolding EncodeFull_def Let_def u by (simp only: 1 2 3 4 5 bind.bind_lunit)
qed

lemma encode_fulls_eq:
  assumes "length b = length (concat (map full_bytes rs))" "length a + length b < 2 ^ 32"
  shows "encode_fulls rs (a @ b) (length a) = Some (a @ concat (map full_bytes rs))"
  using assms
proof (induction rs arbitrary: a b)
  case (Cons x rs)
  obtain pk t d where x: "x = (pk, t, d)" by (metis prod_cases3)
  let ?p = "full_bytes (pk, t, d)"
  have "EncodeFull pk t d (a @ b) (length a) = Some (a @ ?p @ drop (length ?p) b)"
    using Cons.prems x by (intro EncodeFull_eq) simp_all
  moreover have "u32 (length a + (4 + 4 + 8 + length pk + length d)) = length (a @ ?p)"
    using Cons.prems x by (simp add: u32_def length_full_bytes)
  moreover have "encode_fulls rs ((a @ ?p) @ drop (length ?p) b) (length (a @ ?p)) = Some ((a @ ?p) @ concat (map full_bytes rs))"
    using Cons.prems x by (intro Cons.IH) auto
  ultimately show ?case using x by simp
qed simp

text \<open>The fields of a record inside a block.\<close>

lemma full_fields:
  assumes "s = a @ full_bytes (pk, t, d) @ r" "length s < 2 ^ 32"
  shows "load (length a) 4 s = Some (8 + length pk + length d)" "load (length a + 4) 4 s = Some (length pk)"
    "load (length a + 8) 8 s = Some (unat t)" "peek (length a + 16) (length pk) s = Some pk"
    "peek (length a + 16 + length pk) (length d) s = Some d"
proof -
  have len: "16 + length pk + length d < 2 ^ 32" using assms by (simp add: length_full_bytes)
  have "peek (length a) 4 s = Some (le 4 (8 + length pk + length d))" "peek (length a + 4) 4 s = Some (le 4 (length pk))"
    "peek (length a + 8) 8 s = Some (le 8 (unat t))"
    using assms(1) by (simp_all add: peek_def full_bytes_def)
  then show "load (length a) 4 s = Some (8 + length pk + length d)" "load (length a + 4) 4 s = Some (length pk)"
    "load (length a + 8) 8 s = Some (unat t)"
    using len by (simp_all add: load_def unle_le_eq unat_less_pow)
  show "peek (length a + 16) (length pk) s = Some pk" "peek (length a + 16 + length pk) (length d) s = Some d"
    using assms(1) by (simp_all add: peek_def full_bytes_def)
qed

lemma full_rest:
  assumes "m + n + 16 < 2 ^ 32"
  shows "u32 (8 + m + n + 2 ^ 33 - 8 - m) = n" "u32 (8 + m + n + 2 ^ 33 - m - 8) = n"
proof -
  have "8 + m + n + 2 ^ 33 - 8 - m = n + 2 * 2 ^ 32" "8 + m + n + 2 ^ 33 - m - 8 = n + 2 * 2 ^ 32" by simp_all
  moreover have "u32 (n + 2 * 2 ^ 32) = n" using assms unfolding u32_def mod_mult_self1 by simp
  ultimately show "u32 (8 + m + n + 2 ^ 33 - 8 - m) = n" "u32 (8 + m + n + 2 ^ 33 - m - 8) = n" by (simp_all add: add.commute)
qed

definition grouped :: "keyed list \<Rightarrow> (bytes \<rightharpoonup> (64 word \<times> bytes) list) \<Rightarrow> (bytes \<rightharpoonup> (64 word \<times> bytes) list)" where
  "grouped rs m = fold (\<lambda>(pk, r). add_record pk r) rs m"

text \<open>The loop asserts that every value has a byte.\<close>

lemma decode_full_loop_eq:
  assumes "length a + length (concat (map full_bytes rs)) < 2 ^ 32"
  shows "decode_full_loop (a @ concat (map full_bytes rs)) (length a) (length (concat (map full_bytes rs))) m =
    (if list_all (\<lambda>(_, _, d). d \<noteq> []) rs then Some (grouped rs m) else None)"
  using assms
proof (induction rs arbitrary: a m)
  case Nil
  then show ?case by (subst decode_full_loop.simps) (simp add: grouped_def)
next
  case (Cons x rs)
  obtain pk t d where x: "x = (pk, t, d)" by (metis prod_cases3)
  let ?p = "full_bytes (pk, t, d)" let ?rest = "concat (map full_bytes rs)" let ?s = "a @ ?p @ ?rest"
  have len: "length a + 16 + length pk + length d + length ?rest < 2 ^ 32" using Cons.prems x by (simp add: length_full_bytes)
  have sl: "length ?s < 2 ^ 32" using len by (simp add: length_full_bytes)
  note f = full_fields[OF refl sl]
  have u: "u32 (length (?p @ ?rest) + 2 ^ 32 - u32 (8 + length pk + length d + 8)) = length ?rest" "u32 (length pk + 8) = length pk + 8"
    using len by (simp_all add: u32_def length_full_bytes)
  have "decode_full_loop ((a @ ?p) @ ?rest) (length (a @ ?p)) (length ?rest) (add_record pk (t, d) m) =
      (if list_all (\<lambda>(_, _, d). d \<noteq> []) rs then Some (grouped rs (add_record pk (t, d) m)) else None)"
    using Cons.prems x by (intro Cons.IH) simp_all
  then have IH: "decode_full_loop ?s (length a + 16 + length pk + length d) (length ?rest) (add_record pk (t, d) m) =
      (if list_all (\<lambda>(_, _, d). d \<noteq> []) rs then Some (grouped rs (add_record pk (t, d) m)) else None)"
    by (simp add: length_full_bytes add.assoc)
  have "length (?p @ ?rest) > 0" by (simp add: length_full_bytes)
  then show ?case
    using x f u IH len full_rest[of "length pk" "length d"]
    by (subst decode_full_loop.simps) (simp del: length_append add: grouped_def)
qed

section \<open>The client's iterator\<close>

text \<open>Reading all records while the iterator is valid.\<close>

partial_function (option) kv_records :: "kv_iter \<Rightarrow> keyed list option" where
  "kv_records it = (if KvIterator_Valid it then do {
     t \<leftarrow> KvIterator_GetKey it;
     it1 \<leftarrow> KvIterator_Next it;
     rs \<leftarrow> kv_records it1;
     Some ((KvIterator_GetPK it, t, KvIterator_GetValue it) # rs) } else Some [])"

lemma Next_full:
  assumes "kv_buf it = a @ concat (map full_bytes rs)" "kv_ptr it = length a" "kv_offset it = length a" "has_pk it"
    "length (kv_buf it) + 8 < 2 ^ 32"
  shows "\<exists>it'. KvIterator_Next it = Some it' \<and> (case rs of
      [] \<Rightarrow> \<not> KvIterator_Valid it'
    | (pk, t, d) # rs' \<Rightarrow> kv_buf it' = kv_buf it \<and> kv_ptr it' = length (a @ full_bytes (pk, t, d)) \<and>
        kv_offset it' = length (a @ full_bytes (pk, t, d)) \<and> has_pk it' \<and> kv_time it' = Some t \<and> kv_pk it' = pk \<and> kv_value it' = d \<and>
        KvIterator_Valid it')"
proof (cases rs)
  case Nil
  then show ?thesis using assms by (simp add: KvIterator_Next_def KvIterator_Valid_def kv_tsize_def u32_def)
next
  case (Cons x rs')
  obtain pk t d where x: "x = (pk, t, d)" by (metis prod_cases3)
  have len: "length a + 16 + length pk + length d + length (concat (map full_bytes rs')) + 8 < 2 ^ 32"
    using assms(1,5) Cons x by (simp add: length_full_bytes)
  have "kv_buf it = a @ full_bytes (pk, t, d) @ concat (map full_bytes rs')" "length (kv_buf it) < 2 ^ 32" using assms Cons x by simp_all
  note f = full_fields[OF this]
  have s: "u32 (length a + 8) = length a + 8" "u32 (length a + (8 + (8 + length pk + length d))) = length (a @ full_bytes (pk, t, d))"
    "u32 (length (kv_buf it)) = length (kv_buf it)"
    using len assms(5) by (simp_all add: u32_def length_full_bytes)
  have "KvIterator_Next it = Some (it\<lparr>kv_ptr := length (a @ full_bytes (pk, t, d)), kv_offset := length (a @ full_bytes (pk, t, d)),
      kv_time := Some t, kv_pk := pk, kv_value := d\<rparr>)"
    using f s assms(1-4) Cons x len full_rest(2)[of "length pk" "length d"]
    by (simp add: KvIterator_Next_def kv_tsize_def length_full_bytes Let_def)
  moreover have "length (a @ full_bytes (pk, t, d)) \<le> length (kv_buf it)" using assms(1) Cons x by simp
  moreover have "16 \<le> length (kv_buf it)" using assms(1) Cons x by (simp add: length_full_bytes)
  ultimately show ?thesis using Cons x assms(4) s(3) by (simp add: KvIterator_Valid_def kv_tsize_def)
qed

lemma kv_records_ok:
  assumes "kv_buf it = a @ concat (map full_bytes rs)" "kv_ptr it = length a" "kv_offset it = length a" "has_pk it"
    "length (kv_buf it) + 8 < 2 ^ 32"
  shows "do { it1 \<leftarrow> KvIterator_Next it; kv_records it1 } = Some rs"
  using assms
proof (induction rs arbitrary: a it)
  case Nil
  then show ?case using Next_full[OF Nil] by (auto simp: kv_records.simps)
next
  case (Cons x rs)
  obtain pk t d where x: "x = (pk, t, d)" by (metis prod_cases3)
  obtain it' where it': "KvIterator_Next it = Some it'" "kv_buf it' = kv_buf it" "kv_ptr it' = length (a @ full_bytes (pk, t, d))"
    "kv_offset it' = length (a @ full_bytes (pk, t, d))" "has_pk it'" "kv_time it' = Some t" "kv_pk it' = pk" "kv_value it' = d"
    "KvIterator_Valid it'" using Next_full[OF Cons.prems] x by auto
  have "do { it1 \<leftarrow> KvIterator_Next it'; kv_records it1 } = Some rs"
    using it' Cons.prems x by (intro Cons.IH[of it' "a @ full_bytes (pk, t, d)"]) simp_all
  then show ?case
    using it' x by (simp add: kv_records.simps[of it'] KvIterator_GetKey_def KvIterator_GetPK_def KvIterator_GetValue_def Option.bind_eq_Some_conv)
qed

text \<open>C22: a block of records with keys and times, as a traverse returns it: packed into a buffer of the computed size it
  never leaves it; the client's iterator returns every record in order and then ends; and unpacking groups the
  records by key, in order, when no value is empty, and fails its assertion when some value is empty.\<close>

theorem traverse_block_roundtrip:
  assumes "(\<Sum>(pk, t, d)\<leftarrow>rs. 16 + length pk + length d) + 8 < 2 ^ 32"
    "length buffer = (\<Sum>(pk, t, d)\<leftarrow>rs. 16 + length pk + length d)"
  shows "\<exists>b it. encode_fulls rs buffer 0 = Some b \<and> new_KvIterator b True = Some it \<and> kv_records it = Some rs \<and>
    DecodeFull b = (if list_all (\<lambda>(_, _, d). d \<noteq> []) rs then Some (grouped rs Map.empty) else None)"
proof -
  let ?b = "concat (map full_bytes rs)"
  have len: "length ?b = (\<Sum>(pk, t, d)\<leftarrow>rs. 16 + length pk + length d)"
    by (induction rs) (auto simp: length_full_bytes)
  have 1: "encode_fulls rs buffer 0 = Some ?b" using encode_fulls_eq[of buffer rs "[]"] len assms by simp
  have 2: "do { it \<leftarrow> new_KvIterator ?b True; kv_records it } = Some rs"
    unfolding new_KvIterator_def using len assms(1) by (intro kv_records_ok[where a = "[]"]) simp_all
  have 3: "DecodeFull ?b = (if list_all (\<lambda>(_, _, d). d \<noteq> []) rs then Some (grouped rs Map.empty) else None)"
    using decode_full_loop_eq[of "[]" rs Map.empty] assms(1) len by (simp add: DecodeFull_def u32_def)
  show ?thesis using 1 2 3 by (auto simp: Option.bind_eq_Some_conv)
qed

theorem traverse_block_roundtrip_witness:
  "\<exists>b it. encode_fulls [([1], 9, [2]), ([3], 8, [4, 5]), ([1], 7, [6])] (replicate 55 0) 0 = Some b \<and> new_KvIterator b True = Some it \<and>
    kv_records it = Some [([1], 9, [2]), ([3], 8, [4, 5]), ([1], 7, [6])] \<and>
    DecodeFull b = Some [[1] \<mapsto> [(9, [2]), (7, [6])], [3] \<mapsto> [(8, [4, 5])]]"
proof -
  let ?rs = "[([1], 9, [2]), ([3], 8, [4, 5]), ([1], 7, [6])] :: keyed list"
  have "grouped ?rs Map.empty = [[1] \<mapsto> [(9, [2]), (7, [6])], [3] \<mapsto> [(8, [4, 5])]]"
    by (rule HOL.ext) (simp add: grouped_def add_record_def)
  then show ?thesis using traverse_block_roundtrip[of ?rs "replicate 55 0"] by simp
qed

end
