(* ===== verification/Row_Codec_Props.thy ===== *)
theory Row_Codec_Props
  imports Row_Codec Codec_Projected
begin

text \<open>
  Rows from texts and texts from rows: the row that \<open>EncodeRow\<close> makes holds the parsed texts, and \<open>DecodeRow\<close> shows
  the cells of a row.
\<close>

unbundle bit_operations_syntax

section \<open>Parsing a text\<close>

text \<open>The cell of a text; \<open>None\<close> when the text is refused.\<close>

definition parse_date :: "lexical \<Rightarrow> bytes \<Rightarrow> cell option" where
  "parse_date lx v = (case map (lex_uint32 lx) (SplitString 45 v) of
     [Some y, Some m, Some d] \<Rightarrow>
       if 1900 \<le> y \<and> y \<le> 9999 \<and> 1 \<le> m \<and> m \<le> 12 \<and> 1 \<le> d \<and> d \<le> 31 then Some (VDate (encode_date y m d)) else None
   | _ \<Rightarrow> None)"

definition parse_value :: "lexical \<Rightarrow> DataType \<Rightarrow> bytes \<Rightarrow> cell option" where
  "parse_value lx t v = (case t of
     kBool \<Rightarrow> (if map tolower v = ascii ''true'' then Some (VBool True) else if map tolower v = ascii ''false'' then Some (VBool False) else None)
   | kSmallInt \<Rightarrow> map_option VInt16 (lex_int16 lx v)
   | kInt \<Rightarrow> map_option VInt32 (lex_int32 lx v)
   | kBigInt \<Rightarrow> map_option VInt64 (lex_int64 lx v)
   | kTimestamp \<Rightarrow> map_option VTimestamp (lex_int64 lx v)
   | kFloat \<Rightarrow> map_option VFloat (lex_float lx v)
   | kDouble \<Rightarrow> map_option VDouble (lex_double lx v)
   | kDate \<Rightarrow> parse_date lx v
   | _ \<Rightarrow> Some (VStr v))"

definition parse_text :: "lexical \<Rightarrow> column \<Rightarrow> bytes \<Rightarrow> cell option" where
  "parse_text lx c v = (if null_text v then (if not_null c then None else Some Null) else parse_value lx (data_type c) v)"

lemma parse_fits: "parse_text lx c v = Some x \<Longrightarrow> cell_fits c x"
  by (cases "data_type c")
    (auto simp: parse_text_def parse_value_def parse_date_def is_string_def split: if_splits list.splits option.splits)

section \<open>Appending a text\<close>

lemma SetDate_ymd_eq:
  assumes "buf rb = Some b" "HEADER_LENGTH + i div 8 < offset_vec rb ! i" "offset_vec rb ! i + 4 \<le> length b"
    "1900 \<le> y" "y \<le> 9999" "1 \<le> m" "m \<le> 12" "1 \<le> d" "d \<le> 31"
  shows "SetDate_ymd rb i y m d = SetDate rb i (encode_date y m d)"
proof -
  let ?p = "HEADER_LENGTH + i div 8" let ?off = "offset_vec rb ! i" let ?xs = "le 4 (unat (encode_date y m d))"
  define v where "v = take 1 (drop ?p b)"
  define f where "f = [hd v AND NOT (push_bit (i mod 8) 1)]"
  have pv: "peek ?p 1 b = Some v" using assms(2,3) by (simp add: peek_def v_def)
  obtain b1 where b1: "blit ?off ?xs b = Some b1" using blit_total[of ?off ?xs b] assms(3) by auto
  obtain c1 where c1: "blit ?p f b = Some c1" using blit_total[of ?p f b] assms(2,3) by (auto simp: f_def)
  have pv1: "peek ?p 1 b1 = Some v" using peek_blit_other[OF b1, of ?p 1] assms(2) pv by simp
  obtain b2 where b2: "blit ?p f b1 = Some b2" using blit_total[of ?p f b1] assms(2,3) blit_length[OF b1] by (auto simp: f_def)
  have c2: "blit ?off ?xs c1 = Some b2" using blit_commute[of ?p f ?off b ?xs] assms(2) b1 c1 b2 by (simp add: f_def)
  have r: "\<not> (y < 1900 \<or> y > 9999)" "\<not> (m < 1 \<or> m > 12)" "\<not> (d < 1 \<or> d > 31)" using assms(4-9) by auto
  have s1: "store ?off ?xs rb = Some (rb\<lparr>buf := Some b1\<rparr>)" using assms(1) b1 by (simp add: store_def)
  have s2: "SetField (rb\<lparr>buf := Some b1\<rparr>) i = Some (rb\<lparr>buf := Some b2\<rparr>)" using pv1 b2 by (simp add: SetField_def store_def f_def)
  have s3: "SetField rb i = Some (rb\<lparr>buf := Some c1\<rparr>)" using assms(1) pv c1 by (simp add: SetField_def store_def f_def)
  have s4: "store ?off ?xs (rb\<lparr>buf := Some c1\<rparr>) = Some (rb\<lparr>buf := Some b2\<rparr>)" using c2 by (simp add: store_def)
  show ?thesis
    unfolding SetDate_ymd_def SetDate_def set_fixed_def if_not_P[OF r(1)] if_not_P[OF r(2)] if_not_P[OF r(3)]
    by (simp add: s1 s2 s3 s4)
qed

text \<open>A text that parses is appended like its cell; another one is refused and changes nothing.\<close>

lemma AppendValue_eq:
  assumes bd: "building sch vals N k rb b" and e: "exact sch vals N" and k: "k < length sch" and p: "parse_value lx (data_type (sch ! k)) v = Some x"
  shows "AppendValue lx rb v = append_cell rb x"
proof -
  have rb: "buf rb = Some b" "cnt rb = k" "rb_schema rb = sch" "length b = N" using bd by (auto simp: building_def parts_def)
  show ?thesis
  proof (cases "data_type (sch ! k) = kDate")
    case True
    then obtain y m d where ymd: "map (lex_uint32 lx) (SplitString 45 v) = [Some y, Some m, Some d]"
      "1900 \<le> y" "y \<le> 9999" "1 \<le> m" "m \<le> 12" "1 \<le> d" "d \<le> 31" "x = VDate (encode_date y m d)"
      using p by (auto simp: parse_value_def parse_date_def split: list.splits option.splits if_splits)
    then obtain p1 p2 p3 where ps: "SplitString 45 v = [p1, p2, p3]" "lex_uint32 lx p1 = Some y" "lex_uint32 lx p2 = Some m" "lex_uint32 lx p3 = Some d"
      by auto
    have off: "offset_vec rb ! k = fixed_at sch k" using offset_vec_nth[OF bd k] True by (simp add: offset_of_def is_string_def)
    have "fixed_at sch k + 4 \<le> length b"
      using fixed_at_Suc[OF k] exactD(5)[OF e, of "Suc k"] exactD(4)[OF e, of 0] k True rb(4) by (simp add: is_string_def type_sizes)
    moreover have "HEADER_LENGTH + k div 8 < fixed_at sch k" using bitmap_byte[OF k] fixed_at_mono[of 0 k sch] k by simp
    ultimately have "SetDate_ymd rb k y m d = SetDate rb k (encode_date y m d)"
      using off ymd(2-7) rb(1) by (intro SetDate_ymd_eq) simp_all
    then show ?thesis
      using True ps rb(2,3) k ymd(8) by (simp add: AppendValue_def Let_def AppendDate_ymd_def AppendDate_def append_with_def)
  next
    case False
    then show ?thesis
      using p rb(2,3) k by (cases "data_type (sch ! k)") (auto simp: AppendValue_def parse_value_def Let_def split: if_splits)
  qed
qed

lemma AppendValue_refused:
  assumes "cnt rb < length (rb_schema rb)" "parse_value lx (data_type (rb_schema rb ! cnt rb)) v = None"
  shows "AppendValue lx rb v = Some (False, rb)"
proof (cases "data_type (rb_schema rb ! cnt rb) = kDate")
  case True
  then have p: "parse_date lx v = None" using assms(2) by (simp add: parse_value_def)
  show ?thesis
  proof (cases "length (SplitString 45 v) = 3")
    case len: True
    then obtain p1 p2 p3 where ps: "SplitString 45 v = [p1, p2, p3]" by (auto simp: length_Suc_conv numeral_3_eq_3)
    show ?thesis
      using True assms(1) ps p
      by (auto simp: AppendValue_def Let_def parse_date_def AppendDate_ymd_def append_with_def SetDate_ymd_def not_le split: option.splits if_splits)
  qed (use True assms(1) in \<open>simp add: AppendValue_def Let_def\<close>)
next
  case False
  then show ?thesis
    using assms by (cases "data_type (rb_schema rb ! cnt rb)") (auto simp: AppendValue_def parse_value_def Let_def split: if_splits)
qed

section \<open>Encoding a list of texts\<close>

text \<open>The cells of the texts; a text that does not parse stands for some cell of the column's type.\<close>

primrec default_cell :: "DataType \<Rightarrow> cell" where
  "default_cell kBool = VBool False"
| "default_cell kSmallInt = VInt16 0"
| "default_cell kInt = VInt32 0"
| "default_cell kBigInt = VInt64 0"
| "default_cell kFloat = VFloat 0"
| "default_cell kDouble = VDouble 0"
| "default_cell kDate = VDate 0"
| "default_cell kTimestamp = VTimestamp 0"
| "default_cell kVarchar = VStr []"
| "default_cell kString = VStr []"

definition cell_or :: "lexical \<Rightarrow> column \<Rightarrow> bytes \<Rightarrow> cell" where
  "cell_or lx c v = (case parse_text lx c v of Some x \<Rightarrow> x | None \<Rightarrow> default_cell (data_type c))"

lemma cell_or_fits: "cell_fits c (cell_or lx c v)"
proof (cases "parse_text lx c v")
  case None
  then show ?thesis by (cases "data_type c") (simp_all add: cell_or_def is_string_def)
qed (simp add: cell_or_def parse_fits)

text \<open>The bytes of strings that a text contributes; a null text in a string column that must not be null is refused.\<close>

definition text_bytes :: "column \<Rightarrow> bytes \<Rightarrow> nat" where
  "text_bytes c v = (if is_string (data_type c) \<and> \<not> null_text v then length v else 0)"

definition null_refused :: "column \<Rightarrow> bytes \<Rightarrow> bool" where
  "null_refused c v \<longleftrightarrow> is_string (data_type c) \<and> not_null c \<and> null_text v"

lemma cell_or_text: "length (cell_text (cell_or lx c v)) = text_bytes c v"
proof -
  have "cell_text (cell_or lx c v) = []" if "\<not> is_string (data_type c)" using no_text[OF cell_or_fits that] .
  moreover have "cell_or lx c v = (if null_text v then if not_null c then VStr [] else Null else VStr v)" if "is_string (data_type c)"
    using that by (cases "data_type c") (auto simp: cell_or_def parse_text_def parse_value_def is_string_def)
  ultimately show ?thesis by (cases "is_string (data_type c)"; cases "null_text v"; cases "not_null c") (simp_all add: text_bytes_def)
qed

lemma text_upto_cells:
  "length sch = length vals \<Longrightarrow> text_upto (map2 (cell_or lx) sch vals) (length sch) = (\<Sum>(c, v)\<leftarrow>zip sch vals. text_bytes c v)"
  by (induction sch vals rule: list_induct2) (simp_all add: text_upto_def cell_or_text)

lemma s32_small: "0 \<le> i \<Longrightarrow> i < 2 ^ 31 \<Longrightarrow> s32 i = i"
  by (simp add: s32_def signed_of_int signed_take_bit_int_eq_self)

lemma str_length_eq:
  assumes "length sch = length vals" "acc + (\<Sum>(c, v)\<leftarrow>zip sch vals. text_bytes c v) < 2 ^ 31"
  shows "str_length sch (map Some vals) (int acc) =
    (if list_ex (\<lambda>(c, v). null_refused c v) (zip sch vals) then -1 else int (acc + (\<Sum>(c, v)\<leftarrow>zip sch vals. text_bytes c v)))"
  using assms
proof (induction sch vals arbitrary: acc rule: list_induct2)
  case (Cons c sch v vals)
  show ?case
  proof (cases "is_string (data_type c) \<and> \<not> null_text v")
    case True
    have "s32 (int acc + int (length v)) = int (acc + length v)" using Cons.prems True by (simp add: s32_small text_bytes_def[of c v])
    then show ?thesis using True Cons.IH[of "acc + length v"] Cons.prems by (auto simp: text_bytes_def[of c v] null_refused_def[of c v])
  next
    case False
    then show ?thesis using Cons.IH[of acc] Cons.prems by (auto simp: text_bytes_def[of c v] null_refused_def[of c v])
  qed
qed simp

lemma encode_values_eq:
  assumes e: "exact sch (map2 (cell_or lx) sch vals) N" and len: "length vals = length sch"
    and bd: "building sch (map2 (cell_or lx) sch vals) N k rb b" and k: "k \<le> length sch"
  shows "\<exists>rb' b'. encode_values lx rb (drop k sch) (map Some (drop k vals)) =
      Some (if list_all2 (\<lambda>c v. parse_text lx c v \<noteq> None) (drop k sch) (drop k vals) then 0 else -1, rb') \<and> buf rb' = Some b' \<and>
    (list_all2 (\<lambda>c v. parse_text lx c v \<noteq> None) (drop k sch) (drop k vals) \<longrightarrow>
      building sch (map2 (cell_or lx) sch vals) N (length sch) rb' b')"
  using bd k
proof (induction "length sch - k" arbitrary: k rb b)
  case 0
  then show ?case using len by (auto simp: building_def)
next
  case (Suc n)
  let ?cells = "map2 (cell_or lx) sch vals" let ?c = "sch ! k" let ?v = "vals ! k"
  have k: "k < length sch" using Suc(2) by simp
  have d: "drop k sch = ?c # drop (Suc k) sch" "drop k vals = ?v # drop (Suc k) vals" using k len by (simp_all add: Cons_nth_drop_Suc)
  have rb: "buf rb = Some b" "cnt rb = k" "rb_schema rb = sch" using Suc(3) by (auto simp: building_def)
  have cell: "?cells ! k = cell_or lx ?c ?v" using k len by simp
  show ?case
  proof (cases "parse_text lx ?c ?v")
    case None
    have "encode_values lx rb (?c # drop (Suc k) sch) (Some ?v # map Some (drop (Suc k) vals)) = Some (-1, rb)"
    proof (cases "null_text ?v")
      case False
      then have "parse_value lx (data_type (rb_schema rb ! cnt rb)) ?v = None" using None rb by (simp add: parse_text_def)
      then show ?thesis using False AppendValue_refused[of rb lx ?v] rb k by simp
    qed (use None in \<open>auto simp: parse_text_def split: if_splits\<close>)
    then show ?thesis using None d rb(1) by simp
  next
    case (Some x)
    obtain rb1 b1 where 1: "append_cell rb x = Some (True, rb1)" "building sch ?cells N (Suc k) rb1 b1"
      using append_cell_ok[OF Suc(3) e k] cell Some by (auto simp: cell_or_def)
    have "encode_values lx rb (?c # drop (Suc k) sch) (Some ?v # map Some (drop (Suc k) vals)) =
      encode_values lx rb1 (drop (Suc k) sch) (map Some (drop (Suc k) vals))"
    proof (cases "null_text ?v")
      case True
      then show ?thesis using Some 1(1) by (auto simp: parse_text_def split: if_splits)
    next
      case False
      then have "AppendValue lx rb ?v = append_cell rb x" using Some by (intro AppendValue_eq[OF Suc(3) e k]) (simp add: parse_text_def)
      then show ?thesis using False 1(1) by simp
    qed
    then show ?thesis using Suc(1)[OF _ 1(2)] Suc(2) k Some d by simp
  qed
qed

text \<open>C19: encoding a list of texts.  When every text parses as its column's type, or is a null that the column allows,
  the result is a complete row that holds the parsed values; otherwise the result is an error.  Either way nothing is
  written outside the row.  The sizes of the texts add up to less than 2 gigabytes.\<close>

theorem EncodeRow_cells:
  assumes "sch \<noteq> []" "length vals = length sch"
    "fixed_at sch (length sch) + 4 * string_no sch (length sch) + (\<Sum>(c, v)\<leftarrow>zip sch vals. text_bytes c v) < 2 ^ 31"
  shows "\<exists>out. if list_all2 (\<lambda>c v. parse_text lx c v \<noteq> None) sch vals
    then EncodeRow lx vals sch version old = Some (0, out) \<and> row_holds sch out (map2 (\<lambda>c v. the (parse_text lx c v)) sch vals)
    else EncodeRow lx vals sch version old = Some (-1, out)"
proof -
  let ?cells = "map2 (cell_or lx) sch vals" let ?n = "\<Sum>(c, v)\<leftarrow>zip sch vals. text_bytes c v"
  let ?ok = "list_all2 (\<lambda>c v. parse_text lx c v \<noteq> None) sch vals"
  have ne: "vals \<noteq> []" using assms(1,2) by auto
  have sl: "CalStrLength vals sch = (if list_ex (\<lambda>(c, v). null_refused c v) (zip sch vals) then -1 else int ?n)"
    using str_length_eq[of sch vals 0] assms(2,3) by (simp add: CalStrLength_def)
  show ?thesis
  proof (cases "list_ex (\<lambda>(c, v). null_refused c v) (zip sch vals)")
    case True
    then obtain i where "i < length sch" "null_refused (sch ! i) (vals ! i)" using assms(2) by (auto simp: list_ex_length)
    then have "\<not> ?ok" using assms(2) by (auto simp: list_all2_conv_all_nth null_refused_def parse_text_def)
    then show ?thesis using True sl ne assms(2) by (simp add: EncodeRow_def encode_row_def)
  next
    case False
    let ?rb = "SetSchemaVersion (new_RowBuilder sch) (of_nat version)"
    have b: "builds sch ?rb" using new_RowBuilder_builds[of sch] by (simp add: builds_def SetSchemaVersion_def)
    have tx: "text_upto ?cells (length ?cells) = ?n" using text_upto_cells[of sch vals lx] assms(2) by simp
    have fits: "list_all2 cell_fits sch ?cells" using assms(2) cell_or_fits by (auto simp: list_all2_conv_all_nth)
    define N where "N = CalTotalLength ?rb ?n"
    have e: "exact sch ?cells N" using CalTotalLength_exact[OF assms(1) fits _ b] assms(3) unfolding tx N_def by simp
    have "length (resize N old) = N" by (simp add: resize_def)
    then obtain rb1 b1 where 1: "SetBuffer ?rb (Some (resize N old)) N True = Some (True, rb1)" "building sch ?cells N 0 rb1 b1"
      using SetBuffer_building[OF e assms(1) _ b] by blast
    obtain rb' b' where 2: "encode_values lx rb1 sch (map Some vals) = Some (if ?ok then 0 else -1, rb')" "buf rb' = Some b'"
      "?ok \<longrightarrow> building sch ?cells N (length sch) rb' b'" using encode_values_eq[OF e assms(2) 1(2)] by auto
    have enc: "EncodeRow lx vals sch version old = Some (if ?ok then 0 else -1, b')"
      using 1(1) 2(1,2) sl False ne assms(2) by (simp add: EncodeRow_def encode_row_def Let_def N_def)
    have "row_holds sch b' (map2 (\<lambda>c v. the (parse_text lx c v)) sch vals)" if ?ok
    proof -
      have eq: "?cells = map2 (\<lambda>c v. the (parse_text lx c v)) sch vals"
        using that assms(2) by (intro nth_equalityI) (auto simp: list_all2_conv_all_nth cell_or_def)
      have "parts sch ?cells N (length sch) (length sch) (length sch) (length sch) b'" using 2(3) that by (simp add: building_def)
      then show ?thesis using row_holds_parts[OF e assms(1)] unfolding eq by blast
    qed
    then show ?thesis using enc by auto
  qed
qed

text \<open>A parser of decimal digits, to have a concrete one.\<close>

definition digits :: "bytes \<Rightarrow> nat option" where
  "digits v = (if v \<noteq> [] \<and> list_all (\<lambda>b. 48 \<le> b \<and> b \<le> 57) v then Some (fold (\<lambda>b n. 10 * n + (unat b - 48)) v 0) else None)"

definition sample_lex :: lexical where
  "sample_lex = \<lparr>lex_int16 = map_option of_nat \<circ> digits, lex_int32 = map_option of_nat \<circ> digits, lex_int64 = map_option of_nat \<circ> digits,
     lex_uint32 = map_option of_nat \<circ> digits, lex_float = \<lambda>_. None, lex_double = \<lambda>_. None\<rparr>"

theorem EncodeRow_cells_witness:
  "\<exists>out. EncodeRow sample_lex [[52, 50], [97, 98]] schema_v1 1 [] = Some (0, out) \<and> row_holds schema_v1 out [VInt32 42, VStr [97, 98]]"
proof -
  have 1: "schema_v1 \<noteq> []" "length [[52, 50], [97, 98] :: bytes] = length schema_v1" by (simp_all add: schema_v1_def)
  have "parse_text sample_lex (schema_v1 ! 0) [52, 50] = Some (VInt32 42)" "parse_text sample_lex (schema_v1 ! 1) [97, 98] = Some (VStr [97, 98])"
    by (simp_all add: schema_v1_def parse_text_def null_text_def ascii_def NONETOKEN_def parse_value_def sample_lex_def digits_def)
  then have 2: "list_all2 (\<lambda>c v. parse_text sample_lex c v \<noteq> None) schema_v1 [[52, 50], [97, 98]]"
    "map2 (\<lambda>c v. the (parse_text sample_lex c v)) schema_v1 [[52, 50], [97, 98]] = [VInt32 42, VStr [97, 98]]"
    by (simp_all add: schema_v1_def)
  have 3: "fixed_at schema_v1 (length schema_v1) + 4 * string_no schema_v1 (length schema_v1) +
      (\<Sum>(c, v)\<leftarrow>zip schema_v1 [[52, 50], [97, 98]]. text_bytes c v) < 2 ^ 31"
    by (simp add: schema_v1_def fixed_at_def string_no_def row_sizes text_bytes_def)
  show ?thesis using EncodeRow_cells[OF 1 3, of sample_lex 1 "[]"] 2 by simp
qed

section \<open>Texts of a row\<close>

fun cell_show :: "float_text \<Rightarrow> cell \<Rightarrow> bytes" where
  "cell_show ft Null = NONETOKEN"
| "cell_show ft (VBool v) = ascii (if v then ''true'' else ''false'')"
| "cell_show ft (VInt16 v) = dec_int (sint v)"
| "cell_show ft (VInt32 v) = dec_int (sint v)"
| "cell_show ft (VInt64 v) = dec_int (sint v)"
| "cell_show ft (VTimestamp v) = dec_int (sint v)"
| "cell_show ft (VFloat v) = text_float ft v"
| "cell_show ft (VDouble v) = text_double ft v"
| "cell_show ft (VDate v) = date_text v"
| "cell_show ft (VStr s) = s"

lemma sint_widen: "sint (scast (a :: 16 word) :: 64 word) = sint a" "sint (scast (b :: 32 word) :: 64 word) = sint b"
proof -
  have "- (2 ^ 15) \<le> sint a" "sint a < 2 ^ 15" using sint_range_size[of a] by (simp_all add: word_size)
  then show "sint (scast a :: 64 word) = sint a" by (simp add: signed_scast_eq signed_take_bit_int_eq_self)
  have "- (2 ^ 31) \<le> sint b" "sint b < 2 ^ 31" using sint_range_size[of b] by (simp_all add: word_size)
  then show "sint (scast b :: 64 word) = sint b" by (simp add: signed_scast_eq signed_take_bit_int_eq_self)
qed

text \<open>On the row of the view the general getters are the getters of the view.\<close>

lemma GetValue_view:
  assumes "row rv = Some b" "is_valid rv" "i < length (v_schema rv)" "RowView_GetSize b = Some sz" "HEADER_LENGTH < sz"
    "v_str_addr_length rv = GetAddrLength sz"
  shows "\<not> is_string (data_type (v_schema rv ! i)) \<Longrightarrow>
      GetValue_fixed rv (Some b) i (data_type (v_schema rv ! i)) = get_fixed rv i (data_type (v_schema rv ! i)) (type_size (data_type (v_schema rv ! i)))"
    "is_string (data_type (v_schema rv ! i)) \<Longrightarrow> GetValue_string rv (Some b) i = GetString rv i"
proof -
  have ne: "v_schema rv \<noteq> []" using assms(3) by auto
  show "\<not> is_string (data_type (v_schema rv ! i)) \<Longrightarrow>
      GetValue_fixed rv (Some b) i (data_type (v_schema rv ! i)) = get_fixed rv i (data_type (v_schema rv ! i)) (type_size (data_type (v_schema rv ! i)))"
    using assms ne by (simp add: GetValue_fixed_def get_fixed_def CheckValid_def)
  show "is_string (data_type (v_schema rv ! i)) \<Longrightarrow> GetValue_string rv (Some b) i = GetString rv i"
    using assms(1-5) ne by (auto simp: GetValue_string_def GetString_def CheckValid_def is_string_def assms(6) cong: if_cong)
qed

lemma GetStrValue_shows:
  assumes c: "get_cell rv i = Some v" "row rv = Some b" "is_valid rv" "i < length (v_schema rv)" and n: "v \<noteq> Null"
    and z: "RowView_GetSize b = Some sz" "HEADER_LENGTH < sz" "v_str_addr_length rv = GetAddrLength sz"
  shows "GetStrValue ft rv (Some b) i = Some (0, Some (cell_show ft v))"
proof -
  let ?t = "data_type (v_schema rv ! i)"
  have ck: "CheckValid rv i ?t" and ne: "v_schema rv \<noteq> []" using c by (auto simp: CheckValid_def)
  have null: "RowView_IsNULL b i = Some False" using project_column_eq(1)[OF c] n by simp
  note gv = GetValue_view[OF c(2-4) z]
  have lt: "\<not> sz \<le> HEADER_LENGTH" "\<not> length (v_schema rv) \<le> i" using z c by auto
  note go = GetStrValue_def z(1) lt null gv ne got_or_def with_got_def GetInteger_def sint_widen
  show ?thesis
  proof (cases "is_string ?t")
    case True
    then have "do { g \<leftarrow> GetString rv i; if fst g = 1 then Some Null else map_option VStr (string_at b g) } = Some v"
      "CheckValid rv i kVarchar \<or> CheckValid rv i kString"
      using c ck by (auto simp: get_cell_def is_string_def)
    then obtain xs off where "v = VStr xs" "GetString rv i = Some (0, Some (off, length xs))" "peek off (length xs) b = Some xs"
      using copy_string(2)[OF _ c(2)] n by blast
    then show ?thesis using True by (auto simp: go is_string_def string_at_def)
  next
    case False
    have "get_fixed rv i ?t (type_size ?t) \<noteq> None"
      using False c(1) by (cases ?t) (auto simp: get_cell_def getters as_cell_def with_got_def is_string_def type_size_def TYPE_SIZE_ARRAY_def Option.bind_eq_Some_conv)
    then obtain m where "get_fixed rv i ?t (type_size ?t) = Some (0, Some m)"
      using get_fixed_cases[OF _ c(2) ck] null by force
    moreover from this have "GetValue_fixed rv (Some b) i ?t = Some (0, Some m)" using gv(1)[OF False] by simp
    ultimately show ?thesis
      using c(1) False by (cases ?t) (auto simp: get_cell_def getters as_cell_def is_string_def type_size_def TYPE_SIZE_ARRAY_def go)
  qed
qed

lemma decode_values_shows:
  assumes "sees rv s b vals" "RowView_GetSize b = Some sz" "HEADER_LENGTH < sz" "v_str_addr_length rv = GetAddrLength sz"
    "\<forall>i\<in>set is. i < length s"
  shows "decode_values ft rv False is = Some (map (cell_show ft) (picked is vals))"
  using assms(5)
proof (induction "is")
  case (Cons i "is")
  note cell = sees_cell(1-4)[OF assms(1), of i]
  have "RowView_IsNULL b i = Some (vals ! i = Null)" "row rv = Some b"
    using project_column_eq(1)[OF cell] cell(2) Cons.prems by auto
  then show ?case
    using Cons GetStrValue_shows[OF cell _ assms(2-4), of ft] by (cases "vals ! i = Null") (auto simp: picked_def)
qed (simp add: picked_def)

text \<open>C20: the texts of a row.  \<open>DecodeRow\<close> of a row shows every value the row holds, in the order of the columns, and the
  token for no value where the row has a null.\<close>

theorem DecodeRow_texts:
  assumes "sch \<noteq> []" "row_holds sch b cells"
  shows "DecodeRow ft sch b = Some (True, map (cell_show ft) cells)"
proof -
  obtain rv where rv: "new_RowView_row sch (Some b) (length b) = Some rv" "is_valid rv" "map (get_cell rv) [0..<length sch] = map Some cells"
    using assms(2) by (auto simp: row_holds_def split: option.splits)
  have 1: "v_schema rv = sch" "row rv = Some b" "RowView_GetSize b = Some (length b)" "HEADER_LENGTH < length b"
    "v_str_addr_length rv = GetAddrLength (length b)"
    using rv(1,2) assms(1)
    by (auto simp: new_RowView_row_def RowView_Reset_def RowView_Init_def offsets_of_schema RowView_GetSize_def
        Option.bind_eq_Some_conv split: if_splits)
  have s: "sees rv sch b cells" using rv 1 by (simp add: sees_def)
  have l: "length cells = length sch" using sees_cell(5)[OF s, of 0] assms(1) by simp
  have "decode_values ft rv False [0..<length sch] = Some (map (cell_show ft) (picked [0..<length sch] cells))"
    by (rule decode_values_shows[OF s 1(3-5)]) simp
  moreover have "picked [0..<length sch] cells = cells" using l by (simp add: picked_def map_nth flip: l)
  ultimately show ?thesis using assms(1) rv(1) by (simp add: DecodeRow_def DecodeRow_view_def)
qed

theorem DecodeRow_texts_witness:
  "schema_v2 \<noteq> [] \<and> row_holds schema_v2 row_v2 [VInt32 9, VStr [67], Null] \<and>
   (\<forall>ft. DecodeRow ft schema_v2 row_v2 = Some (True, [ascii ''9'', [67], NONETOKEN]))"
proof -
  have 1: "schema_v2 \<noteq> []" by (simp add: schema_v2_def)
  have "dec_int (sint (9 :: 32 word)) = ascii ''9''" by (simp add: dec_int_def dec.simps ascii_def)
  then show ?thesis using DecodeRow_texts[OF 1 sample_rows(2)] 1 sample_rows(2) by simp
qed

end
