(* ===== verification/Table_Index.thy ===== *)
theory Table_Index
  imports Schema_Codec Ttl
begin

text \<open>
  The indexes of a table, from \<open>src/storage/schema.h\<close> and \<open>src/storage/schema.cc\<close>: column and index definitions, the
  index sets of a table and how they are made from its meta data, and the partitions of a table.

  Index definitions are shared objects that are changed after they were stored, so they live in a store of their own
  and are named by their place in it.  A column definition is complete before anybody shares it, so it is a value.
\<close>

section \<open>Ordered maps\<close>

text \<open>\<open>std::map\<close> as a list in the order of its keys; \<open>emplace\<close> and \<open>insert\<close> keep the value of a key that is present.\<close>

fun map_emplace :: "('k \<Rightarrow> 'k \<Rightarrow> bool) \<Rightarrow> 'k \<Rightarrow> 'v \<Rightarrow> ('k \<times> 'v) list \<Rightarrow> ('k \<times> 'v) list" where
  "map_emplace lt k v [] = [(k, v)]"
| "map_emplace lt k v ((k', v') # m) = (
     if lt k k' then (k, v) # (k', v') # m
     else if lt k' k then (k', v') # map_emplace lt k v m
     else (k', v') # m)"

definition bytes_less :: "bytes \<Rightarrow> bytes \<Rightarrow> bool" where
  "bytes_less a b \<longleftrightarrow> Slice_compare a b < 0"

section \<open>Columns\<close>

definition MAX_INDEX_NUM :: nat where "MAX_INDEX_NUM = 200"

record column_def =
  cf_name :: bytes
  cf_id :: nat
  cf_type :: DataType
  cf_not_null :: bool
  cf_ts_idx :: int

definition CheckTsType :: "DataType \<Rightarrow> bool" where
  "CheckTsType t \<longleftrightarrow> t = kBigInt \<or> t = kTimestamp"

record table_column =
  tc_columns :: "column_def list"
  tc_map :: "bytes \<rightharpoonup> column_def"

definition TableColumn_GetColumn :: "table_column \<Rightarrow> nat \<Rightarrow> column_def option" where
  "TableColumn_GetColumn tc idx = (if idx < length (tc_columns tc) then Some (tc_columns tc ! idx) else None)"

definition TableColumn_GetColumn_name :: "table_column \<Rightarrow> bytes \<Rightarrow> column_def option" where
  "TableColumn_GetColumn_name tc name = tc_map tc name"

definition TableColumn_AddColumn :: "table_column \<Rightarrow> column_def \<Rightarrow> table_column" where
  "TableColumn_AddColumn tc c = tc\<lparr>tc_columns := tc_columns tc @ [c],
     tc_map := (case tc_map tc (cf_name c) of None \<Rightarrow> (tc_map tc)(cf_name c \<mapsto> c) | Some _ \<Rightarrow> tc_map tc)\<rparr>"

section \<open>Index definitions\<close>

datatype IndexStatus = kReady | kWaiting | kDeleting | kDeleted

datatype IndexType = kUnique | kNoUnique | kPrimaryKey | kAutoGen | kIncrement | kTimeSerise

record IndexDef =
  ix_name :: bytes
  ix_id :: nat
  ix_inner_pos :: nat
  ix_status :: IndexStatus
  ix_type :: IndexType
  ix_columns :: "column_def list"
  ix_ttl :: "TTLSt option"
  ix_ts_column :: "column_def option"

definition new_IndexDef :: "bytes \<Rightarrow> nat \<Rightarrow> IndexStatus \<Rightarrow> IndexType \<Rightarrow> column_def list \<Rightarrow> IndexDef" where
  "new_IndexDef name i status type cols = \<lparr>ix_name = name, ix_id = i, ix_inner_pos = 0, ix_status = status,
     ix_type = type, ix_columns = cols, ix_ttl = None, ix_ts_column = None\<rparr>"

definition IsReady :: "IndexDef \<Rightarrow> bool" where
  "IsReady d \<longleftrightarrow> ix_status d = kReady"

definition GetTTLType :: "IndexDef \<Rightarrow> TTLType option" where
  "GetTTLType d = map_option ttl_type (ix_ttl d)"

text \<open>The index of the time column that an index has, where it has one.\<close>

definition ts_of :: "IndexDef \<Rightarrow> int option" where
  "ts_of d = map_option cf_ts_idx (ix_ts_column d)"

text \<open>The indexes that share a set of segments.\<close>

record inner_index =
  ii_id :: nat
  ii_index :: "addr list"
  ii_ts :: "nat list"

section \<open>The indexes of a table\<close>

record table_index =
  idefs :: "IndexDef list"
  indexs :: "addr list"
  multi_ts_indexs :: "addr list list"
  inner_indexs :: "inner_index list"
  column_key_2_inner_index :: "int list"
  pk_index :: "addr option"
  combine_col_name_map :: "bytes \<rightharpoonup> addr"
  col_name_vec :: "bytes list"
  unique_col_name_vec :: "bytes list"

definition new_TableIndex :: table_index where
  "new_TableIndex = \<lparr>idefs = [], indexs = [], multi_ts_indexs = [], inner_indexs = [],
     column_key_2_inner_index = replicate MAX_INDEX_NUM (-1), pk_index = None, combine_col_name_map = Map.empty,
     col_name_vec = [], unique_col_name_vec = []\<rparr>"

definition TableIndex_ReSet :: "table_index \<Rightarrow> table_index" where
  "TableIndex_ReSet ti = ti\<lparr>indexs := [], multi_ts_indexs := [], inner_indexs := [],
     column_key_2_inner_index := replicate MAX_INDEX_NUM (-1), pk_index := None, combine_col_name_map := Map.empty,
     col_name_vec := [], unique_col_name_vec := []\<rparr>"

definition idef :: "table_index \<Rightarrow> addr \<Rightarrow> IndexDef option" where
  "idef ti a = (if a < length (idefs ti) then Some (idefs ti ! a) else None)"

definition make_index :: "table_index \<Rightarrow> IndexDef \<Rightarrow> addr \<times> table_index" where
  "make_index ti d = (length (idefs ti), ti\<lparr>idefs := idefs ti @ [d]\<rparr>)"

definition change_index :: "(IndexDef \<Rightarrow> IndexDef) \<Rightarrow> addr \<Rightarrow> table_index \<Rightarrow> table_index option" where
  "change_index f a ti = do { d \<leftarrow> idef ti a; Some (ti\<lparr>idefs := (idefs ti)[a := f d]\<rparr>) }"

definition SetInnerPos :: "nat \<Rightarrow> addr \<Rightarrow> table_index \<Rightarrow> table_index option" where
  "SetInnerPos pos = change_index (\<lambda>d. d\<lparr>ix_inner_pos := pos\<rparr>)"

definition SetTsColumn :: "column_def option \<Rightarrow> addr \<Rightarrow> table_index \<Rightarrow> table_index option" where
  "SetTsColumn c = change_index (\<lambda>d. d\<lparr>ix_ts_column := c\<rparr>)"

definition SetStatus :: "IndexStatus \<Rightarrow> addr \<Rightarrow> table_index \<Rightarrow> table_index option" where
  "SetStatus s = change_index (\<lambda>d. d\<lparr>ix_status := s\<rparr>)"

definition IndexDef_SetTTL :: "TTLSt \<Rightarrow> addr \<Rightarrow> table_index \<Rightarrow> table_index option" where
  "IndexDef_SetTTL ttl = change_index (\<lambda>d. d\<lparr>ix_ttl := Some ttl\<rparr>)"

text \<open>The constructor of \<open>InnerIndexSt\<close> reads every index of the set.\<close>

definition new_InnerIndexSt :: "table_index \<Rightarrow> nat \<Rightarrow> addr list \<Rightarrow> inner_index option" where
  "new_InnerIndexSt ti i index = do {
     ts \<leftarrow> foldM (\<lambda>a ts. do {
       d \<leftarrow> idef ti a;
       Some (case ts_of d of Some t \<Rightarrow> if t \<ge> 0 then ts @ [nat t] else ts | None \<Rightarrow> ts) }) index [];
     Some \<lparr>ii_id = i, ii_index = index, ii_ts = ts\<rparr> }"

fun max_height_of :: "table_index \<Rightarrow> nat \<Rightarrow> nat \<Rightarrow> addr list \<Rightarrow> nat option" where
  "max_height_of ti abs_max_height max_height [] = Some max_height"
| "max_height_of ti abs_max_height max_height (a # as) = do {
     d \<leftarrow> idef ti a;
     t \<leftarrow> GetTTLType d;
     if t = kAbsoluteTime \<or> t = kAbsAndLat then Some abs_max_height
     else max_height_of ti abs_max_height max_height as }"

definition GetKeyEntryMaxHeight :: "table_index \<Rightarrow> inner_index \<Rightarrow> nat \<Rightarrow> nat \<Rightarrow> nat option" where
  "GetKeyEntryMaxHeight ti ii abs_max_height lat_max_height = max_height_of ti abs_max_height lat_max_height (ii_index ii)"

section \<open>Looking indexes up\<close>

definition has_ts :: "table_index \<Rightarrow> int \<Rightarrow> addr \<Rightarrow> bool option" where
  "has_ts ti ts_idx a = map_option (\<lambda>d. ts_of d = Some ts_idx) (idef ti a)"

definition TableIndex_GetIndex :: "table_index \<Rightarrow> nat \<Rightarrow> addr option" where
  "TableIndex_GetIndex ti idx = (
     if multi_ts_indexs ti \<noteq> [] then
       (if idx < length (multi_ts_indexs ti) \<and> multi_ts_indexs ti ! idx \<noteq> [] then Some (hd (multi_ts_indexs ti ! idx)) else None)
     else if idx < length (indexs ti) then Some (indexs ti ! idx) else None)"

text \<open>The first index of a list that has the property; reading an index may fail.\<close>

fun find_index :: "(addr \<Rightarrow> bool option) \<Rightarrow> addr list \<Rightarrow> addr option option" where
  "find_index P [] = Some None"
| "find_index P (a # as) = do { p \<leftarrow> P a; if p then Some (Some a) else find_index P as }"

definition TableIndex_GetIndex_ts :: "table_index \<Rightarrow> nat \<Rightarrow> int \<Rightarrow> addr option option" where
  "TableIndex_GetIndex_ts ti idx ts_idx = (
     if multi_ts_indexs ti \<noteq> [] then
       (if idx < length (multi_ts_indexs ti) then find_index (has_ts ti ts_idx) (multi_ts_indexs ti ! idx) else Some None)
     else if idx < length (indexs ti) then find_index (has_ts ti ts_idx) [indexs ti ! idx] else Some None)"

definition has_name :: "table_index \<Rightarrow> bytes \<Rightarrow> addr \<Rightarrow> bool option" where
  "has_name ti name a = map_option (\<lambda>d. ix_name d = name) (idef ti a)"

definition TableIndex_GetIndex_name :: "table_index \<Rightarrow> bytes \<Rightarrow> addr option option" where
  "TableIndex_GetIndex_name ti name = find_index (has_name ti name)
     (if multi_ts_indexs ti \<noteq> [] then map hd (filter (\<lambda>v. v \<noteq> []) (multi_ts_indexs ti)) else indexs ti)"

text \<open>Inside one key's indexes the search stops at the first that has another name.\<close>

fun find_named :: "table_index \<Rightarrow> bytes \<Rightarrow> int \<Rightarrow> addr list \<Rightarrow> addr option option" where
  "find_named ti name ts_idx [] = Some None"
| "find_named ti name ts_idx (a # as) = do {
     d \<leftarrow> idef ti a;
     if ix_name d \<noteq> name then Some None
     else if ts_of d = Some ts_idx then Some (Some a) else find_named ti name ts_idx as }"

fun find_named_multi :: "table_index \<Rightarrow> bytes \<Rightarrow> int \<Rightarrow> addr list list \<Rightarrow> addr option option" where
  "find_named_multi ti name ts_idx [] = Some None"
| "find_named_multi ti name ts_idx (v # vs) = do {
     r \<leftarrow> find_named ti name ts_idx v;
     case r of Some a \<Rightarrow> Some (Some a) | None \<Rightarrow> find_named_multi ti name ts_idx vs }"

definition TableIndex_GetIndex_name_ts :: "table_index \<Rightarrow> bytes \<Rightarrow> int \<Rightarrow> addr option option" where
  "TableIndex_GetIndex_name_ts ti name ts_idx = (
     if multi_ts_indexs ti \<noteq> [] then find_named_multi ti name ts_idx (multi_ts_indexs ti)
     else do {
       r \<leftarrow> find_index (has_name ti name) (indexs ti);
       case r of None \<Rightarrow> Some None | Some a \<Rightarrow> find_index (has_ts ti ts_idx) [a] })"

definition GetAllIndex :: "table_index \<Rightarrow> addr list" where
  "GetAllIndex ti = concat (multi_ts_indexs ti) @ indexs ti"

definition TableIndex_Size :: "table_index \<Rightarrow> nat" where
  "TableIndex_Size ti = (if multi_ts_indexs ti \<noteq> [] then sum_list (map length (multi_ts_indexs ti)) else length (indexs ti))"

definition GetMaxIndexId :: "table_index \<Rightarrow> int option" where
  "GetMaxIndexId ti = (
     if multi_ts_indexs ti \<noteq> [] then do {
       assert_that (last (multi_ts_indexs ti) \<noteq> []);
       d \<leftarrow> idef ti (hd (last (multi_ts_indexs ti)));
       Some (int (ix_id d)) }
     else if indexs ti \<noteq> [] then map_option (\<lambda>d. int (ix_id d)) (idef ti (last (indexs ti)))
     else Some (-1))"

definition HasAutoGen :: "table_index \<Rightarrow> bool option" where
  "HasAutoGen ti = do { a \<leftarrow> pk_index ti; d \<leftarrow> idef ti a; Some (ix_type d = kAutoGen) }"

definition GetIndexByCombineStr :: "table_index \<Rightarrow> bytes \<Rightarrow> addr option" where
  "GetIndexByCombineStr ti combine_str = combine_col_name_map ti combine_str"

definition IsColName :: "table_index \<Rightarrow> bytes \<Rightarrow> bool" where
  "IsColName ti name \<longleftrightarrow> name \<in> set (col_name_vec ti)"

definition IsUniqueColName :: "table_index \<Rightarrow> bytes \<Rightarrow> bool" where
  "IsUniqueColName ti name \<longleftrightarrow> name \<in> set (unique_col_name_vec ti)"

definition GetInnerIndex :: "table_index \<Rightarrow> nat \<Rightarrow> inner_index option" where
  "GetInnerIndex ti idx = (if idx < length (inner_indexs ti) then Some (inner_indexs ti ! idx) else None)"

definition GetInnerIndexPos :: "table_index \<Rightarrow> nat \<Rightarrow> int" where
  "GetInnerIndexPos ti column_key_pos = (
     if column_key_pos \<ge> length (column_key_2_inner_index ti) then -1 else column_key_2_inner_index ti ! column_key_pos)"

definition SetInnerIndexPos :: "table_index \<Rightarrow> nat \<Rightarrow> nat \<Rightarrow> table_index" where
  "SetInnerIndexPos ti column_key_pos inner_pos = (
     if column_key_pos \<ge> length (column_key_2_inner_index ti) then ti
     else ti\<lparr>column_key_2_inner_index := (column_key_2_inner_index ti)[column_key_pos := int inner_pos]\<rparr>)"

definition AddInnerIndex :: "table_index \<Rightarrow> inner_index \<Rightarrow> table_index" where
  "AddInnerIndex ti ii = ti\<lparr>inner_indexs := inner_indexs ti @ [ii]\<rparr>"

section \<open>Adding indexes\<close>

definition AddMultiTsIndex :: "nat \<Rightarrow> addr \<Rightarrow> table_index \<Rightarrow> int \<times> table_index" where
  "AddMultiTsIndex pos a ti = (let m = multi_ts_indexs ti in
     if pos > length m then (-1, ti)
     else if pos < length m then (0, ti\<lparr>multi_ts_indexs := m[pos := m ! pos @ [a]]\<rparr>)
     else (0, ti\<lparr>multi_ts_indexs := m @ [[a]]\<rparr>))"

definition combine_name :: "column_def list \<Rightarrow> bytes" where
  "combine_name cols = foldl (\<lambda>n c. (if n \<noteq> [] then n @ [95] else n) @ cf_name c) [] cols"

definition TableIndex_AddIndex :: "addr \<Rightarrow> table_index \<Rightarrow> (int \<times> table_index) option" where
  "TableIndex_AddIndex a ti = (
     if multi_ts_indexs ti \<noteq> [] then Some (AddMultiTsIndex (length (multi_ts_indexs ti)) a ti)
     else if length (indexs ti) \<ge> MAX_INDEX_NUM then Some (-1, ti)
     else do {
       d \<leftarrow> idef ti a;
       same \<leftarrow> find_index (has_name ti (ix_name d)) (indexs ti);
       if same \<noteq> None then Some (-1, ti)
       else Some (0, ti\<lparr>indexs := indexs ti @ [a],
         pk_index := (if ix_type d = kPrimaryKey \<or> ix_type d = kAutoGen then Some a else pk_index ti),
         col_name_vec := col_name_vec ti @ map cf_name (ix_columns d),
         unique_col_name_vec := (if ix_type d = kUnique then unique_col_name_vec ti @ map cf_name (ix_columns d)
           else unique_col_name_vec ti),
         combine_col_name_map := (case combine_col_name_map ti (combine_name (ix_columns d)) of
             None \<Rightarrow> (combine_col_name_map ti)(combine_name (ix_columns d) \<mapsto> a)
           | Some _ \<Rightarrow> combine_col_name_map ti)\<rparr>) })"

end
