(* ===== verification/Table_Meta.thy ===== *)
theory Table_Meta
  imports Table_Index
begin

text \<open>
  How the indexes of a table are made from its meta data: \<open>TableIndex::ParseFromMeta\<close> and \<open>FillIndexVal\<close> of
  \<open>src/storage/schema.cc\<close>; and the partitions of a table, \<open>PartitionSt\<close> and \<open>TableSt\<close>.
\<close>

section \<open>Meta data\<close>

text \<open>The messages of \<open>tablet.proto\<close> and \<open>common.proto\<close>, with the fields that the code reads.\<close>

type_synonym ttl_desc = "64 word \<times> 64 word \<times> TTLType"

record column_info = column_meta +
  ci_ttl :: "64 word option"
  ci_abs_ttl :: "64 word option"
  ci_lat_ttl :: "64 word option"

record column_key =
  ck_index_name :: bytes
  ck_col_name :: "bytes list"
  ck_ts_name :: "bytes list"
  ck_flag :: nat
  ck_ttl :: "ttl_desc option"

record table_meta =
  tm_ttl :: "64 word"
  tm_ttl_type :: TTLType
  tm_ttl_desc :: "ttl_desc option"
  tm_seg_cnt :: int
  tm_key_entry_max_height :: "nat option"
  tm_dimensions :: "bytes list"
  tm_column_desc :: "column_info list"
  tm_column_key :: "column_key list"
  tm_added_column_desc :: "column_info list"
  tm_schema_versions :: "(int \<times> int) list"
  tm_leader :: "bool option"

fun ttl_of_desc :: "ttl_desc \<Rightarrow> TTLSt" where
  "ttl_of_desc (minutes, lat, type) = TTLSt_of_desc minutes lat type"

definition table_ttl :: "table_meta \<Rightarrow> TTLSt" where
  "table_ttl tm = (case tm_ttl_desc tm of
     Some desc \<Rightarrow> ttl_of_desc desc
   | None \<Rightarrow> \<lparr>abs_ttl = (if tm_ttl_type tm = kAbsoluteTime then tm_ttl tm * 60 * 1000 else 0),
       lat_ttl = (if tm_ttl_type tm = kAbsoluteTime then 0 else tm_ttl tm), ttl_type = ConvertTTLType (tm_ttl_type tm)\<rparr>)"

section \<open>Columns\<close>

text \<open>The variables of the function; \<open>col_map\<close> holds the first column of a name.\<close>

record parse_state =
  ps_ti :: table_index
  key_idx :: nat
  ts_idx :: nat
  col_map :: "bytes \<rightharpoonup> column_def"
  ts_ttl :: "bytes \<rightharpoonup> TTLSt"
  ts_mapping :: "(bytes \<times> nat) list"

definition column_type :: "column_info \<Rightarrow> DataType" where
  "column_type c = (case cm_data_type c of Some t \<Rightarrow> t | None \<Rightarrow> ConvertStrType (cm_type c))"

definition add_column :: "column_def \<Rightarrow> parse_state \<Rightarrow> parse_state" where
  "add_column c ps = (case col_map ps (cf_name c) of
     None \<Rightarrow> ps\<lparr>col_map := (col_map ps)(cf_name c \<mapsto> c)\<rparr> | Some _ \<Rightarrow> ps)"

text \<open>The next time column; its place is stored in a byte.\<close>

definition add_ts :: "bytes \<Rightarrow> parse_state \<Rightarrow> parse_state" where
  "add_ts name ps = ps\<lparr>ts_mapping := map_emplace bytes_less name (ts_idx ps mod 256) (ts_mapping ps), ts_idx := Suc (ts_idx ps)\<rparr>"

definition column_ttl :: "table_meta \<Rightarrow> column_info \<Rightarrow> TTLSt" where
  "column_ttl tm c = (let t = table_ttl tm in
     if ci_abs_ttl c \<noteq> None \<or> ci_lat_ttl c \<noteq> None
     then t\<lparr>abs_ttl := (case ci_abs_ttl c of Some a \<Rightarrow> a * 60 * 1000 | None \<Rightarrow> 0),
       lat_ttl := (case ci_lat_ttl c of Some l \<Rightarrow> l | None \<Rightarrow> 0)\<rparr>
     else case ci_ttl c of
       Some n \<Rightarrow> if tm_ttl_type tm = kAbsoluteTime then t\<lparr>abs_ttl := n * 60 * 1000, lat_ttl := 0\<rparr>
         else t\<lparr>abs_ttl := 0, lat_ttl := n\<rparr>
     | None \<Rightarrow> t)"

definition parse_column :: "table_meta \<Rightarrow> bytes list \<Rightarrow> column_info \<Rightarrow> parse_state \<Rightarrow> (bool \<times> parse_state) option" where
  "parse_column tm ts_col_set c ps = (
     let name = cm_name c;
         type = column_type c;
         col = \<lparr>cf_name = name, cf_id = key_idx ps, cf_type = type, cf_not_null = True, cf_ts_idx = -1\<rparr>;
         ts_col = col\<lparr>cf_ts_idx := int (ts_idx ps)\<rparr>
     in if cm_add_ts_idx c then do {
          let (a, ti) = make_index (ps_ti ps) ((new_IndexDef name (key_idx ps) kReady kTimeSerise [col])\<lparr>ix_ttl := Some (table_ttl tm)\<rparr>);
          (ret, ti') \<leftarrow> TableIndex_AddIndex a ti;
          let ps' = add_column col (ps\<lparr>ps_ti := ti'\<rparr>);
          Some (if ret < 0 then (False, ps') else (True, ps'\<lparr>key_idx := Suc (key_idx ps)\<rparr>)) }
        else if cm_is_ts_col c then
          (if name \<notin> set ts_col_set \<and> ts_mapping ps \<noteq> [] then Some (False, add_column col ps)
           else if \<not> CheckTsType type then Some (False, add_column col ps)
           else let ps' = add_ts name (add_column ts_col ps) in
             Some (True, ps'\<lparr>ts_ttl := (case ts_ttl ps name of None \<Rightarrow> (ts_ttl ps)(name \<mapsto> column_ttl tm c) | Some _ \<Rightarrow> ts_ttl ps)\<rparr>))
        else if name \<in> set ts_col_set then
          (if \<not> CheckTsType type then Some (False, add_column col ps)
           else Some (True, add_ts name (add_column ts_col ps)))
        else Some (True, add_column col ps))"

section \<open>Column keys\<close>

definition has_multi_ts :: "table_meta \<Rightarrow> bool" where
  "has_multi_ts tm \<longleftrightarrow> (\<exists>k\<in>set (tm_column_key tm). length (ck_ts_name k) > 1)"

definition key_ttl :: "table_meta \<Rightarrow> parse_state \<Rightarrow> column_key \<Rightarrow> bytes option \<Rightarrow> TTLSt" where
  "key_ttl tm ps k ts = (case ck_ttl k of
     Some desc \<Rightarrow> ttl_of_desc desc
   | None \<Rightarrow> (case Option.bind ts (ts_ttl ps) of Some t \<Rightarrow> t | None \<Rightarrow> table_ttl tm))"

text \<open>The body of the inner loop, for one time column of the key or for a key without any.\<close>

definition parse_key_ts ::
    "table_meta \<Rightarrow> nat \<Rightarrow> column_key \<Rightarrow> column_def list \<Rightarrow> bytes option \<Rightarrow> parse_state \<Rightarrow> (bool \<times> parse_state) option" where
  "parse_key_ts tm pos k col_vec ts ps = (
     let d = (new_IndexDef (ck_index_name k) (key_idx ps) (if ck_flag k \<noteq> 0 then kDeleted else kReady) kTimeSerise col_vec)
           \<lparr>ix_ttl := Some (key_ttl tm ps k ts), ix_ts_column := Option.bind ts (col_map ps)\<rparr>;
         (a, ti) = make_index (ps_ti ps) d
     in do {
       (ret, ti') \<leftarrow> (if has_multi_ts tm then Some (AddMultiTsIndex pos a ti) else TableIndex_AddIndex a ti);
       Some (ret \<ge> 0, ps\<lparr>ps_ti := ti'\<rparr>) })"

definition parse_key :: "table_meta \<Rightarrow> nat \<times> column_key \<Rightarrow> parse_state \<Rightarrow> (bool \<times> parse_state) option" where
  "parse_key tm = (\<lambda>(pos, k) ps. do {
     col_vec \<leftarrow> foldM (\<lambda>n cols. do { c \<leftarrow> col_map ps n; Some (cols @ [c]) }) (ck_col_name k) [];
     (go, ps') \<leftarrow> each (parse_key_ts tm pos k col_vec) (if ck_ts_name k = [] then [None] else map Some (ck_ts_name k)) ps;
     Some (go, if go then ps'\<lparr>key_idx := Suc (key_idx ps')\<rparr> else ps') })"

section \<open>Sets of segments\<close>

definition add_inner :: "nat \<Rightarrow> addr list \<Rightarrow> table_index \<Rightarrow> table_index option" where
  "add_inner i index ti = do {
     ii \<leftarrow> new_InnerIndexSt ti i index;
     foldM (SetInnerPos i) index (ti\<lparr>inner_indexs := inner_indexs ti @ [ii]\<rparr>) }"

definition store_inner_pos :: "nat \<Rightarrow> nat \<Rightarrow> table_index \<Rightarrow> table_index option" where
  "store_inner_pos i pos ti = do {
     assert_that (i < length (column_key_2_inner_index ti));
     Some (ti\<lparr>column_key_2_inner_index := (column_key_2_inner_index ti)[i := int pos]\<rparr>) }"

text \<open>Keys on the same columns, in any order, share their segments.\<close>

definition combine_col_name :: "column_key \<Rightarrow> bytes" where
  "combine_col_name k = (case ck_col_name k of
     [] \<Rightarrow> ck_index_name k
   | [c] \<Rightarrow> c
   | cs \<Rightarrow> concat (map (\<lambda>(c, _). c @ [124]) (fold (\<lambda>c. map_emplace bytes_less c ()) cs [])))"

definition group_key :: "nat \<times> column_key \<Rightarrow> (bytes \<rightharpoonup> nat) \<times> addr list list \<times> table_index \<Rightarrow>
    ((bytes \<rightharpoonup> nat) \<times> addr list list \<times> table_index) option" where
  "group_key = (\<lambda>(i, k) (name_pos, vec, ti). do {
     let name = combine_col_name k;
     let (name_pos', vec') = (case name_pos name of
       None \<Rightarrow> (name_pos(name \<mapsto> length vec), vec @ [[]]) | Some _ \<Rightarrow> (name_pos, vec));
     pos \<leftarrow> name_pos' name;
     ti' \<leftarrow> store_inner_pos i pos ti;
     r \<leftarrow> TableIndex_GetIndex_name ti' (ck_index_name k);
     a \<leftarrow> r;
     Some (name_pos', vec'[pos := vec' ! pos @ [a]], ti') })"

definition FillIndexVal :: "table_meta \<Rightarrow> nat \<Rightarrow> table_index \<Rightarrow> table_index option" where
  "FillIndexVal tm ts_num ti0 = (let ti = ti0\<lparr>inner_indexs := []\<rparr> in
     if tm_column_key tm \<noteq> [] \<and> ts_num > 1 then
       (if multi_ts_indexs ti \<noteq> [] then
          foldM (\<lambda>(i, v) ti. do { ti1 \<leftarrow> add_inner i v ti; store_inner_pos i i ti1 }) (enumerate 0 (multi_ts_indexs ti)) ti
        else do {
          (_, vec, ti1) \<leftarrow> foldM group_key (enumerate 0 (tm_column_key tm)) (Map.empty, [], ti);
          foldM (\<lambda>(i, v). add_inner i v) (enumerate 0 vec) ti1 })
     else foldM (\<lambda>(i, a) ti. do { ti1 \<leftarrow> add_inner i [a] ti; store_inner_pos i i ti1 }) (enumerate 0 (indexs ti)) ti)"

section \<open>Parsing\<close>

definition add_named :: "TTLSt \<Rightarrow> bytes \<times> nat \<Rightarrow> table_index \<Rightarrow> (bool \<times> table_index) option" where
  "add_named ttl = (\<lambda>(name, i) ti. do {
     let (a, ti1) = make_index ti ((new_IndexDef name i kReady kTimeSerise [])\<lparr>ix_ttl := Some ttl\<rparr>);
     (ret, ti2) \<leftarrow> TableIndex_AddIndex a ti1;
     Some (ret \<ge> 0, ti2) })"

definition parse_described :: "table_meta \<Rightarrow> table_index \<Rightarrow> (bool \<times> table_index \<times> (bytes \<times> nat) list) option" where
  "parse_described tm ti = (
     let set_ts_cnt = length (filter (\<lambda>k. ck_ts_name k \<noteq> []) (tm_column_key tm));
         ts_col_set = concat (map ck_ts_name (tm_column_key tm)) in
     if set_ts_cnt > 0 \<and> set_ts_cnt \<noteq> length (tm_column_key tm) then Some (False, ti, [])
     else do {
       (go, ps) \<leftarrow> each (parse_column tm ts_col_set) (tm_column_desc tm)
         \<lparr>ps_ti = ti, key_idx = 0, ts_idx = 0, col_map = Map.empty, ts_ttl = Map.empty, ts_mapping = []\<rparr>;
       if \<not> go \<or> ts_idx ps > 255 then Some (False, ps_ti ps, ts_mapping ps)
       else if tm_column_key tm \<noteq> [] then do {
         (go', ps') \<leftarrow> each (parse_key tm) (enumerate 0 (tm_column_key tm)) (ps\<lparr>ps_ti := TableIndex_ReSet (ps_ti ps), key_idx := 0\<rparr>);
         Some (go', ps_ti ps', ts_mapping ps') }
       else do {
         ti' \<leftarrow> (case ts_mapping ps of
             [] \<Rightarrow> Some (ps_ti ps)
           | (name, _) # _ \<Rightarrow> foldM (SetTsColumn (col_map ps name)) (indexs (ps_ti ps)) (ps_ti ps));
         Some (True, ti', ts_mapping ps) } })"

definition idx0 :: bytes where "idx0 = ascii ''idx0''"

definition ParseFromMeta :: "table_meta \<Rightarrow> table_index \<Rightarrow> (int \<times> table_index \<times> (bytes \<times> nat) list) option" where
  "ParseFromMeta tm ti0 = do {
     (go, ti1, m) \<leftarrow> (if tm_column_desc tm \<noteq> [] then parse_described tm (TableIndex_ReSet ti0)
       else map_option (\<lambda>(go, ti). (go, ti, [])) (each (add_named (table_ttl tm)) (zip (tm_dimensions tm) [0..<length (tm_dimensions tm)]) (TableIndex_ReSet ti0)));
     if \<not> go then Some (-1, ti1, m)
     else do {
       (go2, ti2) \<leftarrow> (if indexs ti1 = [] \<and> multi_ts_indexs ti1 = [] then add_named (table_ttl tm) (idx0, 0) ti1 else Some (True, ti1));
       if \<not> go2 then Some (-1, ti2, m)
       else do {
         ti3 \<leftarrow> FillIndexVal tm (length m) ti2;
         if multi_ts_indexs ti3 \<noteq> [] then do {
           assert_that (hd (multi_ts_indexs ti3) \<noteq> []);
           Some (0, ti3\<lparr>pk_index := Some (hd (hd (multi_ts_indexs ti3)))\<rparr>, m) }
         else if indexs ti3 \<noteq> [] then Some (0, ti3\<lparr>pk_index := Some (hd (indexs ti3))\<rparr>, m)
         else Some (-1, ti3, m) } } }"

section \<open>Partitions\<close>

record partition_meta =
  pm_endpoint :: bytes
  pm_is_leader :: bool
  pm_is_alive :: bool

record PartitionSt =
  pt_pid :: nat
  pt_leader :: bytes
  pt_follower :: "bytes list"

definition new_PartitionSt :: "nat \<Rightarrow> partition_meta list \<Rightarrow> PartitionSt" where
  "new_PartitionSt pid metas = (let alive = filter pm_is_alive metas; leaders = filter pm_is_leader alive in
     \<lparr>pt_pid = pid, pt_leader = (if leaders = [] then [] else pm_endpoint (last leaders)),
      pt_follower = map pm_endpoint (filter (\<lambda>p. \<not> pm_is_leader p) alive)\<rparr>)"

definition PartitionSt_eq :: "PartitionSt \<Rightarrow> PartitionSt \<Rightarrow> bool" where
  "PartitionSt_eq p q \<longleftrightarrow> pt_pid p = pt_pid q \<and> pt_leader p = pt_leader q \<and>
     length (pt_follower p) = length (pt_follower q) \<and> (\<forall>e\<in>set (pt_follower p). e \<in> set (pt_follower q))"

record TableSt =
  ts_name :: bytes
  ts_tid :: nat
  pid_num :: nat
  partitions :: "PartitionSt list"

definition new_TableSt :: "bytes \<Rightarrow> nat \<Rightarrow> (nat \<times> partition_meta list) list \<Rightarrow> TableSt" where
  "new_TableSt name tid parts = \<lparr>ts_name = name, ts_tid = tid, pid_num = length parts,
     partitions = foldl (\<lambda>ps (pid, metas). if pid > length ps then ps else ps @ [new_PartitionSt pid metas]) [] parts\<rparr>"

text \<open>A partition that the table does not have is returned as an empty one, whose number is not set.\<close>

definition GetPartition :: "TableSt \<Rightarrow> nat \<Rightarrow> PartitionSt option" where
  "GetPartition t pid = (if pid < length (partitions t) then Some (partitions t ! pid) else None)"

definition SetPartition :: "TableSt \<Rightarrow> PartitionSt \<Rightarrow> (bool \<times> TableSt) option" where
  "SetPartition t p = (
     if pt_pid p \<ge> pid_num t then Some (False, t)
     else do {
       assert_that (pt_pid p < length (partitions t));
       Some (True, t\<lparr>partitions := (partitions t)[pt_pid p := p]\<rparr>) })"

end
