(* ===== verification/Table_Meta_Props.thy ===== *)
theory Table_Meta_Props
  imports Table_Meta
begin

text \<open>
  The indexes that \<open>ParseFromMeta\<close> makes: every index has a time-to-live setting and the number of its place, and
  writing through the place of a column key reaches the same set of segments as reading through the index.
\<close>

section \<open>What the parsing loops keep\<close>

text \<open>An index of the table with the number \<open>i\<close>.\<close>

definition good_index :: "table_index \<Rightarrow> nat \<Rightarrow> addr \<Rightarrow> bool" where
  "good_index ti i a \<longleftrightarrow> (\<exists>d. idef ti a = Some d \<and> ix_id d = i \<and> ix_ttl d \<noteq> None)"

definition name_at :: "table_index \<Rightarrow> addr \<Rightarrow> bytes" where
  "name_at ti a = ix_name (idefs ti ! a)"

definition listed :: "table_index \<Rightarrow> bool" where
  "listed ti \<longleftrightarrow> multi_ts_indexs ti = [] \<and> length (indexs ti) \<le> MAX_INDEX_NUM \<and> distinct (indexs ti) \<and>
     distinct (map (name_at ti) (indexs ti)) \<and> (\<forall>i<length (indexs ti). good_index ti i (indexs ti ! i)) \<and>
     length (column_key_2_inner_index ti) = MAX_INDEX_NUM"

definition listed_multi :: "table_index \<Rightarrow> bool" where
  "listed_multi ti \<longleftrightarrow> indexs ti = [] \<and> distinct (concat (multi_ts_indexs ti)) \<and> [] \<notin> set (multi_ts_indexs ti) \<and>
     (\<forall>i<length (multi_ts_indexs ti). \<forall>a\<in>set (multi_ts_indexs ti ! i). good_index ti i a) \<and>
     length (column_key_2_inner_index ti) = MAX_INDEX_NUM"

lemma idef_make:
  assumes "make_index ti d = (a, ti1)"
  shows "a = length (idefs ti)" "idef ti1 a = Some d" "\<And>b e. idef ti b = Some e \<Longrightarrow> idef ti1 b = Some e \<and> b \<noteq> a"
    "idefs ti1 = idefs ti @ [d]" "indexs ti1 = indexs ti" "multi_ts_indexs ti1 = multi_ts_indexs ti"
    "column_key_2_inner_index ti1 = column_key_2_inner_index ti"
  using assms by (auto simp: make_index_def idef_def nth_append split: if_splits)

lemma good_index_make: "make_index ti d = (a, ti1) \<Longrightarrow> good_index ti i b \<Longrightarrow> good_index ti1 i b \<and> b \<noteq> a"
  using idef_make(3) by (fastforce simp: good_index_def)

lemma good_index_cong: "idefs ti1 = idefs ti \<Longrightarrow> good_index ti1 i a = good_index ti i a"
  by (simp add: good_index_def idef_def)

lemma good_idef: "good_index ti i a \<Longrightarrow> a < length (idefs ti)"
  by (auto simp: good_index_def idef_def split: if_splits)

lemma find_name:
  assumes "\<forall>a\<in>set as. a < length (idefs ti)"
  shows "find_index (has_name ti n) as = Some (find (\<lambda>a. name_at ti a = n) as)"
  using assms by (induction as) (auto simp: has_name_def idef_def name_at_def)

lemma listedD:
  assumes "listed ti"
  shows "multi_ts_indexs ti = []" "length (indexs ti) \<le> MAX_INDEX_NUM" "distinct (indexs ti)"
    "distinct (map (name_at ti) (indexs ti))" "\<And>i. i < length (indexs ti) \<Longrightarrow> good_index ti i (indexs ti ! i)"
    "length (column_key_2_inner_index ti) = MAX_INDEX_NUM" "\<forall>a\<in>set (indexs ti). a < length (idefs ti)"
  using assms good_idef by (auto simp: listed_def in_set_conv_nth) blast

text \<open>Adding an index numbered by its place either is refused or keeps the list in order.\<close>

lemma AddIndex_listed:
  assumes l: "listed ti" and d: "ix_id d = length (indexs ti)" "ix_ttl d \<noteq> None" and m: "make_index ti d = (a, ti1)"
  shows "\<exists>ret ti2. TableIndex_AddIndex a ti1 = Some (ret, ti2) \<and> (ret < 0 \<or> listed ti2 \<and> indexs ti2 = indexs ti @ [a] \<and> idefs ti2 = idefs ti @ [d])"
proof -
  note mk = idef_make[OF m] and L = listedD[OF l]
  have names: "name_at ti1 b = name_at ti b" if "b \<in> set (indexs ti)" for b
    using that L(7) mk(4) by (simp add: name_at_def nth_append)
  have f: "find_index (has_name ti1 (ix_name d)) (indexs ti) = Some (find (\<lambda>b. name_at ti1 b = ix_name d) (indexs ti))"
    using L(7) mk(4) by (intro find_name) auto
  show ?thesis
  proof (cases "MAX_INDEX_NUM \<le> length (indexs ti) \<or> find (\<lambda>b. name_at ti1 b = ix_name d) (indexs ti) \<noteq> None")
    case True
    then show ?thesis using mk L(1) f by (auto simp: TableIndex_AddIndex_def)
  next
    case False
    then obtain ti2 where t2: "TableIndex_AddIndex a ti1 = Some (0, ti2)" "indexs ti2 = indexs ti @ [a]" "idefs ti2 = idefs ti @ [d]"
      "multi_ts_indexs ti2 = []" "column_key_2_inner_index ti2 = column_key_2_inner_index ti"
      using mk L(1) f by (auto simp: TableIndex_AddIndex_def)
    have n2: "map (name_at ti2) (indexs ti) = map (name_at ti) (indexs ti)" "name_at ti2 a = ix_name d"
      using names t2(3) mk by (auto simp: name_at_def)
    have "ix_name d \<notin> name_at ti ` set (indexs ti)" using False names by (auto simp: find_None_iff)
    moreover have "a \<notin> set (indexs ti)" using L(7) mk(1) by auto
    moreover have "good_index ti2 i (indexs ti2 ! i)" if "i < length (indexs ti2)" for i
    proof (cases "i < length (indexs ti)")
      case True
      then show ?thesis
        using good_index_make[OF m L(5)] good_index_cong[of ti2 ti1] t2 mk(4) by (simp add: nth_append)
    next
      case False
      then have "indexs ti2 ! i = a" "i = length (indexs ti)" using that t2(2) by (auto simp: nth_append)
      then show ?thesis using mk(1) d t2(3) by (auto simp: good_index_def idef_def)
    qed
    moreover have "distinct (map (name_at ti2) (indexs ti2))"
      using calculation(1) L(4) unfolding t2(2) map_append n2(1) by (simp add: n2(2))
    ultimately have "listed ti2"
      using t2(2,4,5) L(1-6) False unfolding listed_def by (simp add: MAX_INDEX_NUM_def)
    then show ?thesis using t2 by auto
  qed
qed

lemma AddMulti_listed:
  assumes l: "listed_multi ti" and d: "ix_id d = pos" "ix_ttl d \<noteq> None" and m: "make_index ti d = (a, ti1)"
    and p: "pos = length (multi_ts_indexs ti) \<or> Suc pos = length (multi_ts_indexs ti)"
  shows "\<exists>ti2. AddMultiTsIndex pos a ti1 = (0, ti2) \<and> listed_multi ti2 \<and> length (multi_ts_indexs ti2) = Suc pos"
proof -
  note mk = idef_make[OF m]
  let ?m = "multi_ts_indexs ti"
  have g: "\<And>i b. i < length ?m \<Longrightarrow> b \<in> set (?m ! i) \<Longrightarrow> good_index ti1 i b \<and> b \<noteq> a"
    using l good_index_make[OF m] by (auto simp: listed_multi_def)
  have fresh: "a \<notin> set (concat ?m)" using g by (fastforce simp: in_set_conv_nth)
  have ga: "good_index ti1 pos a" using mk(2) d by (auto simp: good_index_def)
  define M where "M = (if pos < length ?m then ?m[pos := ?m ! pos @ [a]] else ?m @ [[a]])"
  have e: "AddMultiTsIndex pos a ti1 = (0, ti1\<lparr>multi_ts_indexs := M\<rparr>)"
    using p mk(6) by (auto simp: AddMultiTsIndex_def Let_def M_def)
  have gM: "good_index ti1 i b" if "i < length M" "b \<in> set (M ! i)" for i b
    using that g ga p by (auto simp: M_def nth_append nth_list_update less_Suc_eq split: if_splits)
  have dist: "distinct (concat M)"
  proof (cases "pos < length ?m")
    case True
    then obtain vs v where m: "?m = vs @ [v]" by (metis length_0_conv less_nat_zero_code rev_exhaust)
    then have "M = vs @ [v @ [a]]" using True p by (auto simp: M_def nth_append)
    then show ?thesis using l fresh m by (auto simp: listed_multi_def)
  qed (use l fresh in \<open>auto simp: M_def listed_multi_def\<close>)
  have ne: "[] \<notin> set M"
    using l set_update_subset_insert[of ?m pos "?m ! pos @ [a]"] by (auto simp: M_def listed_multi_def)
  have "listed_multi (ti1\<lparr>multi_ts_indexs := M\<rparr>)"
    using l mk(5,7) gM dist ne unfolding listed_multi_def by (simp add: good_index_cong[of "ti1\<lparr>multi_ts_indexs := M\<rparr>" ti1])
  moreover have "length M = Suc pos" using p by (auto simp: M_def)
  ultimately show ?thesis using e by auto
qed

lemma add_column_simps [simp]:
  "ps_ti (add_column c ps) = ps_ti ps" "key_idx (add_column c ps) = key_idx ps"
  "dom (col_map (add_column c ps)) = insert (cf_name c) (dom (col_map ps))"
  "ps_ti (add_ts n ps) = ps_ti ps" "key_idx (add_ts n ps) = key_idx ps" "col_map (add_ts n ps) = col_map ps"
  by (auto simp: add_column_def add_ts_def split: option.splits)

lemma parse_column_ok:
  assumes "listed (ps_ti ps)" "key_idx ps = length (indexs (ps_ti ps))"
  shows "\<exists>go ps'. parse_column tm S c ps = Some (go, ps') \<and>
    (go \<longrightarrow> listed (ps_ti ps') \<and> key_idx ps' = length (indexs (ps_ti ps')) \<and> dom (col_map ps') = insert (cm_name c) (dom (col_map ps)))"
proof (cases "cm_add_ts_idx c")
  case True
  let ?col = "\<lparr>cf_name = cm_name c, cf_id = key_idx ps, cf_type = column_type c, cf_not_null = True, cf_ts_idx = -1\<rparr>"
  let ?d = "(new_IndexDef (cm_name c) (key_idx ps) kReady kTimeSerise [?col])\<lparr>ix_ttl := Some (table_ttl tm)\<rparr>"
  obtain a ti1 where m: "make_index (ps_ti ps) ?d = (a, ti1)" by fastforce
  obtain ret ti2 where A: "TableIndex_AddIndex a ti1 = Some (ret, ti2)"
    "ret < 0 \<or> listed ti2 \<and> indexs ti2 = indexs (ps_ti ps) @ [a]"
    using AddIndex_listed[OF assms(1) _ _ m] assms(2) by (auto simp: new_IndexDef_def)
  have "dom (col_map (add_column ?col (ps\<lparr>ps_ti := ti2\<rparr>))) = insert (cm_name c) (dom (col_map ps))" by simp
  then show ?thesis using True m A assms(2) by (cases "ret < 0") (auto simp: parse_column_def Let_def)
qed (use assms in \<open>auto simp: parse_column_def Let_def\<close>)

definition known_columns :: "table_meta \<Rightarrow> parse_state \<Rightarrow> bool" where
  "known_columns tm ps \<longleftrightarrow> (\<forall>k\<in>set (tm_column_key tm). set (ck_col_name k) \<subseteq> dom (col_map ps))"

lemma columns_found:
  assumes "set ns \<subseteq> dom m"
  shows "\<exists>cs. foldM (\<lambda>n cols. do { c \<leftarrow> m n; Some (cols @ [c]) }) ns acc = Some cs"
  using assms by (induction ns arbitrary: acc) auto

lemma parse_key_single:
  assumes "listed (ps_ti ps)" "key_idx ps = length (indexs (ps_ti ps))" "set (ck_col_name k) \<subseteq> dom (col_map ps)"
    "\<not> has_multi_ts tm" "length (ck_ts_name k) \<le> 1"
  shows "\<exists>go ps'. parse_key tm (pos, k) ps = Some (go, ps') \<and>
    (go \<longrightarrow> listed (ps_ti ps') \<and> key_idx ps' = length (indexs (ps_ti ps')) \<and> col_map ps' = col_map ps \<and>
      map (name_at (ps_ti ps')) (indexs (ps_ti ps')) = map (name_at (ps_ti ps)) (indexs (ps_ti ps)) @ [ck_index_name k])"
proof -
  obtain cs where cs: "foldM (\<lambda>n cols. do { c \<leftarrow> col_map ps n; Some (cols @ [c]) }) (ck_col_name k) [] = Some cs"
    using columns_found[OF assms(3)] by blast
  obtain ts where ts: "(if ck_ts_name k = [] then [None] else map Some (ck_ts_name k)) = [ts]"
    using assms(5) by (cases "ck_ts_name k") auto
  let ?d = "(new_IndexDef (ck_index_name k) (key_idx ps) (if ck_flag k \<noteq> 0 then kDeleted else kReady) kTimeSerise cs)
           \<lparr>ix_ttl := Some (key_ttl tm ps k ts), ix_ts_column := Option.bind ts (col_map ps)\<rparr>"
  obtain a ti1 where m: "make_index (ps_ti ps) ?d = (a, ti1)" by fastforce
  obtain ret ti2 where A: "TableIndex_AddIndex a ti1 = Some (ret, ti2)"
    "ret < 0 \<or> listed ti2 \<and> indexs ti2 = indexs (ps_ti ps) @ [a] \<and> idefs ti2 = idefs (ps_ti ps) @ [?d]"
    using AddIndex_listed[OF assms(1) _ _ m] assms(2) by (auto simp: new_IndexDef_def)
  have "map (name_at ti2) (indexs (ps_ti ps) @ [a]) = map (name_at (ps_ti ps)) (indexs (ps_ti ps)) @ [ck_index_name k]"
    if "idefs ti2 = idefs (ps_ti ps) @ [?d]"
    using that listedD(7)[OF assms(1)] idef_make(1)[OF m] by (auto simp: name_at_def nth_append new_IndexDef_def)
  moreover have "each (parse_key_ts tm pos k cs) [ts] ps = Some (ret \<ge> 0, ps\<lparr>ps_ti := ti2\<rparr>)"
    using m A(1) assms(4) by (simp add: parse_key_ts_def Let_def)
  then have "parse_key tm (pos, k) ps = Some (ret \<ge> 0, if ret \<ge> 0 then ps\<lparr>ps_ti := ti2, key_idx := Suc (key_idx ps)\<rparr> else ps\<lparr>ps_ti := ti2\<rparr>)"
    unfolding parse_key_def by (simp add: cs ts del: each.simps)
  moreover have "length (indexs ti2) = Suc (key_idx ps)" if "indexs ti2 = indexs (ps_ti ps) @ [a]" using that assms(2) by simp
  ultimately show ?thesis using A(2) by (cases "ret < 0") (force, auto)
qed

lemma parse_key_multi:
  assumes "listed_multi (ps_ti ps)" "key_idx ps = pos" "length (multi_ts_indexs (ps_ti ps)) = pos"
    "set (ck_col_name k) \<subseteq> dom (col_map ps)" "has_multi_ts tm"
  shows "\<exists>go ps'. parse_key tm (pos, k) ps = Some (go, ps') \<and>
    (go \<longrightarrow> listed_multi (ps_ti ps') \<and> key_idx ps' = Suc pos \<and> length (multi_ts_indexs (ps_ti ps')) = Suc pos \<and> col_map ps' = col_map ps)"
proof -
  obtain cs where cs: "foldM (\<lambda>n cols. do { c \<leftarrow> col_map ps n; Some (cols @ [c]) }) (ck_col_name k) [] = Some cs"
    using columns_found[OF assms(4)] by blast
  define ts where "ts = (if ck_ts_name k = [] then [None] else map Some (ck_ts_name k))"
  let ?I = "\<lambda>j ps'. listed_multi (ps_ti ps') \<and> key_idx ps' = pos \<and> col_map ps' = col_map ps \<and>
    length (multi_ts_indexs (ps_ti ps')) = (if j = 0 then pos else Suc pos)"
  have step: "\<exists>go s'. parse_key_ts tm pos k cs (ts ! j) s = Some (go, s') \<and> (go \<longrightarrow> ?I (Suc j) s')" if h: "?I j s" for j s
  proof -
    let ?d = "(new_IndexDef (ck_index_name k) (key_idx s) (if ck_flag k \<noteq> 0 then kDeleted else kReady) kTimeSerise cs)
           \<lparr>ix_ttl := Some (key_ttl tm s k (ts ! j)), ix_ts_column := Option.bind (ts ! j) (col_map s)\<rparr>"
    obtain a ti1 where m: "make_index (ps_ti s) ?d = (a, ti1)" by fastforce
    obtain ti2 where "AddMultiTsIndex pos a ti1 = (0, ti2)" "listed_multi ti2" "length (multi_ts_indexs ti2) = Suc pos"
      using AddMulti_listed[OF _ _ _ m, of pos] h by (auto simp: new_IndexDef_def split: if_splits)
    then show ?thesis using m h assms(5) by (auto simp: parse_key_ts_def Let_def)
  qed
  have "\<exists>go s'. each (parse_key_ts tm pos k cs) ts ps = Some (go, s') \<and> (go \<longrightarrow> ?I (length ts) s')"
    by (rule each_rule) (use assms step in auto)
  moreover have "length ts \<noteq> 0" by (simp add: ts_def)
  ultimately show ?thesis
    using cs by (auto simp: parse_key_def ts_def[symmetric])
qed

section \<open>Parsed indexes\<close>

text \<open>Either the keys of the columns without several time columns per key, or with them.\<close>

definition parsed :: "table_meta \<Rightarrow> table_index \<Rightarrow> bool" where
  "parsed tm ti \<longleftrightarrow> (listed ti \<and> (tm_column_key tm \<noteq> [] \<and> tm_column_desc tm \<noteq> [] \<longrightarrow>
      map (name_at ti) (indexs ti) = map ck_index_name (tm_column_key tm)) \<or>
     listed_multi ti \<and> length (multi_ts_indexs ti) = length (tm_column_key tm) \<and> multi_ts_indexs ti \<noteq> [])"

lemma listed_ReSet: "listed (TableIndex_ReSet ti)" "listed_multi (TableIndex_ReSet ti)"
  by (simp_all add: listed_def listed_multi_def TableIndex_ReSet_def)

lemma no_multi_ts: "\<not> has_multi_ts tm \<Longrightarrow> k \<in> set (tm_column_key tm) \<Longrightarrow> length (ck_ts_name k) \<le> 1"
  by (auto simp: has_multi_ts_def not_less)

lemma parse_keys_ok:
  assumes "known_columns tm ps" "ps_ti ps = TableIndex_ReSet ti" "key_idx ps = 0" "tm_column_key tm \<noteq> []"
  shows "\<exists>go ps'. each (parse_key tm) (enumerate 0 (tm_column_key tm)) ps = Some (go, ps') \<and>
    (go \<longrightarrow> listed (ps_ti ps') \<and> map (name_at (ps_ti ps')) (indexs (ps_ti ps')) = map ck_index_name (tm_column_key tm) \<or>
      listed_multi (ps_ti ps') \<and> length (multi_ts_indexs (ps_ti ps')) = length (tm_column_key tm))"
proof (cases "has_multi_ts tm")
  case True
  have "\<exists>go ps'. each (parse_key tm) (enumerate 0 (tm_column_key tm)) ps = Some (go, ps') \<and>
    (go \<longrightarrow> (\<lambda>i ps'. listed_multi (ps_ti ps') \<and> key_idx ps' = i \<and> length (multi_ts_indexs (ps_ti ps')) = i \<and> col_map ps' = col_map ps)
      (length (enumerate 0 (tm_column_key tm))) ps')"
  proof (rule each_rule)
    show "listed_multi (ps_ti ps) \<and> key_idx ps = 0 \<and> length (multi_ts_indexs (ps_ti ps)) = 0 \<and> col_map ps = col_map ps"
      using assms listed_ReSet(2)[of ti] by (simp add: TableIndex_ReSet_def)
  next
    fix i :: nat and s :: parse_state
    assume i: "i < length (enumerate 0 (tm_column_key tm))"
      and I: "listed_multi (ps_ti s) \<and> key_idx s = i \<and> length (multi_ts_indexs (ps_ti s)) = i \<and> col_map s = col_map ps"
    have "set (ck_col_name (tm_column_key tm ! i)) \<subseteq> dom (col_map s)" using assms(1) i I by (simp add: known_columns_def)
    then show "\<exists>go s'. parse_key tm (enumerate 0 (tm_column_key tm) ! i) s = Some (go, s') \<and>
      (go \<longrightarrow> listed_multi (ps_ti s') \<and> key_idx s' = Suc i \<and> length (multi_ts_indexs (ps_ti s')) = Suc i \<and> col_map s' = col_map ps)"
      using parse_key_multi[of s i "tm_column_key tm ! i" tm] I i True by (simp add: nth_enumerate_eq)
  qed
  then show ?thesis by auto
next
  case False
  let ?names = "\<lambda>ps. map (name_at (ps_ti ps)) (indexs (ps_ti ps))"
  have "\<exists>go ps'. each (parse_key tm) (enumerate 0 (tm_column_key tm)) ps = Some (go, ps') \<and>
    (go \<longrightarrow> (\<lambda>i ps'. listed (ps_ti ps') \<and> key_idx ps' = length (indexs (ps_ti ps')) \<and> col_map ps' = col_map ps \<and>
      ?names ps' = map ck_index_name (take i (tm_column_key tm))) (length (enumerate 0 (tm_column_key tm))) ps')"
  proof (rule each_rule)
    show "listed (ps_ti ps) \<and> key_idx ps = length (indexs (ps_ti ps)) \<and> col_map ps = col_map ps \<and>
      ?names ps = map ck_index_name (take 0 (tm_column_key tm))"
      using assms listed_ReSet(1)[of ti] by (simp add: TableIndex_ReSet_def)
  next
    fix i :: nat and s :: parse_state
    assume i: "i < length (enumerate 0 (tm_column_key tm))"
      and I: "listed (ps_ti s) \<and> key_idx s = length (indexs (ps_ti s)) \<and> col_map s = col_map ps \<and>
        ?names s = map ck_index_name (take i (tm_column_key tm))"
    have "set (ck_col_name (tm_column_key tm ! i)) \<subseteq> dom (col_map s)" "length (ck_ts_name (tm_column_key tm ! i)) \<le> 1"
      using assms(1) i I no_multi_ts[OF False] by (simp_all add: known_columns_def)
    then show "\<exists>go s'. parse_key tm (enumerate 0 (tm_column_key tm) ! i) s = Some (go, s') \<and>
      (go \<longrightarrow> listed (ps_ti s') \<and> key_idx s' = length (indexs (ps_ti s')) \<and> col_map s' = col_map ps \<and>
        ?names s' = map ck_index_name (take (Suc i) (tm_column_key tm)))"
      using parse_key_single[of s "tm_column_key tm ! i" tm i] I i False by (auto simp: nth_enumerate_eq take_Suc_conv_app_nth)
  qed
  then show ?thesis by auto
qed

section \<open>Sets of segments\<close>

definition put_pos :: "nat \<Rightarrow> addr list \<Rightarrow> IndexDef list \<Rightarrow> IndexDef list" where
  "put_pos i v = fold (\<lambda>a ds. ds[a := (ds ! a)\<lparr>ix_inner_pos := i\<rparr>]) v"

lemma length_put_pos [simp]: "length (put_pos i v ds) = length ds"
  by (induction v arbitrary: ds) (simp_all add: put_pos_def)

lemma nth_put_pos:
  "a < length ds \<Longrightarrow> put_pos i v ds ! a = (if a \<in> set v then (ds ! a)\<lparr>ix_inner_pos := i\<rparr> else ds ! a)"
proof (induction v arbitrary: ds)
  case (Cons b v)
  then show ?case using Cons.IH[of "ds[b := (ds ! b)\<lparr>ix_inner_pos := i\<rparr>]"]
    by (cases "a = b") (auto simp: put_pos_def)
qed (simp add: put_pos_def)

lemma SetInnerPos_loop:
  assumes "\<forall>a\<in>set v. a < length (idefs ti)"
  shows "foldM (SetInnerPos i) v ti = Some (ti\<lparr>idefs := put_pos i v (idefs ti)\<rparr>)"
  using assms by (induction v arbitrary: ti) (simp_all add: put_pos_def SetInnerPos_def change_index_def idef_def)

lemma new_InnerIndexSt_ok:
  assumes "\<forall>a\<in>set v. a < length (idefs ti)"
  shows "\<exists>ii. new_InnerIndexSt ti i v = Some ii \<and> ii_index ii = v"
proof -
  have "\<exists>ts. foldM (\<lambda>a ts. do { d \<leftarrow> idef ti a;
      Some (case ts_of d of Some t \<Rightarrow> if t \<ge> 0 then ts @ [nat t] else ts | None \<Rightarrow> ts) }) v acc = Some ts" for acc
    using assms by (induction v arbitrary: acc) (simp_all add: idef_def)
  from this[of "[]"] show ?thesis unfolding new_InnerIndexSt_def by fastforce
qed

lemma add_inner_ok:
  assumes "\<forall>a\<in>set v. a < length (idefs ti)"
  shows "\<exists>ii. add_inner i v ti = Some (ti\<lparr>inner_indexs := inner_indexs ti @ [ii], idefs := put_pos i v (idefs ti)\<rparr>) \<and> ii_index ii = v"
proof -
  obtain ii where "new_InnerIndexSt ti i v = Some ii" "ii_index ii = v" using new_InnerIndexSt_ok[OF assms] by blast
  then show ?thesis using assms by (auto simp: add_inner_def SetInnerPos_loop)
qed

text \<open>The loops of \<open>FillIndexVal\<close> are one loop over sets of indexes, which stores the places of the keys or not.\<close>

definition fill :: "bool \<Rightarrow> nat \<times> addr list \<Rightarrow> table_index \<Rightarrow> table_index option" where
  "fill b = (\<lambda>(i, v) ti. do { ti1 \<leftarrow> add_inner i v ti; if b then store_inner_pos i i ti1 else Some ti1 })"

definition filled :: "addr list list \<Rightarrow> nat \<Rightarrow> table_index \<Rightarrow> table_index \<Rightarrow> bool" where
  "filled vs j ti0 ti \<longleftrightarrow> indexs ti = indexs ti0 \<and> multi_ts_indexs ti = multi_ts_indexs ti0 \<and>
     length (idefs ti) = length (idefs ti0) \<and>
     (\<forall>a<length (idefs ti). ix_id (idefs ti ! a) = ix_id (idefs ti0 ! a) \<and> ix_ttl (idefs ti ! a) = ix_ttl (idefs ti0 ! a)) \<and>
     (\<forall>i<j. \<forall>a\<in>set (vs ! i). ix_inner_pos (idefs ti ! a) = i) \<and>
     length (inner_indexs ti) = j \<and> (\<forall>i<j. ii_index (inner_indexs ti ! i) = vs ! i)"

lemma concat_places:
  assumes "distinct (concat vs)" "i < j" "j < length vs" "a \<in> set (vs ! i)"
  shows "a \<notin> set (vs ! j)"
proof -
  have "vs = take j vs @ drop j vs" by simp
  then have "distinct (concat (take j vs) @ concat (drop j vs))" using assms(1) by (metis concat_append)
  moreover have "vs ! i \<in> set (take j vs)" using assms(2,3) by (auto simp: in_set_conv_nth intro: exI[of _ i])
  then have "a \<in> set (concat (take j vs))" using assms(4) by auto
  moreover have "set (vs ! j) \<subseteq> set (concat (drop j vs))" using assms(3) by (auto simp: Cons_nth_drop_Suc[symmetric])
  ultimately show ?thesis by auto
qed

lemma fill_loop:
  assumes vs: "distinct (concat vs)" "\<forall>v\<in>set vs. \<forall>a\<in>set v. a < length (idefs ti)" and e: "inner_indexs ti = []"
    and n: "b \<longrightarrow> length vs \<le> length (column_key_2_inner_index ti)"
  shows "\<exists>ti'. foldM (fill b) (enumerate 0 vs) ti = Some ti' \<and> filled vs (length vs) ti ti' \<and>
    (\<forall>i<length (column_key_2_inner_index ti). GetInnerIndexPos ti' i = (if b \<and> i < length vs then int i else GetInnerIndexPos ti i))"
proof -
  let ?c = "column_key_2_inner_index ti"
  let ?I = "\<lambda>j ti'. filled vs j ti ti' \<and> length (column_key_2_inner_index ti') = length ?c \<and>
    (\<forall>i<length ?c. column_key_2_inner_index ti' ! i = (if b \<and> i < j then int i else ?c ! i))"
  have step: "\<exists>s'. fill b (enumerate 0 vs ! j) s = Some s' \<and> ?I (Suc j) s'" if j: "j < length vs" and I: "?I j s" for j s
  proof -
    have v: "\<forall>a\<in>set (vs ! j). a < length (idefs s)" using vs(2) nth_mem[OF j] I by (auto simp: filled_def)
    then obtain ii where ii: "ii_index ii = vs ! j"
      "add_inner j (vs ! j) s = Some (s\<lparr>inner_indexs := inner_indexs s @ [ii], idefs := put_pos j (vs ! j) (idefs s)\<rparr>)"
      using add_inner_ok by blast
    let ?s = "s\<lparr>inner_indexs := inner_indexs s @ [ii], idefs := put_pos j (vs ! j) (idefs s)\<rparr>"
    have "a < length (idefs s)" if "i < j" "a \<in> set (vs ! i)" for i a using that vs(2) nth_mem[of i vs] I j by (auto simp: filled_def)
    then have "filled vs (Suc j) ti ?s"
      using I v ii(1) concat_places[OF vs(1) _ j] unfolding filled_def
      by (auto simp: nth_put_pos less_Suc_eq nth_append)
    then show ?thesis
      using j I n ii(2) by (auto simp: fill_def nth_enumerate_eq store_inner_pos_def filled_def nth_list_update less_Suc_eq)
  qed
  have "\<exists>ti'. foldM (fill b) (enumerate 0 vs) ti = Some ti' \<and> ?I (length (enumerate 0 vs)) ti'"
    by (rule foldM_list_rule[where I = ?I]) (use step e in \<open>simp_all add: filled_def\<close>)
  then show ?thesis by (auto simp: GetInnerIndexPos_def)
qed

text \<open>Grouping the keys by their columns puts every index into one group, where the place of its key leads.\<close>

lemma concat_add:
  assumes "p < length vs"
  shows "set (concat (vs[p := vs ! p @ [a]])) = insert a (set (concat vs))"
    "distinct (concat vs) \<Longrightarrow> a \<notin> set (concat vs) \<Longrightarrow> distinct (concat (vs[p := vs ! p @ [a]]))"
proof -
  obtain xs v ys where "vs = xs @ v # ys" "length xs = p" using id_take_nth_drop[OF assms] assms by fastforce
  then show "set (concat (vs[p := vs ! p @ [a]])) = insert a (set (concat vs))"
    "distinct (concat vs) \<Longrightarrow> a \<notin> set (concat vs) \<Longrightarrow> distinct (concat (vs[p := vs ! p @ [a]]))"
    by (auto simp: nth_append)
qed

definition grouped :: "table_index \<Rightarrow> nat \<Rightarrow> (bytes \<rightharpoonup> nat) \<times> addr list list \<times> table_index \<Rightarrow> bool" where
  "grouped ti0 j = (\<lambda>(name_pos, vec, ti). (\<forall>n p. name_pos n = Some p \<longrightarrow> p < length vec) \<and>
     ti = ti0\<lparr>column_key_2_inner_index := column_key_2_inner_index ti\<rparr> \<and>
     length (column_key_2_inner_index ti) = MAX_INDEX_NUM \<and> length vec \<le> j \<and>
     distinct (concat vec) \<and> set (concat vec) = set (take j (indexs ti0)) \<and>
     (\<forall>i<j. \<exists>p<length vec. column_key_2_inner_index ti ! i = int p \<and> indexs ti0 ! i \<in> set (vec ! p)))"

lemma GetIndex_keyed: "TableIndex_GetIndex_name (ti\<lparr>column_key_2_inner_index := c\<rparr>) n = TableIndex_GetIndex_name ti n"
  by (simp add: TableIndex_GetIndex_name_def has_name_def[abs_def] idef_def cong: if_cong)

lemma GetIndex_listed:
  assumes "listed ti" "i < length (indexs ti)" "name_at ti (indexs ti ! i) = n"
  shows "TableIndex_GetIndex_name ti n = Some (Some (indexs ti ! i))"
proof -
  have "find (\<lambda>a. name_at ti a = n) (indexs ti) = Some (indexs ti ! i)"
    unfolding find_Some_iff using assms listedD(4)[OF assms(1)] by (auto simp: distinct_conv_nth intro!: exI[of _ i])
  then show ?thesis using listedD(1,7)[OF assms(1)] by (simp add: TableIndex_GetIndex_name_def find_name)
qed

lemma group_key_ok:
  assumes l: "listed ti0" and j: "j < length (indexs ti0)" and k: "ck_index_name k = name_at ti0 (indexs ti0 ! j)"
    and g: "grouped ti0 j (np, vec, ti)"
  shows "\<exists>s'. group_key (j, k) (np, vec, ti) = Some s' \<and> grouped ti0 (Suc j) s'"
proof -
  let ?a = "indexs ti0 ! j" and ?name = "combine_col_name k"
  obtain np' vec' where nv: "(np', vec') = (case np ?name of None \<Rightarrow> (np(?name \<mapsto> length vec), vec @ [[]]) | Some _ \<Rightarrow> (np, vec))"
    by (metis surj_pair)
  have np: "\<forall>n p. np' n = Some p \<longrightarrow> p < length vec'" "np' ?name \<noteq> None" "concat vec' = concat vec"
    and pre: "length vec \<le> length vec'" "\<And>i. i < length vec \<Longrightarrow> vec' ! i = vec ! i" "length vec' \<le> Suc j"
    using nv g by (auto simp: grouped_def less_Suc_eq nth_append split: option.splits if_splits)
  then obtain p where p: "np' ?name = Some p" "p < length vec'" by auto
  obtain c where c: "ti = ti0\<lparr>column_key_2_inner_index := c\<rparr>" "length c = MAX_INDEX_NUM"
    using g by (auto simp: grouped_def)
  have jc: "j < length c" using j c(2) listedD(2)[OF l] by simp
  have e: "group_key (j, k) (np, vec, ti) =
      Some (np', vec'[p := vec' ! p @ [?a]], ti0\<lparr>column_key_2_inner_index := c[j := int p]\<rparr>)"
    using nv[symmetric] p jc c k GetIndex_listed[OF l j]
    by (simp add: group_key_def store_inner_pos_def GetIndex_keyed)
  have "?a \<notin> set (take j (indexs ti0))"
    using listedD(3)[OF l] j by (auto simp: in_set_conv_nth distinct_conv_nth)
  then have d: "distinct (concat (vec'[p := vec' ! p @ [?a]]))"
      "set (concat (vec'[p := vec' ! p @ [?a]])) = set (take (Suc j) (indexs ti0))"
    using concat_add[OF p(2), of ?a] np(3) g j by (auto simp: grouped_def take_Suc_conv_app_nth)
  have "\<exists>q<length vec'. c[j := int p] ! i = int q \<and> indexs ti0 ! i \<in> set (vec'[p := vec' ! p @ [?a]] ! q)"
    if i: "i < Suc j" for i
  proof (cases "i = j")
    case True
    then show ?thesis using p(2) jc by auto
  next
    case False
    then have "\<exists>q<length vec. c ! i = int q \<and> indexs ti0 ! i \<in> set (vec ! q)" using i g c by (simp add: grouped_def)
    then obtain q where "q < length vec" "c ! i = int q" "indexs ti0 ! i \<in> set (vec ! q)" by blast
    then show ?thesis using False pre p(2) by (intro exI[of _ q]) (auto simp: nth_list_update)
  qed
  then have "grouped ti0 (Suc j) (np', vec'[p := vec' ! p @ [?a]], ti0\<lparr>column_key_2_inner_index := c[j := int p]\<rparr>)"
    using np(1) d c(2) pre(3) by (simp add: grouped_def del: set_concat)
  then show ?thesis using e by simp
qed

text \<open>
  The numbering that the table relies on: the index at place \<open>i\<close> has the number \<open>i\<close> and a time-to-live setting, and
  the place of its key leads to the set of segments that the index itself names, which counts the index among its own.
\<close>

definition index_agree :: "table_index \<Rightarrow> bool" where
  "index_agree ti \<longleftrightarrow> (\<forall>i a. TableIndex_GetIndex ti i = Some a \<longrightarrow> (\<exists>d ii. idef ti a = Some d \<and> ix_id d = i \<and> ix_ttl d \<noteq> None \<and>
     GetInnerIndexPos ti i = int (ix_inner_pos d) \<and> GetInnerIndex ti (ix_inner_pos d) = Some ii \<and> a \<in> set (ii_index ii)))"

lemma GetIndex_same: "indexs ti' = indexs ti \<Longrightarrow> multi_ts_indexs ti' = multi_ts_indexs ti \<Longrightarrow>
    TableIndex_GetIndex ti' i = TableIndex_GetIndex ti i"
  by (simp add: TableIndex_GetIndex_def)

lemma agree_of_filled:
  assumes f: "filled vs (length vs) ti ti'"
    and p: "\<And>i a. TableIndex_GetIndex ti i = Some a \<Longrightarrow> good_index ti i a \<and> (\<exists>p<length vs. GetInnerIndexPos ti' i = int p \<and> a \<in> set (vs ! p))"
  shows "index_agree ti'"
  unfolding index_agree_def
proof (intro allI impI)
  fix i a
  assume "TableIndex_GetIndex ti' i = Some a"
  then have "TableIndex_GetIndex ti i = Some a" using f GetIndex_same[of ti' ti] by (simp add: filled_def)
  then obtain q where "good_index ti i a" "q < length vs" "GetInnerIndexPos ti' i = int q" "a \<in> set (vs ! q)" using p by blast
  then show "\<exists>d ii. idef ti' a = Some d \<and> ix_id d = i \<and> ix_ttl d \<noteq> None \<and> GetInnerIndexPos ti' i = int (ix_inner_pos d) \<and>
      GetInnerIndex ti' (ix_inner_pos d) = Some ii \<and> a \<in> set (ii_index ii)"
    using f by (auto simp: filled_def good_index_def idef_def GetInnerIndex_def split: if_splits)
qed

text \<open>There are not too many sets of segments, and their indexes are indexes of the table.\<close>

definition inner_good :: "table_index \<Rightarrow> bool" where
  "inner_good ti \<longleftrightarrow> length (inner_indexs ti) \<le> MAX_INDEX_NUM \<and>
     (\<forall>ii\<in>set (inner_indexs ti). \<forall>a\<in>set (ii_index ii). \<exists>i. good_index ti i a)"

lemma inner_of_filled:
  assumes f: "filled vs (length vs) ti ti'" and "length vs \<le> MAX_INDEX_NUM" and g: "\<And>v a. v \<in> set vs \<Longrightarrow> a \<in> set v \<Longrightarrow> \<exists>i. good_index ti i a"
  shows "inner_good ti'"
proof -
  have "\<exists>i. good_index ti' i a" if "p < length vs" "a \<in> set (vs ! p)" for p a
    using g[OF nth_mem[OF that(1)] that(2)] f by (fastforce simp: filled_def good_index_def idef_def split: if_splits)
  then show ?thesis using f assms(2) by (auto simp: inner_good_def filled_def in_set_conv_nth[of _ "inner_indexs ti'"])
qed

lemma GetIndex_good:
  assumes "listed ti \<or> listed_multi ti" "TableIndex_GetIndex ti i = Some a"
  shows "good_index ti i a"
  using assms by (auto simp: TableIndex_GetIndex_def listed_def listed_multi_def split: if_splits)

lemma foldM_enumerate_map:
  "foldM f (enumerate n (map g xs)) s = foldM (\<lambda>(i, x). f (i, g x)) (enumerate n xs) s"
  by (induction xs arbitrary: n s) (auto split: Option.bind_split)

lemma concat_singletons: "concat (map (\<lambda>a. [a]) xs) = xs"
  by (induction xs) simp_all

definition with_inner :: "table_meta \<Rightarrow> nat \<Rightarrow> table_index \<Rightarrow> table_index \<Rightarrow> bool" where
  "with_inner tm n ti ti' \<longleftrightarrow> indexs ti' = indexs ti \<and> multi_ts_indexs ti' = multi_ts_indexs ti \<and>
     (multi_ts_indexs ti = [] \<or> n > 1 \<longrightarrow> index_agree ti') \<and> inner_good ti'"

lemma Fill_listed:
  assumes l: "listed ti" "inner_indexs ti = []"
  shows "\<exists>ti'. foldM (\<lambda>(i, a) ti. do { ti1 \<leftarrow> add_inner i [a] ti; store_inner_pos i i ti1 }) (enumerate 0 (indexs ti)) ti = Some ti' \<and>
    with_inner tm n ti ti'"
proof -
  note L = listedD[OF l(1)]
  let ?vs = "map (\<lambda>a. [a]) (indexs ti)"
  obtain ti' where f: "foldM (fill True) (enumerate 0 ?vs) ti = Some ti'" "filled ?vs (length ?vs) ti ti'"
      "\<forall>i<length (column_key_2_inner_index ti). GetInnerIndexPos ti' i = (if i < length ?vs then int i else GetInnerIndexPos ti i)"
    using fill_loop[of ?vs ti True] l(2) L(2,3,6,7) by (auto simp: concat_singletons)
  have "index_agree ti'"
  proof (rule agree_of_filled[OF f(2)])
    fix i a
    assume "TableIndex_GetIndex ti i = Some a"
    moreover from this have "i < length (indexs ti)" "a = indexs ti ! i" using L(1) by (auto simp: TableIndex_GetIndex_def split: if_splits)
    ultimately show "good_index ti i a \<and> (\<exists>p<length ?vs. GetInnerIndexPos ti' i = int p \<and> a \<in> set (?vs ! p))"
      using GetIndex_good l(1) f(3) L(2,6) by auto
  qed
  moreover have "\<exists>i. good_index ti i a" if "a \<in> set (indexs ti)" for a using that L(5) by (metis in_set_conv_nth)
  then have "inner_good ti'" by (intro inner_of_filled[OF f(2)]) (use L(2) in auto)
  ultimately have "with_inner tm n ti ti'" using f(2) by (simp add: with_inner_def filled_def)
  then show ?thesis using f(1) by (auto simp: foldM_enumerate_map fill_def)
qed

lemma Fill_multi:
  assumes l: "listed_multi ti" "inner_indexs ti = []" "length (multi_ts_indexs ti) \<le> MAX_INDEX_NUM" "multi_ts_indexs ti \<noteq> []"
  shows "\<exists>ti'. foldM (\<lambda>(i, v) ti. do { ti1 \<leftarrow> add_inner i v ti; store_inner_pos i i ti1 }) (enumerate 0 (multi_ts_indexs ti)) ti = Some ti' \<and>
    with_inner tm n ti ti'"
proof -
  let ?vs = "multi_ts_indexs ti"
  have L: "distinct (concat ?vs)" "[] \<notin> set ?vs" "length (column_key_2_inner_index ti) = MAX_INDEX_NUM"
    and g: "\<forall>i<length ?vs. \<forall>a\<in>set (?vs ! i). good_index ti i a"
    using l(1) by (auto simp: listed_multi_def)
  have d: "\<forall>v\<in>set ?vs. \<forall>a\<in>set v. a < length (idefs ti)"
    using g good_idef by (metis in_set_conv_nth)
  obtain ti' where f: "foldM (fill True) (enumerate 0 ?vs) ti = Some ti'" "filled ?vs (length ?vs) ti ti'"
      "\<forall>i<length (column_key_2_inner_index ti). GetInnerIndexPos ti' i = (if i < length ?vs then int i else GetInnerIndexPos ti i)"
    using fill_loop[of ?vs ti True] l(2,3) L d by auto
  have "index_agree ti'"
  proof (rule agree_of_filled[OF f(2)])
    fix i a
    assume "TableIndex_GetIndex ti i = Some a"
    moreover from this have "i < length ?vs" "a \<in> set (?vs ! i)" using l(4) by (auto simp: TableIndex_GetIndex_def split: if_splits)
    ultimately show "good_index ti i a \<and> (\<exists>p<length ?vs. GetInnerIndexPos ti' i = int p \<and> a \<in> set (?vs ! p))"
      using GetIndex_good l(1,3) f(3) L(3) by auto
  qed
  moreover have "inner_good ti'" by (rule inner_of_filled[OF f(2) l(3)]) (metis g in_set_conv_nth)
  ultimately have "with_inner tm n ti ti'" using f(2) by (simp add: with_inner_def filled_def)
  then show ?thesis using f(1) by (auto simp: fill_def)
qed

lemma Fill_grouped:
  assumes l: "listed ti" "inner_indexs ti = []" and k: "map (name_at ti) (indexs ti) = map ck_index_name ks"
  shows "\<exists>r. foldM group_key (enumerate 0 ks) (Map.empty, [], ti) = Some r \<and>
    (\<exists>ti'. foldM (\<lambda>(i, v). add_inner i v) (enumerate 0 (fst (snd r))) (snd (snd r)) = Some ti' \<and> with_inner tm n ti ti')"
proof -
  note L = listedD[OF l(1)]
  have len: "length ks = length (indexs ti)" using k by (metis length_map)
  have nm: "ck_index_name (ks ! j) = name_at ti (indexs ti ! j)" if "j < length ks" for j
    using arg_cong[OF k, of "\<lambda>xs. xs ! j"] that len by simp
  have "\<exists>r. foldM group_key (enumerate 0 ks) (Map.empty, [], ti) = Some r \<and> grouped ti (length (enumerate 0 ks)) r"
  proof (rule foldM_list_rule)
    show "grouped ti 0 (Map.empty, [], ti)" using L(6) by (simp add: grouped_def)
    show "\<exists>s'. group_key (enumerate 0 ks ! j) s = Some s' \<and> grouped ti (Suc j) s'" if "j < length (enumerate 0 ks)" "grouped ti j s" for j s
      using that group_key_ok[OF l(1), of j "ks ! j"] nm len by (cases s) (auto simp: nth_enumerate_eq)
  qed
  then obtain np vec ti1 where r: "foldM group_key (enumerate 0 ks) (Map.empty, [], ti) = Some (np, vec, ti1)" "grouped ti (length (indexs ti)) (np, vec, ti1)"
    using len by auto
  obtain c where c: "ti1 = ti\<lparr>column_key_2_inner_index := c\<rparr>" "length c = MAX_INDEX_NUM" "distinct (concat vec)"
      "set (concat vec) = set (indexs ti)" "\<forall>i<length (indexs ti). \<exists>p<length vec. c ! i = int p \<and> indexs ti ! i \<in> set (vec ! p)"
      "length vec \<le> length (indexs ti)"
    using r(2) by (auto simp: grouped_def simp del: set_concat)
  obtain ti' where f: "foldM (fill False) (enumerate 0 vec) ti1 = Some ti'" "filled vec (length vec) ti1 ti'"
      "\<forall>i<length c. GetInnerIndexPos ti' i = GetInnerIndexPos ti1 i"
    using fill_loop[of vec ti1 False] c L(7) l(2) by auto
  have "index_agree ti'"
  proof (rule agree_of_filled[OF f(2)])
    fix i a
    assume h: "TableIndex_GetIndex ti1 i = Some a"
    then have i: "i < length (indexs ti)" "a = indexs ti ! i" using L(1) c(1) by (auto simp: TableIndex_GetIndex_def split: if_splits)
    have "good_index ti1 i a" using L(5)[OF i(1)] i(2) c(1) good_index_cong[of ti1 ti] by simp
    moreover have "GetInnerIndexPos ti' i = c ! i" using f(3) i(1) L(2) c(1,2) by (simp add: GetInnerIndexPos_def)
    ultimately show "good_index ti1 i a \<and> (\<exists>p<length vec. GetInnerIndexPos ti' i = int p \<and> a \<in> set (vec ! p))"
      using c(5) i by auto
  qed
  moreover have "inner_good ti'"
  proof (rule inner_of_filled[OF f(2)])
    show "\<exists>i. good_index ti1 i a" if v: "v \<in> set vec" "a \<in> set v" for v a
    proof -
      have "a \<in> set (concat vec)" using v by auto
      then have "\<exists>i. good_index ti i a" using c(4) L(5) by (metis in_set_conv_nth)
      then show ?thesis using good_index_cong[of ti1 ti] c(1) by simp
    qed
  qed (use c(6) L(2) in simp)
  ultimately have "with_inner tm n ti ti'" using f(2) c(1) by (simp add: with_inner_def filled_def)
  moreover have "foldM (\<lambda>(i, v). add_inner i v) (enumerate 0 vec) ti1 = Some ti'" using f(1) by (simp add: fill_def)
  ultimately show ?thesis using r(1) by auto
qed

lemma cleared_inner:
  "listed (ti\<lparr>inner_indexs := xs\<rparr>) = listed ti" "listed_multi (ti\<lparr>inner_indexs := xs\<rparr>) = listed_multi ti"
  "name_at (ti\<lparr>inner_indexs := xs\<rparr>) = name_at ti"
  by (simp_all add: listed_def listed_multi_def name_at_def[abs_def] good_index_cong[of "ti\<lparr>inner_indexs := xs\<rparr>" ti])

lemma FillIndexVal_ok:
  assumes p: "parsed tm ti" and k: "length (tm_column_key tm) \<le> MAX_INDEX_NUM"
    and d: "tm_column_desc tm = [] \<Longrightarrow> n = 0"
  shows "\<exists>ti'. FillIndexVal tm n ti = Some ti' \<and> with_inner tm n ti ti'"
proof -
  let ?ti = "ti\<lparr>inner_indexs := []\<rparr>"
  have w: "with_inner tm n ?ti ti' = with_inner tm n ti ti'" for ti' by (simp add: with_inner_def)
  have e: "inner_indexs ?ti = []" by simp
  show ?thesis
  proof (cases "listed_multi ti \<and> length (multi_ts_indexs ti) = length (tm_column_key tm) \<and> multi_ts_indexs ti \<noteq> []")
    case True
    then have m: "listed_multi ?ti" "length (multi_ts_indexs ?ti) \<le> MAX_INDEX_NUM" "multi_ts_indexs ?ti \<noteq> []"
      using k by (simp_all add: cleared_inner)
    have "indexs ti = []" "tm_column_key tm \<noteq> []" using True by (auto simp: listed_multi_def)
    with m show ?thesis
      using Fill_multi[OF m(1) e m(2,3), of tm n] True by (cases "n > 1") (auto simp: FillIndexVal_def Let_def with_inner_def inner_good_def)
  next
    case False
    then have l: "listed ?ti" and names: "tm_column_key tm \<noteq> [] \<and> tm_column_desc tm \<noteq> [] \<longrightarrow>
        map (name_at ?ti) (indexs ?ti) = map ck_index_name (tm_column_key tm)"
      using p by (auto simp: parsed_def cleared_inner)
    show ?thesis
    proof (cases "tm_column_key tm \<noteq> [] \<and> n > 1")
      case True
      then have "tm_column_desc tm \<noteq> []" using d by auto
      then have "map (name_at ?ti) (indexs ?ti) = map ck_index_name (tm_column_key tm)" using names True by simp
      from Fill_grouped[OF l e this, of tm n] show ?thesis
        using True listedD(1)[OF l] by (auto simp: FillIndexVal_def Let_def w)
    next
      case False
      then show ?thesis using Fill_listed[OF l e, of tm n] w by (auto simp: FillIndexVal_def Let_def)
    qed
  qed
qed

section \<open>The whole parse\<close>

lemma SetTsColumn_listed:
  assumes "listed ti" "\<forall>a\<in>set v. a < length (idefs ti)"
  shows "\<exists>ti'. foldM (SetTsColumn c) v ti = Some ti' \<and> listed ti' \<and> indexs ti' = indexs ti"
  using assms
proof (induction v arbitrary: ti)
  case (Cons a v)
  let ?ti = "ti\<lparr>idefs := (idefs ti)[a := (idefs ti ! a)\<lparr>ix_ts_column := c\<rparr>]\<rparr>"
  have s: "SetTsColumn c a ti = Some ?ti" using Cons.prems by (simp add: SetTsColumn_def change_index_def idef_def)
  have a: "a < length (idefs ti)" using Cons.prems(2) by simp
  have "name_at ?ti = name_at ti" using a by (simp add: name_at_def nth_list_update fun_eq_iff)
  moreover have "good_index ?ti i b = good_index ti i b" for i b using a by (auto simp: good_index_def idef_def nth_list_update)
  ultimately have "listed ?ti" using Cons.prems(1) by (simp add: listed_def)
  then show ?case using Cons.IH[of ?ti] Cons.prems(2) s by auto
qed simp

lemma parse_columns_ok:
  assumes "listed (ps_ti ps)" "key_idx ps = 0" "indexs (ps_ti ps) = []" "col_map ps = Map.empty"
  shows "\<exists>go ps'. each (parse_column tm S) cs ps = Some (go, ps') \<and> (go \<longrightarrow> listed (ps_ti ps') \<and> dom (col_map ps') = cm_name ` set cs)"
proof -
  let ?I = "\<lambda>j ps'. listed (ps_ti ps') \<and> key_idx ps' = length (indexs (ps_ti ps')) \<and> dom (col_map ps') = cm_name ` set (take j cs)"
  have "\<exists>go ps'. each (parse_column tm S) cs ps = Some (go, ps') \<and> (go \<longrightarrow> ?I (length cs) ps')"
  proof (rule each_rule)
    show "?I 0 ps" using assms by simp
    show "\<exists>go s'. parse_column tm S (cs ! i) s = Some (go, s') \<and> (go \<longrightarrow> ?I (Suc i) s')" if "i < length cs" "?I i s" for i s
    proof -
      have "cm_name ` set (take (Suc i) cs) = insert (cm_name (cs ! i)) (cm_name ` set (take i cs))"
        using that(1) by (simp add: take_Suc_conv_app_nth)
      then show ?thesis using parse_column_ok[of s tm S "cs ! i"] that(2) by simp
    qed
  qed
  then show ?thesis by auto
qed

definition known_keys :: "table_meta \<Rightarrow> bool" where
  "known_keys tm \<longleftrightarrow> length (tm_column_key tm) \<le> MAX_INDEX_NUM \<and>
     (\<forall>k\<in>set (tm_column_key tm). set (ck_col_name k) \<subseteq> cm_name ` set (tm_column_desc tm))"

lemma parse_described_ok:
  assumes "known_keys tm" "tm_column_desc tm \<noteq> []"
  shows "\<exists>go ti' m. parse_described tm (TableIndex_ReSet ti) = Some (go, ti', m) \<and> (go \<longrightarrow> parsed tm ti')"
proof -
  let ?ps = "\<lparr>ps_ti = TableIndex_ReSet ti, key_idx = 0, ts_idx = 0, col_map = Map.empty, ts_ttl = Map.empty, ts_mapping = []\<rparr>"
  obtain go ps where c: "each (parse_column tm (concat (map ck_ts_name (tm_column_key tm)))) (tm_column_desc tm) ?ps = Some (go, ps)"
      "go \<longrightarrow> listed (ps_ti ps) \<and> dom (col_map ps) = cm_name ` set (tm_column_desc tm)"
  proof -
    have "listed (ps_ti ?ps)" "indexs (ps_ti ?ps) = []" using listed_ReSet(1)[of ti] by (simp_all add: TableIndex_ReSet_def)
    from parse_columns_ok[OF this(1) _ this(2), of tm "concat (map ck_ts_name (tm_column_key tm))" "tm_column_desc tm"]
    show ?thesis using that by auto
  qed
  show ?thesis
  proof (cases "go \<and> tm_column_key tm \<noteq> []")
    case True
    let ?ps2 = "ps\<lparr>ps_ti := TableIndex_ReSet (ps_ti ps), key_idx := 0\<rparr>"
    have "known_columns tm ?ps2" using True c(2) assms(1) by (simp add: known_columns_def known_keys_def)
    then obtain go' ps' where k: "each (parse_key tm) (enumerate 0 (tm_column_key tm)) ?ps2 = Some (go', ps')"
      "go' \<longrightarrow> listed (ps_ti ps') \<and> map (name_at (ps_ti ps')) (indexs (ps_ti ps')) = map ck_index_name (tm_column_key tm) \<or>
        listed_multi (ps_ti ps') \<and> length (multi_ts_indexs (ps_ti ps')) = length (tm_column_key tm)"
      using parse_keys_ok[of tm ?ps2 "ps_ti ps"] True by (metis (lifting) parse_state.select_convs(1,2) parse_state.surjective parse_state.update_convs(1,2))
    have "tm_column_key tm \<noteq> []" using True by simp
    then have "go' \<longrightarrow> parsed tm (ps_ti ps')" using k(2) unfolding parsed_def by (metis length_0_conv)
    with k(1)
    show ?thesis using True c(1) by (auto simp: parse_described_def Let_def)
  next
    case False
    show ?thesis
    proof (cases go)
      case g: True
      then have l: "listed (ps_ti ps)" and k: "tm_column_key tm = []" using c(2) False by simp_all
      have "\<exists>ti'. (case ts_mapping ps of [] \<Rightarrow> Some (ps_ti ps)
           | (name, _) # _ \<Rightarrow> foldM (SetTsColumn (col_map ps name)) (indexs (ps_ti ps)) (ps_ti ps)) = Some ti' \<and> listed ti'"
        using SetTsColumn_listed[OF l listedD(7)[OF l]] l by (cases "ts_mapping ps") (auto split: prod.split)
      then obtain ti' where t: "(case ts_mapping ps of [] \<Rightarrow> Some (ps_ti ps)
           | (name, _) # _ \<Rightarrow> foldM (SetTsColumn (col_map ps name)) (indexs (ps_ti ps)) (ps_ti ps)) = Some ti'" "listed ti'" by blast
      have "parsed tm ti'" using t(2) k by (simp add: parsed_def)
      moreover have "parse_described tm (TableIndex_ReSet ti) =
          Some (if ts_idx ps > 255 then (False, ps_ti ps, ts_mapping ps) else (True, ti', ts_mapping ps))"
        unfolding parse_described_def Let_def using c(1) g t(1) k by (simp split: list.split_asm)
      ultimately show ?thesis by auto
    qed (use c(1) in \<open>auto simp: parse_described_def Let_def\<close>)
  qed
qed

lemma add_named_ok:
  assumes "listed ti" "length (indexs ti) = i"
  shows "\<exists>go ti'. add_named ttl (name, i) ti = Some (go, ti') \<and> (go \<longrightarrow> listed ti' \<and> length (indexs ti') = Suc i)"
proof -
  let ?d = "(new_IndexDef name i kReady kTimeSerise [])\<lparr>ix_ttl := Some ttl\<rparr>"
  obtain a ti1 where m: "make_index ti ?d = (a, ti1)" by fastforce
  obtain ret ti2 where "TableIndex_AddIndex a ti1 = Some (ret, ti2)" "ret < 0 \<or> listed ti2 \<and> indexs ti2 = indexs ti @ [a]"
    using AddIndex_listed[OF assms(1) _ _ m] assms(2) by (auto simp: new_IndexDef_def)
  then show ?thesis using m assms(2) by (auto simp: add_named_def)
qed

lemma add_dimensions_ok:
  "\<exists>go ti'. each (add_named ttl) (zip ns [0..<length ns]) (TableIndex_ReSet ti) = Some (go, ti') \<and> (go \<longrightarrow> listed ti')"
proof -
  let ?xs = "zip ns [0..<length ns]"
  have "\<exists>go ti'. each (add_named ttl) ?xs (TableIndex_ReSet ti) = Some (go, ti') \<and> (go \<longrightarrow> listed ti' \<and> length (indexs ti') = length ?xs)"
  proof (rule each_rule)
    show "listed (TableIndex_ReSet ti) \<and> length (indexs (TableIndex_ReSet ti)) = 0"
      using listed_ReSet(1) by (simp add: TableIndex_ReSet_def)
    show "\<exists>go s'. add_named ttl (?xs ! i) s = Some (go, s') \<and> (go \<longrightarrow> listed s' \<and> length (indexs s') = Suc i)"
      if "i < length ?xs" "listed s \<and> length (indexs s) = i" for i s
      using that add_named_ok[of s i ttl "ns ! i"] by simp
  qed
  then show ?thesis by auto
qed

lemma parse_indexes_ok:
  assumes "known_keys tm"
  shows "\<exists>go ti' m. (if tm_column_desc tm \<noteq> [] then parse_described tm (TableIndex_ReSet ti)
       else map_option (\<lambda>(go, ti). (go, ti, [])) (each (add_named (table_ttl tm))
         (zip (tm_dimensions tm) [0..<length (tm_dimensions tm)]) (TableIndex_ReSet ti))) = Some (go, ti', m) \<and>
     (go \<longrightarrow> parsed tm ti') \<and> (tm_column_desc tm = [] \<longrightarrow> m = [])"
proof (cases "tm_column_desc tm = []")
  case True
  then show ?thesis using add_dimensions_ok[of "table_ttl tm" "tm_dimensions tm" ti] by (auto simp: parsed_def)
qed (use parse_described_ok[OF assms, of ti] in auto)

text \<open>A table without any index gets the default one; the list of names is then that of no keys.\<close>

lemma default_index_ok:
  assumes "parsed tm ti"
  shows "\<exists>go ti'. (if indexs ti = [] \<and> multi_ts_indexs ti = [] then add_named ttl (idx0, 0) ti else Some (True, ti)) = Some (go, ti') \<and>
    (go \<longrightarrow> parsed tm ti' \<and> (indexs ti' \<noteq> [] \<or> multi_ts_indexs ti' \<noteq> []))"
proof (cases "indexs ti = [] \<and> multi_ts_indexs ti = []")
  case True
  then have l: "listed ti" "tm_column_key tm \<noteq> [] \<and> tm_column_desc tm \<noteq> [] \<longrightarrow> False" using assms by (auto simp: parsed_def)
  obtain go ti' where "add_named ttl (idx0, 0) ti = Some (go, ti')" "go \<longrightarrow> listed ti' \<and> length (indexs ti') = 1"
    using add_named_ok[OF l(1), of 0 ttl idx0] True by auto
  then show ?thesis using True l(2) by (auto simp: parsed_def)
qed (use assms in auto)

lemma ParseFromMeta_ok:
  assumes "known_keys tm"
  shows "\<exists>ret ti' m. ParseFromMeta tm ti = Some (ret, ti', m) \<and>
    (ret = -1 \<or> ret = 0 \<and> pk_index ti' = TableIndex_GetIndex ti' 0 \<and> pk_index ti' \<noteq> None \<and>
      (multi_ts_indexs ti' = [] \<or> length m > 1 \<longrightarrow> index_agree ti') \<and> inner_good ti')"
proof -
  obtain go ti1 m where 1: "(if tm_column_desc tm \<noteq> [] then parse_described tm (TableIndex_ReSet ti)
       else map_option (\<lambda>(go, ti). (go, ti, [])) (each (add_named (table_ttl tm))
         (zip (tm_dimensions tm) [0..<length (tm_dimensions tm)]) (TableIndex_ReSet ti))) = Some (go, ti1, m)"
      "go \<longrightarrow> parsed tm ti1" "tm_column_desc tm = [] \<longrightarrow> m = []"
    using parse_indexes_ok[OF assms, of ti] by blast
  show ?thesis
  proof (cases go)
    case True
    then obtain go2 ti2 where 2: "(if indexs ti1 = [] \<and> multi_ts_indexs ti1 = [] then add_named (table_ttl tm) (idx0, 0) ti1
        else Some (True, ti1)) = Some (go2, ti2)" "go2 \<longrightarrow> parsed tm ti2 \<and> (indexs ti2 \<noteq> [] \<or> multi_ts_indexs ti2 \<noteq> [])"
      using default_index_ok[of tm ti1 "table_ttl tm"] 1(2) by blast
    show ?thesis
    proof (cases go2)
      case g2: True
      obtain ti3 where 3: "FillIndexVal tm (length m) ti2 = Some ti3" "with_inner tm (length m) ti2 ti3"
        using FillIndexVal_ok[of tm ti2 "length m"] 2(2) g2 1(3) assms by (auto simp: known_keys_def)
      have "index_agree (ti3\<lparr>pk_index := x\<rparr>) = index_agree ti3" "inner_good (ti3\<lparr>pk_index := x\<rparr>) = inner_good ti3" for x
        by (simp_all add: index_agree_def TableIndex_GetIndex_def idef_def GetInnerIndexPos_def GetInnerIndex_def inner_good_def good_index_def cong: if_cong)
      moreover have "TableIndex_GetIndex (ti3\<lparr>pk_index := x\<rparr>) 0 = TableIndex_GetIndex ti3 0" for x by (rule GetIndex_same) simp_all
      moreover have "multi_ts_indexs ti3 = [] \<or> hd (multi_ts_indexs ti3) \<noteq> []" "indexs ti3 \<noteq> [] \<or> multi_ts_indexs ti3 \<noteq> []"
        using 2(2) 3(2) g2 by (auto simp: parsed_def listed_def listed_multi_def with_inner_def dest: hd_in_set)
      then have "ParseFromMeta tm ti = Some (0, ti3\<lparr>pk_index := TableIndex_GetIndex ti3 0\<rparr>, m) \<and> TableIndex_GetIndex ti3 0 \<noteq> None"
        unfolding ParseFromMeta_def 1(1) using True 2(1) 3(1) g2
        by (cases "multi_ts_indexs ti3"; cases "indexs ti3") (auto simp: TableIndex_GetIndex_def)
      moreover have "multi_ts_indexs ti3 = [] \<or> length m > 1 \<longrightarrow> index_agree ti3" "inner_good ti3" using 3(2) by (simp_all add: with_inner_def)
      ultimately show ?thesis by simp
    qed (use True 1(1) 2(1) in \<open>auto simp: ParseFromMeta_def\<close>)
  qed (use 1(1) in \<open>auto simp: ParseFromMeta_def\<close>)
qed

text \<open>C25: \<open>ParseFromMeta\<close> never fails on a table whose keys name columns of the table and which has at most 200 keys: it
  refuses the meta data, or the indexes that it makes agree, so that a write through the place of a key and a read
  through the index of the key use the same set of segments.  They agree when no key has several time columns or more than one
  time column is mapped; nothing is claimed of the rest.
\<close>

theorem ParseFromMeta_agree:
  assumes "known_keys tm"
  shows "\<exists>ret ti' m. ParseFromMeta tm ti = Some (ret, ti', m) \<and>
    (ret = -1 \<or> ret = 0 \<and> pk_index ti' = TableIndex_GetIndex ti' 0 \<and> pk_index ti' \<noteq> None \<and>
      (multi_ts_indexs ti' = [] \<or> length m > 1 \<longrightarrow> index_agree ti'))"
  using ParseFromMeta_ok[OF assms, of ti] by blast

text \<open>Two keys on the same two columns in another order, each with its own time column.\<close>

definition two_keys :: table_meta where
  "two_keys = (
     let col = (\<lambda>n t. \<lparr>cm_name = [n], cm_type = [], cm_data_type = Some t, cm_add_ts_idx = False, cm_is_ts_col = False,
           ci_ttl = None, ci_abs_ttl = None, ci_lat_ttl = None\<rparr>);
         key = (\<lambda>n cs ts. \<lparr>ck_index_name = [n], ck_col_name = cs, ck_ts_name = [ts], ck_flag = 0, ck_ttl = None\<rparr>)
     in \<lparr>tm_ttl = 10, tm_ttl_type = kAbsoluteTime, tm_ttl_desc = None, tm_seg_cnt = 8, tm_key_entry_max_height = None, tm_dimensions = [],
       tm_column_desc = [col 97 kString, col 98 kString, col 99 kTimestamp, col 100 kBigInt],
       tm_column_key = [key 105 [[97], [98]] [99], key 106 [[98], [97]] [100]],
       tm_added_column_desc = [], tm_schema_versions = [], tm_leader = None\<rparr>)"

lemma two_keys_parsed:
  "map_option (\<lambda>(ret, ti, m). (ret, multi_ts_indexs ti = [], map ii_index (inner_indexs ti))) (ParseFromMeta two_keys new_TableIndex) =
     Some (0, True, [[0, 1]])"
  by code_simp

theorem ParseFromMeta_agree_witness:
  "\<exists>ti' m. ParseFromMeta two_keys new_TableIndex = Some (0, ti', m) \<and> index_agree ti' \<and> map ii_index (inner_indexs ti') = [[0, 1]]"
proof -
  have "known_keys two_keys" by (simp add: known_keys_def two_keys_def Let_def MAX_INDEX_NUM_def)
  from ParseFromMeta_agree[OF this, of new_TableIndex] show ?thesis using two_keys_parsed by auto
qed

end
