(* ===== verification/Table.thy ===== *)
theory Table
  imports Table_Meta
begin

text \<open>
  The part that all tables share: \<open>src/storage/table.h\<close> and \<open>src/storage/table.cc\<close>.  A table keeps its meta data, the
  indexes made from them, the versions of its schema and the settings that wait for the next collection.  The plain
  getters and setters of names, numbers and states are not modelled.
\<close>

section \<open>State\<close>

record ttl_update =
  tu_ttl :: TTLSt
  tu_ts_idx :: int
  tu_index_name :: bytes

record table =
  tb_meta :: table_meta
  tb_index :: table_index
  tb_ts_mapping :: "(bytes \<times> nat) list"
  tb_leader :: bool
  tb_versions :: "(int \<times> column_info list) list"
  tb_update_ttl :: "ttl_update list"

definition mapping_column :: "bytes \<Rightarrow> column_info" where
  "mapping_column name = \<lparr>cm_name = name, cm_type = ''string'', cm_data_type = None, cm_add_ts_idx = True,
     cm_is_ts_col = False, ci_ttl = None, ci_abs_ttl = None, ci_lat_ttl = None\<rparr>"

text \<open>The constructor from a map of names to places; \<open>ttl\<close> is in milliseconds.\<close>

definition new_Table :: "64 word \<Rightarrow> (bytes \<times> nat) list \<Rightarrow> TTLType \<Rightarrow> table" where
  "new_Table ttl mapping type = (let minutes = ttl div (60 * 1000) in
     \<lparr>tb_meta = \<lparr>tm_ttl = 0, tm_ttl_type = kAbsoluteTime,
        tm_ttl_desc = Some (if type = kAbsoluteTime then (minutes, 0, type) else (0, minutes, type)),
        tm_seg_cnt = 0, tm_key_entry_max_height = None, tm_dimensions = [],
        tm_column_desc = map (\<lambda>(_, name). mapping_column name) (foldl (\<lambda>m (name, i). map_emplace (<) i name m) [] mapping),
        tm_column_key = [], tm_added_column_desc = [], tm_schema_versions = [], tm_leader = None\<rparr>,
      tb_index = new_TableIndex, tb_ts_mapping = [], tb_leader = True, tb_versions = [], tb_update_ttl = []\<rparr>)"

section \<open>Versions of the schema\<close>

text \<open>A version has the columns of the table and the first of the columns added later.\<close>

definition version_schema :: "table_meta \<Rightarrow> int \<Rightarrow> column_info list option" where
  "version_schema tm field_count = (let remain_size = field_count - int (length (tm_column_desc tm)) in
     if remain_size < 0 \<or> remain_size > int (length (tm_added_column_desc tm)) then None
     else Some (tm_column_desc tm @ take (nat remain_size) (tm_added_column_desc tm)))"

definition AddVersionSchema :: "'a table_scheme \<Rightarrow> 'a table_scheme" where
  "AddVersionSchema t = t\<lparr>tb_versions :=
     foldl (\<lambda>m (ver, field_count). case version_schema (tb_meta t) field_count of
         None \<Rightarrow> m | Some cols \<Rightarrow> map_emplace (<) ver cols m)
       [(1, tm_column_desc (tb_meta t))] (tm_schema_versions (tb_meta t))\<rparr>"

definition SetTableMeta :: "table_meta \<Rightarrow> 'a table_scheme \<Rightarrow> 'a table_scheme" where
  "SetTableMeta tm t = AddVersionSchema (t\<lparr>tb_meta := tm\<rparr>)"

definition GetVersionSchema :: "'a table_scheme \<Rightarrow> int \<Rightarrow> column_info list option" where
  "GetVersionSchema t ver = map_of (tb_versions t) ver"

section \<open>Initialisation\<close>

text \<open>A table without keys gets one for every column with its own index.\<close>

definition default_keys :: "table_meta \<Rightarrow> (bytes \<times> nat) list \<Rightarrow> column_key list" where
  "default_keys tm m = map (\<lambda>c. \<lparr>ck_index_name = cm_name c, ck_col_name = [cm_name c],
       ck_ts_name = (case m of [] \<Rightarrow> [] | (name, _) # _ \<Rightarrow> [name]), ck_flag = 0, ck_ttl = None\<rparr>)
     (filter cm_add_ts_idx (tm_column_desc tm))"

definition InitColumnDesc :: "'a table_scheme \<Rightarrow> (int \<times> 'a table_scheme) option" where
  "InitColumnDesc t = do {
     (ret, ti, m) \<leftarrow> ParseFromMeta (tb_meta t) (tb_index t);
     let t1 = t\<lparr>tb_index := ti, tb_ts_mapping := m\<rparr>;
     if ret < 0 then Some (-1, t1)
     else let tm = tb_meta t;
              tm' = (if tm_column_key tm = [] then tm\<lparr>tm_column_key := default_keys tm m\<rparr> else tm) in
       Some (0, AddVersionSchema (t1\<lparr>tb_meta := tm'\<rparr>)) }"

definition InitFromMeta :: "'a table_scheme \<Rightarrow> (bool \<times> 'a table_scheme) option" where
  "InitFromMeta t = do {
     (ret, t') \<leftarrow> InitColumnDesc (if tm_leader (tb_meta t) = Some False then t\<lparr>tb_leader := False\<rparr> else t);
     Some (ret \<ge> 0, t') }"

section \<open>Time-to-live settings\<close>

definition Table_GetTTL :: "'a table_scheme \<Rightarrow> TTLSt option" where
  "Table_GetTTL t = (case TableIndex_GetIndex (tb_index t) 0 of
     Some a \<Rightarrow> do { d \<leftarrow> idef (tb_index t) a; ix_ttl d }
   | None \<Rightarrow> Some (ttl_of_desc (case tm_ttl_desc (tb_meta t) of Some desc \<Rightarrow> desc | None \<Rightarrow> (0, 0, kAbsoluteTime))))"

definition Table_SetTTL :: "ttl_update \<Rightarrow> 'a table_scheme \<Rightarrow> 'a table_scheme" where
  "Table_SetTTL u t = t\<lparr>tb_update_ttl := tb_update_ttl t @ [u]\<rparr>"

text \<open>The setting of an index, changed if the update is for it.\<close>

definition update_index :: "ttl_update \<Rightarrow> addr \<Rightarrow> table_index \<Rightarrow> table_index option" where
  "update_index u a ti = do {
     d \<leftarrow> idef ti a;
     if (if tu_index_name u \<noteq> [] then ix_name d = tu_index_name u
         else if tu_ts_idx u \<ge> 0 then ts_of d = Some (tu_ts_idx u) else True)
     then IndexDef_SetTTL (tu_ttl u) a ti else Some ti }"

definition UpdateTTL :: "'a table_scheme \<Rightarrow> 'a table_scheme option" where
  "UpdateTTL t = do {
     ti \<leftarrow> foldM (\<lambda>u. foldM (update_index u) (GetAllIndex (tb_index t))) (tb_update_ttl t) (tb_index t);
     Some (t\<lparr>tb_index := ti, tb_update_ttl := []\<rparr>) }"

definition CheckFieldExist :: "'a table_scheme \<Rightarrow> bytes \<Rightarrow> bool" where
  "CheckFieldExist t name \<longleftrightarrow> (\<exists>c\<in>set (tm_column_desc (tb_meta t)). cm_name c = name) \<or>
     (\<exists>c\<in>set (tm_added_column_desc (tb_meta t)). cm_name c = name)"

end
