(* ===== verification/Hash.thy ===== *)
theory Hash
  imports Prelude
begin

text \<open>
  The hash functions of \<open>src/base/hash.h\<close>: \<open>hash\<close> picks the segment of a key inside a table, \<open>hash64\<close> the partition
  of a key.  The machine is little-endian.
\<close>

unbundle bit_operations_syntax

section \<open>The segment of a key\<close>

definition murmur_m :: "32 word" where "murmur_m = 0x5bd1e995"

fun hash_loop :: "32 word \<Rightarrow> bytes \<Rightarrow> 32 word \<times> bytes" where
  "hash_loop h (a # b # c # d # ds) = (
     let k = ucast a OR push_bit 8 (ucast b) OR push_bit 16 (ucast c) OR push_bit 24 (ucast d);
         k1 = k * murmur_m;
         k2 = (k1 XOR drop_bit 24 k1) * murmur_m
     in hash_loop (h * murmur_m XOR k2) ds)"
| "hash_loop h ds = (h, ds)"

definition hash_tail :: "32 word \<Rightarrow> bytes \<Rightarrow> 32 word" where
  "hash_tail h ds = (case ds of
     [a, b, c] \<Rightarrow> (h XOR push_bit 16 (ucast c) XOR push_bit 8 (ucast b) XOR ucast a) * murmur_m
   | [a, b] \<Rightarrow> (h XOR push_bit 8 (ucast b) XOR ucast a) * murmur_m
   | [a] \<Rightarrow> (h XOR ucast a) * murmur_m
   | _ \<Rightarrow> h)"

definition hash :: "bytes \<Rightarrow> 32 word \<Rightarrow> 32 word" where
  "hash key seed = (case hash_loop (seed XOR of_nat (length key)) key of (h, ds) \<Rightarrow>
     let h1 = hash_tail h ds;
         h2 = (h1 XOR drop_bit 13 h1) * murmur_m
     in h2 XOR drop_bit 15 h2)"

section \<open>The partition of a key\<close>

definition murmur64_m :: "64 word" where "murmur64_m = 0xc6a4a7935bd1e995"

definition le64 :: "bytes \<Rightarrow> 64 word" where
  "le64 ds = foldr (\<lambda>b w. ucast b OR push_bit 8 w) ds 0"

fun murmur64_loop :: "64 word \<Rightarrow> bytes \<Rightarrow> 64 word \<times> bytes" where
  "murmur64_loop h (a # b # c # d # e # f # g # i # ds) = (
     let k1 = le64 [a, b, c, d, e, f, g, i] * murmur64_m;
         k2 = (k1 XOR drop_bit 47 k1) * murmur64_m
     in murmur64_loop ((h XOR k2) * murmur64_m) ds)"
| "murmur64_loop h ds = (h, ds)"

text \<open>The last bytes are combined from the highest to the lowest, each at its own place.\<close>

definition murmur64_tail :: "64 word \<Rightarrow> bytes \<Rightarrow> 64 word" where
  "murmur64_tail h ds = (if ds = [] then h else
     foldr (\<lambda>i h. h XOR push_bit (8 * i) (ucast (ds ! i))) [0..<length ds] h * murmur64_m)"

definition MurmurHash64A :: "bytes \<Rightarrow> 32 word \<Rightarrow> 64 word" where
  "MurmurHash64A key seed = (
     case murmur64_loop (ucast seed XOR (of_nat (length key) * murmur64_m)) key of (h, ds) \<Rightarrow>
     let h1 = murmur64_tail h ds;
         h2 = (h1 XOR drop_bit 47 h1) * murmur64_m
     in h2 XOR drop_bit 47 h2)"

text \<open>Negating the least 64-bit integer has no defined result.\<close>

definition hash64 :: "bytes \<Rightarrow> int option" where
  "hash64 key = (let cur_value = sint (MurmurHash64A key 0xe17a1465) in
     if cur_value < 0 then (if cur_value = - (2 ^ 63) then None else Some (- cur_value)) else Some cur_value)"

lemma hash64_range: "hash64 key = Some n \<Longrightarrow> 0 \<le> n \<and> n < 2 ^ 63"
  using sint_range_size[of "MurmurHash64A key 0xe17a1465"] by (auto simp: hash64_def Let_def word_size split: if_splits)

end
