(* ===== verification/Mem_Table.thy ===== *)
theory Mem_Table
  imports Table Hash Segment
begin

text \<open>
  The table in memory: \<open>src/storage/mem_table.h\<close> and \<open>src/storage/mem_table.cc\<close>, without the iterators over all keys.

  Every set of segments is an array of \<open>seg_cnt_\<close> segments among which the keys are distributed by their hash.  The
  blocks of rows are shared by the segments and live in one heap.  A ticket of the table names the segment of each
  entry that it holds.
\<close>

section \<open>State\<close>

text \<open>The flags that the code reads; \<open>gc_safe_offset\<close> is in minutes.\<close>

record flags =
  skiplist_max_height :: nat
  default_key_entry_max_height :: nat
  absolute_default_skiplist_height :: nat
  latest_default_skiplist_height :: nat
  gc_safe_offset :: "32 word"
  gc_deleted_pk_version_delta :: "64 word"
  max_traverse_cnt :: "64 word"

record mem_table = table +
  seg_cnt :: nat
  segments :: "segment list option list"
  mt_blocks :: blocks
  next_block :: addr
  enable_gc :: bool
  record_cnt :: "64 word"
  record_byte_size :: "64 word"
  segment_released :: bool
  table_key_entry_max_height :: nat

definition empty_mem_table :: "table \<Rightarrow> nat \<Rightarrow> mem_table" where
  "empty_mem_table t n = table.extend t \<lparr>seg_cnt = n, segments = replicate MAX_INDEX_NUM None, mt_blocks = Map.empty, next_block = 0,
     enable_gc = True, record_cnt = 0, record_byte_size = 0, segment_released = False, table_key_entry_max_height = 0\<rparr>"

definition new_MemTable :: "nat \<Rightarrow> (bytes \<times> nat) list \<Rightarrow> 64 word \<Rightarrow> TTLType \<Rightarrow> mem_table" where
  "new_MemTable n mapping ttl type = empty_mem_table (new_Table (ttl * 60 * 1000) mapping type) n"

definition new_MemTable_meta :: "table_meta \<Rightarrow> mem_table" where
  "new_MemTable_meta tm = (empty_mem_table (new_Table 0 [] kAbsoluteTime) 8)\<lparr>tb_meta := tm\<rparr>"

text \<open>The segment of a key, and the segment at a place.\<close>

definition SEED :: "32 word" where "SEED = 0xe17a1465"

definition seg_idx_of :: "mem_table \<Rightarrow> bytes \<Rightarrow> nat" where
  "seg_idx_of t pk = (if seg_cnt t > 1 then unat (hash pk SEED) mod seg_cnt t else 0)"

definition seg_at :: "mem_table \<Rightarrow> nat \<Rightarrow> nat \<Rightarrow> segment option" where
  "seg_at t i j = do {
     assert_that (i < length (segments t));
     arr \<leftarrow> segments t ! i;
     assert_that (j < length arr);
     Some (arr ! j) }"

definition set_seg :: "nat \<Rightarrow> nat \<Rightarrow> segment \<Rightarrow> mem_table \<Rightarrow> mem_table" where
  "set_seg i j sg t = t\<lparr>segments := (segments t)[i := map_option (\<lambda>arr. arr[j := sg]) (segments t ! i)]\<rparr>"

section \<open>Initialisation\<close>

definition new_segments :: "flags \<Rightarrow> nat \<Rightarrow> nat \<Rightarrow> nat list \<Rightarrow> segment list" where
  "new_segments fl n height ts_vec = replicate n (
     if ts_vec \<noteq> [] then new_Segment_ts (skiplist_max_height fl) (gc_safe_offset fl) height (map of_nat ts_vec)
     else new_Segment (skiplist_max_height fl) (gc_safe_offset fl) height)"

definition init_inner :: "flags \<Rightarrow> nat \<Rightarrow> nat \<times> inner_index \<Rightarrow> mem_table \<Rightarrow> mem_table option" where
  "init_inner fl global_height = (\<lambda>(i, ii) t. do {
     height \<leftarrow> (if global_height > 0 then Some global_height
       else GetKeyEntryMaxHeight (tb_index t) ii (absolute_default_skiplist_height fl) (latest_default_skiplist_height fl));
     assert_that (i < length (segments t));
     Some (t\<lparr>segments := (segments t)[i := Some (new_segments fl (seg_cnt t) height (ii_ts ii))],
       table_key_entry_max_height := height\<rparr>) })"

definition MemTable_Init :: "flags \<Rightarrow> mem_table \<Rightarrow> (bool \<times> mem_table) option" where
  "MemTable_Init fl t0 = do {
     (ok, t1) \<leftarrow> InitFromMeta (t0\<lparr>table_key_entry_max_height := default_key_entry_max_height fl\<rparr>);
     if \<not> ok then Some (False, t1)
     else do {
       let tm = tb_meta t1;
       let t2 = (if tm_seg_cnt tm > 0 then t1\<lparr>seg_cnt := nat (tm_seg_cnt tm)\<rparr> else t1);
       let global_height = (case tm_key_entry_max_height tm of
           Some h \<Rightarrow> if h \<le> skiplist_max_height fl \<and> h > 0 then h else 0 | None \<Rightarrow> 0);
       t3 \<leftarrow> foldM (init_inner fl global_height) (enumerate 0 (inner_indexs (tb_index t2))) t2;
       Some (True, t3) } }"

section \<open>Writes\<close>

definition count_record :: "bytes \<Rightarrow> mem_table \<Rightarrow> mem_table" where
  "count_record value t = t\<lparr>record_cnt := record_cnt t + 1,
     record_byte_size := record_byte_size t + ucast (GetRecordSize (of_nat (length value)))\<rparr>"

definition MemTable_Put :: "mem_table \<Rightarrow> bytes \<Rightarrow> 64 word \<Rightarrow> bytes \<Rightarrow> (bool \<times> mem_table) option" where
  "MemTable_Put t pk time value = (
     if segments t = [] then Some (False, t)
     else do {
       let j = seg_idx_of t pk;
       sg \<leftarrow> seg_at t 0 j;
       (sg', bs) \<leftarrow> Segment_Put_data sg (mt_blocks t) pk time (next_block t) value (of_nat (length value));
       Some (True, count_record value (set_seg 0 j sg' (t\<lparr>mt_blocks := bs, next_block := Suc (next_block t)\<rparr>))) })"

text \<open>
  A row has a key for each of its dimensions; dimensions that share a set of segments are written once, with the key
  of the first.
\<close>

type_synonym dimension = "nat \<times> bytes"

definition add_dimension :: "table_index \<Rightarrow> dimension \<Rightarrow> (int \<times> bytes) list \<Rightarrow> (bool \<times> (int \<times> bytes) list) option" where
  "add_dimension ti = (\<lambda>(idx, key) m. let inner_pos = GetInnerIndexPos ti idx in
     Some (if inner_pos < 0 then (False, m) else (True, map_emplace (<) inner_pos key m)))"

text \<open>How many references the block of the row will have.\<close>

definition count_plain :: "table_index \<Rightarrow> addr \<Rightarrow> nat \<Rightarrow> (bool \<times> nat) option" where
  "count_plain ti a n = do {
     d \<leftarrow> idef ti a;
     Some (if ix_ts_column d \<noteq> None then (False, n) else (True, if IsReady d then Suc n else n)) }"

definition count_ts :: "ts_dimension list \<Rightarrow> table_index \<Rightarrow> addr \<Rightarrow> nat \<Rightarrow> (bool \<times> nat) option" where
  "count_ts ts_dims ti a n = do {
     d \<leftarrow> idef ti a;
     Some (True, case ts_of d of
         Some i \<Rightarrow> if (\<exists>x\<in>set ts_dims. sint (fst x) = i) \<and> IsReady d then Suc n else n
       | None \<Rightarrow> if IsReady d then Suc n else n) }"

definition count_inner ::
    "(addr \<Rightarrow> nat \<Rightarrow> (bool \<times> nat) option) \<Rightarrow> table_index \<Rightarrow> int \<times> bytes \<Rightarrow> nat \<Rightarrow> (bool \<times> nat) option" where
  "count_inner f ti = (\<lambda>(pos, _) n. case GetInnerIndex ti (nat pos) of
     None \<Rightarrow> Some (False, n) | Some ii \<Rightarrow> each f (ii_index ii) n)"

definition any_ready :: "table_index \<Rightarrow> addr list \<Rightarrow> bool option" where
  "any_ready ti as = map_option (\<lambda>r. r \<noteq> None) (find_index (\<lambda>a. map_option IsReady (idef ti a)) as)"

definition put_inner ::
    "(segment \<Rightarrow> bytes \<Rightarrow> segment option) \<Rightarrow> int \<times> bytes \<Rightarrow> mem_table \<Rightarrow> mem_table option" where
  "put_inner put = (\<lambda>(pos, key) t. do {
     ii \<leftarrow> GetInnerIndex (tb_index t) (nat pos);
     need_put \<leftarrow> any_ready (tb_index t) (ii_index ii);
     if need_put then do {
       let j = seg_idx_of t key;
       sg \<leftarrow> seg_at t (nat pos) j;
       sg' \<leftarrow> put sg key;
       Some (set_seg (nat pos) j sg' t) }
     else Some t })"

definition put_row ::
    "(addr \<Rightarrow> nat \<Rightarrow> (bool \<times> nat) option) \<Rightarrow> (segment \<Rightarrow> bytes \<Rightarrow> addr \<Rightarrow> segment option) \<Rightarrow>
     dimension list \<Rightarrow> bytes \<Rightarrow> mem_table \<Rightarrow> (bool \<times> mem_table) option" where
  "put_row cnt_refs put dims value t = do {
     (go, m) \<leftarrow> each (add_dimension (tb_index t)) dims [];
     if \<not> go then Some (False, t)
     else do {
       (go', real_ref_cnt) \<leftarrow> each (count_inner cnt_refs (tb_index t)) m 0;
       if \<not> go' then Some (False, t)
       else do {
         let block = next_block t;
         let t1 = t\<lparr>mt_blocks := (mt_blocks t)(block \<mapsto> new_DataBlock (of_nat real_ref_cnt) value (of_nat (length value))),
           next_block := Suc block\<rparr>;
         t2 \<leftarrow> foldM (put_inner (\<lambda>sg key. put sg key block)) m t1;
         Some (True, count_record value t2) } } }"

definition MemTable_Put_dims :: "mem_table \<Rightarrow> 64 word \<Rightarrow> bytes \<Rightarrow> dimension list \<Rightarrow> (bool \<times> mem_table) option" where
  "MemTable_Put_dims t time value dims =
     put_row (count_plain (tb_index t)) (\<lambda>sg key b. Segment_Put sg key time b) dims value t"

definition MemTable_Put_ts :: "mem_table \<Rightarrow> dimension list \<Rightarrow> ts_dimension list \<Rightarrow> bytes \<Rightarrow> (bool \<times> mem_table) option" where
  "MemTable_Put_ts t dims ts_dims value = (
     if dims = [] \<or> ts_dims = [] then Some (False, t)
     else put_row (count_ts ts_dims (tb_index t)) (\<lambda>sg key b. Segment_Put_ts sg key ts_dims b) dims value t)"

text \<open>The first three fields of a log entry that a table is made from, and its dimensions.\<close>

record log_entry =
  le_pk :: bytes
  le_ts :: "64 word"
  le_value :: bytes
  le_dimensions :: "dimension list"
  le_ts_dimensions :: "ts_dimension list"

definition MemTable_Put_entry :: "mem_table \<Rightarrow> log_entry \<Rightarrow> (bool \<times> mem_table) option" where
  "MemTable_Put_entry t e = (
     if le_dimensions e \<noteq> [] then
       (if le_ts_dimensions e \<noteq> [] then MemTable_Put_ts t (le_dimensions e) (le_ts_dimensions e) (le_value e)
        else MemTable_Put_dims t (le_ts e) (le_value e) (le_dimensions e))
     else MemTable_Put t (le_pk e) (le_ts e) (le_value e))"

text \<open>A ready index, with the segment of a key in it.\<close>

definition ready_index :: "mem_table \<Rightarrow> addr option \<Rightarrow> IndexDef option option" where
  "ready_index t r = (case r of None \<Rightarrow> Some None
     | Some a \<Rightarrow> do { d \<leftarrow> idef (tb_index t) a; Some (if IsReady d then Some d else None) })"

definition MemTable_Put_block :: "mem_table \<Rightarrow> bytes \<Rightarrow> 64 word \<Rightarrow> addr \<Rightarrow> nat \<Rightarrow> (bool \<times> mem_table) option" where
  "MemTable_Put_block t pk time b idx = do {
     r \<leftarrow> ready_index t (TableIndex_GetIndex (tb_index t) idx);
     case r of None \<Rightarrow> Some (False, t)
     | Some d \<Rightarrow> do {
         let j = seg_idx_of t pk;
         sg \<leftarrow> seg_at t (ix_inner_pos d) j;
         sg' \<leftarrow> Segment_Put sg pk time b;
         Some (True, set_seg (ix_inner_pos d) j sg' t) } }"

definition MemTable_Delete :: "mem_table \<Rightarrow> bytes \<Rightarrow> nat \<Rightarrow> (bool \<times> mem_table) option" where
  "MemTable_Delete t pk idx = do {
     r \<leftarrow> ready_index t (TableIndex_GetIndex (tb_index t) idx);
     case r of None \<Rightarrow> Some (False, t)
     | Some d \<Rightarrow> do {
         let j = seg_idx_of t pk;
         sg \<leftarrow> seg_at t (ix_inner_pos d) j;
         (ok, sg') \<leftarrow> Segment_Delete sg pk;
         Some (ok, set_seg (ix_inner_pos d) j sg' t) } }"

section \<open>Collection\<close>

definition release_column :: "nat \<Rightarrow> mem_table \<Rightarrow> 64 word \<Rightarrow> (mem_table \<times> 64 word) option" where
  "release_column i t acc = (
     if segments t ! i = None then Some (t, acc)
     else foldM (\<lambda>j (t, acc). do {
         sg \<leftarrow> seg_at t i j;
         (n, sg', bs) \<leftarrow> Segment_Release sg (mt_blocks t);
         Some ((set_seg i j sg' t)\<lparr>mt_blocks := bs\<rparr>, acc + n) }) [0..<seg_cnt t] (t, acc))"

definition MemTable_Release :: "mem_table \<Rightarrow> (64 word \<times> mem_table) option" where
  "MemTable_Release t = (
     if segment_released t \<or> segments t = [] then Some (0, t)
     else do {
       (t', acc) \<leftarrow> foldM (\<lambda>i (t, acc). release_column i t acc) [0..<length (segments t)] (t, 0);
       Some (acc, t'\<lparr>segment_released := True, segments := []\<rparr>) })"

text \<open>The state of a collection: the table and the three counters.\<close>

definition count_column :: "nat \<Rightarrow> mem_table \<times> gc_counts \<Rightarrow> (mem_table \<times> gc_counts) option" where
  "count_column i tc = (case tc of (t, c) \<Rightarrow> do {
     assert_that (i < length (segments t));
     if segments t ! i = None then Some (t, c)
     else foldM (\<lambda>k (t, c). do {
         sg \<leftarrow> seg_at t i k;
         (sg', bs, c') \<leftarrow> ReleaseAndCount (sg, mt_blocks t, c);
         Some ((set_seg i k sg' t)\<lparr>mt_blocks := bs\<rparr>, c') }) [0..<seg_cnt t] (t, c) })"

text \<open>
  One index of a set of segments: its setting is noted under its time column, a waiting index starts to be deleted,
  and one that was being deleted is deleted, with its segments if they are its own.
\<close>

definition gc_status ::
    "nat \<Rightarrow> nat \<Rightarrow> addr \<Rightarrow> (32 word \<times> TTLSt) list \<times> bool \<times> nat \<times> mem_table \<times> gc_counts \<Rightarrow>
     ((32 word \<times> TTLSt) list \<times> bool \<times> nat \<times> mem_table \<times> gc_counts) option" where
  "gc_status i real_size a = (\<lambda>(m, need_gc, deleted_num, t, c). do {
     d \<leftarrow> idef (tb_index t) a;
     ttl \<leftarrow> ix_ttl d;
     let m' = map_emplace (<) (case ts_of d of Some ts \<Rightarrow> word_of_int ts | None \<Rightarrow> 0) ttl m;
     case ix_status d of
       kWaiting \<Rightarrow> do {
         ti \<leftarrow> SetStatus kDeleting a (tb_index t);
         Some (m', False, deleted_num, t\<lparr>tb_index := ti\<rparr>, c) }
     | kDeleting \<Rightarrow> do {
         (t1, c1) \<leftarrow> (if real_size = 1 then count_column i (t, c) else Some (t, c));
         ti \<leftarrow> SetStatus kDeleted a (tb_index t1);
         Some (m', need_gc, if real_size = 1 then Suc deleted_num else deleted_num, t1\<lparr>tb_index := ti\<rparr>, c1) }
     | kDeleted \<Rightarrow> Some (m', need_gc, Suc deleted_num, t, c)
     | kReady \<Rightarrow> Some (m', need_gc, deleted_num, t, c) })"

text \<open>The clock is read for every segment.\<close>

definition gc_segment ::
    "flags \<Rightarrow> (nat \<Rightarrow> 64 word) \<Rightarrow> nat \<Rightarrow> (32 word \<times> TTLSt) list \<Rightarrow> nat \<Rightarrow> mem_table \<times> gc_counts \<Rightarrow> (mem_table \<times> gc_counts) option" where
  "gc_segment fl clock i ttls j = (\<lambda>(t, c). do {
     sg \<leftarrow> seg_at t i j;
     (sg1, bs1, c1) \<leftarrow> GcFreeList (gc_deleted_pk_version_delta fl) (IncrGcVersion sg) (mt_blocks t) c;
     (sg2, bs2, c2) \<leftarrow> (case ttls of [(_, ttl)] \<Rightarrow> ExecuteGc (clock j) ttl (sg1, bs1, c1)
       | _ \<Rightarrow> ExecuteGc_map (clock j) ttls (sg1, bs1, c1));
     Some ((set_seg i j sg2 t)\<lparr>mt_blocks := bs2\<rparr>, c2) })"

definition gc_inner ::
    "flags \<Rightarrow> (nat \<Rightarrow> nat \<Rightarrow> 64 word) \<Rightarrow> nat \<times> inner_index \<Rightarrow> mem_table \<times> gc_counts \<Rightarrow> (mem_table \<times> gc_counts) option" where
  "gc_inner fl clock = (\<lambda>(i, ii) (t, c). do {
     (m, need_gc, deleted_num, t1, c1) \<leftarrow> foldM (gc_status i (length (ii_index ii))) (ii_index ii) ([], True, 0, t, c);
     if \<not> enable_gc t1 \<or> \<not> need_gc \<or> deleted_num = length (ii_index ii) \<or> m = [] then Some (t1, c1)
     else foldM (gc_segment fl (clock i) i m) [0..<seg_cnt t1] (t1, c1) })"

definition SchedGc :: "flags \<Rightarrow> (nat \<Rightarrow> nat \<Rightarrow> 64 word) \<Rightarrow> mem_table \<Rightarrow> mem_table option" where
  "SchedGc fl clock t = do {
     (t1, c) \<leftarrow> foldM (gc_inner fl clock) (enumerate 0 (inner_indexs (tb_index t))) (t, no_counts);
     UpdateTTL (t1\<lparr>record_cnt := record_cnt t1 - gc_record_cnt c, record_byte_size := record_byte_size t1 - gc_record_byte_size c\<rparr>) }"

section \<open>Reads\<close>

text \<open>A ticket of the table; \<open>None\<close> stands for the null iterator.\<close>

type_synonym table_ticket = "(nat \<times> nat \<times> addr) list"

type_synonym table_iterator = "(nat \<times> nat \<times> mt_iterator) option"

definition segment_iterator ::
    "(segment \<Rightarrow> addr list \<Rightarrow> (mt_iterator \<times> segment \<times> addr list) option) \<Rightarrow> nat \<Rightarrow> nat \<Rightarrow> mem_table \<Rightarrow> table_ticket \<Rightarrow>
     (table_iterator \<times> mem_table \<times> table_ticket) option" where
  "segment_iterator f i j t ticket = do {
     sg \<leftarrow> seg_at t i j;
     (it, sg', held) \<leftarrow> f sg [];
     Some (Some (i, j, it), set_seg i j sg' t, ticket @ map (\<lambda>k. (i, j, k)) held) }"

definition MemTable_NewIterator_ts ::
    "mem_table \<Rightarrow> nat \<Rightarrow> int \<Rightarrow> bytes \<Rightarrow> table_ticket \<Rightarrow> (table_iterator \<times> mem_table \<times> table_ticket) option" where
  "MemTable_NewIterator_ts t index tsi pk ticket = do {
     a \<leftarrow> TableIndex_GetIndex_ts (tb_index t) index tsi;
     r \<leftarrow> ready_index t a;
     case r of None \<Rightarrow> Some (None, t, ticket)
     | Some d \<Rightarrow> segment_iterator (\<lambda>sg. Segment_NewIterator_ts sg pk (word_of_int tsi)) (ix_inner_pos d) (seg_idx_of t pk) t ticket }"

definition MemTable_NewIterator ::
    "mem_table \<Rightarrow> nat \<Rightarrow> bytes \<Rightarrow> table_ticket \<Rightarrow> (table_iterator \<times> mem_table \<times> table_ticket) option" where
  "MemTable_NewIterator t index pk ticket = do {
     r \<leftarrow> ready_index t (TableIndex_GetIndex (tb_index t) index);
     case r of None \<Rightarrow> Some (None, t, ticket)
     | Some d \<Rightarrow> do {
         sg \<leftarrow> seg_at t (ix_inner_pos d) (seg_idx_of t pk);
         case ts_of d of
           Some tsi \<Rightarrow> MemTable_NewIterator_ts t index tsi pk ticket
         | None \<Rightarrow> segment_iterator (\<lambda>sg. Segment_NewIterator sg pk) (ix_inner_pos d) (seg_idx_of t pk) t ticket } }"

definition unref :: "nat \<times> nat \<times> addr \<Rightarrow> mem_table \<Rightarrow> mem_table option" where
  "unref = (\<lambda>(i, j, k) t. do { sg \<leftarrow> seg_at t i j; sg' \<leftarrow> Ticket_destroy sg [k]; Some (set_seg i j sg' t) })"

definition MemTable_GetCount :: "mem_table \<Rightarrow> nat \<Rightarrow> bytes \<Rightarrow> 64 word option option" where
  "MemTable_GetCount t index pk = do {
     a \<leftarrow> TableIndex_GetIndex (tb_index t) index;
     d \<leftarrow> idef (tb_index t) a;
     if \<not> IsReady d then Some None
     else do {
       sg \<leftarrow> seg_at t (ix_inner_pos d) (seg_idx_of t pk);
       case ts_of d of Some tsi \<Rightarrow> Segment_GetCount_ts sg pk (word_of_int tsi) | None \<Rightarrow> Segment_GetCount sg pk } }"

definition MemTable_GetCount_ts :: "mem_table \<Rightarrow> nat \<Rightarrow> 32 word \<Rightarrow> bytes \<Rightarrow> 64 word option option" where
  "MemTable_GetCount_ts t index tsi pk = do {
     a \<leftarrow> TableIndex_GetIndex_ts (tb_index t) index (sint tsi);
     r \<leftarrow> ready_index t a;
     case r of None \<Rightarrow> Some None
     | Some d \<Rightarrow> do {
         sg \<leftarrow> seg_at t (ix_inner_pos d) (seg_idx_of t pk);
         Segment_GetCount_ts sg pk tsi } }"

text \<open>The sum of a counter over the segments of the sets that have a ready index.\<close>

definition sum_segments :: "(segment \<Rightarrow> 64 word option) \<Rightarrow> mem_table \<Rightarrow> 64 word option" where
  "sum_segments f t = foldM (\<lambda>(i, ii) acc. do {
       is_valid \<leftarrow> any_ready (tb_index t) (ii_index ii);
       if is_valid then foldM (\<lambda>j acc. do { sg \<leftarrow> seg_at t i j; n \<leftarrow> f sg; Some (acc + n) }) [0..<seg_cnt t] acc
       else Some acc })
     (enumerate 0 (inner_indexs (tb_index t))) 0"

definition GetRecordIdxByteSize :: "mem_table \<Rightarrow> 64 word option" where
  "GetRecordIdxByteSize = sum_segments (\<lambda>sg. Some (idx_byte_size sg))"

definition GetRecordIdxCnt :: "mem_table \<Rightarrow> 64 word option" where
  "GetRecordIdxCnt = sum_segments GetIdxCnt"

definition GetRecordPkCnt :: "mem_table \<Rightarrow> 64 word option" where
  "GetRecordPkCnt = sum_segments (\<lambda>sg. Some (pk_cnt sg))"

definition GetRecordIdxCnt_index :: "mem_table \<Rightarrow> nat \<Rightarrow> 64 word list option option" where
  "GetRecordIdxCnt_index t idx = do {
     r \<leftarrow> ready_index t (TableIndex_GetIndex (tb_index t) idx);
     case r of None \<Rightarrow> Some None
     | Some d \<Rightarrow> map_option Some (foldM (\<lambda>j ns. do { sg \<leftarrow> seg_at t (ix_inner_pos d) j; n \<leftarrow> GetIdxCnt sg; Some (ns @ [n]) })
         [0..<seg_cnt t] []) }"

section \<open>Expiry\<close>

definition GetExpireTime :: "mem_table \<Rightarrow> 64 word \<Rightarrow> TTLSt \<Rightarrow> 64 word" where
  "GetExpireTime t cur_time ttl = (
     if \<not> enable_gc t \<or> abs_ttl ttl = 0 \<or> ttl_type ttl = kLatestTime then 0 else cur_time - abs_ttl ttl)"

definition CheckAbsolute :: "mem_table \<Rightarrow> 64 word \<Rightarrow> TTLSt \<Rightarrow> 64 word \<Rightarrow> bool" where
  "CheckAbsolute t cur_time ttl ts \<longleftrightarrow> \<not> ts \<ge> GetExpireTime t cur_time ttl"

text \<open>The iterator is not checked for null.  The ticket goes out of scope at the end.\<close>

definition CheckLatest :: "mem_table \<Rightarrow> nat \<Rightarrow> int \<Rightarrow> bytes \<Rightarrow> 64 word \<Rightarrow> (bool \<times> mem_table) option" where
  "CheckLatest t index_id tsi key ts = do {
     (r, t1, ticket) \<leftarrow> (if tsi \<ge> 0 then MemTable_NewIterator_ts t index_id tsi key [] else MemTable_NewIterator t index_id key []);
     (i, j, it0) \<leftarrow> r;
     sg \<leftarrow> seg_at t1 i j;
     it \<leftarrow> mt_SeekToLast sg it0;
     expired \<leftarrow> (if mt_Valid it then map_option (\<lambda>k. \<not> ts \<ge> k) (mt_GetKey sg it) else Some True);
     t2 \<leftarrow> foldM unref ticket t1;
     Some (expired, t2) }"

text \<open>A loop that ends with a result.\<close>

primrec first_result :: "('x \<Rightarrow> 's \<Rightarrow> ('r option \<times> 's) option) \<Rightarrow> 'x list \<Rightarrow> 's \<Rightarrow> ('r option \<times> 's) option" where
  "first_result f [] s = Some (None, s)"
| "first_result f (x # xs) s = do {
     (r, s') \<leftarrow> f x s;
     case r of Some v \<Rightarrow> Some (Some v, s') | None \<Rightarrow> first_result f xs s' }"

definition expire_index ::
    "64 word \<Rightarrow> log_entry \<Rightarrow> bytes \<Rightarrow> addr \<Rightarrow> mem_table \<Rightarrow> (bool option \<times> mem_table) option" where
  "expire_index cur_time e key a t = do {
     d \<leftarrow> idef (tb_index t) a;
     if \<not> IsReady d then Some (None, t)
     else do {
       ttl \<leftarrow> ix_ttl d;
       if \<not> NeedGc ttl then Some (Some False, t)
       else case (case ts_of d of None \<Rightarrow> Some (-1, le_ts e)
           | Some tsi \<Rightarrow> map_option (\<lambda>ts. (tsi, ts)) (map_of (le_ts_dimensions e) (word_of_int tsi))) of
         None \<Rightarrow> Some (None, t)
       | Some (tsi, ts) \<Rightarrow> do {
           (is_expire, t') \<leftarrow> (case ttl_type ttl of
               kLatestTime \<Rightarrow> CheckLatest t (ix_id d) tsi key ts
             | kAbsoluteTime \<Rightarrow> Some (CheckAbsolute t cur_time ttl ts, t)
             | kAbsOrLat \<Rightarrow> if CheckAbsolute t cur_time ttl ts then Some (True, t) else CheckLatest t (ix_id d) tsi key ts
             | kAbsAndLat \<Rightarrow> if CheckAbsolute t cur_time ttl ts then CheckLatest t (ix_id d) tsi key ts else Some (False, t)
             | kRelativeTime \<Rightarrow> Some (True, t));
           Some (if ttl_type ttl = kRelativeTime then Some True else if is_expire then None else Some False, t') } } }"

definition expire_keys :: "mem_table \<Rightarrow> log_entry \<Rightarrow> (int \<times> bytes) list" where
  "expire_keys t e = foldl (\<lambda>m (idx, key). let inner_pos = GetInnerIndexPos (tb_index t) idx in
       if inner_pos \<ge> 0 then map_emplace (<) inner_pos key m else m) []
     (if le_dimensions e \<noteq> [] then le_dimensions e else [(0, le_pk e)])"

definition IsExpire :: "mem_table \<Rightarrow> 64 word \<Rightarrow> log_entry \<Rightarrow> (bool \<times> mem_table) option" where
  "IsExpire t cur_time e = (
     if \<not> enable_gc t then Some (False, t)
     else do {
       (r, t') \<leftarrow> first_result (\<lambda>(pos, key) t. case GetInnerIndex (tb_index t) (nat pos) of
           None \<Rightarrow> Some (None, t) | Some ii \<Rightarrow> first_result (expire_index cur_time e key) (ii_index ii) t)
         (expire_keys t e) t;
       Some (case r of Some v \<Rightarrow> v | None \<Rightarrow> True, t') })"

section \<open>Indexes\<close>

text \<open>The time columns of a new key; \<open>False\<close> when one is unknown or repeated.\<close>

definition add_ts_name :: "(bytes \<times> nat) list \<Rightarrow> bytes \<Rightarrow> nat list \<Rightarrow> (bool \<times> nat list) option" where
  "add_ts_name m name ts_vec = Some (case map_of m name of
     None \<Rightarrow> (False, ts_vec) | Some i \<Rightarrow> if i \<in> set ts_vec then (False, ts_vec) else (True, ts_vec @ [i]))"

text \<open>
  The setting of the first index on the time column; the new index is among those that are searched, and has none
  yet.
\<close>

fun ttl_of_ts :: "table_index \<Rightarrow> bytes \<Rightarrow> addr list \<Rightarrow> TTLSt option option" where
  "ttl_of_ts ti name [] = Some None"
| "ttl_of_ts ti name (a # as) = do {
     d \<leftarrow> idef ti a;
     if (case ix_ts_column d of Some c \<Rightarrow> cf_name c = name | None \<Rightarrow> False) then map_option Some (ix_ttl d)
     else ttl_of_ts ti name as }"

definition new_index_ttl :: "mem_table \<Rightarrow> column_key \<Rightarrow> addr \<Rightarrow> table_index \<Rightarrow> (bool \<times> table_index) option" where
  "new_index_ttl t key a ti = (case ck_ts_name key of
     [] \<Rightarrow> map_option (Pair True) (IndexDef_SetTTL (table_ttl (tb_meta t)) a ti)
   | name # _ \<Rightarrow> do {
       i \<leftarrow> map_of (tb_ts_mapping t) name;
       ti1 \<leftarrow> SetTsColumn (Some \<lparr>cf_name = name, cf_id = 0, cf_type = kTimestamp, cf_not_null = True, cf_ts_idx = int i\<rparr>) a ti;
       r \<leftarrow> ttl_of_ts ti1 name (GetAllIndex ti1);
       case r of None \<Rightarrow> Some (False, ti1) | Some ttl \<Rightarrow> map_option (Pair True) (IndexDef_SetTTL ttl a ti1) })"

definition add_new_index :: "flags \<Rightarrow> mem_table \<Rightarrow> column_key \<Rightarrow> nat list \<Rightarrow> (bool \<times> mem_table) option" where
  "add_new_index fl t key ts_vec = do {
     let inner_id = length (inner_indexs (tb_index t));
     max_id \<leftarrow> GetMaxIndexId (tb_index t);
     let (a, ti1) = make_index (tb_index t) (new_IndexDef (ck_index_name key) (nat (max_id + 1)) kReady kTimeSerise []);
     (ret, ti2) \<leftarrow> TableIndex_AddIndex a ti1;
     if ret < 0 then Some (False, t\<lparr>tb_index := ti2\<rparr>)
     else do {
       assert_that (inner_id < length (segments t));
       let t1 = t\<lparr>segments := (segments t)[inner_id := Some (new_segments fl (seg_cnt t) (absolute_default_skiplist_height fl) ts_vec)]\<rparr>;
       (ok, ti3) \<leftarrow> new_index_ttl t1 key a ti2;
       if \<not> ok then Some (False, t1\<lparr>tb_index := ti3\<rparr>)
       else do {
         ti4 \<leftarrow> SetInnerPos inner_id a ti3;
         ii \<leftarrow> new_InnerIndexSt ti4 inner_id [a];
         let ti5 = SetInnerIndexPos (AddInnerIndex ti4 ii) (length (tm_column_key (tb_meta t)) - 1) inner_id;
         ti6 \<leftarrow> SetStatus kReady a ti5;
         Some (True, t1\<lparr>tb_index := ti6\<rparr>) } } }"

definition MemTable_AddIndex :: "flags \<Rightarrow> mem_table \<Rightarrow> column_key \<Rightarrow> (bool \<times> mem_table) option" where
  "MemTable_AddIndex fl t key = do {
     r \<leftarrow> TableIndex_GetIndex_name (tb_index t) (ck_index_name key);
     case r of
       Some a \<Rightarrow> do {
         d \<leftarrow> idef (tb_index t) a;
         if ix_status d \<noteq> kDeleted then Some (False, t)
         else do {
           assert_that (ix_id d < length (tm_column_key (tb_meta t)));
           ti \<leftarrow> SetStatus kReady a (tb_index t);
           Some (True, t\<lparr>tb_meta := (tb_meta t)\<lparr>tm_column_key := (tm_column_key (tb_meta t))[ix_id d := key]\<rparr>, tb_index := ti\<rparr>) } }
     | None \<Rightarrow> do {
         let t1 = t\<lparr>tb_meta := (tb_meta t)\<lparr>tm_column_key := tm_column_key (tb_meta t) @ [key]\<rparr>\<rparr>;
         (go, ts_vec) \<leftarrow> each (add_ts_name (tb_ts_mapping t)) (ck_ts_name key) [];
         if \<not> go then Some (False, t1) else add_new_index fl t1 key ts_vec } }"

definition MemTable_DeleteIndex :: "mem_table \<Rightarrow> bytes \<Rightarrow> (bool \<times> mem_table) option" where
  "MemTable_DeleteIndex t name = do {
     r \<leftarrow> TableIndex_GetIndex_name (tb_index t) name;
     case r of None \<Rightarrow> Some (False, t)
     | Some a \<Rightarrow> do {
         d \<leftarrow> idef (tb_index t) a;
         if ix_id d = 0 \<or> \<not> IsReady d then Some (False, t)
         else do {
           let keys = tm_column_key (tb_meta t);
           let keys' = (if ix_id d < length keys then keys[ix_id d := (keys ! ix_id d)\<lparr>ck_flag := 1\<rparr>] else keys);
           ti \<leftarrow> SetStatus kWaiting a (tb_index t);
           Some (True, t\<lparr>tb_meta := (tb_meta t)\<lparr>tm_column_key := keys'\<rparr>, tb_index := ti\<rparr>) } } }"

end
