(* ===== verification/Mem_Table_Iter.thy ===== *)
theory Mem_Table_Iter
  imports Mem_Table
begin

text \<open>
  The iterators over all keys of an index: \<open>MemTableWindowIterator\<close>, \<open>MemTableKeyIterator\<close> and
  \<open>MemTableTraverseIterator\<close> of \<open>src/storage/mem_table.h\<close> and \<open>src/storage/mem_table.cc\<close>.

  An iterator over keys is on a node of the key list of the segment \<open>seg_idx_\<close> of one set of segments, or null; an
  iterator over times names the segment, the entry and the node that it is on.
\<close>

section \<open>Positions\<close>

type_synonym key_ticket = "(nat \<times> addr) list"

definition tk_Pop :: "nat \<Rightarrow> mem_table \<Rightarrow> key_ticket \<Rightarrow> (mem_table \<times> key_ticket) option" where
  "tk_Pop i t ticket = (
     if ticket = [] then Some (t, ticket)
     else do { t' \<leftarrow> unref (i, last ticket) t; Some (t', butlast ticket) })"

definition tk_Push :: "nat \<Rightarrow> nat \<Rightarrow> addr \<Rightarrow> mem_table \<Rightarrow> key_ticket \<Rightarrow> (mem_table \<times> key_ticket) option" where
  "tk_Push i j k t ticket = do {
     sg \<leftarrow> seg_at t i j;
     (sg', _) \<leftarrow> Ticket_Push sg [] (Some k);
     Some (set_seg i j sg' t, ticket @ [(j, k)]) }"

text \<open>The entry of the key under the iterator; \<open>pos\<close> counts only where a key has several.\<close>

definition entry_under :: "mem_table \<Rightarrow> nat \<Rightarrow> nat \<Rightarrow> addr option \<Rightarrow> nat \<Rightarrow> addr option" where
  "entry_under t i j node pos = do {
     sg \<leftarrow> seg_at t i j;
     v \<leftarrow> it_GetValue (entries sg) node;
     ks \<leftarrow> v;
     arr_get ks (if ts_cnt sg > 1 then pos else 0) }"

definition key_first :: "mem_table \<Rightarrow> nat \<Rightarrow> nat \<Rightarrow> addr option option" where
  "key_first t i j = do { sg \<leftarrow> seg_at t i j; it_SeekToFirst (entries sg) }"

definition key_next :: "mem_table \<Rightarrow> nat \<Rightarrow> nat \<Rightarrow> addr option \<Rightarrow> addr option option" where
  "key_next t i j node = do { sg \<leftarrow> seg_at t i j; it_Next (entries sg) node }"

type_synonym time_pos = "nat \<times> addr \<times> addr option"

definition time_entries_at :: "mem_table \<Rightarrow> nat \<Rightarrow> nat \<Rightarrow> addr \<Rightarrow> time_entries option" where
  "time_entries_at t i j k = do { sg \<leftarrow> seg_at t i j; ke \<leftarrow> kes sg k; Some (kentries ke) }"

definition time_first :: "mem_table \<Rightarrow> nat \<Rightarrow> nat \<Rightarrow> addr \<Rightarrow> time_pos option" where
  "time_first t i j k = do { es \<leftarrow> time_entries_at t i j k; n \<leftarrow> it_SeekToFirst es; Some (j, k, n) }"

definition time_seek :: "mem_table \<Rightarrow> nat \<Rightarrow> 64 word \<Rightarrow> time_pos \<Rightarrow> time_pos option" where
  "time_seek t i ts = (\<lambda>(j, k, _). do { es \<leftarrow> time_entries_at t i j k; n \<leftarrow> it_Seek es ts; Some (j, k, n) })"

definition time_next :: "mem_table \<Rightarrow> nat \<Rightarrow> time_pos \<Rightarrow> time_pos option" where
  "time_next t i = (\<lambda>(j, k, n). do { es \<leftarrow> time_entries_at t i j k; n' \<leftarrow> it_Next es n; Some (j, k, n') })"

definition time_valid :: "time_pos \<Rightarrow> bool" where
  "time_valid = (\<lambda>(_, _, n). it_Valid n)"

definition time_key :: "mem_table \<Rightarrow> nat \<Rightarrow> time_pos \<Rightarrow> 64 word option" where
  "time_key t i = (\<lambda>(j, k, n). do { es \<leftarrow> time_entries_at t i j k; it_GetKey es n })"

definition time_value :: "mem_table \<Rightarrow> nat \<Rightarrow> time_pos \<Rightarrow> bytes option" where
  "time_value t i = (\<lambda>(j, k, n). do {
     es \<leftarrow> time_entries_at t i j k; v \<leftarrow> it_GetValue es n; b \<leftarrow> v; d \<leftarrow> mt_blocks t b; Some (blk_data d) })"

text \<open>\<open>!it->Valid() || IsExpired(it->GetKey(), record_idx)\<close>.\<close>

definition time_done :: "mem_table \<Rightarrow> nat \<Rightarrow> TTLSt \<Rightarrow> 32 word \<Rightarrow> time_pos \<Rightarrow> bool option" where
  "time_done t i expire_value idx p = (
     if \<not> time_valid p then Some True else map_option (\<lambda>k. IsExpired expire_value k idx) (time_key t i p))"

section \<open>Rows of one key\<close>

record window_iterator =
  wi_real :: nat
  wi_it :: time_pos
  wi_record_idx :: "32 word"
  wi_expire_value :: TTLSt

definition wi_Valid :: "mem_table \<Rightarrow> window_iterator \<Rightarrow> bool option" where
  "wi_Valid t w = map_option Not (time_done t (wi_real w) (wi_expire_value w) (wi_record_idx w) (wi_it w))"

definition wi_Next :: "mem_table \<Rightarrow> window_iterator \<Rightarrow> window_iterator option" where
  "wi_Next t w = do { p \<leftarrow> time_next t (wi_real w) (wi_it w); Some (w\<lparr>wi_it := p, wi_record_idx := wi_record_idx w + 1\<rparr>) }"

definition wi_GetKey :: "mem_table \<Rightarrow> window_iterator \<Rightarrow> 64 word option" where
  "wi_GetKey t w = time_key t (wi_real w) (wi_it w)"

definition wi_GetValue :: "mem_table \<Rightarrow> window_iterator \<Rightarrow> bytes option" where
  "wi_GetValue t w = time_value t (wi_real w) (wi_it w)"

definition wi_Seek :: "mem_table \<Rightarrow> 64 word \<Rightarrow> window_iterator \<Rightarrow> window_iterator option" where
  "wi_Seek t ts w = do { p \<leftarrow> time_seek t (wi_real w) ts (wi_it w); Some (w\<lparr>wi_it := p\<rparr>) }"

definition wi_SeekToFirst :: "mem_table \<Rightarrow> window_iterator \<Rightarrow> window_iterator option" where
  "wi_SeekToFirst t w = (case wi_it w of (j, k, _) \<Rightarrow> do { p \<leftarrow> time_first t (wi_real w) j k; Some (w\<lparr>wi_it := p\<rparr>) })"

section \<open>Keys\<close>

record key_iterator =
  ki_real :: nat
  ki_seg_idx :: nat
  ki_pk_it :: "addr option option"
  ki_ticket :: key_ticket
  ki_ts_idx :: nat
  ki_expire_value :: TTLSt

definition new_KeyIterator :: "mem_table \<Rightarrow> nat \<Rightarrow> TTLSt \<Rightarrow> 32 word \<Rightarrow> key_iterator option" where
  "new_KeyIterator t real ttl ts_index = do {
     sg \<leftarrow> seg_at t real 0;
     Some \<lparr>ki_real = real, ki_seg_idx = 0, ki_pk_it = None, ki_ticket = [],
       ki_ts_idx = (case GetTsIdx sg ts_index of Some i \<Rightarrow> i | None \<Rightarrow> 0), ki_expire_value = ttl\<rparr> }"

definition ki_pop :: "mem_table \<Rightarrow> key_iterator \<Rightarrow> (mem_table \<times> key_iterator) option" where
  "ki_pop t ki = do { (t', ticket) \<leftarrow> tk_Pop (ki_real ki) t (ki_ticket ki); Some (t', ki\<lparr>ki_ticket := ticket\<rparr>) }"

definition ki_first_at :: "mem_table \<Rightarrow> nat \<Rightarrow> key_iterator \<Rightarrow> (bool \<times> key_iterator) option" where
  "ki_first_at t j ki = do {
     p \<leftarrow> key_first t (ki_real ki) j;
     Some (if it_Valid p then (False, ki\<lparr>ki_seg_idx := j, ki_pk_it := Some p\<rparr>)
           else (True, ki\<lparr>ki_seg_idx := Suc j, ki_pk_it := None\<rparr>)) }"

definition ki_SeekToFirst :: "mem_table \<Rightarrow> key_iterator \<Rightarrow> (mem_table \<times> key_iterator) option" where
  "ki_SeekToFirst t ki = do {
     (t', ki1) \<leftarrow> ki_pop t ki;
     (_, ki2) \<leftarrow> each (ki_first_at t') [0..<seg_cnt t'] (ki1\<lparr>ki_pk_it := None, ki_seg_idx := 0\<rparr>);
     Some (t', ki2) }"

definition ki_NextPK_step :: "mem_table \<Rightarrow> key_iterator \<Rightarrow> (bool \<times> mem_table \<times> key_iterator) option" where
  "ki_NextPK_step t0 ki0 = do {
     (t, ki) \<leftarrow> ki_pop t0 ki0;
     node \<leftarrow> ki_pk_it ki;
     node' \<leftarrow> (if it_Valid node then key_next t (ki_real ki) (ki_seg_idx ki) node else Some node);
     if it_Valid node' then Some (False, t, ki\<lparr>ki_pk_it := Some node'\<rparr>)
     else let j = Suc (ki_seg_idx ki) in
       if j < seg_cnt t then do {
         p \<leftarrow> key_first t (ki_real ki) j;
         Some (\<not> it_Valid p, t, ki\<lparr>ki_pk_it := Some p, ki_seg_idx := j\<rparr>) }
       else Some (False, t, ki\<lparr>ki_pk_it := None, ki_seg_idx := j\<rparr>) }"

partial_function (option) ki_NextPK :: "mem_table \<Rightarrow> key_iterator \<Rightarrow> (mem_table \<times> key_iterator) option" where
  "ki_NextPK t ki = Option.bind (ki_NextPK_step t ki) (\<lambda>(again, t', ki').
     if again then ki_NextPK t' ki' else Some (t', ki'))"

definition ki_Seek :: "mem_table \<Rightarrow> bytes \<Rightarrow> key_iterator \<Rightarrow> (mem_table \<times> key_iterator) option" where
  "ki_Seek t key ki0 = do {
     (t', ki) \<leftarrow> ki_pop t ki0;
     let j = (if seg_cnt t' > 1 then seg_idx_of t' key else ki_seg_idx ki);
     sg \<leftarrow> seg_at t' (ki_real ki) j;
     node \<leftarrow> it_Seek (entries sg) key;
     let ki' = ki\<lparr>ki_pk_it := Some node, ki_seg_idx := j\<rparr>;
     if it_Valid node then Some (t', ki') else ki_NextPK t' ki' }"

definition ki_Valid :: "key_iterator \<Rightarrow> bool" where
  "ki_Valid ki = (case ki_pk_it ki of None \<Rightarrow> False | Some node \<Rightarrow> it_Valid node)"

definition ki_GetKey :: "mem_table \<Rightarrow> key_iterator \<Rightarrow> bytes option" where
  "ki_GetKey t ki = do { node \<leftarrow> ki_pk_it ki; sg \<leftarrow> seg_at t (ki_real ki) (ki_seg_idx ki); it_GetKey (entries sg) node }"

text \<open>The rows of the key, held by the ticket of the iterator.\<close>

definition ki_GetValue :: "mem_table \<Rightarrow> key_iterator \<Rightarrow> (window_iterator \<times> mem_table \<times> key_iterator) option" where
  "ki_GetValue t ki = do {
     node \<leftarrow> ki_pk_it ki;
     k \<leftarrow> entry_under t (ki_real ki) (ki_seg_idx ki) node (ki_ts_idx ki);
     (t', ticket) \<leftarrow> tk_Push (ki_real ki) (ki_seg_idx ki) k t (ki_ticket ki);
     p \<leftarrow> time_first t' (ki_real ki) (ki_seg_idx ki) k;
     Some (\<lparr>wi_real = ki_real ki, wi_it = p, wi_record_idx = 0, wi_expire_value = ki_expire_value ki\<rparr>, t', ki\<lparr>ki_ticket := ticket\<rparr>) }"

section \<open>Traversal\<close>

record trav_iterator =
  tr_real :: nat
  tr_seg_idx :: nat
  tr_pk_it :: "addr option option"
  tr_it :: "time_pos option"
  tr_record_idx :: "32 word"
  tr_ts_idx :: nat
  tr_expire_value :: TTLSt
  tr_ticket :: key_ticket
  tr_traverse_cnt :: "64 word"

definition new_TraverseIterator :: "mem_table \<Rightarrow> nat \<Rightarrow> TTLSt \<Rightarrow> 32 word \<Rightarrow> trav_iterator option" where
  "new_TraverseIterator t real ttl ts_index = do {
     sg \<leftarrow> seg_at t real 0;
     Some \<lparr>tr_real = real, tr_seg_idx = 0, tr_pk_it = None, tr_it = None, tr_record_idx = 0,
       tr_ts_idx = (case GetTsIdx sg ts_index of Some i \<Rightarrow> i | None \<Rightarrow> 0), tr_expire_value = ttl, tr_ticket = [], tr_traverse_cnt = 0\<rparr> }"

definition tr_done :: "mem_table \<Rightarrow> trav_iterator \<Rightarrow> bool option" where
  "tr_done t tr = (case tr_it tr of None \<Rightarrow> Some True
     | Some p \<Rightarrow> time_done t (tr_real tr) (tr_expire_value tr) (tr_record_idx tr) p)"

definition tr_Valid :: "mem_table \<Rightarrow> trav_iterator \<Rightarrow> bool option" where
  "tr_Valid t tr = (case tr_pk_it tr of None \<Rightarrow> Some False
     | Some node \<Rightarrow> if it_Valid node then map_option Not (tr_done t tr) else Some False)"

definition tr_pop :: "mem_table \<Rightarrow> trav_iterator \<Rightarrow> (mem_table \<times> trav_iterator) option" where
  "tr_pop t tr = do { (t', ticket) \<leftarrow> tk_Pop (tr_real tr) t (tr_ticket tr); Some (t', tr\<lparr>tr_ticket := ticket\<rparr>) }"

text \<open>The iterator over the times of the key under the key iterator, at its first row.\<close>

definition tr_open :: "nat \<Rightarrow> mem_table \<Rightarrow> trav_iterator \<Rightarrow> (mem_table \<times> trav_iterator) option" where
  "tr_open pos t tr = do {
     node \<leftarrow> tr_pk_it tr;
     k \<leftarrow> entry_under t (tr_real tr) (tr_seg_idx tr) node pos;
     (t', ticket) \<leftarrow> tk_Push (tr_real tr) (tr_seg_idx tr) k t (tr_ticket tr);
     p \<leftarrow> time_first t' (tr_real tr) (tr_seg_idx tr) k;
     Some (t', tr\<lparr>tr_it := Some p, tr_ticket := ticket, tr_traverse_cnt := tr_traverse_cnt tr + 1\<rparr>) }"

text \<open>One round of the loop; the key after a key is opened at its first time column.\<close>

definition tr_enter :: "64 word \<Rightarrow> mem_table \<Rightarrow> trav_iterator \<Rightarrow> (bool \<times> mem_table \<times> trav_iterator) option" where
  "tr_enter max_cnt t tr = do {
     (t', tr1) \<leftarrow> tr_open 0 t tr;
     let tr2 = tr1\<lparr>tr_record_idx := 1\<rparr>;
     if tr_traverse_cnt tr2 \<ge> max_cnt then Some (False, t', tr2)
     else do { d \<leftarrow> tr_done t' tr2; Some (d, t', tr2) } }"

definition tr_NextPK_step :: "64 word \<Rightarrow> mem_table \<Rightarrow> trav_iterator \<Rightarrow> (bool \<times> mem_table \<times> trav_iterator) option" where
  "tr_NextPK_step max_cnt t0 tr0 = do {
     (t, tr) \<leftarrow> tr_pop t0 tr0;
     node \<leftarrow> tr_pk_it tr;
     node' \<leftarrow> (if it_Valid node then key_next t (tr_real tr) (tr_seg_idx tr) node else Some node);
     if it_Valid node' then tr_enter max_cnt t (tr\<lparr>tr_pk_it := Some node'\<rparr>)
     else let j = Suc (tr_seg_idx tr) in
       if j < seg_cnt t then do {
         p \<leftarrow> key_first t (tr_real tr) j;
         let tr1 = tr\<lparr>tr_pk_it := Some p, tr_seg_idx := j\<rparr>;
         if it_Valid p then tr_enter max_cnt t tr1 else do { d \<leftarrow> tr_done t tr1; Some (d, t, tr1) } }
       else Some (False, t, tr\<lparr>tr_pk_it := None, tr_seg_idx := j\<rparr>) }"

partial_function (option) tr_NextPK_loop :: "64 word \<Rightarrow> mem_table \<Rightarrow> trav_iterator \<Rightarrow> (mem_table \<times> trav_iterator) option" where
  "tr_NextPK_loop max_cnt t tr = Option.bind (tr_NextPK_step max_cnt t tr) (\<lambda>(again, t', tr').
     if again then tr_NextPK_loop max_cnt t' tr' else Some (t', tr'))"

definition tr_NextPK :: "64 word \<Rightarrow> mem_table \<Rightarrow> trav_iterator \<Rightarrow> (mem_table \<times> trav_iterator) option" where
  "tr_NextPK max_cnt t tr = tr_NextPK_loop max_cnt t (tr\<lparr>tr_it := None\<rparr>)"

definition tr_Next :: "64 word \<Rightarrow> mem_table \<Rightarrow> trav_iterator \<Rightarrow> (mem_table \<times> trav_iterator) option" where
  "tr_Next max_cnt t tr = do {
     p \<leftarrow> tr_it tr;
     p' \<leftarrow> time_next t (tr_real tr) p;
     let tr' = tr\<lparr>tr_it := Some p', tr_record_idx := tr_record_idx tr + 1, tr_traverse_cnt := tr_traverse_cnt tr + 1\<rparr>;
     d \<leftarrow> tr_done t tr';
     if d then tr_NextPK max_cnt t tr' else Some (t, tr') }"

text \<open>
  The keys of one segment until one with a row that has not expired, or until the limit; the first flag says that the
  function has returned.  The number of the row is still that of the iterator before the call.
\<close>

partial_function (option) tr_first_key :: "64 word \<Rightarrow> mem_table \<Rightarrow> trav_iterator \<Rightarrow> (bool \<times> mem_table \<times> trav_iterator) option" where
  "tr_first_key max_cnt t tr = Option.bind (tr_pk_it tr) (\<lambda>node.
     if \<not> it_Valid node then Some (True, t, tr\<lparr>tr_pk_it := None\<rparr>)
     else Option.bind (tr_open (tr_ts_idx tr) t tr) (\<lambda>(t1, tr1).
       Option.bind (tr_done t1 tr1) (\<lambda>d.
         if \<not> d then Some (False, t1, tr1\<lparr>tr_record_idx := 1\<rparr>)
         else Option.bind (key_next t1 (tr_real tr1) (tr_seg_idx tr1) node) (\<lambda>node'.
           Option.bind (tr_pop t1 (tr1\<lparr>tr_it := None, tr_pk_it := Some node'\<rparr>)) (\<lambda>(t2, tr2).
             if tr_traverse_cnt tr2 \<ge> max_cnt then Some (False, t2, tr2) else tr_first_key max_cnt t2 tr2)))))"

definition tr_first_at :: "64 word \<Rightarrow> nat \<Rightarrow> mem_table \<times> trav_iterator \<Rightarrow> (bool \<times> mem_table \<times> trav_iterator) option" where
  "tr_first_at max_cnt j = (\<lambda>(t, tr). do {
     p \<leftarrow> key_first t (tr_real tr) j;
     (go, t', tr') \<leftarrow> tr_first_key max_cnt t (tr\<lparr>tr_seg_idx := j, tr_pk_it := Some p\<rparr>);
     Some (go, t', if go then tr'\<lparr>tr_seg_idx := Suc j\<rparr> else tr') })"

definition tr_SeekToFirst :: "64 word \<Rightarrow> mem_table \<Rightarrow> trav_iterator \<Rightarrow> (mem_table \<times> trav_iterator) option" where
  "tr_SeekToFirst max_cnt t tr = do {
     (t1, tr1) \<leftarrow> tr_pop t tr;
     (_, t2, tr2) \<leftarrow> each (tr_first_at max_cnt) [0..<seg_cnt t1] (t1, tr1\<lparr>tr_pk_it := None, tr_it := None, tr_seg_idx := 0\<rparr>);
     Some (t2, tr2) }"

text \<open>For the newest rows: the loop to the first row older than \<open>ts\<close>; the flag says that it was found.\<close>

partial_function (option) tr_seek_latest :: "mem_table \<Rightarrow> 64 word \<Rightarrow> trav_iterator \<Rightarrow> (bool \<times> trav_iterator) option" where
  "tr_seek_latest t ts tr = Option.bind (tr_it tr) (\<lambda>p.
     if time_valid p \<and> ucast (tr_record_idx tr) \<le> lat_ttl (tr_expire_value tr) then
       Option.bind (time_key t (tr_real tr) p) (\<lambda>k.
         if k < ts then Some (True, tr\<lparr>tr_traverse_cnt := tr_traverse_cnt tr + 1\<rparr>)
         else Option.bind (time_next t (tr_real tr) p) (\<lambda>p'.
           tr_seek_latest t ts (tr\<lparr>tr_traverse_cnt := tr_traverse_cnt tr + 1, tr_it := Some p', tr_record_idx := tr_record_idx tr + 1\<rparr>)))
     else Some (False, tr))"

definition tr_seek_in_key :: "64 word \<Rightarrow> 64 word \<Rightarrow> mem_table \<Rightarrow> trav_iterator \<Rightarrow> (mem_table \<times> trav_iterator) option" where
  "tr_seek_in_key max_cnt ts t tr = (
     if ttl_type (tr_expire_value tr) = kLatestTime then do {
       (j, k, _) \<leftarrow> tr_it tr;
       p \<leftarrow> time_first t (tr_real tr) j k;
       (found, tr') \<leftarrow> tr_seek_latest t ts (tr\<lparr>tr_it := Some p, tr_record_idx := 1\<rparr>);
       if found then Some (t, tr') else tr_NextPK max_cnt t tr' }
     else do {
       p0 \<leftarrow> tr_it tr;
       p1 \<leftarrow> time_seek t (tr_real tr) ts p0;
       same \<leftarrow> (if time_valid p1 then map_option (\<lambda>k. k = ts) (time_key t (tr_real tr) p1) else Some False);
       p2 \<leftarrow> (if same then time_next t (tr_real tr) p1 else Some p1);
       let tr' = tr\<lparr>tr_it := Some p2, tr_traverse_cnt := tr_traverse_cnt tr + 1\<rparr>;
       d \<leftarrow> tr_done t tr';
       if d then tr_NextPK max_cnt t tr' else Some (t, tr') })"

definition tr_Seek :: "64 word \<Rightarrow> bytes \<Rightarrow> 64 word \<Rightarrow> mem_table \<Rightarrow> trav_iterator \<Rightarrow> (mem_table \<times> trav_iterator) option" where
  "tr_Seek max_cnt key ts t tr0 = do {
     (t1, tr1) \<leftarrow> tr_pop t (tr0\<lparr>tr_pk_it := None, tr_it := None\<rparr>);
     let j = (if seg_cnt t1 > 1 then seg_idx_of t1 key else tr_seg_idx tr1);
     sg \<leftarrow> seg_at t1 (tr_real tr1) j;
     node \<leftarrow> it_Seek (entries sg) key;
     let tr2 = tr1\<lparr>tr_pk_it := Some node, tr_seg_idx := j\<rparr>;
     if \<not> it_Valid node then tr_NextPK max_cnt t1 tr2
     else do {
       k \<leftarrow> entry_under t1 (tr_real tr2) j node (tr_ts_idx tr2);
       (t2, ticket) \<leftarrow> tk_Push (tr_real tr2) j k t1 (tr_ticket tr2);
       let tr3 = tr2\<lparr>tr_ticket := ticket, tr_it := Some (j, k, None)\<rparr>;
       found \<leftarrow> it_GetKey (entries sg) node;
       if found \<noteq> key then do {
         p \<leftarrow> time_first t2 (tr_real tr3) j k;
         let tr4 = tr3\<lparr>tr_it := Some p, tr_traverse_cnt := tr_traverse_cnt tr3 + 1, tr_record_idx := 1\<rparr>;
         d \<leftarrow> tr_done t2 tr4;
         if d then tr_NextPK max_cnt t2 tr4 else Some (t2, tr4) }
       else tr_seek_in_key max_cnt ts t2 tr3 } }"

definition tr_GetKey :: "mem_table \<Rightarrow> trav_iterator \<Rightarrow> 64 word option" where
  "tr_GetKey t tr = (case tr_it tr of None \<Rightarrow> Some (-1)
     | Some p \<Rightarrow> if time_valid p then time_key t (tr_real tr) p else Some (-1))"

definition tr_GetValue :: "mem_table \<Rightarrow> trav_iterator \<Rightarrow> bytes option" where
  "tr_GetValue t tr = do { p \<leftarrow> tr_it tr; time_value t (tr_real tr) p }"

definition tr_GetPK :: "mem_table \<Rightarrow> trav_iterator \<Rightarrow> bytes option" where
  "tr_GetPK t tr = (case tr_pk_it tr of None \<Rightarrow> Some []
     | Some node \<Rightarrow> do { sg \<leftarrow> seg_at t (tr_real tr) (tr_seg_idx tr); it_GetKey (entries sg) node })"

section \<open>Making iterators\<close>

text \<open>The setting of an index with the time at which its rows expire.\<close>

definition expire_value_of :: "mem_table \<Rightarrow> 64 word \<Rightarrow> IndexDef \<Rightarrow> TTLSt option" where
  "expire_value_of t cur_time d = do {
     ttl \<leftarrow> ix_ttl d;
     Some (if enable_gc t then ttl\<lparr>abs_ttl := GetExpireTime t cur_time ttl\<rparr> else ttl\<lparr>abs_ttl := 0, lat_ttl := 0\<rparr>) }"

definition NewTraverseIterator_ts :: "mem_table \<Rightarrow> 64 word \<Rightarrow> nat \<Rightarrow> int \<Rightarrow> trav_iterator option option" where
  "NewTraverseIterator_ts t cur_time index tsi = do {
     a \<leftarrow> TableIndex_GetIndex_ts (tb_index t) index tsi;
     r \<leftarrow> ready_index t a;
     case r of None \<Rightarrow> Some None
     | Some d \<Rightarrow> do {
         ttl \<leftarrow> expire_value_of t cur_time d;
         map_option Some (new_TraverseIterator t (ix_inner_pos d) ttl (word_of_int tsi)) } }"

definition NewTraverseIterator :: "mem_table \<Rightarrow> 64 word \<Rightarrow> nat \<Rightarrow> trav_iterator option option" where
  "NewTraverseIterator t cur_time index = do {
     r \<leftarrow> ready_index t (TableIndex_GetIndex (tb_index t) index);
     case r of None \<Rightarrow> Some None
     | Some d \<Rightarrow> (case ts_of d of
           Some tsi \<Rightarrow> NewTraverseIterator_ts t cur_time index tsi
         | None \<Rightarrow> do {
             ttl \<leftarrow> expire_value_of t cur_time d;
             map_option Some (new_TraverseIterator t (ix_inner_pos d) ttl 0) }) }"

definition NewWindowIterator_ts :: "mem_table \<Rightarrow> 64 word \<Rightarrow> nat \<Rightarrow> int \<Rightarrow> key_iterator option option" where
  "NewWindowIterator_ts t cur_time index tsi = do {
     a \<leftarrow> TableIndex_GetIndex_ts (tb_index t) index tsi;
     r \<leftarrow> ready_index t a;
     case r of None \<Rightarrow> Some None
     | Some d \<Rightarrow> do {
         ttl \<leftarrow> expire_value_of t cur_time d;
         map_option Some (new_KeyIterator t (ix_inner_pos d) ttl (word_of_int tsi)) } }"

text \<open>An index that is missing is followed as a null pointer, and one that is not ready is used.\<close>

definition NewWindowIterator :: "mem_table \<Rightarrow> 64 word \<Rightarrow> nat \<Rightarrow> key_iterator option option" where
  "NewWindowIterator t cur_time index = do {
     a \<leftarrow> TableIndex_GetIndex (tb_index t) index;
     d \<leftarrow> idef (tb_index t) a;
     case (if IsReady d then ts_of d else None) of
       Some tsi \<Rightarrow> NewWindowIterator_ts t cur_time index tsi
     | None \<Rightarrow> do {
         ttl \<leftarrow> expire_value_of t cur_time d;
         map_option Some (new_KeyIterator t (ix_inner_pos d) ttl 0) } }"

end
