(* ===== verification/Mem_Table_Rep.thy ===== *)
theory Mem_Table_Rep
  imports Segment_Props Mem_Table_Iter
begin

text \<open>
  The invariant of a table in memory.  Its segments share the heap of blocks: every block is stored exactly as long as
  a segment refers to it, and its count is the number of references from all segments together.
\<close>

section \<open>Parts that share a heap of blocks\<close>

text \<open>
  Every part is fine with any heap in which the blocks have its own references besides those from outside; the counts
  of the heap are the references of all parts and those of the caller.
\<close>

definition parts_ok ::
    "('s \<Rightarrow> blocks \<Rightarrow> (addr \<Rightarrow> nat) \<Rightarrow> 'v \<Rightarrow> bool) \<Rightarrow> ('p \<Rightarrow> 's option) \<Rightarrow> blocks \<Rightarrow> (addr \<Rightarrow> nat) \<Rightarrow> ('p \<Rightarrow> 'v) \<Rightarrow> bool" where
  "parts_ok ok S bs out W \<longleftrightarrow> finite (dom S) \<and> (\<exists>n. blocks_ok (\<lambda>b. \<Sum>p\<in>dom S. n p b) out bs \<and>
     (\<forall>p s. S p = Some s \<longrightarrow> (\<forall>bs' ext. blocks_ok (n p) ext bs' \<longrightarrow> ok s bs' ext (W p))))"

locale sharing_part =
  fixes part_ok :: "'s \<Rightarrow> blocks \<Rightarrow> (addr \<Rightarrow> nat) \<Rightarrow> 'v \<Rightarrow> bool"
  assumes own_refs: "part_ok s bs ext v \<Longrightarrow>
    \<exists>n. blocks_ok n ext bs \<and> (\<forall>bs' ext'. blocks_ok n ext' bs' \<longrightarrow> part_ok s bs' ext' v)"
begin

text \<open>An operation on one part keeps the others.\<close>

lemma focus:
  assumes ok: "parts_ok part_ok S bs out W" and p: "S p = Some s"
  shows "\<exists>e. part_ok s bs (\<lambda>b. out b + e b) (W p) \<and>
    (\<forall>s' bs' out' v'. part_ok s' bs' (\<lambda>b. out' b + e b) v' \<longrightarrow> parts_ok part_ok (S(p \<mapsto> s')) bs' out' (W(p := v')))"
proof -
  obtain n where fin: "finite (dom S)" and n: "blocks_ok (\<lambda>b. \<Sum>p\<in>dom S. n p b) out bs"
      "\<And>q s. S q = Some s \<Longrightarrow> \<forall>bs' ext. blocks_ok (n q) ext bs' \<longrightarrow> part_ok s bs' ext (W q)"
    using ok unfolding parts_ok_def by blast
  define e where "e b = (\<Sum>q\<in>dom S - {p}. n q b)" for b
  have sum: "(\<Sum>q\<in>dom S. n q b) = n p b + e b" for b
    unfolding e_def using fin p by (intro sum.remove) auto
  have "part_ok s bs (\<lambda>b. out b + e b) (W p)"
    using n(2)[OF p] blocks_ok_shift[OF n(1), of "n p" "\<lambda>b. out b + e b"] sum by simp
  moreover have "parts_ok part_ok (S(p \<mapsto> s')) bs' out' (W(p := v'))" if h: "part_ok s' bs' (\<lambda>b. out' b + e b) v'" for s' bs' out' v'
  proof -
    obtain m where m: "blocks_ok m (\<lambda>b. out' b + e b) bs'" "\<forall>bs'' ext'. blocks_ok m ext' bs'' \<longrightarrow> part_ok s' bs'' ext' v'"
      using own_refs[OF h] by blast
    have "dom (S(p \<mapsto> s')) = dom S" using p by auto
    moreover have "(\<Sum>q\<in>dom S. (n(p := m)) q b) = m b + e b" for b
    proof -
      have "(\<Sum>q\<in>dom S. (n(p := m)) q b) = (n(p := m)) p b + (\<Sum>q\<in>dom S - {p}. (n(p := m)) q b)"
        using fin p by (intro sum.remove) auto
      also have "(\<Sum>q\<in>dom S - {p}. (n(p := m)) q b) = e b" unfolding e_def by (rule sum.cong) auto
      finally show ?thesis by simp
    qed
    then have "blocks_ok (\<lambda>b. \<Sum>q\<in>dom S. (n(p := m)) q b) out' bs'"
      by (intro blocks_ok_shift[OF m(1)]) simp
    ultimately show ?thesis
      unfolding parts_ok_def using fin n(2) m(2) by (intro conjI exI[of _ "n(p := m)"]) (auto split: if_splits)
  qed
  ultimately show ?thesis by blast
qed

text \<open>Blocks that nothing in the table refers to may be added for the caller.\<close>

lemma new_block:
  assumes "parts_ok part_ok S bs out W" "bs b = None" "unat (dim_cnt_down d) = c" "0 < c"
  shows "parts_ok part_ok S (bs(b \<mapsto> d)) (out(b := c)) W"
proof -
  obtain n where fin: "finite (dom S)" and n: "blocks_ok (\<lambda>b. \<Sum>p\<in>dom S. n p b) out bs"
      "\<And>q s. S q = Some s \<Longrightarrow> \<forall>bs' ext. blocks_ok (n q) ext bs' \<longrightarrow> part_ok s bs' ext (W q)"
    using assms(1) unfolding parts_ok_def by blast
  have z: "(\<Sum>p\<in>dom S. n p b) = 0" using n(1)[unfolded blocks_ok_def, rule_format, of b] assms(2) by simp
  have "blocks_ok (\<lambda>b. \<Sum>p\<in>dom S. n p b) (out(b := c)) (bs(b \<mapsto> d))"
    unfolding blocks_ok_def
  proof (intro allI)
    fix x
    show "case (bs(b \<mapsto> d)) x of None \<Rightarrow> (\<Sum>p\<in>dom S. n p x) = 0 \<and> (out(b := c)) x = 0
      | Some d' \<Rightarrow> unat (dim_cnt_down d') = (\<Sum>p\<in>dom S. n p x) + (out(b := c)) x \<and> 0 < (\<Sum>p\<in>dom S. n p x) + (out(b := c)) x"
      using z n(1)[unfolded blocks_ok_def, rule_format, of x] assms(3,4) by (cases "x = b"; cases "bs x") simp_all
  qed
  then show ?thesis unfolding parts_ok_def using fin n(2) by blast
qed

end

section \<open>Segments as parts\<close>

type_synonym view = "bytes \<Rightarrow> (64 word \<times> addr) list list option"

type_synonym removed = "(64 word \<times> (64 word \<times> addr) list list) list"

definition seg_part :: "segment \<Rightarrow> blocks \<Rightarrow> (addr \<Rightarrow> nat) \<Rightarrow> view \<times> removed \<Rightarrow> bool" where
  "seg_part sg bs ext = (\<lambda>(V, D). seg_ok sg bs ext V D)"

interpretation seg: sharing_part seg_part
proof
  fix sg bs ext v
  assume "seg_part sg bs ext v"
  then obtain V D where v: "v = (V, D)" and ok: "seg_ok sg bs ext V D" by (cases v) (simp add: seg_part_def)
  then obtain as vs T where st: "seg_st sg bs ext as vs T" "seg_view sg as T = V" "removed_view sg vs T = D"
    by (auto simp: seg_ok_def)
  let ?n = "refs_of T (owned sg (as @ map snd vs))"
  have "blocks_ok ?n ext bs" using st(1) by (simp add: seg_st_def)
  moreover have "seg_part sg bs' ext' v" if "blocks_ok ?n ext' bs'" for bs' ext'
  proof -
    have "seg_st sg bs' ext' as vs T" using st(1) that by (simp add: seg_st_def)
    then show ?thesis using ok st(2,3) v unfolding seg_part_def seg_ok_def by blast
  qed
  ultimately show "\<exists>n. blocks_ok n ext bs \<and> (\<forall>bs' ext'. blocks_ok n ext' bs' \<longrightarrow> seg_part sg bs' ext' v)" by blast
qed

section \<open>Tables\<close>

definition segs :: "mem_table \<Rightarrow> nat \<times> nat \<Rightarrow> segment option" where
  "segs t = (\<lambda>(i, j). seg_at t i j)"

text \<open>
  \<open>out\<close> are the references of the caller.  A key is only in the segment of its hash.  Between operations the caller
  has no reference, and the number of records is the number of stored blocks.
\<close>

definition heap_ok :: "mem_table \<Rightarrow> (addr \<Rightarrow> nat) \<Rightarrow> (nat \<times> nat \<Rightarrow> view \<times> removed) \<Rightarrow> bool" where
  "heap_ok t out W \<longleftrightarrow> parts_ok seg_part (segs t) (mt_blocks t) out W \<and>
     1 \<le> seg_cnt t \<and> (\<forall>arr. Some arr \<in> set (segments t) \<longrightarrow> length arr = seg_cnt t) \<and>
     finite (dom (mt_blocks t)) \<and> (\<forall>b\<in>dom (mt_blocks t). b < next_block t) \<and>
     (\<forall>i j key. seg_at t i j \<noteq> None \<and> fst (W (i, j)) key \<noteq> None \<longrightarrow> j = seg_idx_of t key)"

definition table_ok :: "mem_table \<Rightarrow> (nat \<times> nat \<Rightarrow> view \<times> removed) \<Rightarrow> bool" where
  "table_ok t W \<longleftrightarrow> heap_ok t (\<lambda>_. 0) W \<and> record_cnt t = of_nat (card (dom (mt_blocks t)))"

text \<open>The rows of a key in a set of segments, newest first.\<close>

definition table_rows :: "mem_table \<Rightarrow> (nat \<times> nat \<Rightarrow> view \<times> removed) \<Rightarrow> nat \<Rightarrow> bytes \<Rightarrow> (64 word \<times> addr) list" where
  "table_rows t W i key = times (fst (W (i, seg_idx_of t key))) key"

lemma seg_at_Some: "seg_at t i j = Some sg \<longleftrightarrow> i < length (segments t) \<and> (\<exists>arr. segments t ! i = Some arr \<and> j < length arr \<and> arr ! j = sg)"
  by (auto simp: seg_at_def assert_that_def bind_eq_Some_conv split: if_splits)

lemma seg_at_set:
  assumes "seg_at t i j = Some sg"
  shows "seg_at (set_seg i j sg' t) i' j' = (if (i', j') = (i, j) then Some sg' else seg_at t i' j')"
proof -
  obtain arr where a: "i < length (segments t)" "segments t ! i = Some arr" "j < length arr"
    using assms by (auto simp: seg_at_Some)
  have "segments (set_seg i j sg' t) = (segments t)[i := Some (arr[j := sg'])]" by (simp add: set_seg_def a)
  then show ?thesis using a by (cases "i' = i") (auto simp: seg_at_def assert_that_def nth_list_update)
qed

lemma segs_set: "segs t (i, j) = Some sg \<Longrightarrow> segs (set_seg i j sg' t) = (segs t)((i, j) \<mapsto> sg')"
  by (auto simp: segs_def seg_at_set fun_eq_iff)

lemma arrays_set:
  assumes "\<forall>arr. Some arr \<in> set (segments t) \<longrightarrow> length arr = n" "seg_at t i j = Some sg"
  shows "\<forall>arr. Some arr \<in> set (segments (set_seg i j sg' t)) \<longrightarrow> length arr = n"
proof (intro allI impI)
  fix arr
  assume h: "Some arr \<in> set (segments (set_seg i j sg' t))"
  obtain arr0 where a: "i < length (segments t)" "segments t ! i = Some arr0" using assms(2) by (auto simp: seg_at_Some)
  then have "length arr0 = n" using assms(1) nth_mem by metis
  then show "length arr = n"
    using h a assms(1) set_update_subset_insert[of "segments t" i "Some (arr0[j := sg'])"] by (auto simp: set_seg_def)
qed

lemma set_seg_simps [simp]:
  "mt_blocks (set_seg i j sg t) = mt_blocks t" "next_block (set_seg i j sg t) = next_block t"
  "seg_cnt (set_seg i j sg t) = seg_cnt t" "tb_index (set_seg i j sg t) = tb_index t"
  "record_cnt (set_seg i j sg t) = record_cnt t" "seg_idx_of (set_seg i j sg t) key = seg_idx_of t key"
  "enable_gc (set_seg i j sg t) = enable_gc t" "tb_update_ttl (set_seg i j sg t) = tb_update_ttl t"
  by (simp_all add: set_seg_def seg_idx_of_def)

lemma seg_idx_cong: "seg_cnt t' = seg_cnt t \<Longrightarrow> seg_idx_of t' = seg_idx_of t"
  by (intro ext) (simp add: seg_idx_of_def cong: if_cong)

lemma seg_idx_blocks [simp]:
  "seg_idx_of (t\<lparr>mt_blocks := bs\<rparr>) key = seg_idx_of t key" "seg_idx_of (t\<lparr>mt_blocks := bs, next_block := b\<rparr>) key = seg_idx_of t key"
  "segs (t\<lparr>mt_blocks := bs\<rparr>) = segs t" "segs (t\<lparr>mt_blocks := bs, next_block := b\<rparr>) = segs t"
  "seg_at (t\<lparr>mt_blocks := bs\<rparr>) i j = seg_at t i j" "seg_at (t\<lparr>mt_blocks := bs, next_block := b\<rparr>) i j = seg_at t i j"
  by (simp_all add: seg_idx_of_def segs_def seg_at_def)

lemma heap_okD:
  assumes "heap_ok t out W"
  shows "parts_ok seg_part (segs t) (mt_blocks t) out W" "1 \<le> seg_cnt t"
    "\<forall>arr. Some arr \<in> set (segments t) \<longrightarrow> length arr = seg_cnt t" "finite (dom (mt_blocks t))"
    "\<forall>b\<in>dom (mt_blocks t). b < next_block t"
    "\<And>i j key. seg_at t i j \<noteq> None \<Longrightarrow> fst (W (i, j)) key \<noteq> None \<Longrightarrow> j = seg_idx_of t key"
  using assms unfolding heap_ok_def by blast+

text \<open>
  An operation on one segment that deletes blocks or hands references over: \<open>e\<close> are the references of the other
  segments.
\<close>

definition refocus :: "mem_table \<Rightarrow> nat \<Rightarrow> nat \<Rightarrow> (nat \<times> nat \<Rightarrow> view \<times> removed) \<Rightarrow> (addr \<Rightarrow> nat) \<Rightarrow> bool" where
  "refocus t i j W e \<longleftrightarrow> (\<forall>sg' bs' out' V' D'. seg_ok sg' bs' (\<lambda>b. out' b + e b) V' D' \<longrightarrow> dom bs' \<subseteq> dom (mt_blocks t) \<longrightarrow>
     (\<forall>key. V' key \<noteq> None \<longrightarrow> fst (W (i, j)) key = None \<longrightarrow> j = seg_idx_of t key) \<longrightarrow>
     heap_ok ((set_seg i j sg' t)\<lparr>mt_blocks := bs'\<rparr>) out' (W((i, j) := (V', D'))))"

lemma refocusD:
  assumes "refocus t i j W e" "seg_ok sg' bs' (\<lambda>b. out' b + e b) V' D'" "dom bs' \<subseteq> dom (mt_blocks t)"
    "\<And>key. V' key \<noteq> None \<Longrightarrow> fst (W (i, j)) key = None \<Longrightarrow> j = seg_idx_of t key"
  shows "heap_ok ((set_seg i j sg' t)\<lparr>mt_blocks := bs'\<rparr>) out' (W((i, j) := (V', D')))"
  using assms unfolding refocus_def by blast

lemma heap_focus:
  assumes ok: "heap_ok t out W" and p: "seg_at t i j = Some sg"
  obtains e where "seg_ok sg (mt_blocks t) (\<lambda>b. out b + e b) (fst (W (i, j))) (snd (W (i, j)))"
    "refocus t i j W e"
proof -
  note H = heap_okD[OF ok]
  have s: "segs t (i, j) = Some sg" using p by (simp add: segs_def)
  obtain e where e: "seg_part sg (mt_blocks t) (\<lambda>b. out b + e b) (W (i, j))"
    "\<And>s' bs' out' v'. seg_part s' bs' (\<lambda>b. out' b + e b) v' \<Longrightarrow>
      parts_ok seg_part ((segs t)((i, j) \<mapsto> s')) bs' out' (W((i, j) := v'))"
    using seg.focus[OF H(1) s] by blast
  show ?thesis
  proof (rule that)
    show "seg_ok sg (mt_blocks t) (\<lambda>b. out b + e b) (fst (W (i, j))) (snd (W (i, j)))"
      using e(1) by (simp add: seg_part_def split: prod.splits)
    show "refocus t i j W e"
      unfolding refocus_def
  proof (intro allI impI)
    fix sg' bs' out' V' D'
    assume h: "seg_ok sg' bs' (\<lambda>b. out' b + e b) V' D'" "dom bs' \<subseteq> dom (mt_blocks t)"
      "\<forall>key. V' key \<noteq> None \<longrightarrow> fst (W (i, j)) key = None \<longrightarrow> j = seg_idx_of t key"
    have pl: "j' = seg_idx_of t key"
      if "seg_at (set_seg i j sg' t) i' j' \<noteq> None" "fst ((W((i, j) := (V', D'))) (i', j')) key \<noteq> None" for i' j' key
    proof (cases "(i', j') = (i, j)")
      case True
      then show ?thesis using that h(3)[rule_format, of key] H(6)[of i j key] p by auto
    next
      case False
      then have n: "\<not> (i' = i \<and> j' = j)" by simp
      show ?thesis using that H(6)[of i' j' key] unfolding seg_at_set[OF p, of sg' i' j'] fun_upd_apply prod.inject if_not_P[OF n] by blast
    qed
    have "parts_ok seg_part (segs (set_seg i j sg' t)) bs' out' (W((i, j) := (V', D')))"
      unfolding segs_set[OF s] using e(2)[of sg' bs' out' "(V', D')"] h(1) by (simp add: seg_part_def)
    then show "heap_ok ((set_seg i j sg' t)\<lparr>mt_blocks := bs'\<rparr>) out' (W((i, j) := (V', D')))"
      unfolding heap_ok_def
    proof (intro conjI)
      let ?t = "(set_seg i j sg' t)\<lparr>mt_blocks := bs'\<rparr>"
      show "\<forall>i' j' key. seg_at ?t i' j' \<noteq> None \<and> fst ((W((i, j) := (V', D'))) (i', j')) key \<noteq> None \<longrightarrow> j' = seg_idx_of ?t key"
        using pl unfolding seg_idx_blocks set_seg_simps by blast
      show "\<forall>arr. Some arr \<in> set (segments ?t) \<longrightarrow> length arr = seg_cnt ?t" using arrays_set[OF H(3) p, of sg'] by simp
      show "\<forall>b\<in>dom (mt_blocks ?t). b < next_block ?t" using H(5) h(2) by (simp add: subset_iff)
    qed (use H(2,4) h(2) in \<open>auto intro: finite_subset\<close>)
  qed
  qed
qed

end
