(* ===== verification/Mem_Table_Put.thy ===== *)
theory Mem_Table_Put
  imports Mem_Table_Rep
begin

text \<open>
  Writing a row into a table in memory: the keys of the dimensions by set of segments, the references of the block, and
  the writes to the segments.
\<close>

section \<open>Ordered maps\<close>

lemma emplace_keys [simp]: "fst ` set (map_emplace (<) (k :: 'k :: linorder) v m) = insert k (fst ` set m)"
proof (induction m)
  case (Cons x m)
  obtain k' v' where x: "x = (k', v')" by fastforce
  show ?case
  proof (cases k k' rule: linorder_cases)
    case greater
    then have "\<not> k < k'" by simp
    then show ?thesis using greater Cons.IH by (simp add: x insert_commute)
  qed (simp_all add: x)
qed simp

lemma emplace_sorted: "sorted_wrt (<) (map fst m) \<Longrightarrow> sorted_wrt (<) (map fst (map_emplace (<) (k :: 'k :: linorder) v m))"
proof (induction m)
  case (Cons x m)
  then show ?case by (cases x) (auto simp: not_less_iff_gr_or_eq dest: order.strict_trans)
qed simp

lemma emplace_map_of:
  "sorted_wrt (<) (map fst m) \<Longrightarrow> map_of (map_emplace (<) (k :: 'k :: linorder) v m) x =
     (if x = k \<and> map_of m k = None then Some v else map_of m x)"
proof (induction m)
  case (Cons y m)
  obtain k' v' where y: "y = (k', v')" by fastforce
  show ?case
  proof (cases k k' rule: linorder_cases)
    case less
    then have "map_of m k = None" using Cons.prems by (force simp: y map_of_eq_None_iff)
    then show ?thesis using less by (auto simp: y)
  next
    case greater
    then have "\<not> k < k'" by simp
    then show ?thesis using greater Cons by (auto simp: y)
  qed (simp add: y)
qed simp

lemma sorted_distinct: "sorted_wrt (<) (xs :: 'k :: linorder list) \<Longrightarrow> distinct xs"
  by (induction xs) auto

section \<open>The keys of the dimensions\<close>

definition dim_keys :: "table_index \<Rightarrow> dimension list \<Rightarrow> (int \<times> bytes) list" where
  "dim_keys ti dims = map (\<lambda>(idx, key). (GetInnerIndexPos ti idx, key)) dims"

lemma dim_keys_ok:
  assumes "\<forall>x\<in>set dims. 0 \<le> GetInnerIndexPos ti (fst x)" "sorted_wrt (<) (map fst m)"
  shows "\<exists>m'. each (add_dimension ti) dims m = Some (True, m') \<and> sorted_wrt (<) (map fst m') \<and>
    (\<forall>p. map_of m' p = (case map_of m p of Some k \<Rightarrow> Some k | None \<Rightarrow> map_of (dim_keys ti dims) p))"
  using assms
proof (induction dims arbitrary: m)
  case (Cons x dims)
  obtain idx key where x: "x = (idx, key)" by fastforce
  let ?p = "GetInnerIndexPos ti idx"
  let ?m = "map_emplace (<) ?p key m"
  have s: "sorted_wrt (<) (map fst ?m)" by (rule emplace_sorted[OF Cons.prems(2)])
  obtain m' where m': "each (add_dimension ti) dims ?m = Some (True, m')" "sorted_wrt (<) (map fst m')"
      "\<forall>p. map_of m' p = (case map_of ?m p of Some k \<Rightarrow> Some k | None \<Rightarrow> map_of (dim_keys ti dims) p)"
    using Cons.IH[OF _ s] Cons.prems(1) by auto
  have "map_of m' p = (case map_of m p of Some k \<Rightarrow> Some k | None \<Rightarrow> map_of (dim_keys ti (x # dims)) p)" for p
    unfolding m'(3)[rule_format] emplace_map_of[OF Cons.prems(2)] by (auto simp: x dim_keys_def split: option.splits)
  then show ?case using m'(1,2) Cons.prems(1) by (auto simp: x add_dimension_def Let_def)
qed (simp add: dim_keys_def split: option.splits)

section \<open>Counting references\<close>

text \<open>A set of segments with one index, which is ready; \<open>good\<close> says what holds of its time column.\<close>

definition single_ready :: "(column_def option \<Rightarrow> bool) \<Rightarrow> table_index \<Rightarrow> nat \<Rightarrow> bool" where
  "single_ready good ti pos \<longleftrightarrow> (\<exists>ii a d. GetInnerIndex ti pos = Some ii \<and> ii_index ii = [a] \<and> idef ti a = Some d \<and>
     IsReady d \<and> good (ix_ts_column d))"

lemma count_inner_ok:
  assumes "\<forall>x\<in>set m. single_ready good ti (nat (fst x))"
    and "\<And>a d n. idef ti a = Some d \<Longrightarrow> IsReady d \<Longrightarrow> good (ix_ts_column d) \<Longrightarrow> f a n = Some (True, Suc n)"
  shows "each (count_inner f ti) m n = Some (True, n + length m)"
  using assms
proof (induction m arbitrary: n)
  case (Cons x m)
  obtain ii a d where "GetInnerIndex ti (nat (fst x)) = Some ii" "ii_index ii = [a]" "idef ti a = Some d" "IsReady d" "good (ix_ts_column d)"
    using Cons.prems(1) by (auto simp: single_ready_def)
  then have "count_inner f ti x n = Some (True, Suc n)" using Cons.prems(2) by (cases x) (simp add: count_inner_def)
  then show ?case using Cons.IH Cons.prems by simp
qed simp

section \<open>Writing to the segments\<close>

text \<open>What a write of a block under a key of a set of segments does to the views.\<close>

definition put_view :: "mem_table \<Rightarrow> 64 word \<Rightarrow> addr \<Rightarrow> int \<times> bytes \<Rightarrow> (nat \<times> nat \<Rightarrow> view \<times> removed) \<Rightarrow> nat \<times> nat \<Rightarrow> view \<times> removed" where
  "put_view t time b = (\<lambda>(pos, key) W. let p = (nat pos, seg_idx_of t key) in
     W(p := ((fst (W p))(key \<mapsto> [time_insert time b (times (fst (W p)) key)]), snd (W p))))"

text \<open>What the writes keep; no entry of a quiet table is held by a reader.\<close>

definition quiet :: "mem_table \<Rightarrow> bool" where
  "quiet t \<longleftrightarrow> (\<forall>i j sg k ke. seg_at t i j = Some sg \<longrightarrow> kes sg k = Some ke \<longrightarrow> refs ke = 0)"

lemma quiet_set:
  assumes "quiet t" "seg_at t i j = Some sg" "\<And>k ke. kes sg' k = Some ke \<Longrightarrow> refs ke = 0"
  shows "quiet (set_seg i j sg' t)"
  unfolding quiet_def
proof (intro allI impI)
  fix i' j' sg1 k ke
  assume "seg_at (set_seg i j sg' t) i' j' = Some sg1" "kes sg1 k = Some ke"
  then show "refs ke = 0" using assms seg_at_set[OF assms(2), of sg' i' j'] by (auto simp: quiet_def split: if_splits)
qed

definition same_table :: "mem_table \<Rightarrow> mem_table \<Rightarrow> bool" where
  "same_table t t' \<longleftrightarrow> tb_index t' = tb_index t \<and> seg_cnt t' = seg_cnt t \<and> dom (segs t') = dom (segs t) \<and>
     mt_blocks t' = mt_blocks t \<and> next_block t' = next_block t \<and> record_cnt t' = record_cnt t \<and>
     enable_gc t' = enable_gc t \<and> tb_update_ttl t' = tb_update_ttl t \<and> (quiet t \<longrightarrow> quiet t')"

lemma put_inner_ok:
  assumes ok: "heap_ok t out W" and r: "single_ready good (tb_index t) (nat pos)" and b: "0 < out b"
    and s: "(nat pos, seg_idx_of t key) \<in> dom (segs t)"
    and put: "\<And>sg. ts_cnt sg = 1 \<Longrightarrow> put sg key = Segment_Put sg key time b"
  shows "\<exists>t'. put_inner put (pos, key) t = Some t' \<and> heap_ok t' (out(b := out b - 1)) (put_view t time b (pos, key) W) \<and> same_table t t'"
proof -
  let ?j = "seg_idx_of t key" and ?i = "nat pos"
  obtain sg where sg: "seg_at t ?i ?j = Some sg" using s by (auto simp: segs_def)
  obtain e where e: "seg_ok sg (mt_blocks t) (\<lambda>b. out b + e b) (fst (W (?i, ?j))) (snd (W (?i, ?j)))"
    "refocus t ?i ?j W e"
    by (rule heap_focus[OF ok sg])
  have ts: "ts_cnt sg = 1" using e(1) by (auto simp: seg_ok_def seg_st_def)
  obtain sg' where sg': "Segment_Put sg key time b = Some sg'"
    "seg_ok sg' (mt_blocks t) ((\<lambda>b. out b + e b)(b := out b + e b - 1))
      ((fst (W (?i, ?j)))(key \<mapsto> [time_insert time b (times (fst (W (?i, ?j))) key)])) (snd (W (?i, ?j)))"
    using Put_ok[OF e(1), of b key time] b by auto
  have "(\<lambda>x. (out(b := out b - 1)) x + e x) = (\<lambda>b. out b + e b)(b := out b + e b - 1)" using b by auto
  then have "heap_ok ((set_seg ?i ?j sg' t)\<lparr>mt_blocks := mt_blocks t\<rparr>) (out(b := out b - 1)) (put_view t time b (pos, key) W)"
    unfolding put_view_def Let_def prod.case using sg'(2) by (intro refocusD[OF e(2)]) (auto split: if_splits)
  moreover have "(set_seg ?i ?j sg' t)\<lparr>mt_blocks := mt_blocks t\<rparr> = set_seg ?i ?j sg' t" by (simp add: set_seg_def)
  moreover have "put_inner put (pos, key) t = Some (set_seg ?i ?j sg' t)"
    using r sg sg'(1) put[OF ts] by (auto simp: put_inner_def single_ready_def any_ready_def)
  moreover have "quiet (set_seg ?i ?j sg' t)" if q: "quiet t"
  proof (rule quiet_set[OF q sg])
    show "refs ke = 0" if "kes sg' k = Some ke" for k ke
      by (rule Put_frame(3)[OF sg'(1) _ that]) (use q sg in \<open>auto simp: quiet_def\<close>)
  qed
  then have "same_table t (set_seg ?i ?j sg' t)"
    using segs_set[of t ?i ?j sg sg'] sg by (auto simp: same_table_def segs_def)
  ultimately show ?thesis by auto
qed

lemma put_loop_ok:
  assumes "heap_ok t out W" "\<forall>x\<in>set m. single_ready good (tb_index t) (nat (fst x)) \<and> (nat (fst x), seg_idx_of t (snd x)) \<in> dom (segs t)"
    and "\<And>sg key. ts_cnt sg = 1 \<Longrightarrow> put sg key = Segment_Put sg key time b" "length m \<le> out b"
  shows "\<exists>t'. foldM (put_inner put) m t = Some t' \<and> heap_ok t' (out(b := out b - length m)) (fold (put_view t time b) m W) \<and> same_table t t'"
  using assms
proof (induction m arbitrary: t out W)
  case Nil
  then show ?case by (simp add: same_table_def)
next
  case (Cons x m)
  obtain pos key where x: "x = (pos, key)" by fastforce
  obtain t1 where 1: "put_inner put (pos, key) t = Some t1" "heap_ok t1 (out(b := out b - 1)) (put_view t time b (pos, key) W)" "same_table t t1"
    using put_inner_ok[OF Cons.prems(1), of good pos b key put time] Cons.prems(2-4) x by auto
  have "seg_idx_of t1 = seg_idx_of t" using 1(3) by (intro seg_idx_cong) (simp add: same_table_def)
  then have v: "put_view t1 time b = put_view t time b" by (simp add: put_view_def[abs_def])
  obtain t2 where 2: "foldM (put_inner put) m t1 = Some t2"
    "heap_ok t2 ((out(b := out b - 1))(b := (out(b := out b - 1)) b - length m)) (fold (put_view t1 time b) m (put_view t time b (pos, key) W))"
    "same_table t1 t2"
  proof -
    have pre: "\<forall>x\<in>set m. single_ready good (tb_index t1) (nat (fst x)) \<and> (nat (fst x), seg_idx_of t1 (snd x)) \<in> dom (segs t1)"
      "length m \<le> (out(b := out b - 1)) b"
      using Cons.prems(2,4) 1(3) \<open>seg_idx_of t1 = seg_idx_of t\<close> by (auto simp: same_table_def)
    show ?thesis using Cons.IH[OF 1(2) pre(1) Cons.prems(3) pre(2)] that by blast
  qed
  have "heap_ok t2 (out(b := out b - length (x # m))) (fold (put_view t time b) (x # m) W)" using 2(2) by (simp add: x v)
  moreover have "foldM (put_inner put) (x # m) t = Some t2" using 1(1) 2(1) by (simp add: x)
  moreover have "same_table t t2" using 1(3) 2(3) by (simp add: same_table_def)
  ultimately show ?case by blast
qed

lemma put_view_rows:
  assumes "0 \<le> pos"
  shows "table_rows t (put_view t time b (pos, k) W) i key =
    (if pos = int i \<and> k = key then time_insert time b (table_rows t W i key) else table_rows t W i key)"
  using assms by (auto simp: put_view_def Let_def table_rows_def times_def split: option.splits)

lemma put_views_rows:
  assumes "sorted_wrt (<) (map fst m)" "\<forall>x\<in>set m. 0 \<le> fst x"
  shows "table_rows t (fold (put_view t time b) m W) i key =
    (if map_of m (int i) = Some key then time_insert time b (table_rows t W i key) else table_rows t W i key)"
  using assms
proof (induction m arbitrary: W)
  case (Cons x m)
  obtain pos k where x: "x = (pos, k)" by fastforce
  have "map_of m pos = None" using Cons.prems(1) by (force simp: x map_of_eq_None_iff)
  then show ?case using Cons.IH[of "put_view t time b x W"] Cons.prems put_view_rows[of pos t time b k W i key] by (auto simp: x)
qed simp

lemma put_views_removed: "snd (fold (put_view t time b) m W p) = snd (W p)"
proof (induction m arbitrary: W)
  case (Cons x m)
  have "snd (put_view t time b x W p) = snd (W p)" by (cases x) (simp add: put_view_def Let_def)
  then show ?case using Cons.IH[of "put_view t time b x W"] by simp
qed simp

section \<open>Writing a row\<close>

text \<open>The dimensions of a row lead to sets of segments with one ready index each.\<close>

definition writable :: "(column_def option \<Rightarrow> bool) \<Rightarrow> mem_table \<Rightarrow> dimension list \<Rightarrow> bool" where
  "writable good t dims \<longleftrightarrow> dims \<noteq> [] \<and> length dims \<le> 255 \<and>
     (\<forall>x\<in>set dims. \<exists>pos. GetInnerIndexPos (tb_index t) (fst x) = int pos \<and> single_ready good (tb_index t) pos \<and>
       pos < length (segments t) \<and> segments t ! pos \<noteq> None)"

lemma seg_idx_less: "1 \<le> seg_cnt t \<Longrightarrow> seg_idx_of t key < seg_cnt t"
  by (simp add: seg_idx_of_def)

lemma segs_dom:
  assumes "heap_ok t out W" "pos < length (segments t)" "segments t ! pos \<noteq> None"
  shows "(pos, seg_idx_of t key) \<in> dom (segs t)"
proof -
  obtain arr where a: "segments t ! pos = Some arr" using assms(3) by blast
  then have "length arr = seg_cnt t" using heap_okD(3)[OF assms(1)] nth_mem[OF assms(2)] by metis
  then show ?thesis using a assms(2) seg_idx_less[OF heap_okD(2)[OF assms(1)]] by (auto simp: segs_def dom_def seg_at_Some)
qed

lemma new_block_ok:
  fixes v :: bytes and sz :: "32 word"
  assumes ok: "table_ok t W" and n: "0 < n" "n \<le> 255"
  defines "b \<equiv> next_block t"
  defines "t1 \<equiv> t\<lparr>mt_blocks := (mt_blocks t)(b \<mapsto> new_DataBlock (of_nat n) v sz), next_block := Suc b\<rparr>"
  shows "heap_ok t1 ((\<lambda>_. 0)(b := n)) W" "card (dom (mt_blocks t1)) = Suc (card (dom (mt_blocks t)))"
proof -
  have h: "heap_ok t (\<lambda>_. 0) W" using ok by (simp add: table_ok_def)
  note H = heap_okD[OF h]
  have f: "b \<notin> dom (mt_blocks t)" using H(5) by (auto simp: b_def)
  then have fresh: "mt_blocks t b = None" by auto
  have "unat (dim_cnt_down (new_DataBlock (of_nat n) v sz)) = n"
    using n(2) by (simp add: new_DataBlock_def unat_of_nat)
  then have p: "parts_ok seg_part (segs t) ((mt_blocks t)(b \<mapsto> new_DataBlock (of_nat n) v sz)) ((\<lambda>_. 0)(b := n)) W"
    using seg.new_block[OF H(1) fresh _ n(1)] by simp
  have e: "dom (mt_blocks t1) = insert b (dom (mt_blocks t))" by (simp add: t1_def)
  show "card (dom (mt_blocks t1)) = Suc (card (dom (mt_blocks t)))" unfolding e using H(4) f by simp
  have "b' < next_block t1" if "b' \<in> dom (mt_blocks t1)" for b'
    using that H(5) unfolding e by (auto simp: t1_def b_def less_Suc_eq)
  moreover have "finite (dom (mt_blocks t1))" unfolding e using H(4) by simp
  moreover have "segments t1 = segments t" "seg_cnt t1 = seg_cnt t" "mt_blocks t1 = (mt_blocks t)(b \<mapsto> new_DataBlock (of_nat n) v sz)"
    by (simp_all add: t1_def)
  moreover have "segs t1 = segs t" "\<And>i j. seg_at t1 i j = seg_at t i j" "\<And>key. seg_idx_of t1 key = seg_idx_of t key" by (simp_all add: t1_def)
  ultimately show "heap_ok t1 ((\<lambda>_. 0)(b := n)) W" unfolding heap_ok_def using p H(2,3,6) by metis
qed

lemma writable_keys:
  assumes h: "heap_ok t out W" and w: "writable good t dims"
  defines "ks \<equiv> dim_keys (tb_index t) dims"
  obtains m where "each (add_dimension (tb_index t)) dims [] = Some (True, m)" "sorted_wrt (<) (map fst m)" "map_of m = map_of ks"
    "length m = card (fst ` set ks)" "0 < length m" "length m \<le> 255"
    "\<forall>x\<in>set m. 0 \<le> fst x \<and> single_ready good (tb_index t) (nat (fst x)) \<and> (nat (fst x), seg_idx_of t (snd x)) \<in> dom (segs t)"
proof -
  have "\<forall>x\<in>set dims. 0 \<le> GetInnerIndexPos (tb_index t) (fst x)" using w by (fastforce simp: writable_def)
  then obtain m where m: "each (add_dimension (tb_index t)) dims [] = Some (True, m)" "sorted_wrt (<) (map fst m)" "map_of m = map_of ks"
    using dim_keys_ok[of dims "tb_index t" "[]"] unfolding ks_def by (auto simp: fun_eq_iff)
  have keys: "fst ` set m = fst ` set ks" using arg_cong[OF m(3), of dom] by (simp add: dom_map_of_conv_image_fst)
  have len: "length m = card (fst ` set ks)"
    unfolding keys[symmetric] using distinct_card[OF sorted_distinct[OF m(2)]] by simp
  have "0 \<le> fst x \<and> single_ready good (tb_index t) (nat (fst x)) \<and> (nat (fst x), seg_idx_of t (snd x)) \<in> dom (segs t)" if "x \<in> set m" for x
  proof -
    have "fst x \<in> fst ` set ks" unfolding keys[symmetric] using that by blast
    then obtain y where "y \<in> set dims" "fst x = GetInnerIndexPos (tb_index t) (fst y)" by (auto simp: ks_def dim_keys_def)
    then obtain pos where "fst x = int pos" "single_ready good (tb_index t) pos" "pos < length (segments t)" "segments t ! pos \<noteq> None"
      using w by (fastforce simp: writable_def)
    then show ?thesis using segs_dom[OF h] by simp
  qed
  moreover have "card (fst ` set ks) \<le> length dims" using card_image_le[of "set ks" fst] card_length[of ks] by (simp add: ks_def dim_keys_def)
  moreover have "fst ` set ks \<noteq> {}" using w by (simp add: ks_def dim_keys_def writable_def)
  ultimately show ?thesis using that[OF m len] w len by (auto simp: writable_def card_gt_0_iff)
qed

lemma put_row_ok:
  assumes ok: "table_ok t W" and w: "writable good t dims"
    and f: "\<And>a d n. idef (tb_index t) a = Some d \<Longrightarrow> IsReady d \<Longrightarrow> good (ix_ts_column d) \<Longrightarrow> f a n = Some (True, Suc n)"
    and put: "\<And>sg key b. ts_cnt sg = 1 \<Longrightarrow> put sg key b = Segment_Put sg key time b"
  defines "b \<equiv> next_block t"
  defines "ks \<equiv> dim_keys (tb_index t) dims"
  shows "\<exists>t' W'. put_row f put dims v t = Some (True, t') \<and> table_ok t' W' \<and>
    mt_blocks t' = (mt_blocks t)(b \<mapsto> new_DataBlock (of_nat (card (fst ` set ks))) v (of_nat (length v))) \<and>
    tb_index t' = tb_index t \<and> seg_cnt t' = seg_cnt t \<and> dom (segs t') = dom (segs t) \<and> enable_gc t' = enable_gc t \<and>
    tb_update_ttl t' = tb_update_ttl t \<and> (quiet t \<longrightarrow> quiet t') \<and> (\<forall>p. snd (W' p) = snd (W p)) \<and>
    (\<forall>i key. table_rows t' W' i key = (if map_of ks (int i) = Some key then time_insert time b (table_rows t W i key) else table_rows t W i key))"
proof -
  have h: "heap_ok t (\<lambda>_. 0) W" and rc: "record_cnt t = of_nat (card (dom (mt_blocks t)))" using ok by (simp_all add: table_ok_def)
  obtain m where m: "each (add_dimension (tb_index t)) dims [] = Some (True, m)" "sorted_wrt (<) (map fst m)" "map_of m = map_of ks"
    and len: "length m = card (fst ` set ks)" and n: "0 < length m" "length m \<le> 255"
    and x: "\<forall>x\<in>set m. 0 \<le> fst x \<and> single_ready good (tb_index t) (nat (fst x)) \<and> (nat (fst x), seg_idx_of t (snd x)) \<in> dom (segs t)"
    unfolding ks_def by (rule writable_keys[OF h w])
  let ?t1 = "t\<lparr>mt_blocks := (mt_blocks t)(b \<mapsto> new_DataBlock (of_nat (length m)) v (of_nat (length v))), next_block := Suc b\<rparr>"
  note nb = new_block_ok[OF ok n, of v "of_nat (length v)", folded b_def]
  have x1: "\<forall>x\<in>set m. single_ready good (tb_index ?t1) (nat (fst x)) \<and> (nat (fst x), seg_idx_of ?t1 (snd x)) \<in> dom (segs ?t1)"
    using x by simp
  obtain t2 where t2: "foldM (put_inner (\<lambda>sg key. put sg key b)) m ?t1 = Some t2"
      "heap_ok t2 (((\<lambda>_. 0)(b := length m))(b := ((\<lambda>_. 0)(b := length m)) b - length m)) (fold (put_view ?t1 time b) m W)" "same_table ?t1 t2"
    using put_loop_ok[OF nb(1) x1, of "\<lambda>sg key. put sg key b" time b] put by auto
  let ?W = "fold (put_view ?t1 time b) m W" and ?t3 = "count_record v t2"
  have row: "put_row f put dims v t = Some (True, ?t3)"
    using m(1) count_inner_ok[of m good "tb_index t" f 0] x f t2(1) by (simp add: put_row_def b_def)
  have z: "(((\<lambda>_. 0)(b := length m))(b := ((\<lambda>_. 0)(b := length m)) b - length m)) = (\<lambda>_. 0 :: nat)" by auto
  have c: "segs ?t3 = segs t2" "\<And>i j. seg_at ?t3 i j = seg_at t2 i j" "\<And>key. seg_idx_of ?t3 key = seg_idx_of t2 key"
    by (simp_all add: count_record_def segs_def seg_at_def seg_idx_of_def)
  have q: "quiet t \<Longrightarrow> quiet ?t3" using t2(3) by (simp add: same_table_def quiet_def c)
  have "heap_ok ?t3 (\<lambda>_. 0) ?W" using t2(2) unfolding z heap_ok_def c by (simp add: count_record_def)
  moreover have "record_cnt ?t3 = of_nat (card (dom (mt_blocks ?t3)))"
    using t2(3) nb(2) rc by (simp add: count_record_def same_table_def)
  ultimately have tok: "table_ok ?t3 ?W" by (simp add: table_ok_def)
  have si: "seg_idx_of ?t3 = seg_idx_of t" "put_view ?t1 time b = put_view t time b"
    using t2(3) by (auto intro!: seg_idx_cong simp: same_table_def count_record_def put_view_def[abs_def])
  have "table_rows ?t3 ?W i key = (if map_of ks (int i) = Some key then time_insert time b (table_rows t W i key) else table_rows t W i key)" for i key
    using put_views_rows[OF m(2), of t time b W i key] x m(3) unfolding si(2) by (simp add: table_rows_def si(1))
  moreover have "mt_blocks ?t3 = mt_blocks ?t1" "tb_index ?t3 = tb_index t" "seg_cnt ?t3 = seg_cnt t" "dom (segs ?t3) = dom (segs t)"
      "enable_gc ?t3 = enable_gc t" "tb_update_ttl ?t3 = tb_update_ttl t"
    using t2(3) unfolding c by (simp_all add: count_record_def same_table_def)
  ultimately show ?thesis using row tok q len put_views_removed[of ?t1 time b m W]
    by (intro exI[of _ ?t3] exI[of _ ?W]) simp
qed

end
