(* ===== verification/Mem_Table_Init.thy ===== *)
theory Mem_Table_Init
  imports Mem_Table_Put Table_Meta_Props
begin

text \<open>
  A table that \<open>Init\<close> has made: all its segments are empty.
\<close>

section \<open>Empty segments\<close>

definition empty_segment :: "segment \<Rightarrow> bool" where
  "empty_segment sg \<longleftrightarrow> (\<forall>bs ext. blocks_ok (\<lambda>_. 0) ext bs \<longrightarrow> seg_ok sg bs ext Map.empty []) \<and> kes sg = Map.empty"

lemma seg_ok_fields:
  assumes ok: "seg_ok sg bs ext Map.empty []" and e: "entries sg' = entries sg" "kes sg' = kes sg" "next_ke sg' = next_ke sg"
    "entry_free_list sg' = entry_free_list sg" "ts_cnt sg' = ts_cnt sg" "pk_cnt sg' = pk_cnt sg"
    "key_entry_max_height sg' = key_entry_max_height sg" "idx_cnt sg' = idx_cnt sg"
  shows "seg_ok sg' bs ext Map.empty []"
proof -
  obtain as vs T where st: "seg_st sg bs ext as vs T" "seg_view sg as T = Map.empty" "removed_view sg vs T = []"
    using ok by (auto simp: seg_ok_def)
  have o: "own sg' = own sg" by (rule own_cong[OF e(1)])
  have "seg_st sg' bs ext as vs T" using st(1) unfolding seg_st_def seg_rep_cong[OF e(1-7)] o e(5,8) .
  moreover have "seg_view sg' as T = Map.empty" using st(2) by (simp add: seg_view_def[abs_def] find_node_def e(1) o)
  moreover have "removed_view sg' vs T = []" using st(3) by (simp add: removed_view_def)
  ultimately show ?thesis unfolding seg_ok_def by blast
qed

text \<open>A height that is not zero and not changed when it is cut to eight bits.\<close>

definition byte_height :: "nat \<Rightarrow> bool" where
  "byte_height h \<longleftrightarrow> 1 \<le> h \<and> h < 2 ^ 8"

lemma byte_height_mod: "byte_height h \<Longrightarrow> 1 \<le> h mod 2 ^ 8"
  by (simp add: byte_height_def)

lemma new_segments_empty:
  assumes "sg \<in> set (new_segments fl n height ts_vec)" "length ts_vec \<le> 1" "byte_height (skiplist_max_height fl)" "byte_height height"
  shows "empty_segment sg"
proof (cases ts_vec)
  case Nil
  then have "sg = new_Segment (skiplist_max_height fl) (gc_safe_offset fl) height" using assms(1) by (simp add: new_segments_def)
  then show ?thesis using new_Segment_ok[OF assms(3,4)[THEN byte_height_mod]] by (auto simp: empty_segment_def new_Segment_def)
next
  case (Cons ts xs)
  then have sg: "sg = new_Segment_ts (skiplist_max_height fl) (gc_safe_offset fl) height [of_nat ts]"
    using assms(1,2) by (simp add: new_segments_def)
  have "seg_ok sg bs ext Map.empty []" if "blocks_ok (\<lambda>_. 0) ext bs" for bs ext
    by (rule seg_ok_fields[OF new_Segment_ok[OF assms(3,4)[THEN byte_height_mod] that, of "gc_safe_offset fl"]])
      (simp_all add: sg new_Segment_ts_def new_Segment_def)
  then show ?thesis by (simp add: empty_segment_def sg new_Segment_ts_def new_Segment_def)
qed

section \<open>Empty tables\<close>

definition fresh_table :: "mem_table \<Rightarrow> bool" where
  "fresh_table t \<longleftrightarrow> 1 \<le> seg_cnt t \<and> mt_blocks t = Map.empty \<and> record_cnt t = 0 \<and>
     (\<forall>arr. Some arr \<in> set (segments t) \<longrightarrow> length arr = seg_cnt t \<and> (\<forall>sg\<in>set arr. empty_segment sg))"

lemma fresh_at: "fresh_table t \<Longrightarrow> seg_at t i j = Some sg \<Longrightarrow> empty_segment sg \<and> i < length (segments t) \<and> j < seg_cnt t"
  by (fastforce simp: fresh_table_def seg_at_Some dest: nth_mem)

lemma fresh_table_ok:
  assumes "fresh_table t"
  shows "table_ok t (\<lambda>_. (Map.empty, []))" "quiet t"
proof -
  have "dom (segs t) \<subseteq> {..<length (segments t)} \<times> {..<seg_cnt t}" using fresh_at[OF assms] by (auto simp: segs_def)
  then have fin: "finite (dom (segs t))" by (rule finite_subset) simp
  have "seg_part sg bs ext (Map.empty, [])" if "segs t p = Some sg" "blocks_ok (\<lambda>_. 0) ext bs" for p sg bs ext
    using fresh_at[OF assms, of "fst p" "snd p" sg] that by (cases p) (auto simp: segs_def seg_part_def empty_segment_def)
  then have "parts_ok seg_part (segs t) (mt_blocks t) (\<lambda>_. 0) (\<lambda>_. (Map.empty, []))"
    unfolding parts_ok_def using fin assms
    by (intro conjI exI[of _ "\<lambda>_ _. 0"]) (auto simp: blocks_ok_def fresh_table_def)
  then show "table_ok t (\<lambda>_. (Map.empty, []))" using assms by (auto simp: table_ok_def heap_ok_def fresh_table_def)
  show "quiet t" unfolding quiet_def
  proof (intro allI impI)
    fix i j sg k ke
    assume h: "seg_at t i j = Some sg" "kes sg k = Some ke"
    have "kes sg = Map.empty" using fresh_at[OF assms h(1)] by (simp add: empty_segment_def)
    then show "refs ke = 0" using h(2) by simp
  qed
qed

section \<open>Init\<close>

text \<open>Flags with which a table can be made: the three heights are from 1 to 255.\<close>

definition good_flags :: "flags \<Rightarrow> bool" where
  "good_flags fl \<longleftrightarrow> byte_height (skiplist_max_height fl) \<and> byte_height (absolute_default_skiplist_height fl) \<and>
     byte_height (latest_default_skiplist_height fl)"

lemma max_height_ok:
  assumes "\<forall>x\<in>set as. \<exists>i. good_index ti i x" "byte_height a" "byte_height l"
  shows "\<exists>h. max_height_of ti a l as = Some h \<and> byte_height h"
  using assms(1)
proof (induction as)
  case (Cons x as)
  then obtain d ty where d: "idef ti x = Some d" "GetTTLType d = Some ty" by (auto simp: good_index_def GetTTLType_def)
  obtain h where h: "max_height_of ti a l as = Some h" "byte_height h" using Cons by auto
  have "max_height_of ti a l (x # as) = Some (if ty = kAbsoluteTime \<or> ty = kAbsAndLat then a else h)" using d h(1) by simp
  then show ?case using assms(2) h(2) by auto
qed (use assms in simp)

text \<open>The table after the first \<open>n\<close> sets of segments have been made.\<close>

definition inited :: "table_index \<Rightarrow> nat \<Rightarrow> mem_table \<Rightarrow> bool" where
  "inited ti n t \<longleftrightarrow> tb_index t = ti \<and> enable_gc t \<and> tb_update_ttl t = [] \<and> length (segments t) = MAX_INDEX_NUM \<and> (\<forall>i<n. segments t ! i \<noteq> None) \<and>
     ((\<forall>ii\<in>set (inner_indexs ti). length (ii_ts ii) \<le> 1) \<longrightarrow> fresh_table t)"

lemma init_inner_ok:
  assumes t: "inited ti n t" and n: "n < length (inner_indexs ti)" and g: "inner_good ti" and fl: "good_flags fl"
    and hb: "h \<le> skiplist_max_height fl"
  shows "\<exists>t'. init_inner fl h (n, inner_indexs ti ! n) t = Some t' \<and> inited ti (Suc n) t'"
proof -
  let ?ii = "inner_indexs ti ! n"
  have "\<exists>height. (if h > 0 then Some h else GetKeyEntryMaxHeight ti ?ii (absolute_default_skiplist_height fl)
      (latest_default_skiplist_height fl)) = Some height \<and> byte_height height"
    using max_height_ok[of "ii_index ?ii" ti "absolute_default_skiplist_height fl" "latest_default_skiplist_height fl"] g nth_mem[OF n] fl hb
    by (cases "h > 0") (auto simp: GetKeyEntryMaxHeight_def good_flags_def inner_good_def byte_height_def[of h] byte_height_def[of "skiplist_max_height fl"])
  then obtain height where h: "(if h > 0 then Some h else GetKeyEntryMaxHeight ti ?ii (absolute_default_skiplist_height fl)
      (latest_default_skiplist_height fl)) = Some height" "byte_height height" by blast
  let ?arr = "new_segments fl (seg_cnt t) height (ii_ts ?ii)"
  let ?t = "t\<lparr>segments := (segments t)[n := Some ?arr], table_key_entry_max_height := height\<rparr>"
  have l: "n < length (segments t)" using t n g by (simp add: inited_def inner_good_def)
  have ti: "tb_index t = ti" using t by (simp add: inited_def)
  have "init_inner fl h (n, ?ii) t = Some ?t" unfolding init_inner_def prod.case ti h(1) using l by simp
  moreover have "fresh_table ?t" if ts: "\<forall>ii\<in>set (inner_indexs ti). length (ii_ts ii) \<le> 1"
  proof -
    have "length (ii_ts ?ii) \<le> 1" using ts nth_mem[OF n] by blast
    then have "empty_segment sg" if "sg \<in> set ?arr" for sg
      using new_segments_empty[OF that _ _ h(2)] fl by (simp add: good_flags_def)
    moreover have "length ?arr = seg_cnt t" by (simp add: new_segments_def)
    moreover have "fresh_table t" using t ts by (simp add: inited_def)
    ultimately show ?thesis using set_update_subset_insert[of "segments t" n "Some ?arr"] by (auto simp: fresh_table_def)
  qed
  ultimately show ?thesis using t l by (auto simp: inited_def nth_list_update less_Suc_eq)
qed

lemma InitFromMeta_parsed:
  fixes t :: mem_table
  assumes p: "ParseFromMeta (tb_meta t) (tb_index t) = Some (ret, ti, m)" and r: "ret = -1 \<or> ret = 0"
  obtains t' where "InitFromMeta t = Some (ret = 0, t')" "tb_index t' = ti" "tm_seg_cnt (tb_meta t') = tm_seg_cnt (tb_meta t)"
    "seg_cnt t' = seg_cnt t" "segments t' = segments t" "mt_blocks t' = mt_blocks t" "record_cnt t' = record_cnt t"
    "enable_gc t' = enable_gc t" "tb_update_ttl t' = tb_update_ttl t"
proof -
  define t1 where "t1 = (if tm_leader (tb_meta t) = Some False then t\<lparr>tb_leader := False\<rparr> else t)"
  have t1: "tb_meta t1 = tb_meta t" "tb_index t1 = tb_index t" "seg_cnt t1 = seg_cnt t" "segments t1 = segments t"
    "mt_blocks t1 = mt_blocks t" "record_cnt t1 = record_cnt t" "enable_gc t1 = enable_gc t" "tb_update_ttl t1 = tb_update_ttl t"
    by (simp_all add: t1_def)
  have "InitFromMeta t = do { (ret, t') \<leftarrow> InitColumnDesc t1; Some (ret \<ge> 0, t') }" by (simp add: InitFromMeta_def t1_def)
  then show ?thesis using r p t1 that by (auto simp: InitColumnDesc_def AddVersionSchema_def Let_def)
qed

lemma MemTable_Init_ok:
  assumes k: "known_keys tm" and fl: "good_flags fl"
  shows "\<exists>t ret ti m. ParseFromMeta tm new_TableIndex = Some (ret, ti, m) \<and> MemTable_Init fl (new_MemTable_meta tm) = Some (ret = 0, t) \<and>
    (ret = 0 \<longrightarrow> tb_index t = ti \<and> inited ti (length (inner_indexs ti)) t \<and> inner_good ti \<and>
      (multi_ts_indexs ti = [] \<or> length m > 1 \<longrightarrow> index_agree ti))"
proof -
  let ?t0 = "(new_MemTable_meta tm)\<lparr>table_key_entry_max_height := default_key_entry_max_height fl\<rparr>"
  obtain ret ti m where p: "ParseFromMeta tm new_TableIndex = Some (ret, ti, m)"
    "ret = -1 \<or> ret = 0 \<and> (multi_ts_indexs ti = [] \<or> length m > 1 \<longrightarrow> index_agree ti) \<and> inner_good ti"
    using ParseFromMeta_ok[OF k, of new_TableIndex] by blast
  have t0: "tb_meta ?t0 = tm" "tb_index ?t0 = new_TableIndex" "seg_cnt ?t0 = 8" "segments ?t0 = replicate MAX_INDEX_NUM None"
      "mt_blocks ?t0 = Map.empty" "record_cnt ?t0 = 0" "enable_gc ?t0" "tb_update_ttl ?t0 = []"
    by (simp_all add: new_MemTable_meta_def empty_mem_table_def new_Table_def Let_def table.extend_def)
  obtain t1 where t1: "InitFromMeta ?t0 = Some (ret = 0, t1)" "tb_index t1 = ti" "tm_seg_cnt (tb_meta t1) = tm_seg_cnt tm"
      "seg_cnt t1 = 8" "segments t1 = replicate MAX_INDEX_NUM None" "mt_blocks t1 = Map.empty" "record_cnt t1 = 0"
      "enable_gc t1" "tb_update_ttl t1 = []"
    using InitFromMeta_parsed[of ?t0 ret ti m] p t0 by auto
  show ?thesis
  proof (cases "ret = 0")
    case False
    then have "MemTable_Init fl (new_MemTable_meta tm) = Some (False, t1)" using t1(1) by (simp add: MemTable_Init_def)
    then show ?thesis using p(1) False by auto
  next
    case True
    let ?t2 = "if tm_seg_cnt (tb_meta t1) > 0 then t1\<lparr>seg_cnt := nat (tm_seg_cnt (tb_meta t1))\<rparr> else t1"
    have i: "inited ti 0 ?t2" "tb_index ?t2 = ti" using t1 by (auto simp: inited_def fresh_table_def)
    let ?h = "case tm_key_entry_max_height (tb_meta t1) of Some h \<Rightarrow> if h \<le> skiplist_max_height fl \<and> h > 0 then h else 0 | None \<Rightarrow> 0"
    have hb: "?h \<le> skiplist_max_height fl" by (simp split: option.split)
    have "\<exists>t3. foldM (init_inner fl ?h) (enumerate 0 (inner_indexs ti)) ?t2 = Some t3 \<and> inited ti (length (enumerate 0 (inner_indexs ti))) t3"
      by (rule foldM_list_rule[where I = "inited ti"]) (use i init_inner_ok[OF _ _ _ fl hb] p(2) True in \<open>auto simp: nth_enumerate_eq\<close>)
    then obtain t3 where t3: "MemTable_Init fl (new_MemTable_meta tm) = Some (True, t3)" "inited ti (length (inner_indexs ti)) t3"
      using True t1(1) unfolding MemTable_Init_def Let_def i(2)[symmetric] by fastforce
    moreover have "tb_index t3 = ti" using t3(2) by (simp add: inited_def)
    ultimately show ?thesis using p True by auto
  qed
qed

text \<open>C13: \<open>Init\<close> never fails on meta data with at most 200 keys over columns of the table, when the flags for the heights are
  from 1 to 255, so that they are the same in the eight bits that a segment keeps: it refuses the meta data, or
  every set of segments has its segments and, where no set has several time columns, the table is well formed: all its
  segments are empty, no block exists, the count of records is zero and no entry is held.\<close>

theorem Init_table_ok:
  assumes "known_keys tm" "good_flags fl"
  shows "\<exists>ok t. MemTable_Init fl (new_MemTable_meta tm) = Some (ok, t) \<and>
    (ok \<longrightarrow> (\<forall>i<length (inner_indexs (tb_index t)). i < length (segments t) \<and> segments t ! i \<noteq> None) \<and>
      ((\<forall>ii\<in>set (inner_indexs (tb_index t)). length (ii_ts ii) \<le> 1) \<longrightarrow>
        table_ok t (\<lambda>_. (Map.empty, [])) \<and> quiet t \<and> mt_blocks t = Map.empty \<and> record_cnt t = 0))"
proof -
  obtain ok t where t: "MemTable_Init fl (new_MemTable_meta tm) = Some (ok, t)"
      "ok \<longrightarrow> inited (tb_index t) (length (inner_indexs (tb_index t))) t \<and> inner_good (tb_index t)"
    using MemTable_Init_ok[OF assms] by auto
  show ?thesis
  proof (intro exI conjI impI)
    show "MemTable_Init fl (new_MemTable_meta tm) = Some (ok, t)" by (rule t(1))
    assume ok
    then have i: "inited (tb_index t) (length (inner_indexs (tb_index t))) t" "inner_good (tb_index t)" using t(2) by simp_all
    then show "\<forall>i<length (inner_indexs (tb_index t)). i < length (segments t) \<and> segments t ! i \<noteq> None"
      by (simp add: inited_def inner_good_def)
    assume "\<forall>ii\<in>set (inner_indexs (tb_index t)). length (ii_ts ii) \<le> 1"
    then have "fresh_table t" using i(1) by (simp add: inited_def)
    then show "table_ok t (\<lambda>_. (Map.empty, []))" "quiet t" "mt_blocks t = Map.empty" "record_cnt t = 0"
      using fresh_table_ok by (simp_all add: fresh_table_def)
  qed
qed

section \<open>A table with two dimensions\<close>

definition two_dims :: table_meta where
  "two_dims = \<lparr>tm_ttl = 1, tm_ttl_type = kLatestTime, tm_ttl_desc = None, tm_seg_cnt = 2, tm_key_entry_max_height = None,
     tm_dimensions = [[97], [98]], tm_column_desc = [], tm_column_key = [], tm_added_column_desc = [], tm_schema_versions = [],
     tm_leader = None\<rparr>"

definition some_flags :: flags where
  "some_flags = \<lparr>skiplist_max_height = 12, default_key_entry_max_height = 8, absolute_default_skiplist_height = 4,
     latest_default_skiplist_height = 1, gc_safe_offset = 1, gc_deleted_pk_version_delta = 2, max_traverse_cnt = 50000\<rparr>"

lemma two_dims_good: "known_keys two_dims" "good_flags some_flags"
  by (simp_all add: known_keys_def two_dims_def good_flags_def some_flags_def byte_height_def)

lemma two_dims_parsed:
  "map_option (\<lambda>(ret, ti, m). (ret, multi_ts_indexs ti, indexs ti, map (GetInnerIndexPos ti) [0, 1], map (\<lambda>ii. (ii_index ii, ii_ts ii)) (inner_indexs ti),
      map (\<lambda>a. map_option (\<lambda>d. (IsReady d, ix_ts_column d, ix_ttl d)) (idef ti a)) [0, 1]))
    (ParseFromMeta two_dims new_TableIndex) =
     Some (0, [], [0, 1], [0, 1], [([0], []), ([1], [])], [Some (True, None, Some \<lparr>abs_ttl = 0, lat_ttl = 1, ttl_type = kLatestTime\<rparr>),
       Some (True, None, Some \<lparr>abs_ttl = 0, lat_ttl = 1, ttl_type = kLatestTime\<rparr>)])"
  by code_simp

lemma two_dims_index:
  obtains ti m ii0 ii1 d0 d1 where "ParseFromMeta two_dims new_TableIndex = Some (0, ti, m)" "multi_ts_indexs ti = []" "indexs ti = [0, 1]"
    "GetInnerIndexPos ti 0 = 0" "GetInnerIndexPos ti 1 = 1" "inner_indexs ti = [ii0, ii1]" "ii_index ii0 = [0]" "ii_index ii1 = [1]"
    "ii_ts ii0 = []" "ii_ts ii1 = []" "idef ti 0 = Some d0" "idef ti 1 = Some d1" "IsReady d0" "IsReady d1"
    "ix_ts_column d0 = None" "ix_ts_column d1 = None" "ix_ttl d0 = Some \<lparr>abs_ttl = 0, lat_ttl = 1, ttl_type = kLatestTime\<rparr>"
    "ix_ttl d1 = Some \<lparr>abs_ttl = 0, lat_ttl = 1, ttl_type = kLatestTime\<rparr>"
  using two_dims_parsed by (auto simp: map_eq_Cons_conv)

lemma two_dims_table:
  obtains t where "MemTable_Init some_flags (new_MemTable_meta two_dims) = Some (True, t)" "table_ok t (\<lambda>_. (Map.empty, []))" "quiet t"
    "index_agree (tb_index t)" "\<And>good. good None \<Longrightarrow> writable good t [(0, k), (1, l)]" "GetInnerIndexPos (tb_index t) 0 = 0"
    "GetInnerIndexPos (tb_index t) 1 = 1" "indexs (tb_index t) = [0, 1]" "multi_ts_indexs (tb_index t) = []"
    "\<exists>m. ParseFromMeta two_dims new_TableIndex = Some (0, tb_index t, m)" "enable_gc t" "tb_update_ttl t = []"
proof -
  obtain ti m ii0 ii1 d0 d1 where p: "ParseFromMeta two_dims new_TableIndex = Some (0, ti, m)" "multi_ts_indexs ti = []" "indexs ti = [0, 1]"
    "GetInnerIndexPos ti 0 = 0" "GetInnerIndexPos ti 1 = 1" "inner_indexs ti = [ii0, ii1]" "ii_index ii0 = [0]" "ii_index ii1 = [1]"
    "ii_ts ii0 = []" "ii_ts ii1 = []" "idef ti 0 = Some d0" "idef ti 1 = Some d1" "IsReady d0" "IsReady d1"
    "ix_ts_column d0 = None" "ix_ts_column d1 = None"
    by (rule two_dims_index) blast
  obtain t where t: "MemTable_Init some_flags (new_MemTable_meta two_dims) = Some (True, t)"
      and i: "tb_index t = ti" "inited ti 2 t" "index_agree ti"
    using MemTable_Init_ok[OF two_dims_good] p(1,2,6) by (auto simp: numeral_2_eq_2)
  have f: "fresh_table t" "enable_gc t" "tb_update_ttl t = []" "length (segments t) = MAX_INDEX_NUM" "segments t ! 0 \<noteq> None" "segments t ! 1 \<noteq> None"
    using i(2) p(6,9,10) by (auto simp: inited_def numeral_2_eq_2)
  then have w: "writable good t [(0, k), (1, l)]" if "good None" for good
    using that p i(1) by (auto simp: writable_def single_ready_def GetInnerIndex_def MAX_INDEX_NUM_def intro: exI[of _ "0::nat"] exI[of _ "1::nat"])
  show ?thesis by (rule that[OF t fresh_table_ok[OF f(1)] _ w _ _ _ _ _ f(2,3)]) (use i(1,3) p(1-5) in simp_all)
qed

theorem Init_table_ok_witness:
  "\<exists>t. MemTable_Init some_flags (new_MemTable_meta two_dims) = Some (True, t) \<and> segments t ! 1 \<noteq> None \<and> table_ok t (\<lambda>_. (Map.empty, []))"
proof -
  obtain ti m ii0 ii1 where p: "ParseFromMeta two_dims new_TableIndex = Some (0, ti, m)" "inner_indexs ti = [ii0, ii1]" "ii_ts ii0 = []" "ii_ts ii1 = []"
    by (rule two_dims_index)
  obtain t where t: "MemTable_Init some_flags (new_MemTable_meta two_dims) = Some (True, t)" "tb_index t = ti"
    using MemTable_Init_ok[OF two_dims_good] p(1) by auto
  then show ?thesis using Init_table_ok[OF two_dims_good] p by auto
qed

end
