(* ===== verification/Mem_Table_Props.thy ===== *)
theory Mem_Table_Props
  imports Mem_Table_Init
begin

text \<open>
  The properties of a table in memory: writes, reads through an index, and collection.
\<close>

section \<open>Writes\<close>

text \<open>The time of a row, and the time column that an index of a dimension may have.\<close>

definition row_time :: "log_entry \<Rightarrow> 64 word" where
  "row_time e = (case le_ts_dimensions e of [] \<Rightarrow> le_ts e | (_, ts) # _ \<Rightarrow> ts)"

definition row_column :: "log_entry \<Rightarrow> column_def option \<Rightarrow> bool" where
  "row_column e c = (case le_ts_dimensions e of [] \<Rightarrow> c = None
     | (i, _) # _ \<Rightarrow> (case c of None \<Rightarrow> True | Some col \<Rightarrow> cf_ts_idx col = sint i))"

lemma Put_entry_row:
  assumes d: "le_dimensions e \<noteq> []" and l: "length (le_ts_dimensions e) \<le> 1"
  obtains f put where "MemTable_Put_entry t e = put_row f put (le_dimensions e) (le_value e) t"
    "\<And>a d n. idef (tb_index t) a = Some d \<Longrightarrow> IsReady d \<Longrightarrow> row_column e (ix_ts_column d) \<Longrightarrow> f a n = Some (True, Suc n)"
    "\<And>sg key b. ts_cnt sg = 1 \<Longrightarrow> put sg key b = Segment_Put sg key (row_time e) b"
proof (cases "le_ts_dimensions e")
  case Nil
  then show ?thesis
    using d by (intro that[of "count_plain (tb_index t)" "\<lambda>sg key b. Segment_Put sg key (le_ts e) b"])
      (auto simp: MemTable_Put_entry_def MemTable_Put_dims_def count_plain_def row_column_def row_time_def)
next
  case (Cons x xs)
  then have x: "le_ts_dimensions e = [x]" using l by simp
  show ?thesis
  proof (rule that[of "count_ts [x] (tb_index t)" "\<lambda>sg key b. Segment_Put_ts sg key [x] b"])
    show "MemTable_Put_entry t e = put_row (count_ts [x] (tb_index t)) (\<lambda>sg key b. Segment_Put_ts sg key [x] b) (le_dimensions e) (le_value e) t"
      using d x by (simp add: MemTable_Put_entry_def MemTable_Put_ts_def)
    show "count_ts [x] (tb_index t) a n = Some (True, Suc n)"
      if "idef (tb_index t) a = Some d" "IsReady d" "row_column e (ix_ts_column d)" for a d n
      using that x by (auto simp: count_ts_def row_column_def ts_of_def split: option.splits prod.splits)
    show "Segment_Put_ts sg key [x] b = Segment_Put sg key (row_time e) b" if "ts_cnt sg = 1" for sg key b
      using that x by (auto simp: Segment_Put_ts_def row_time_def split: prod.splits)
  qed
qed

text \<open>C12: writing a log entry always succeeds, when it has at most one time dimension and every dimension leads to a set
  of segments with exactly one index, which is ready and has no time column or that of the entry.
  The block of the row is stored once, with one reference for every set of segments; in each of them the rows of the
  key get the new row in front of the rows that are not newer, where the first dimension of the set gives the key; all
  other rows are as before, and the number of records stays exact.\<close>

theorem Put_entry_rows:
  assumes "table_ok t W" "writable (row_column e) t (le_dimensions e)" "length (le_ts_dimensions e) \<le> 1"
  shows "\<exists>t' W'. MemTable_Put_entry t e = Some (True, t') \<and> table_ok t' W' \<and>
    mt_blocks t' = (mt_blocks t)(next_block t \<mapsto>
      new_DataBlock (of_nat (card (fst ` set (dim_keys (tb_index t) (le_dimensions e))))) (le_value e) (of_nat (length (le_value e)))) \<and>
    (\<forall>i key. table_rows t' W' i key = (if map_of (dim_keys (tb_index t) (le_dimensions e)) (int i) = Some key
      then time_insert (row_time e) (next_block t) (table_rows t W i key) else table_rows t W i key))"
proof -
  have "le_dimensions e \<noteq> []" using assms(2) by (simp add: writable_def)
  then obtain f put where f: "MemTable_Put_entry t e = put_row f put (le_dimensions e) (le_value e) t"
    "\<And>a d n. idef (tb_index t) a = Some d \<Longrightarrow> IsReady d \<Longrightarrow> row_column e (ix_ts_column d) \<Longrightarrow> f a n = Some (True, Suc n)"
    "\<And>sg key b. ts_cnt sg = 1 \<Longrightarrow> put sg key b = Segment_Put sg key (row_time e) b"
    by (rule Put_entry_row[OF _ assms(3), where t = t]) blast
  show ?thesis using put_row_ok[OF assms(1,2), where f = f and put = put and time = "row_time e" and v = "le_value e"] f(2,3) unfolding f(1) by blast
qed

text \<open>A row with two dimensions in a table that \<open>Init\<close> has made.\<close>

definition two_keys_entry :: log_entry where
  "two_keys_entry = \<lparr>le_pk = [], le_ts = 5, le_value = [1, 2, 3], le_dimensions = [(0, [107]), (1, [108])], le_ts_dimensions = []\<rparr>"

theorem Put_entry_rows_witness:
  "\<exists>t t' W b. MemTable_Init some_flags (new_MemTable_meta two_dims) = Some (True, t) \<and> MemTable_Put_entry t two_keys_entry = Some (True, t') \<and>
    table_ok t' W \<and> table_rows t' W 0 [107] = [(5, b)] \<and> table_rows t' W 1 [108] = [(5, b)] \<and> table_rows t' W 0 [108] = []"
proof -
  obtain t where t: "MemTable_Init some_flags (new_MemTable_meta two_dims) = Some (True, t)" "table_ok t (\<lambda>_. (Map.empty, []))"
      "writable (row_column two_keys_entry) t [(0, [107]), (1, [108])]" "GetInnerIndexPos (tb_index t) 0 = 0" "GetInnerIndexPos (tb_index t) 1 = 1"
    by (rule two_dims_table[of "[107]" "[108]"]) (auto simp: row_column_def two_keys_entry_def)
  have e: "le_dimensions two_keys_entry = [(0, [107]), (1, [108])]" "length (le_ts_dimensions two_keys_entry) \<le> 1" "row_time two_keys_entry = 5"
    by (simp_all add: two_keys_entry_def row_time_def)
  obtain t' W where w: "MemTable_Put_entry t two_keys_entry = Some (True, t')" "table_ok t' W"
    "\<And>i key. table_rows t' W i key = (if map_of [(0, [107]), (1, [108])] (int i) = Some key then [(5, next_block t)] else [])"
    using Put_entry_rows[OF t(2), of two_keys_entry] t(3-5) e by (auto simp: dim_keys_def table_rows_def[of t] times_def time_insert_def)
  show ?thesis
    by (intro exI[of _ t] exI[of _ t'] exI[of _ W] exI[of _ "next_block t"]) (simp add: t(1) w)
qed

section \<open>Reads through an index\<close>

lemma NewIterator_ok:
  assumes ok: "table_ok t W" and q: "quiet t" and a: "TableIndex_GetIndex (tb_index t) idx = Some a" "idef (tb_index t) a = Some d"
    and d: "IsReady d" "ix_ts_column d = None" and s: "(ix_inner_pos d, seg_idx_of t pk) \<in> dom (segs t)"
    and rows: "table_rows t W (ix_inner_pos d) pk = xs" "xs \<noteq> []"
  shows "\<exists>it sg' ticket' it1 it2. let i = ix_inner_pos d; j = seg_idx_of t pk; t' = set_seg i j sg' t in
    MemTable_NewIterator t idx pk ticket = Some (Some (i, j, it), t', ticket') \<and> table_ok t' W \<and>
    mt_SeekToFirst sg' it = Some it1 \<and> mt_collect sg' it1 = Some (map (\<lambda>(t, b). (t, Some b)) xs) \<and>
    mt_Seek sg' it ts = Some it2 \<and> mt_collect sg' it2 = Some (map (\<lambda>(t, b). (t, Some b)) (filter (\<lambda>x. fst x \<le> ts) xs))"
proof -
  let ?i = "ix_inner_pos d" and ?j = "seg_idx_of t pk"
  obtain sg where sg: "seg_at t ?i ?j = Some sg" using s by (auto simp: segs_def)
  have h: "heap_ok t (\<lambda>_. 0) W" using ok by (simp add: table_ok_def)
  obtain e where e: "seg_ok sg (mt_blocks t) (\<lambda>b. 0 + e b) (fst (W (?i, ?j))) (snd (W (?i, ?j)))" "refocus t ?i ?j W e"
    by (rule heap_focus[OF h sg])
  obtain xss where "fst (W (?i, ?j)) pk = Some xss" using rows by (cases "fst (W (?i, ?j)) pk") (auto simp: table_rows_def times_def)
  moreover from this obtain xs' where "xss = [xs']" by (rule seg_ok_list[OF e(1)])
  ultimately have V: "fst (W (?i, ?j)) pk = Some [xs]" using rows(1) by (simp add: table_rows_def times_def)
  have "refs ke \<noteq> -1" if "kes sg k = Some ke" for k ke using q sg that by (auto simp: quiet_def)
  with Segment_NewIterator_ok[OF e(1) V, where ticket = "[]" and t = ts] obtain it sg' held it1 it2 where n: "Segment_NewIterator sg pk [] = Some (it, sg', held)"
    "seg_ok sg' (mt_blocks t) (\<lambda>b. 0 + e b) (fst (W (?i, ?j))) (snd (W (?i, ?j)))"
    "mt_SeekToFirst sg' it = Some it1" "mt_collect sg' it1 = Some (map (\<lambda>(t, b). (t, Some b)) xs)"
    "mt_Seek sg' it ts = Some it2" "mt_collect sg' it2 = Some (map (\<lambda>(t, b). (t, Some b)) (filter (\<lambda>x. fst x \<le> ts) xs))"
    by blast
  have "heap_ok ((set_seg ?i ?j sg' t)\<lparr>mt_blocks := mt_blocks t\<rparr>) (\<lambda>_. 0) (W((?i, ?j) := (fst (W (?i, ?j)), snd (W (?i, ?j)))))"
    by (rule refocusD[OF e(2) n(2)]) auto
  moreover have "(set_seg ?i ?j sg' t)\<lparr>mt_blocks := mt_blocks t\<rparr> = set_seg ?i ?j sg' t" by (simp add: set_seg_def)
  ultimately have "table_ok (set_seg ?i ?j sg' t) W" using ok by (simp add: table_ok_def)
  moreover have "ts_of d = None" using d(2) by (simp add: ts_of_def)
  then have "MemTable_NewIterator t idx pk ticket = Some (Some (?i, ?j, it), set_seg ?i ?j sg' t, ticket @ map (\<lambda>k. (?i, ?j, k)) held)"
    using a d(1) sg n(1) by (simp add: MemTable_NewIterator_def ready_index_def segment_iterator_def)
  ultimately show ?thesis using n(3-6) by (auto simp: Let_def)
qed

text \<open>The set of segments to which a dimension leads is that of its index.\<close>

lemma agree_place:
  assumes ag: "index_agree (tb_index t)" and w: "writable (\<lambda>c. c = None) t dims" and x: "(idx, key) \<in> set dims"
    and a: "TableIndex_GetIndex (tb_index t) idx = Some a"
  obtains d where "idef (tb_index t) a = Some d" "GetInnerIndexPos (tb_index t) idx = int (ix_inner_pos d)" "IsReady d" "ix_ts_column d = None"
    "ix_inner_pos d < length (segments t)" "segments t ! ix_inner_pos d \<noteq> None"
proof -
  obtain d ii where d: "idef (tb_index t) a = Some d" "GetInnerIndexPos (tb_index t) idx = int (ix_inner_pos d)"
      "GetInnerIndex (tb_index t) (ix_inner_pos d) = Some ii" "a \<in> set (ii_index ii)"
    using ag a unfolding index_agree_def by blast
  obtain p where "GetInnerIndexPos (tb_index t) idx = int p" "single_ready (\<lambda>c. c = None) (tb_index t) p" "p < length (segments t)" "segments t ! p \<noteq> None"
    using w x by (fastforce simp: writable_def)
  then have p: "single_ready (\<lambda>c. c = None) (tb_index t) (ix_inner_pos d)" "ix_inner_pos d < length (segments t)" "segments t ! ix_inner_pos d \<noteq> None"
    using d(2) by simp_all
  show ?thesis by (rule that[OF d(1,2) _ _ p(2,3)]) (use p(1) d in \<open>auto simp: single_ready_def\<close>)
qed

lemma Put_dims_ok:
  assumes "table_ok t W" "writable (\<lambda>c. c = None) t dims"
  shows "\<exists>t1 W1. MemTable_Put_dims t time v dims = Some (True, t1) \<and> table_ok t1 W1 \<and>
    mt_blocks t1 = (mt_blocks t)(next_block t \<mapsto> new_DataBlock (of_nat (card (fst ` set (dim_keys (tb_index t) dims)))) v (of_nat (length v))) \<and>
    tb_index t1 = tb_index t \<and> seg_cnt t1 = seg_cnt t \<and> dom (segs t1) = dom (segs t) \<and> enable_gc t1 = enable_gc t \<and>
    tb_update_ttl t1 = tb_update_ttl t \<and> (quiet t \<longrightarrow> quiet t1) \<and>
    (\<forall>i key. table_rows t1 W1 i key = (if map_of (dim_keys (tb_index t) dims) (int i) = Some key
      then time_insert time (next_block t) (table_rows t W i key) else table_rows t W i key))"
proof -
  have "count_plain (tb_index t) a n = Some (True, Suc n)" if "idef (tb_index t) a = Some d" "IsReady d" "ix_ts_column d = None" for a d n
    using that by (simp add: count_plain_def)
  then show ?thesis
    using put_row_ok[OF assms, where v = v and f = "count_plain (tb_index t)" and put = "\<lambda>sg key b. Segment_Put sg key time b" and time = time]
    unfolding MemTable_Put_dims_def by blast
qed

text \<open>C11: a row that was written can be read through each of its dimensions.  The places of keys and indexes agree, no
  entry is held by a reader, every dimension leads to a set of segments with exactly one index, ready and without a
  time column, and no two dimensions lead to the same set (of two that do only the first key is written).  Then the
  iterator of the dimension's index reads the rows of the key with
  the new one among them, and its block has the bytes that were written.\<close>

theorem Put_then_read:
  assumes ok: "table_ok t W" and q: "quiet t" and ag: "index_agree (tb_index t)"
    and w: "writable (\<lambda>c. c = None) t dims" "distinct (map fst (dim_keys (tb_index t) dims))"
    and x: "(idx, key) \<in> set dims" "TableIndex_GetIndex (tb_index t) idx \<noteq> None" and v: "length v < 2 ^ 32"
  shows "\<exists>t1 t2 ticket i j it it1 sg d. MemTable_Put_dims t time v dims = Some (True, t1) \<and>
    MemTable_NewIterator t1 idx key [] = Some (Some (i, j, it), t2, ticket) \<and> seg_at t2 i j = Some sg \<and>
    mt_SeekToFirst sg it = Some it1 \<and>
    mt_collect sg it1 = Some (map (\<lambda>(t, b). (t, Some b)) (time_insert time (next_block t) (table_rows t W i key))) \<and>
    mt_blocks t2 (next_block t) = Some d \<and> blk_data d = v"
proof -
  let ?ti = "tb_index t" and ?ks = "dim_keys (tb_index t) dims"
  obtain a where a: "TableIndex_GetIndex ?ti idx = Some a" using x(2) by blast
  obtain d where d: "idef ?ti a = Some d" "GetInnerIndexPos ?ti idx = int (ix_inner_pos d)" and r: "IsReady d" "ix_ts_column d = None"
      and p: "ix_inner_pos d < length (segments t)" "segments t ! ix_inner_pos d \<noteq> None"
    by (rule agree_place[OF ag w(1) x(1) a])
  let ?i = "ix_inner_pos d" and ?j = "seg_idx_of t key"

  obtain t1 W1 where t1: "MemTable_Put_dims t time v dims = Some (True, t1)" "table_ok t1 W1"
      "mt_blocks t1 = (mt_blocks t)(next_block t \<mapsto> new_DataBlock (of_nat (card (fst ` set ?ks))) v (of_nat (length v)))"
      "tb_index t1 = ?ti" "seg_cnt t1 = seg_cnt t" "dom (segs t1) = dom (segs t)" "quiet t1"
      "\<And>i key. table_rows t1 W1 i key = (if map_of ?ks (int i) = Some key then time_insert time (next_block t) (table_rows t W i key) else table_rows t W i key)"
    using Put_dims_ok[OF ok w(1), of time v] q by blast
  have "(int ?i, key) \<in> set ?ks" using x(1) d(2) by (force simp: dim_keys_def)
  then have "map_of ?ks (int ?i) = Some key" using w(2) by simp
  then have rows: "table_rows t1 W1 ?i key = time_insert time (next_block t) (table_rows t W ?i key)" using t1(8) by simp
  then have ne: "table_rows t1 W1 ?i key \<noteq> []" by (simp add: time_insert_def)
  have si: "seg_idx_of t1 = seg_idx_of t" by (rule seg_idx_cong[OF t1(5)])
  have h: "heap_ok t (\<lambda>_. 0) W" using ok by (simp add: table_ok_def)
  have s: "(?i, seg_idx_of t1 key) \<in> dom (segs t1)" using segs_dom[OF h p, of key] by (simp add: si t1(6))
  obtain sg where sg: "seg_at t1 ?i (seg_idx_of t1 key) = Some sg" using s by (auto simp: segs_def)
  obtain it sg' ticket it1 where n: "MemTable_NewIterator t1 idx key [] = Some (Some (?i, seg_idx_of t1 key, it), set_seg ?i (seg_idx_of t1 key) sg' t1, ticket)"
    "mt_SeekToFirst sg' it = Some it1" "mt_collect sg' it1 = Some (map (\<lambda>(t, b). (t, Some b)) (table_rows t1 W1 ?i key))"
    using NewIterator_ok[OF t1(2,7) _ _ r s refl ne, where a = a and idx = idx and ticket = "[]" and ts = 0] a d(1) t1(4) by (auto simp: Let_def)
  have "unat (of_nat (length v) :: 32 word) = length v" using v by (simp add: unat_of_nat)
  then show ?thesis using t1(1,3) n rows seg_at_set[OF sg, of sg' ?i "seg_idx_of t1 key"]
    by (intro exI[of _ t1] exI[of _ "set_seg ?i (seg_idx_of t1 key) sg' t1"] exI[of _ ticket] exI[of _ ?i] exI[of _ "seg_idx_of t1 key"]
        exI[of _ it] exI[of _ it1] exI[of _ sg'] exI[of _ "new_DataBlock (of_nat (card (fst ` set ?ks))) v (of_nat (length v))"])
      (simp add: new_DataBlock_def)
qed

theorem Put_then_read_witness:
  "\<exists>t t1 t2 i j it ticket sg it1 b. MemTable_Init some_flags (new_MemTable_meta two_dims) = Some (True, t) \<and>
    MemTable_Put_dims t 5 [1, 2, 3] [(0, [107]), (1, [108])] = Some (True, t1) \<and>
    MemTable_NewIterator t1 1 [108] [] = Some (Some (i, j, it), t2, ticket) \<and> seg_at t2 i j = Some sg \<and>
    mt_SeekToFirst sg it = Some it1 \<and> mt_collect sg it1 = Some [(5, Some b)] \<and> map_option blk_data (mt_blocks t2 b) = Some [1, 2, 3]"
proof -
  obtain t where t: "MemTable_Init some_flags (new_MemTable_meta two_dims) = Some (True, t)" "table_ok t (\<lambda>_. (Map.empty, []))" "quiet t"
      "index_agree (tb_index t)" "writable (\<lambda>c. c = None) t [(0, [107]), (1, [108])]"
    and i: "GetInnerIndexPos (tb_index t) 0 = 0" "GetInnerIndexPos (tb_index t) 1 = 1" "indexs (tb_index t) = [0, 1]" "multi_ts_indexs (tb_index t) = []"
    by (rule two_dims_table[of "[107]" "[108]"]) auto
  have d: "distinct (map fst (dim_keys (tb_index t) [(0, [107]), (1, [108])]))" using i by (simp add: dim_keys_def)
  have g: "TableIndex_GetIndex (tb_index t) 1 \<noteq> None" using i by (simp add: TableIndex_GetIndex_def)
  have e: "time_insert 5 b (table_rows t (\<lambda>_. (Map.empty, [])) i k) = [(5, b)]" for b i k by (simp add: table_rows_def times_def time_insert_def)
  show ?thesis
    using Put_then_read[OF t(2-5) d, of 1 "[108]" "[1, 2, 3]" 5] g t(1) unfolding e by fastforce
qed

end
