(* ===== verification/Mem_Table_Gc.thy ===== *)
theory Mem_Table_Gc
  imports Mem_Table_Props
begin

text \<open>
  The collection of a table in memory: \<open>SchedGc\<close> leaves the rows that are alive under the setting of their index.
\<close>

section \<open>What freeing the removed keys leaves alone\<close>

definition frees :: "segment \<Rightarrow> segment \<Rightarrow> bool" where
  "frees sg sg' \<longleftrightarrow> ttl_offset sg' = ttl_offset sg \<and> ts_cnt sg' = ts_cnt sg \<and>
     (\<forall>k ke'. kes sg' k = Some ke' \<longrightarrow> (\<exists>ke. kes sg k = Some ke \<and> refs ke' = refs ke))"

lemma frees_refl: "ttl_offset sg' = ttl_offset sg \<Longrightarrow> ts_cnt sg' = ts_cnt sg \<Longrightarrow> kes sg' = kes sg \<Longrightarrow> frees sg sg'"
  by (simp add: frees_def)

lemma frees_trans: "frees sg sg1 \<Longrightarrow> frees sg1 sg2 \<Longrightarrow> frees sg sg2"
  unfolding frees_def by fastforce

lemma FreeList_frees: "FreeList sg bs c k node = Some (sg', bs', c') \<Longrightarrow> frees sg sg'"
  by (auto simp: FreeList_def bind_eq_Some_conv frees_def split: if_splits)

lemma set_entries_frees: "set_entries sg k es = Some sg' \<Longrightarrow> frees sg sg'"
  by (auto simp: set_entries_def bind_eq_Some_conv frees_def split: if_splits)

lemma FreeEntry_one_frees:
  assumes "FreeEntry_one sg bs c k = Some (sg', bs', c')"
  shows "frees sg sg'"
proof -
  have nodes: "frees sg sg1" if n: "(if it_Valid it then do {
          ts \<leftarrow> it_GetKey (kentries ke) it;
          (data_node, es) \<leftarrow> Split (kentries ke) ts;
          sg0 \<leftarrow> set_entries sg k es;
          FreeList sg0 bs c k data_node }
        else Some (sg, bs, c)) = Some (sg1, bs1, c1)" for ke it sg1 bs1 c1
  proof (cases "it_Valid it")
    case True
    then obtain es node sg0 where "set_entries sg k es = Some sg0" "FreeList sg0 bs c k node = Some (sg1, bs1, c1)"
      using n by (auto simp: bind_eq_Some_conv)
    then show ?thesis using set_entries_frees FreeList_frees frees_trans by blast
  qed (use n in \<open>auto intro: frees_refl\<close>)
  have "frees sg1 (sg1\<lparr>kes := (kes sg1)(k := None)\<rparr>)" for sg1 by (simp add: frees_def)
  then show ?thesis using assms nodes frees_trans unfolding FreeEntry_one_def bind_eq_Some_conv by (auto split: prod.splits) blast
qed

lemma walk_frame:
  assumes "walk body s node = Some s'" "\<And>s. R s s" "\<And>a b c. R a b \<Longrightarrow> R b c \<Longrightarrow> R a c"
    "\<And>s node n s'. body s node = Some (n, s') \<Longrightarrow> R s s'"
  shows "R s s'"
proof -
  have "(\<forall>s node n s'. body s node = Some (n, s') \<longrightarrow> R s s') \<longrightarrow> R s s'"
  proof (rule walk.raw_induct[where P = "\<lambda>body s _ s'. (\<forall>s node n s'. body s node = Some (n, s') \<longrightarrow> R s s') \<longrightarrow> R s s'", OF _ assms(1)])
    fix walk body s node s'
    assume h: "\<And>body s node s'. walk body s node = Some s' \<Longrightarrow> (\<forall>s node n s'. body s node = Some (n, s') \<longrightarrow> R s s') \<longrightarrow> R s s'"
      "(if node = None then Some s else do { (n, s') \<leftarrow> body s node; walk body s' n }) = Some s'"
    show "(\<forall>s node n s'. body s node = Some (n, s') \<longrightarrow> R s s') \<longrightarrow> R s s'"
    proof (cases "node = None")
      case False
      then obtain n s1 where "body s node = Some (n, s1)" "walk body s1 n = Some s'"
        using h(2) by (auto simp: bind_eq_Some_conv)
      then show ?thesis using h(1)[of body s1 n s'] assms(3) by blast
    qed (use h(2) assms(2) in auto)
  qed
  then show ?thesis using assms(4) by blast
qed

lemma FreeEntry_frees:
  assumes one: "ts_cnt sg = 1" and "FreeEntry sg bs c node = Some (sg', bs', c')"
  shows "frees sg sg'"
proof (cases "node = None")
  case False
  then obtain k sg1 bs1 c1 where 1: "FreeEntry_one sg bs c k = Some (sg1, bs1, c1)" "ttl_offset sg' = ttl_offset sg1" "ts_cnt sg' = ts_cnt sg1" "kes sg' = kes sg1"
    using assms by (auto simp: FreeEntry_def bind_eq_Some_conv)
  show ?thesis by (rule frees_trans[OF FreeEntry_one_frees[OF 1(1)] frees_refl[OF 1(2-4)]])
qed (use assms frees_refl in \<open>auto simp: FreeEntry_def\<close>)

lemma GcFreeList_frees:
  assumes one: "ts_cnt sg = 1" and g: "GcFreeList delta sg bs c = Some (sg', bs', c')"
  shows "frees sg sg'"
proof (cases "gc_version sg < delta")
  case False
  then obtain node fl where w: "walk GcEntryFreeList_step (sg\<lparr>entry_free_list := fl\<rparr>, bs, c) node = Some (sg', bs', c')"
    using g by (auto simp: GcFreeList_def GcEntryFreeList_def bind_eq_Some_conv)
  let ?R = "\<lambda>s s'. ts_cnt (fst s) = 1 \<longrightarrow> frees (fst s) (fst s')"
  have "?R (sg\<lparr>entry_free_list := fl\<rparr>, bs, c) (sg', bs', c')"
  proof (rule walk_frame[OF w])
    show "?R s s'" if n: "GcEntryFreeList_step s node = Some (nx, s')" for s node nx s'
    proof (cases s)
      case (fields sg1 bs1 c1)
      then obtain entry_node sg2 bs2 c2 where f: "FreeEntry sg1 bs1 c1 entry_node = Some (sg2, bs2, c2)"
          "ttl_offset (fst s') = ttl_offset sg2" "ts_cnt (fst s') = ts_cnt sg2" "kes (fst s') = kes sg2"
        using n by (auto simp: GcEntryFreeList_step_def bind_eq_Some_conv)
      then show ?thesis using FreeEntry_frees[OF _ f(1)] fields frees_trans frees_refl by (metis fst_conv)
    qed
    show "?R s s''" if "?R s s'" "?R s' s''" for s s' s'' :: gc_state
      using that frees_trans[of "fst s" "fst s'" "fst s''"] by (auto simp: frees_def)
  qed (simp add: frees_refl)
  then show ?thesis using one by (simp add: frees_def)
qed (use g in \<open>auto simp: GcFreeList_def intro: frees_refl\<close>)

section \<open>One segment\<close>

text \<open>The setting under which the rows of a segment are collected.\<close>

definition gc_setting :: "64 word \<Rightarrow> segment \<Rightarrow> TTLSt \<Rightarrow> TTLSt" where
  "gc_setting now sg ttl = at_time now (ttl_offset sg) ttl"

definition gc_allowed :: "64 word \<Rightarrow> segment \<Rightarrow> TTLSt \<Rightarrow> bool" where
  "gc_allowed now sg ttl \<longleftrightarrow> ttl_type ttl \<noteq> kRelativeTime \<and> (abs_ttl ttl \<noteq> 0 \<longrightarrow> now \<noteq> ttl_offset sg + abs_ttl ttl)"

lemma seg_ok_version: "seg_ok (IncrGcVersion sg) bs ext V D = seg_ok sg bs ext V D"
proof -
  have o: "own (IncrGcVersion sg) = own sg" by (rule own_cong) (simp add: IncrGcVersion_def)
  have "seg_st (IncrGcVersion sg) bs ext as vs T = seg_st sg bs ext as vs T" for as vs T
    unfolding seg_st_def o by (subst seg_rep_cong[where sg = sg]) (simp_all add: IncrGcVersion_def)
  moreover have "seg_view (IncrGcVersion sg) as T = seg_view sg as T" for as T
    unfolding seg_view_def[abs_def] find_node_def o by (simp add: IncrGcVersion_def)
  moreover have "removed_view (IncrGcVersion sg) vs T = removed_view sg vs T" for vs T
    by (simp add: removed_view_def o)
  ultimately show ?thesis by (simp add: seg_ok_def)
qed

lemma not_held: "(\<And>k ke. kes sg k = Some ke \<Longrightarrow> refs ke = 0) \<Longrightarrow> held sg = (\<lambda>_. False)"
  by (intro ext) (auto simp: held_def split: option.splits list.splits)

lemma segment_gc:
  assumes ok: "seg_ok sg bs ext V D" and a: "gc_allowed now sg ttl" and len: "\<And>key xs. V key = Some [xs] \<Longrightarrow> length xs < 2 ^ 32"
    and q: "\<And>k ke. kes sg k = Some ke \<Longrightarrow> refs ke = 0"
  shows "\<exists>sg1 bs1 c1 sg2 bs2 c2 D'. GcFreeList delta (IncrGcVersion sg) bs c = Some (sg1, bs1, c1) \<and> ExecuteGc now ttl (sg1, bs1, c1) = Some (sg2, bs2, c2) \<and>
    seg_ok sg2 bs2 ext (live_view (gc_setting now sg ttl) (\<lambda>_. False) V) D' \<and> shrunk bs bs2 \<and>
    gc_record_cnt c2 = gc_record_cnt c + of_nat (card (dom bs - dom bs2))"
proof -
  let ?sg = "IncrGcVersion sg"
  have ok0: "seg_ok ?sg bs ext V D" using ok by (simp add: seg_ok_version)
  obtain sg1 bs1 c1 D1 where 1: "GcFreeList delta ?sg bs c = Some (sg1, bs1, c1)" "seg_ok sg1 bs1 ext V D1" "shrunk bs bs1"
      "gc_record_cnt c1 = gc_record_cnt c + of_nat (card (dom bs - dom bs1))"
    using GcEntryFreeList_ok[OF ok0, of c "gc_version ?sg - delta"] ok0 by (cases "gc_version ?sg < delta") (auto simp: GcFreeList_def)
  have "ts_cnt ?sg = 1" using ok0 by (auto simp: seg_ok_def seg_st_def)
  then have f: "frees ?sg sg1" using 1(1) by (rule GcFreeList_frees)
  then have off: "ttl_offset sg1 = ttl_offset sg" by (simp add: frees_def IncrGcVersion_def)
  have h: "held sg1 = (\<lambda>_. False)"
  proof (rule not_held)
    fix k ke
    assume "kes sg1 k = Some ke"
    then obtain ke0 where "kes ?sg k = Some ke0" "refs ke = refs ke0" using f unfolding frees_def by blast
    then show "refs ke = 0" using q[of k ke0] by (simp add: IncrGcVersion_def)
  qed
  have "gc_to (ExecuteGc now ttl (sg1, bs1, c1)) sg1 bs1 c1 ext V D1 (live_view (gc_setting now sg ttl) (\<lambda>_. False) V)"
    unfolding gc_setting_def off[symmetric] h[symmetric]
    by (rule ExecuteGc_live[OF 1(2)]) (use a len off in \<open>auto simp: gc_allowed_def\<close>)
  then obtain sg2 bs2 c2 D' where 2: "ExecuteGc now ttl (sg1, bs1, c1) = Some (sg2, bs2, c2)"
      "seg_ok sg2 bs2 ext (live_view (gc_setting now sg ttl) (\<lambda>_. False) V) D'" "shrunk bs1 bs2"
      "gc_record_cnt c2 = gc_record_cnt c1 + of_nat (card (dom bs1 - dom bs2))"
    unfolding gc_to_def by blast
  then have "shrunk bs bs2" "gc_record_cnt c2 = gc_record_cnt c + of_nat (card (dom bs - dom bs2))"
    using shrunk_trans[OF 1(3) 2(3)] 1(4) by simp_all
  then show ?thesis using 1(1) 2(1,2) by blast
qed

section \<open>The whole table\<close>

text \<open>The setting of a set of segments with one index.\<close>

definition set_ttl :: "table_index \<Rightarrow> nat \<Rightarrow> TTLSt option" where
  "set_ttl ti i = (case GetInnerIndex ti i of None \<Rightarrow> None
     | Some ii \<Rightarrow> (case ii_index ii of
         [a] \<Rightarrow> (case idef ti a of Some d \<Rightarrow> if ix_status d = kReady then ix_ttl d else None | None \<Rightarrow> None)
       | _ \<Rightarrow> None))"

text \<open>The rows of the segments of \<open>P\<close> have been collected.\<close>

definition collected ::
    "(nat \<Rightarrow> nat \<Rightarrow> 64 word) \<Rightarrow> (nat \<Rightarrow> TTLSt) \<Rightarrow> (nat \<times> nat) set \<Rightarrow> mem_table \<Rightarrow> (nat \<times> nat \<Rightarrow> view \<times> removed) \<Rightarrow>
     (nat \<times> nat \<Rightarrow> view \<times> removed) \<Rightarrow> mem_table \<times> gc_counts \<Rightarrow> bool" where
  "collected clock ttl P t0 W0 W = (\<lambda>(t, c). heap_ok t (\<lambda>_. 0) W \<and>
     tb_index t = tb_index t0 \<and> seg_cnt t = seg_cnt t0 \<and> enable_gc t = enable_gc t0 \<and> tb_update_ttl t = tb_update_ttl t0 \<and>
     record_cnt t = record_cnt t0 \<and> shrunk (mt_blocks t0) (mt_blocks t) \<and>
     gc_record_cnt c = of_nat (card (dom (mt_blocks t0) - dom (mt_blocks t))) \<and>
     (\<forall>p. if p \<in> P then fst (W p) = live_view (gc_setting (clock (fst p) (snd p)) (the (segs t0 p)) (ttl (fst p))) (\<lambda>_. False) (fst (W0 p))
        else segs t p = segs t0 p \<and> W p = W0 p))"

lemma collectedD:
  assumes "collected clock ttl P t0 W0 W (t, c)"
  shows "heap_ok t (\<lambda>_. 0) W" "tb_index t = tb_index t0" "seg_cnt t = seg_cnt t0" "enable_gc t = enable_gc t0"
    "tb_update_ttl t = tb_update_ttl t0" "record_cnt t = record_cnt t0" "shrunk (mt_blocks t0) (mt_blocks t)"
    "gc_record_cnt c = of_nat (card (dom (mt_blocks t0) - dom (mt_blocks t)))"
    "\<And>p. p \<in> P \<Longrightarrow> fst (W p) = live_view (gc_setting (clock (fst p) (snd p)) (the (segs t0 p)) (ttl (fst p))) (\<lambda>_. False) (fst (W0 p))"
    "\<And>p. p \<notin> P \<Longrightarrow> segs t p = segs t0 p" "\<And>p. p \<notin> P \<Longrightarrow> W p = W0 p"
  using assms unfolding collected_def prod.case by meson+

lemma live_view_dom: "live_view ttl h V key \<noteq> None \<Longrightarrow> V key \<noteq> None"
  by (auto simp: live_view_def split: if_splits option.splits)

lemma gc_segment_ok:
  assumes C: "collected clock ttl P t0 W0 W (t, c)" and p: "(i, j) \<notin> P" "seg_at t0 i j = Some sg" and q: "quiet t0"
    and a: "gc_allowed (clock i j) sg (ttl i)" and len: "\<And>key xs. fst (W0 (i, j)) key = Some [xs] \<Longrightarrow> length xs < 2 ^ 32"
  shows "\<exists>s' W'. gc_segment fl (clock i) i [(x, ttl i)] j (t, c) = Some s' \<and> collected clock ttl (insert (i, j) P) t0 W0 W' s'"
proof -
  note C' = collectedD[OF C]
  have sg: "seg_at t i j = Some sg" using C'(10)[OF p(1)] p(2) by (simp add: segs_def)
  have W: "W (i, j) = W0 (i, j)" using C'(11)[OF p(1)] .
  obtain e where e: "seg_ok sg (mt_blocks t) (\<lambda>b. 0 + e b) (fst (W (i, j))) (snd (W (i, j)))" "refocus t i j W e"
    by (rule heap_focus[OF C'(1) sg])
  have "refs ke = 0" if "kes sg k = Some ke" for k ke using q p(2) that by (auto simp: quiet_def)
  then obtain sg1 bs1 c1 sg2 bs2 c2 D' where g:
      "GcFreeList (gc_deleted_pk_version_delta fl) (IncrGcVersion sg) (mt_blocks t) c = Some (sg1, bs1, c1)"
      "ExecuteGc (clock i j) (ttl i) (sg1, bs1, c1) = Some (sg2, bs2, c2)"
      "seg_ok sg2 bs2 (\<lambda>b. 0 + e b) (live_view (gc_setting (clock i j) sg (ttl i)) (\<lambda>_. False) (fst (W (i, j)))) D'"
      "shrunk (mt_blocks t) bs2" "gc_record_cnt c2 = gc_record_cnt c + of_nat (card (dom (mt_blocks t) - dom bs2))"
    using segment_gc[OF e(1) a, of "gc_deleted_pk_version_delta fl" c] len W by metis
  let ?V = "live_view (gc_setting (clock i j) sg (ttl i)) (\<lambda>_. False) (fst (W (i, j)))"
  let ?t = "(set_seg i j sg2 t)\<lparr>mt_blocks := bs2\<rparr>" and ?W = "W((i, j) := (?V, D'))"
  have h: "heap_ok ?t (\<lambda>_. 0) ?W"
    by (rule refocusD[OF e(2) g(3) shrunk_dom[OF g(4)]]) (use live_view_dom in blast)
  have b: "shrunk (mt_blocks t0) bs2" "gc_record_cnt c2 = of_nat (card (dom (mt_blocks t0) - dom bs2))"
    using shrunk_trans[OF C'(7) g(4)] g(5) C'(8) by simp_all
  have s: "segs ?t = (segs t)((i, j) \<mapsto> sg2)" using segs_set[of t i j sg sg2] sg by (simp add: segs_def)
  have v: "fst (?W p') = live_view (gc_setting (clock (fst p') (snd p')) (the (segs t0 p')) (ttl (fst p'))) (\<lambda>_. False) (fst (W0 p'))"
    if "p' \<in> insert (i, j) P" for p'
    using that C'(9)[of p'] p W by (cases "p' = (i, j)") (auto simp: segs_def)
  have "collected clock ttl (insert (i, j) P) t0 W0 ?W (?t, c2)"
    unfolding collected_def prod.case
  proof (intro conjI allI)
    fix p'
    show "if p' \<in> insert (i, j) P then fst (?W p') = live_view (gc_setting (clock (fst p') (snd p')) (the (segs t0 p')) (ttl (fst p'))) (\<lambda>_. False) (fst (W0 p'))
        else segs ?t p' = segs t0 p' \<and> ?W p' = W0 p'"
      using v C'(10,11)[of p'] s by auto
  qed (use h b C' in \<open>simp_all add: set_seg_def\<close>)
  moreover have "gc_segment fl (clock i) i [(x, ttl i)] j (t, c) = Some (?t, c2)" using sg g(1,2) by (simp add: gc_segment_def)
  ultimately show ?thesis by blast
qed

text \<open>
  A table that can be collected: no waiting setting, no entry in the hands of a reader, every set of segments with one
  ready index, and no clock at the value where the newest expired time would be zero, which stands for no limit.
\<close>

definition gc_ready :: "(nat \<Rightarrow> nat \<Rightarrow> 64 word) \<Rightarrow> mem_table \<Rightarrow> (nat \<times> nat \<Rightarrow> view \<times> removed) \<Rightarrow> bool" where
  "gc_ready clock t W \<longleftrightarrow> enable_gc t \<and> tb_update_ttl t = [] \<and> quiet t \<and>
     (\<forall>i<length (inner_indexs (tb_index t)). \<exists>ttl. set_ttl (tb_index t) i = Some ttl \<and> i < length (segments t) \<and> segments t ! i \<noteq> None \<and>
       (\<forall>j sg. seg_at t i j = Some sg \<longrightarrow> gc_allowed (clock i j) sg ttl)) \<and>
     (\<forall>i key. length (table_rows t W i key) < 2 ^ 32)"

lemma set_ttl_status:
  assumes "set_ttl ti i = Some ttl" "tb_index t = ti"
  obtains x where "i < length (inner_indexs ti)" "length (ii_index (inner_indexs ti ! i)) = 1"
    "foldM (gc_status i 1) (ii_index (inner_indexs ti ! i)) ([], True, 0, t, c) = Some ([(x, ttl)], True, 0, t, c)"
  using assms
  by (auto simp: set_ttl_def GetInnerIndex_def gc_status_def Let_def split: option.splits list.splits if_splits)

lemma gc_inner_ok:
  assumes C: "collected clock ttl ({..<i} \<times> {..<seg_cnt t0}) t0 W0 W (t, c)" and h: "heap_ok t0 (\<lambda>_. 0) W0" and r: "gc_ready clock t0 W0"
    and i: "i < length (inner_indexs (tb_index t0))" "set_ttl (tb_index t0) i = Some (ttl i)"
  shows "\<exists>s' W'. gc_inner fl clock (i, inner_indexs (tb_index t0) ! i) (t, c) = Some s' \<and> collected clock ttl ({..<Suc i} \<times> {..<seg_cnt t0}) t0 W0 W' s'"
proof -
  note C' = collectedD[OF C]
  obtain x where x: "length (ii_index (inner_indexs (tb_index t0) ! i)) = 1"
    "foldM (gc_status i 1) (ii_index (inner_indexs (tb_index t0) ! i)) ([], True, 0, t, c) = Some ([(x, ttl i)], True, 0, t, c)"
    using set_ttl_status[OF i(2) C'(2), where c = c] by metis
  have g: "gc_inner fl clock (i, inner_indexs (tb_index t0) ! i) (t, c) = foldM (gc_segment fl (clock i) i [(x, ttl i)]) [0..<seg_cnt t0] (t, c)"
    using x r C'(3,4) by (simp add: gc_inner_def gc_ready_def)
  obtain arr where arr: "i < length (segments t0)" "segments t0 ! i = Some arr" and
      al: "\<And>j sg. seg_at t0 i j = Some sg \<Longrightarrow> gc_allowed (clock i j) sg (ttl i)"
    using r i unfolding gc_ready_def by fastforce
  then have "length arr = seg_cnt t0" using heap_okD(3)[OF h] nth_mem[OF arr(1)] by simp
  then have at: "seg_at t0 i j = Some (arr ! j)" if "j < seg_cnt t0" for j using arr that by (auto simp: seg_at_Some)
  let ?P = "\<lambda>j. {..<i} \<times> {..<seg_cnt t0} \<union> {i} \<times> {..<j}"
  have "\<exists>s'. foldM (gc_segment fl (clock i) i [(x, ttl i)]) [0..<seg_cnt t0] (t, c) = Some s' \<and> (\<exists>W'. collected clock ttl (?P (seg_cnt t0)) t0 W0 W' s')"
  proof (rule foldM_upt_rule[where I = "\<lambda>j s. \<exists>W'. collected clock ttl (?P j) t0 W0 W' s"])
    show "\<exists>W'. collected clock ttl (?P 0) t0 W0 W' (t, c)" using C by auto
    fix j s
    assume j: "j < seg_cnt t0" and "\<exists>W'. collected clock ttl (?P j) t0 W0 W' s"
    then obtain W' t1 c1 where 1: "s = (t1, c1)" "collected clock ttl (?P j) t0 W0 W' (t1, c1)" by (cases s) auto
    have "insert (i, j) (?P j) = ?P (Suc j)" by auto
    moreover have "length xs < 2 ^ 32" if "fst (W0 (i, j)) key = Some [xs]" for key xs
    proof -
      have "table_rows t0 W0 i key = xs" using that heap_okD(6)[OF h, of i j key] at[OF j] by (simp add: table_rows_def times_def)
      then show ?thesis using r unfolding gc_ready_def by blast
    qed
    ultimately show "\<exists>s'. gc_segment fl (clock i) i [(x, ttl i)] j s = Some s' \<and> (\<exists>W'. collected clock ttl (?P (Suc j)) t0 W0 W' s')"
      using gc_segment_ok[OF 1(2) _ at[OF j] _ al[OF at[OF j]], of fl x] r 1(1) by (auto simp: gc_ready_def)
  qed simp
  moreover have "?P (seg_cnt t0) = {..<Suc i} \<times> {..<seg_cnt t0}" by auto
  ultimately show ?thesis unfolding g by auto
qed

lemma heap_ok_cong:
  assumes "segments t' = segments t" "mt_blocks t' = mt_blocks t" "seg_cnt t' = seg_cnt t" "next_block t' = next_block t"
  shows "heap_ok t' = heap_ok t" "seg_idx_of t' = seg_idx_of t"
proof -
  have "seg_at t' = seg_at t" by (intro ext) (simp add: seg_at_def assms(1))
  then have "segs t' = segs t" by (simp add: segs_def)
  then show "heap_ok t' = heap_ok t" "seg_idx_of t' = seg_idx_of t"
    using \<open>seg_at t' = seg_at t\<close> seg_idx_cong[OF assms(3)] by (intro ext, simp_all add: heap_ok_def assms)
qed

lemma UpdateTTL_none: "tb_update_ttl t = [] \<Longrightarrow> UpdateTTL t = Some (t\<lparr>tb_index := tb_index t, tb_update_ttl := []\<rparr>)"
  by (simp add: UpdateTTL_def)

lemma live_times:
  assumes ok: "heap_ok t out W" and sg: "seg_at t i j = Some sg"
  shows "times (live_view ttl (\<lambda>_. False) (fst (W (i, j)))) key = alive ttl (times (fst (W (i, j))) key)"
proof -
  obtain e where e: "seg_ok sg (mt_blocks t) (\<lambda>b. out b + e b) (fst (W (i, j))) (snd (W (i, j)))" by (rule heap_focus[OF ok sg])
  show ?thesis
  proof (cases "fst (W (i, j)) key")
    case (Some xss)
    then obtain xs where "xss = [xs]" by (rule seg_ok_list[OF e])
    then show ?thesis using Some by (auto simp: times_def live_view_def Let_def)
  qed (simp add: times_def live_view_def alive_def)
qed

lemma gc_table_ok:
  assumes h: "heap_ok t (\<lambda>_. 0) W" and r: "gc_ready clock t W"
  defines "ttl \<equiv> \<lambda>i. the (set_ttl (tb_index t) i)"
  shows "\<exists>t1 c W'. foldM (gc_inner fl clock) (enumerate 0 (inner_indexs (tb_index t))) (t, no_counts) = Some (t1, c) \<and>
    collected clock ttl ({..<length (inner_indexs (tb_index t))} \<times> {..<seg_cnt t}) t W W' (t1, c)"
proof -
  let ?ti = "tb_index t" and ?P = "\<lambda>i. {..<i} \<times> {..<seg_cnt t}"
  have "\<exists>s'. foldM (gc_inner fl clock) (enumerate 0 (inner_indexs ?ti)) (t, no_counts) = Some s' \<and>
      (\<exists>W'. collected clock ttl (?P (length (enumerate 0 (inner_indexs ?ti)))) t W W' s')"
  proof (rule foldM_list_rule[where I = "\<lambda>i s. \<exists>W'. collected clock ttl (?P i) t W W' s"])
    show "\<exists>W'. collected clock ttl (?P 0) t W W' (t, no_counts)" using h by (auto simp: collected_def no_counts_def)
    fix i s
    assume i: "i < length (enumerate 0 (inner_indexs ?ti))" and "\<exists>W'. collected clock ttl (?P i) t W W' s"
    then obtain W' t1 c1 where 1: "s = (t1, c1)" "collected clock ttl (?P i) t W W' (t1, c1)" by (cases s) auto
    have "i < length (inner_indexs ?ti)" "set_ttl ?ti i = Some (ttl i)" using i r by (auto simp: gc_ready_def ttl_def)
    then show "\<exists>s'. gc_inner fl clock (enumerate 0 (inner_indexs ?ti) ! i) s = Some s' \<and> (\<exists>W'. collected clock ttl (?P (Suc i)) t W W' s')"
      using gc_inner_ok[OF 1(2) h r, of fl] 1(1) by (auto simp: nth_enumerate_eq)
  qed
  then show ?thesis by auto
qed

text \<open>C14: collection always returns on a table that can be collected: collection is enabled, no setting waits to be
  taken over, no reader holds an entry, and every set has one ready index, whose setting is not
  \<open>kRelativeTime\<close>.  It leaves the table well formed with exact counts
  of references and of records, and the rows of every key are then exactly those that are alive under the setting of
  the index, at the clock of the segment; no remaining row changes its bytes.\<close>

theorem SchedGc_alive:
  assumes ok: "table_ok t W" and r: "gc_ready clock t W"
  shows "\<exists>t' W'. SchedGc fl clock t = Some t' \<and> table_ok t' W' \<and> shrunk (mt_blocks t) (mt_blocks t') \<and>
    (\<forall>i ttl sg key. set_ttl (tb_index t) i = Some ttl \<and> seg_at t i (seg_idx_of t key) = Some sg \<longrightarrow>
      table_rows t' W' i key = alive (gc_setting (clock i (seg_idx_of t key)) sg ttl) (table_rows t W i key))"
proof -
  let ?ti = "tb_index t" and ?ttl = "\<lambda>i. the (set_ttl (tb_index t) i)"
  let ?P = "\<lambda>i. {..<i} \<times> {..<seg_cnt t}"
  have h: "heap_ok t (\<lambda>_. 0) W" using ok by (simp add: table_ok_def)
  obtain t1 c W' where f: "foldM (gc_inner fl clock) (enumerate 0 (inner_indexs ?ti)) (t, no_counts) = Some (t1, c)"
      "collected clock ?ttl (?P (length (inner_indexs ?ti))) t W W' (t1, c)" using gc_table_ok[OF h r] by blast
  note C = collectedD[OF f(2)]
  let ?t = "t1\<lparr>record_cnt := record_cnt t1 - gc_record_cnt c, record_byte_size := record_byte_size t1 - gc_record_byte_size c,
     tb_index := tb_index t1, tb_update_ttl := []\<rparr>"
  have s: "SchedGc fl clock t = Some ?t" using f(1) C(5) r by (simp add: SchedGc_def UpdateTTL_none gc_ready_def)
  have e: "heap_ok ?t = heap_ok t1" "seg_idx_of ?t = seg_idx_of t" using heap_ok_cong[of ?t t1] heap_ok_cong(2)[of ?t t1] seg_idx_cong[OF C(3)] by simp_all
  have "record_cnt ?t = of_nat (card (dom (mt_blocks ?t)))"
    using C(6,8) ok card_Diff_subset[of "dom (mt_blocks t1)" "dom (mt_blocks t)"] shrunk_dom[OF C(7)] heap_okD(4)[OF h]
      card_mono[OF heap_okD(4)[OF h] shrunk_dom[OF C(7)]] finite_subset[OF shrunk_dom[OF C(7)] heap_okD(4)[OF h]]
    by (simp add: table_ok_def of_nat_diff)
  then have "table_ok ?t W'" using C(1) e by (simp add: table_ok_def)
  moreover have "table_rows ?t W' i key = alive (gc_setting (clock i (seg_idx_of t key)) sg ttl) (table_rows t W i key)"
    if i: "set_ttl ?ti i = Some ttl" "seg_at t i (seg_idx_of t key) = Some sg" for i ttl sg key
  proof -
    have "i < length (inner_indexs ?ti)" using i(1) by (auto simp: set_ttl_def GetInnerIndex_def split: if_splits)
    then have "(i, seg_idx_of t key) \<in> ?P (length (inner_indexs ?ti))" using seg_idx_less[OF heap_okD(2)[OF h]] by auto
    from C(9)[OF this] have "fst (W' (i, seg_idx_of t key)) = live_view (gc_setting (clock i (seg_idx_of t key)) sg ttl) (\<lambda>_. False) (fst (W (i, seg_idx_of t key)))"
      using i by (simp add: segs_def)
    then show ?thesis using live_times[OF h i(2)] e(2) by (simp add: table_rows_def)
  qed
  ultimately show ?thesis using s C(7) by (intro exI[of _ ?t] exI[of _ W']) auto
qed

text \<open>Two rows are written under the same keys of a table that keeps the newest row of a key.\<close>

lemma writable_same:
  assumes w: "writable good t dims" and h: "heap_ok t out W" and e: "tb_index t' = tb_index t" "dom (segs t') = dom (segs t)"
  shows "writable good t' dims"
proof -
  have "pos < length (segments t') \<and> segments t' ! pos \<noteq> None" if "pos < length (segments t)" "segments t ! pos \<noteq> None" for pos
    using segs_dom[OF h that, of "[]"] unfolding e(2)[symmetric] by (auto simp: segs_def seg_at_Some)
  then show ?thesis using w unfolding writable_def e(1) by blast
qed

lemma two_rows_table:
  obtains t t1 t2 W2 b1 b2 where "MemTable_Init some_flags (new_MemTable_meta two_dims) = Some (True, t)"
    "MemTable_Put_dims t 5 [1] [(0, [107]), (1, [108])] = Some (True, t1)" "MemTable_Put_dims t1 9 [2] [(0, [107]), (1, [108])] = Some (True, t2)"
    "table_ok t2 W2" "gc_ready (\<lambda>_ _. 100) t2 W2" "table_rows t2 W2 0 [107] = [(9, b2), (5, b1)]"
    "set_ttl (tb_index t2) 0 = Some \<lparr>abs_ttl = 0, lat_ttl = 1, ttl_type = kLatestTime\<rparr>" "(0, seg_idx_of t2 [107]) \<in> dom (segs t2)"
proof -
  let ?dims = "[(0, [107]), (1, [108])] :: dimension list" and ?ttl = "\<lparr>abs_ttl = 0, lat_ttl = 1, ttl_type = kLatestTime\<rparr>"
  obtain t m where t: "MemTable_Init some_flags (new_MemTable_meta two_dims) = Some (True, t)" "table_ok t (\<lambda>_. (Map.empty, []))" "quiet t"
      and w: "writable (\<lambda>c. c = None) t ?dims" and pos: "GetInnerIndexPos (tb_index t) 0 = 0" "GetInnerIndexPos (tb_index t) 1 = 1"
      and p: "ParseFromMeta two_dims new_TableIndex = Some (0, tb_index t, m)" and gc: "enable_gc t" "tb_update_ttl t = []"
    by (rule two_dims_table[of "[107]" "[108]"]) auto
  have ks: "dim_keys (tb_index t) ?dims = [(0, [107]), (1, [108])]" using pos by (simp add: dim_keys_def)
  obtain t1 W1 where t1: "MemTable_Put_dims t 5 [1] ?dims = Some (True, t1)" "table_ok t1 W1" "tb_index t1 = tb_index t"
      "dom (segs t1) = dom (segs t)" "enable_gc t1" "tb_update_ttl t1 = []" "quiet t1"
      "\<And>i key. table_rows t1 W1 i key = (if map_of [(0, [107]), (1, [108])] (int i) = Some key then [(5, next_block t)] else [])"
    using Put_dims_ok[OF t(2) w, of 5 "[1]"] t(3) gc unfolding ks by (auto simp: table_rows_def[of t] times_def time_insert_def)
  have h: "heap_ok t (\<lambda>_. 0) (\<lambda>_. (Map.empty, []))" using t(2) by (simp add: table_ok_def)
  have w1: "writable (\<lambda>c. c = None) t1 ?dims" by (rule writable_same[OF w h t1(3,4)])
  obtain t2 W2 where t2: "MemTable_Put_dims t1 9 [2] ?dims = Some (True, t2)" "table_ok t2 W2" "tb_index t2 = tb_index t"
      "dom (segs t2) = dom (segs t)" "enable_gc t2" "tb_update_ttl t2 = []" "quiet t2"
      "\<And>i key. table_rows t2 W2 i key = (if map_of [(0, [107]), (1, [108])] (int i) = Some key then [(9, next_block t1), (5, next_block t)] else [])"
    using Put_dims_ok[OF t1(2) w1, of 9 "[2]"] t1(3-8) unfolding t1(3) ks by (auto simp: time_insert_def)
  have w2: "writable (\<lambda>c. c = None) t2 ?dims" by (rule writable_same[OF w h t2(3,4)])
  have ttl: "set_ttl (tb_index t) 0 = Some ?ttl" "set_ttl (tb_index t) 1 = Some ?ttl" "length (inner_indexs (tb_index t)) = 2"
    by (rule two_dims_index; use p in \<open>simp add: set_ttl_def GetInnerIndex_def IsReady_def\<close>)+
  have segs2: "i < length (segments t2) \<and> segments t2 ! i \<noteq> None" if "i < 2" for i
    using w2 pos that unfolding writable_def t2(3) by (auto simp: less_2_cases_iff)
  have "gc_ready (\<lambda>_ _. 100) t2 W2"
    unfolding gc_ready_def t2(3) ttl(3) using t2(5-8) ttl(1,2) segs2 by (auto simp: less_2_cases_iff gc_allowed_def)
  moreover have "(0, seg_idx_of t2 [107]) \<in> dom (segs t2)"
    using segs_dom[of t2 "\<lambda>_. 0" W2 0 "[107]"] t2(2) segs2[of 0] by (simp add: table_ok_def)
  ultimately show ?thesis using that[OF t(1) t1(1) t2(1,2)] t2(3,8) ttl(1) by auto
qed

theorem SchedGc_alive_witness:
  "\<exists>t t1 t2 t3 W b. MemTable_Init some_flags (new_MemTable_meta two_dims) = Some (True, t) \<and>
    MemTable_Put_dims t 5 [1] [(0, [107]), (1, [108])] = Some (True, t1) \<and> MemTable_Put_dims t1 9 [2] [(0, [107]), (1, [108])] = Some (True, t2) \<and>
    SchedGc some_flags (\<lambda>_ _. 100) t2 = Some t3 \<and> table_ok t3 W \<and> table_rows t3 W 0 [107] = [(9, b)]"
proof -
  obtain t t1 t2 W2 b1 b2 where t: "MemTable_Init some_flags (new_MemTable_meta two_dims) = Some (True, t)"
    "MemTable_Put_dims t 5 [1] [(0, [107]), (1, [108])] = Some (True, t1)" "MemTable_Put_dims t1 9 [2] [(0, [107]), (1, [108])] = Some (True, t2)"
    "table_ok t2 W2" "gc_ready (\<lambda>_ _. 100) t2 W2" "table_rows t2 W2 0 [107] = [(9, b2), (5, b1)]"
    "set_ttl (tb_index t2) 0 = Some \<lparr>abs_ttl = 0, lat_ttl = 1, ttl_type = kLatestTime\<rparr>" "(0, seg_idx_of t2 [107]) \<in> dom (segs t2)"
    by (rule two_rows_table)
  obtain sg where sg: "seg_at t2 0 (seg_idx_of t2 [107]) = Some sg" using t(8) by (auto simp: segs_def)
  have "alive (gc_setting 100 sg \<lparr>abs_ttl = 0, lat_ttl = 1, ttl_type = kLatestTime\<rparr>) [(9, b2), (5, b1)] = [(9, b2)]"
    by (simp add: alive_def gc_setting_def at_time_def IsExpired_def)
  then show ?thesis using SchedGc_alive[OF t(4,5), of some_flags] t(1-3,6,7) sg by metis
qed

end
