(* ===== verification/Spec2Isabelle.thy ===== *)
theory Spec2Isabelle
  imports Skiplist_Props Segment_Props Log_Safety Log_Parts Codec_Projected MemComparable_Props Schema_Codec_Props
    Flat_Array_Props Row_Blocks_Props Row_Codec_Props Table_Meta_Props Mem_Table_Iter Mem_Table_Props Mem_Table_Gc
begin

text \<open>
  A verification development for FeDB (C++, \<open>src/\<close>), a time-series table store.  A tablet keeps a table in memory as
  segments, each a skip list of keys whose entries are skip lists of rows ordered by time; writes are appended to a
  binary log, which is replayed after a restart and read by followers; a row is a packed array of bytes that readers
  decode column by column.  The development models these components as the source has them and proves what they
  promise to each other.

  \<^bold>\<open>Conventions.\<close>  An operation of the source is a function on an explicit state record; pointers are addresses into
  heaps that are part of the state.  A result of type \<open>option\<close> is \<open>None\<close> exactly where the source has no defined
  behaviour: a null or dangling pointer is followed, an index is out of bounds, an assertion fails, a loop does not
  end.  So a theorem that an operation returns \<open>Some\<close> says that none of this happens.  Machine integers are words
  where their width matters.  Errors of the source are values.

  \<^bold>\<open>Library.\<close>  \<open>Prelude\<close>: the option monad, assertions, loops over lists and along links.  \<open>Buffers\<close>: reading and
  writing inside arrays.

  \<^bold>\<open>Skip list\<close> (\<open>src/base/skiplist.h\<close>, \<open>src/base/random.h\<close>, \<open>src/base/slice.h\<close>).  \<open>Rand\<close>: the generator of heights.
  \<open>Comparator\<close>: the orders of keys and times and the interface a comparator has to meet.  \<open>Skiplist\<close>: nodes, the
  list and its iterator with every next pointer of every level.  \<open>Skiplist_Inv\<close>: the invariant of the heap;
  \<open>Skiplist_Ops\<close>, \<open>Skiplist_Cut\<close>, \<open>Skiplist_Split\<close>: each operation keeps it.  \<open>Skiplist_Spec\<close>: the list as a sorted
  list of pairs, refined by every operation.  \<open>Skiplist_Props\<close>: the properties.

  \<^bold>\<open>Segment\<close> (\<open>src/storage/segment.h\<close>, \<open>segment.cc\<close>, \<open>record.h\<close>, \<open>ticket.cc\<close>, the settings in \<open>schema.h\<close>).  \<open>Ttl\<close>:
  time-to-live settings.  \<open>Segment\<close>: all operations, with key entries and reference-counted data blocks as heaps.
  \<open>Segment_Inv\<close>, \<open>Segment_Rep\<close>, \<open>Segment_Ops\<close>: ownership, the invariant and what \<open>Put\<close>, \<open>Delete\<close>, \<open>Get\<close> and the
  iterators do.  \<open>Segment_Gc\<close>, \<open>Segment_Ttl\<close>, \<open>Segment_Free\<close>: the collectors remove exactly what has expired and free
  exactly what nothing refers to.  \<open>Segment_Props\<close>: the properties, for segments with one time column.

  \<^bold>\<open>Binary log\<close> (\<open>src/log/\<close>).  \<open>Coding\<close>, \<open>Crc32c\<close>: fixed-width integers and the checksum, whose tables and unrolled
  loops equal the bitwise definition.  \<open>Log_File\<close>, \<open>Log_Writer\<close>, \<open>Log_Reader\<close>: files, the writer and the readers, with
  and without compression (the compression libraries are parameters).  A file is a stream of the C library: how many
  bytes the library holds back in its buffer is a function of the stream, so that what is proved holds for each such
  choice; a write, a flush or a seek can fail.  \<open>Log_Layout\<close>: the bytes of a log as a function
  of its records.  \<open>Log_Written\<close>, \<open>Log_Readback\<close>, \<open>Log_Tail\<close>: the writer produces that layout, the reader decodes it,
  also while it grows.  \<open>Log_Props\<close>, \<open>Log_Safety\<close>, \<open>Log_Parts\<close>: round trip, tailing, arbitrary and damaged input, a full
  device, and the choice of the next part file.

  \<^bold>\<open>Row codec\<close> (\<open>src/codec/codec.h\<close>, \<open>codec.cc\<close>).  \<open>Codec\<close>: \<open>RowBuilder\<close> and \<open>RowView\<close>.  \<open>Codec_Project\<close>: values as text
  and \<open>RowProject\<close>.  \<open>Codec_Layout\<close>, \<open>Codec_Built\<close>: where the parts of a row are, and the invariant that appending
  keeps.  \<open>Codec_Props\<close>, \<open>Codec_Projected\<close>: what was appended is read back, also through a projection.

  \<^bold>\<open>Keys, schemas and texts\<close> (\<open>src/codec/memcomparable_format.h\<close>, \<open>field_codec.h\<close>, \<open>schema_codec.h\<close>, \<open>flat_array.h\<close>,
  \<open>row_codec.h\<close>, \<open>src/base/kv_iterator.h\<close>).  \<open>MemComparable\<close>: keys whose byte order is the order of the values;
  \<open>MemComparable_Props\<close>: that order and the inverse.  \<open>Schema_Codec\<close>, \<open>Flat_Array\<close> and their properties: the encoding of
  columns and the old row format are read back.  \<open>Row_Codec\<close>: rows from texts and texts from rows;
  \<open>Row_Codec_Props\<close>: a row holds the parsed texts and shows the values it holds.  \<open>Row_Blocks\<close>, \<open>Row_Blocks_Props\<close>:
  blocks of rows in responses and the iterator over them.  \<open>Byte_Bits\<close>: the bits of single bytes.

  \<^bold>\<open>Tables\<close> (\<open>src/storage/schema.h\<close>, \<open>schema.cc\<close>, \<open>src/base/hash.h\<close>).  \<open>Hash\<close>: the hash functions.  \<open>Table_Index\<close>: the
  indexes of a table and how they are looked up and added.  \<open>Table_Meta\<close>: the indexes made from the meta data of a
  table, and its partitions.  \<open>Table_Meta_Props\<close>: the places of keys, indexes and sets of segments agree.

  \<^bold>\<open>Memory table\<close> (\<open>src/storage/table.h\<close>, \<open>table.cc\<close>, \<open>mem_table.h\<close>, \<open>mem_table.cc\<close>).  \<open>Table\<close>: what all tables share.
  \<open>Mem_Table\<close>: a table as arrays of segments over one heap of blocks, with every operation.  \<open>Mem_Table_Iter\<close>: the
  iterators over keys, over the rows of a key and over all rows.  \<open>Mem_Table_Rep\<close>: what a table holds, as parts that
  share one heap of counted blocks.  \<open>Mem_Table_Put\<close>: the steps of a write.  \<open>Mem_Table_Init\<close>: a table that \<open>Init\<close> made
  is well formed, when the flags for heights fit in the eight bits a segment keeps.  \<open>Mem_Table_Props\<close>: writes, and reads through an index, keep and give the rows.
  \<open>Mem_Table_Gc\<close>: a collection leaves exactly the rows that are alive.

  \<^bold>\<open>Bounds.\<close>  Loops that the source bounds by nothing but its data are \<open>partial_function\<close>s or functions with a
  termination proof; no fuel is used.

  \<^bold>\<open>Not modelled.\<close>  Concurrency: an operation is one step, and the memory order of the atomics has no counterpart.
  \<open>src/nameserver\<close>, \<open>src/tablet\<close>, \<open>src/client\<close>, \<open>src/rpc\<close>, \<open>src/zk\<close>, \<open>src/sdk\<close> and \<open>src/cmd\<close> are orchestration over
  remote procedure calls, ZooKeeper, the SQL engine and terminals, none of which is in the repository.
  \<open>src/replica\<close>, \<open>binlog.cc\<close> and the snapshots of \<open>src/storage\<close> drive the modelled logs and tables from threads, files
  and manifests; \<open>src/catalog\<close> adapts tables to the SQL engine.  They are left out, as are the queue, the thread pool
  and the line editor of \<open>src/base\<close>.
\<close>

end
